(* ===== verification/Prelude.thy ===== *)
theory Prelude
  imports Main "HOL-Library.Word"
begin

unbundle bit_operations_syntax

text \<open>
  Shared vocabulary of the development: machine integers and byte strings, Rust's \<open>Result\<close> with
  its \<open>?\<close> operator, integer/byte conversions (\<open>to_le_bytes\<close>, \<open>from_be_bytes\<close>, \<dots>), slices
  with checked bounds (\<open>slice::get\<close>), saturating and checked arithmetic, decimal and hexadecimal
  printing, and a byte-stream model of \<open>std::io::Read\<close>/\<open>Write\<close>. The collections \<open>wire\<close>,
  \<open>res\<close> and \<open>sat\<close> carry the facts the component proofs give to the simplifier.
\<close>

named_theorems wire \<open>byte-level encoding facts\<close>
named_theorems res \<open>facts about Result values\<close>
named_theorems sat \<open>saturating and checked arithmetic\<close>

section \<open>Machine integers and byte strings\<close>

type_synonym u8 = "8 word"
type_synonym u16 = "16 word"
type_synonym u32 = "32 word"
type_synonym u64 = "64 word"
type_synonym i32 = "32 word" \<comment> \<open>two's complement, read with \<open>sint\<close>\<close>
type_synonym usize = nat
type_synonym bytes = "u8 list"

text \<open>\<open>usize\<close> is 64 bits wide on the one supported target (x86_64).\<close>

definition usize_max :: nat where
  "usize_max = 2 ^ 64 - 1"

definition u64_max :: nat where
  "u64_max = 2 ^ 64 - 1"

definition checked_add_usize :: "usize \<Rightarrow> usize \<Rightarrow> usize option" where
  "checked_add_usize a b = (if a + b \<le> usize_max then Some (a + b) else None)"

definition saturating_add_usize :: "usize \<Rightarrow> usize \<Rightarrow> usize" where
  "saturating_add_usize a b = min (a + b) usize_max"

definition saturating_mul_usize :: "usize \<Rightarrow> usize \<Rightarrow> usize" where
  "saturating_mul_usize a b = min (a * b) usize_max"

definition saturating_add_u64 :: "u64 \<Rightarrow> u64 \<Rightarrow> u64" where
  "saturating_add_u64 a b = (if unat a + unat b \<le> u64_max then a + b else - 1)"

lemma unat_less_pow: "unat (w :: 'a::len word) < 2 ^ LENGTH('a)"
  by (rule unsigned_less)

lemma unat_le_u64_max [simp]: "unat (a :: u64) \<le> u64_max"
  using unat_less_pow [of a] by (simp add: u64_max_def)

lemma unat_saturating_add_u64 [sat]:
  "unat (saturating_add_u64 a b) = min (unat a + unat b) u64_max"
proof (cases "unat a + unat b \<le> u64_max")
  case True
  then show ?thesis
    by (simp add: saturating_add_u64_def u64_max_def unat_word_ariths)
next
  case False
  have "unat (- 1 :: u64) = u64_max"
    by (simp add: u64_max_def unsigned_minus_1_eq_mask mask_eq_exp_minus_1)
  with False show ?thesis
    by (simp add: saturating_add_u64_def)
qed

lemma saturating_add_u64_commute: "saturating_add_u64 a b = saturating_add_u64 b a"
  by (simp add: saturating_add_u64_def add.commute)

lemma saturating_add_u64_assoc:
  "saturating_add_u64 (saturating_add_u64 a b) c = saturating_add_u64 a (saturating_add_u64 b c)"
  by (simp add: word_unat_eq_iff unat_saturating_add_u64 min_def)

lemma saturating_add_u64_left_commute:
  "saturating_add_u64 b (saturating_add_u64 a c) = saturating_add_u64 a (saturating_add_u64 b c)"
  by (metis saturating_add_u64_assoc saturating_add_u64_commute)

lemma saturating_add_u64_0 [simp]: "saturating_add_u64 0 a = a" "saturating_add_u64 a 0 = a"
  by (simp_all add: saturating_add_u64_def)

text \<open>A saturating sum is the sum, cut off at the maximum, whatever the order of its terms.\<close>

lemma unat_foldl_saturating:
  "unat (foldl (\<lambda>acc x. saturating_add_u64 acc (g x)) a xs) =
     min (unat a + sum_list (map (\<lambda>x. unat (g x)) xs)) u64_max"
proof (induction xs arbitrary: a)
  case Nil
  then show ?case using unat_le_u64_max [of a] by (simp add: min_def)
next
  case (Cons x xs)
  show ?case by (simp add: Cons.IH unat_saturating_add_u64)
qed

section \<open>Results\<close>

text \<open>A Rust \<open>Result<a, e>\<close> is \<open>e + a\<close>; \<open>and_then r f\<close> is the early return of the \<open>?\<close> operator.\<close>

type_synonym ('a, 'e) result = "'e + 'a"

definition and_then :: "'e + 'a \<Rightarrow> ('a \<Rightarrow> 'e + 'b) \<Rightarrow> 'e + 'b" where
  "and_then r f = (case r of Inl e \<Rightarrow> Inl e | Inr x \<Rightarrow> f x)"

lemma and_then_simps [simp, res]:
  "and_then (Inl e) f = Inl e"
  "and_then (Inr x) f = f x"
  by (simp_all add: and_then_def)

lemma and_then_Inr [res]: "and_then r f = Inr y \<longleftrightarrow> (\<exists>x. r = Inr x \<and> f x = Inr y)"
  by (cases r) auto

lemma and_then_Inl [res]:
  "and_then r f = Inl e \<longleftrightarrow> r = Inl e \<or> (\<exists>x. r = Inr x \<and> f x = Inl e)"
  by (cases r) auto

lemma and_then_cong [fundef_cong]:
  "r = r' \<Longrightarrow> (\<And>x. r' = Inr x \<Longrightarrow> f x = f' x) \<Longrightarrow> and_then r f = and_then r' f'"
  by (cases r') auto

text \<open>\<open>Option::ok_or\<close> and \<open>Result::map_err\<close>.\<close>

definition ok_or :: "'a option \<Rightarrow> 'e \<Rightarrow> 'e + 'a" where
  "ok_or x e = (case x of None \<Rightarrow> Inl e | Some a \<Rightarrow> Inr a)"

lemma ok_or_simps [simp]: "ok_or None e = Inl e" "ok_or (Some a) e = Inr a"
  by (simp_all add: ok_or_def)

lemma ok_or_Inr [res]: "ok_or x e = Inr a \<longleftrightarrow> x = Some a"
  by (cases x) auto

definition map_err :: "('e \<Rightarrow> 'f) \<Rightarrow> 'e + 'a \<Rightarrow> 'f + 'a" where
  "map_err f r = (case r of Inl e \<Rightarrow> Inl (f e) | Inr x \<Rightarrow> Inr x)"

lemma map_err_simps [simp]: "map_err f (Inl e) = Inl (f e)" "map_err f (Inr x) = Inr x"
  by (simp_all add: map_err_def)

lemma map_err_Inr [res]: "map_err f r = Inr x \<longleftrightarrow> r = Inr x"
  by (cases r) auto

section \<open>Fallible stateful code\<close>

text \<open>
  A method that takes \<open>&mut self\<close> and returns a \<open>Result\<close> maps the state before the call to its
  result and the state after, on the error path too. \<open>seqm\<close> is sequencing with \<open>?\<close>, \<open>failm\<close> an
  early \<open>return Err\<close>, \<open>repeatm n\<close> the loop \<open>for _ in 0..n { v.push(f()?) }\<close>.
\<close>

type_synonym ('s, 'e, 'a) smethod = "'s \<Rightarrow> ('e + 'a) \<times> 's"

definition seqm :: "('s, 'e, 'a) smethod \<Rightarrow> ('a \<Rightarrow> ('s, 'e, 'b) smethod) \<Rightarrow> ('s, 'e, 'b) smethod" where
  "seqm m f s = (case m s of (Inl e, t) \<Rightarrow> (Inl e, t) | (Inr x, t) \<Rightarrow> f x t)"

definition okm :: "'a \<Rightarrow> ('s, 'e, 'a) smethod" where
  "okm x s = (Inr x, s)"

definition failm :: "'e \<Rightarrow> ('s, 'e, 'a) smethod" where
  "failm e s = (Inl e, s)"

fun repeatm :: "nat \<Rightarrow> ('s, 'e, 'a) smethod \<Rightarrow> ('s, 'e, 'a list) smethod" where
  "repeatm 0 m = okm []"
| "repeatm (Suc n) m = seqm m (\<lambda>x. seqm (repeatm n m) (\<lambda>xs. okm (x # xs)))"

lemma seqm_Inr [res]:
  "seqm m f s = (Inr y, u) \<longleftrightarrow> (\<exists>x t. m s = (Inr x, t) \<and> f x t = (Inr y, u))"
  by (auto simp: seqm_def split: prod.splits sum.splits)

lemma seqm_ok: "m s = (Inr x, t) \<Longrightarrow> seqm m f s = f x t"
  by (simp add: seqm_def)

lemma seqm_err: "m s = (Inl e, t) \<Longrightarrow> seqm m f s = (Inl e, t)"
  by (simp add: seqm_def)

lemma okm_Inr [res]: "okm x s = (Inr y, t) \<longleftrightarrow> y = x \<and> t = s"
  by (auto simp: okm_def)

lemma failm_Inr [res]: "failm e s \<noteq> (Inr y, t)"
  by (simp add: failm_def)

lemma okm_apply [simp]: "okm x s = (Inr x, s)"
  by (simp add: okm_def)

lemma failm_apply [simp]: "failm e s = (Inl e, s)"
  by (simp add: failm_def)

section \<open>Integers as bytes\<close>

text \<open>
  \<open>le_digits n x\<close> are the \<open>n\<close> low base-256 digits of \<open>x\<close>, least significant first;
  \<open>le_value\<close> reads such a list back. The Rust conversions are instances at a fixed width.
\<close>

fun le_digits :: "nat \<Rightarrow> nat \<Rightarrow> bytes" where
  "le_digits 0 x = []"
| "le_digits (Suc n) x = word_of_nat (x mod 256) # le_digits n (x div 256)"

fun le_value :: "bytes \<Rightarrow> nat" where
  "le_value [] = 0"
| "le_value (b # bs) = unat b + 256 * le_value bs"

definition to_le_bytes :: "nat \<Rightarrow> 'a::len word \<Rightarrow> bytes" where
  "to_le_bytes n w = le_digits n (unat w)"

definition from_le_bytes :: "bytes \<Rightarrow> 'a::len word" where
  "from_le_bytes bs = word_of_nat (le_value bs)"

definition to_be_bytes :: "nat \<Rightarrow> 'a::len word \<Rightarrow> bytes" where
  "to_be_bytes n w = rev (to_le_bytes n w)"

definition from_be_bytes :: "bytes \<Rightarrow> 'a::len word" where
  "from_be_bytes bs = from_le_bytes (rev bs)"

lemma length_le_digits [simp, wire]: "length (le_digits n x) = n"
  by (induction n arbitrary: x) auto

lemma le_digits_4:
  "le_digits 4 x = [word_of_nat (x mod 256), word_of_nat (x div 256 mod 256),
     word_of_nat (x div 65536 mod 256), word_of_nat (x div 16777216 mod 256)]"
  by (simp add: eval_nat_numeral(2,3) [of "num.One"] numeral_eq_Suc [of "num.Bit0 (num.Bit0 num.One)"]
      div_mult2_eq [symmetric])

lemma length_to_le_bytes [simp, wire]: "length (to_le_bytes n w) = n"
  by (simp add: to_le_bytes_def)

lemma length_to_be_bytes [simp, wire]: "length (to_be_bytes n w) = n"
  by (simp add: to_be_bytes_def)

lemma unat_byte_less [simp]: "unat (b :: u8) < 256"
  using unat_less_pow [of b] by simp

lemma le_value_digits [wire]: "le_value (le_digits n x) = x mod 256 ^ n"
proof (induction n arbitrary: x)
  case 0
  then show ?case by simp
next
  case (Suc n)
  have "unat (word_of_nat (x mod 256) :: u8) = x mod 256"
    by (simp add: unat_of_nat)
  moreover have "x mod (256 * 256 ^ n) = x mod 256 + 256 * (x div 256 mod 256 ^ n)"
    by (simp add: mod_mult2_eq)
  ultimately show ?case by (simp add: Suc.IH)
qed

lemma le_value_less: "le_value bs < 256 ^ length bs"
proof (induction bs)
  case Nil
  then show ?case by simp
next
  case (Cons b bs)
  have "unat b + 256 * le_value bs < 256 * (le_value bs + 1)"
    using unat_byte_less [of b] by simp
  also have "\<dots> \<le> 256 * 256 ^ length bs"
    using Cons.IH by (simp only: mult_le_mono2 Suc_leI Suc_eq_plus1 [symmetric])
  finally show ?case by simp
qed

lemma le_digits_value [wire]: "le_digits (length bs) (le_value bs) = bs"
  by (induction bs) simp_all

lemma le_digits_value_n: "length bs = n \<Longrightarrow> le_digits n (le_value bs) = bs"
  using le_digits_value [of bs] by simp

lemma from_le_to_le [wire]:
  assumes "LENGTH('a::len) \<le> 8 * n"
  shows "from_le_bytes (to_le_bytes n w) = (w :: 'a word)"
proof -
  have "unat w < 2 ^ LENGTH('a)" by (rule unat_less_pow)
  also have "(2::nat) ^ LENGTH('a) \<le> 2 ^ (8 * n)"
    using assms by (rule power_increasing) simp
  also have "(2::nat) ^ (8 * n) = 256 ^ n" by (simp add: power_mult)
  finally show ?thesis
    by (simp add: from_le_bytes_def to_le_bytes_def le_value_digits)
qed

lemma to_le_from_le [wire]:
  assumes "8 * length bs = LENGTH('a::len)"
  shows "to_le_bytes (length bs) (from_le_bytes bs :: 'a word) = bs"
proof -
  have "le_value bs < 2 ^ LENGTH('a)"
    using le_value_less [of bs] assms [symmetric] by (simp add: power_mult)
  then have "unat (from_le_bytes bs :: 'a word) = le_value bs"
    by (simp add: from_le_bytes_def unat_of_nat)
  then show ?thesis
    by (simp add: to_le_bytes_def le_digits_value)
qed

lemma to_le_from_le_n:
  "length bs = n \<Longrightarrow> 8 * n = LENGTH('a::len) \<Longrightarrow> to_le_bytes n (from_le_bytes bs :: 'a word) = bs"
  using to_le_from_le [where 'a = 'a, of bs] by simp

lemma from_be_to_be [wire]:
  "LENGTH('a::len) \<le> 8 * n \<Longrightarrow> from_be_bytes (to_be_bytes n w) = (w :: 'a word)"
  by (simp add: from_be_bytes_def to_be_bytes_def from_le_to_le)

section \<open>Slices\<close>

text \<open>\<open>b.get(i)\<close>, \<open>b.get(i..j)\<close> and \<open>b.get(i..)\<close>: out of range is \<open>None\<close>, never a panic.\<close>

definition slice_at :: "'a list \<Rightarrow> nat \<Rightarrow> 'a option" where
  "slice_at b i = (if i < length b then Some (b ! i) else None)"

definition slice_get :: "'a list \<Rightarrow> nat \<Rightarrow> nat \<Rightarrow> 'a list option" where
  "slice_get b i j = (if i \<le> j \<and> j \<le> length b then Some (take (j - i) (drop i b)) else None)"

definition slice_from :: "'a list \<Rightarrow> nat \<Rightarrow> 'a list option" where
  "slice_from b i = (if i \<le> length b then Some (drop i b) else None)"

lemma slice_get_Some [simp]:
  "slice_get b i j = Some s \<longleftrightarrow> i \<le> j \<and> j \<le> length b \<and> s = take (j - i) (drop i b)"
  by (auto simp: slice_get_def)

lemma slice_at_Some [simp]: "slice_at b i = Some x \<longleftrightarrow> i < length b \<and> x = b ! i"
  by (auto simp: slice_at_def)

lemma slice_at_None [simp]: "slice_at b i = None \<longleftrightarrow> length b \<le> i"
  by (simp add: slice_at_def)

lemma slice_from_Some [simp]: "slice_from b i = Some s \<longleftrightarrow> i \<le> length b \<and> s = drop i b"
  by (auto simp: slice_from_def)

text \<open>Bounded quantifiers over numerals unfold to their instances.\<close>

lemma all_less_numeral:
  "(\<forall>k < numeral n. P k) \<longleftrightarrow> P (pred_numeral n) \<and> (\<forall>k < pred_numeral n. P k)"
  by (simp add: numeral_eq_Suc All_less_Suc)

section \<open>Printing numbers\<close>

definition digit_char :: "nat \<Rightarrow> char" where
  "digit_char d = char_of (48 + d)"

fun dec :: "nat \<Rightarrow> string" where
  "dec n = (if n < 10 then [digit_char n] else dec (n div 10) @ [digit_char (n mod 10)])"

declare dec.simps [simp del]

text \<open>A lower-case hexadecimal digit, and a number padded to a fixed number of hex digits.\<close>

definition hex_digit :: "nat \<Rightarrow> char" where
  "hex_digit d = (if d < 10 then char_of (48 + d) else char_of (87 + d))"

fun hex_pad :: "nat \<Rightarrow> nat \<Rightarrow> string" where
  "hex_pad 0 n = []"
| "hex_pad (Suc k) n = hex_pad k (n div 16) @ [hex_digit (n mod 16)]"

lemma digit_char_range: "d < 10 \<Longrightarrow> of_char (digit_char d) = (48 + d :: nat)"
  by (simp add: digit_char_def of_char_of)

lemma dec_digits: "\<forall>c \<in> set (dec n). 48 \<le> (of_char c :: nat) \<and> (of_char c :: nat) \<le> 57"
proof (induction n rule: dec.induct)
  case (1 n)
  show ?case
    using 1 by (subst dec.simps) (auto simp: digit_char_range)
qed

lemma dec_not_Nil [simp]: "dec n \<noteq> []"
  by (subst dec.simps) simp

fun dec_value :: "nat \<Rightarrow> string \<Rightarrow> nat" where
  "dec_value a [] = a"
| "dec_value a (c # cs) = dec_value (10 * a + (of_char c - 48)) cs"

lemma dec_value_append: "dec_value a (xs @ ys) = dec_value (dec_value a xs) ys"
  by (induction a xs rule: dec_value.induct) auto

lemma dec_value_dec: "dec_value 0 (dec n) = n"
proof (induction n rule: dec.induct)
  case (1 n)
  show ?case
  proof (cases "n < 10")
    case True
    then show ?thesis by (subst dec.simps) (simp add: digit_char_range)
  next
    case False
    then have "dec_value 0 (dec (n div 10)) = n div 10" using 1 by simp
    with False show ?thesis
      by (subst dec.simps) (simp add: dec_value_append digit_char_range)
  qed
qed

lemma dec_inj: "dec m = dec n \<Longrightarrow> m = n"
  by (metis dec_value_dec)

section \<open>Byte streams\<close>

text \<open>
  The reading half of a connection is the bytes the peer delivers and what follows them: an
  orderly end of file, or an I/O failure of some kind (a reset, an expired read deadline).
  \<open>read_exact\<close> either takes \<open>n\<close> bytes or fails. The writing half records the bytes accepted;
  \<open>room\<close> bounds how many more the transport takes before it fails (\<open>None\<close>: it never does).
\<close>

datatype io_kind = UnexpectedEof | TimedOut | WouldBlock | BrokenPipe | ConnectionReset
  | ConnectionRefused | Interrupted | NotFound | AlreadyExists | InvalidData | PermissionDenied | OtherIo

record reader =
  avail :: bytes
  after :: "io_kind option" \<comment> \<open>\<open>None\<close>: clean end of file\<close>

record writer =
  written :: bytes
  room :: "nat option"
  wfail :: io_kind

text \<open>A failed \<open>read_exact\<close> has used up what there was.\<close>

definition read_exact :: "nat \<Rightarrow> (reader, io_kind, bytes) smethod" where
  "read_exact n r =
     (if n \<le> length (avail r) then (Inr (take n (avail r)), r\<lparr>avail := drop n (avail r)\<rparr>)
      else (Inl (case after r of None \<Rightarrow> UnexpectedEof | Some k \<Rightarrow> k), r\<lparr>avail := []\<rparr>))"

definition write_all :: "bytes \<Rightarrow> (writer, io_kind, unit) smethod" where
  "write_all bs w =
     (case room w of
        None \<Rightarrow> (Inr (), w\<lparr>written := written w @ bs\<rparr>)
      | Some k \<Rightarrow>
          if length bs \<le> k
          then (Inr (), w\<lparr>written := written w @ bs, room := Some (k - length bs)\<rparr>)
          else (Inl (wfail w), w\<lparr>written := written w @ take k bs, room := Some 0\<rparr>))"

lemma read_exact_append [wire]:
  "length bs = n \<Longrightarrow> read_exact n (r\<lparr>avail := bs @ rest\<rparr>) = (Inr bs, r\<lparr>avail := rest\<rparr>)"
  by (simp add: read_exact_def)

lemma read_exact_Inr [res]:
  "read_exact n r = (Inr bs, r') \<longleftrightarrow>
     n \<le> length (avail r) \<and> bs = take n (avail r) \<and> r' = r\<lparr>avail := drop n (avail r)\<rparr>"
  by (auto simp: read_exact_def)

lemma read_exact_split:
  "read_exact n r = (Inr bs, r') \<Longrightarrow> avail r = bs @ avail r' \<and> length bs = n \<and> after r' = after r"
  by (auto simp: read_exact_Inr)

lemma write_all_ok:
  "fst (write_all bs w) = Inr () \<Longrightarrow> written (snd (write_all bs w)) = written w @ bs"
  by (auto simp: write_all_def split: option.splits if_splits)

lemma write_all_prefix: "\<exists>k. written (snd (write_all bs w)) = written w @ take k bs"
  by (auto simp: write_all_def split: option.splits intro: exI [of _ "length bs"])

end
