(* ===== verification/Utf8.thy ===== *)
theory Utf8
  imports Prelude
begin

text \<open>
  Rust strings. A \<open>String\<close> or \<open>&str\<close> is a HOL \<open>string\<close> whose characters are the UTF-8 bytes
  (\<open>as_bytes\<close> is the identity up to the type of bytes); \<open>utf8_chars\<close> is \<open>str::chars\<close>, the
  scalar values encoded there, and \<open>from_utf8\<close> is \<open>std::str::from_utf8\<close>, which accepts exactly
  the byte sequences \<open>utf8_chars\<close> decodes. The lemmas show that decoding and encoding are inverse
  to each other, so validity is closed under concatenation and under \<open>String::push\<close>.
\<close>

section \<open>Bytes of a string\<close>

definition as_bytes :: "string \<Rightarrow> bytes" where
  "as_bytes s = map (\<lambda>c. word_of_nat (of_char c)) s"

definition of_bytes :: "bytes \<Rightarrow> string" where
  "of_bytes bs = map (\<lambda>b. char_of (unat b)) bs"

lemma of_bytes_as_bytes [simp]: "of_bytes (as_bytes s) = s"
proof -
  have "char_of (unat (word_of_nat (of_char c) :: u8)) = c" for c :: char
  proof -
    have "(of_char c :: nat) < 256" by (rule nat_of_char_less_256)
    then show ?thesis by (simp add: unat_of_nat)
  qed
  then show ?thesis by (induction s) (simp_all add: of_bytes_def as_bytes_def)
qed

lemma as_bytes_of_bytes [simp]: "as_bytes (of_bytes bs) = bs"
  by (induction bs) (simp_all add: of_bytes_def as_bytes_def of_char_of)

lemma length_as_bytes [simp]: "length (as_bytes s) = length s"
  by (simp add: as_bytes_def)

lemma length_of_bytes [simp]: "length (of_bytes bs) = length bs"
  by (simp add: of_bytes_def)

lemma as_bytes_inj [simp]: "as_bytes s = as_bytes t \<longleftrightarrow> s = t"
  by (metis of_bytes_as_bytes)

lemma as_bytes_append [simp]: "as_bytes (s @ t) = as_bytes s @ as_bytes t"
  by (simp add: as_bytes_def)

lemma of_bytes_append [simp]: "of_bytes (s @ t) = of_bytes s @ of_bytes t"
  by (simp add: of_bytes_def)

lemma as_bytes_Nil [simp]: "as_bytes [] = []"
  by (simp add: as_bytes_def)

lemma of_bytes_Nil [simp]: "of_bytes [] = []"
  by (simp add: of_bytes_def)

section \<open>Scalar values\<close>

definition scalar :: "nat \<Rightarrow> bool" where
  "scalar c \<longleftrightarrow> c < 55296 \<or> 57344 \<le> c \<and> c < 1114112"

definition cont :: "u8 \<Rightarrow> bool" where
  "cont b \<longleftrightarrow> 128 \<le> unat b \<and> unat b < 192"

definition byte :: "nat \<Rightarrow> u8" where
  "byte n = word_of_nat n"

lemma unat_byte [simp]: "n < 256 \<Longrightarrow> unat (byte n) = n"
  by (simp add: byte_def unat_of_nat)

lemma byte_unat [simp]: "byte (unat b) = b"
  by (simp add: byte_def)

definition encode_utf8 :: "nat \<Rightarrow> bytes" where
  "encode_utf8 c =
     (if c < 128 then [byte c]
      else if c < 2048 then [byte (192 + c div 64), byte (128 + c mod 64)]
      else if c < 65536 then
        [byte (224 + c div 4096), byte (128 + c div 64 mod 64),
         byte (128 + c mod 64)]
      else
        [byte (240 + c div 262144), byte (128 + c div 4096 mod 64),
         byte (128 + c div 64 mod 64), byte (128 + c mod 64)])"

text \<open>One scalar value off the front of a byte sequence; overlong forms, surrogates and values
  above U+10FFFF are rejected.\<close>

definition utf8_next :: "bytes \<Rightarrow> (nat \<times> bytes) option" where
  "utf8_next bs =
     (case bs of
        [] \<Rightarrow> None
      | b0 # r0 \<Rightarrow>
          (let x = unat b0 in
           if x < 128 then Some (x, r0)
           else if x < 192 then None
           else if x < 224 then
             (case r0 of
                b1 # r1 \<Rightarrow>
                  (let c = (x - 192) * 64 + (unat b1 - 128) in
                   if cont b1 \<and> 128 \<le> c then Some (c, r1) else None)
              | [] \<Rightarrow> None)
           else if x < 240 then
             (case r0 of
                b1 # b2 # r2 \<Rightarrow>
                  (let c = (x - 224) * 4096 + (unat b1 - 128) * 64 + (unat b2 - 128) in
                   if cont b1 \<and> cont b2 \<and> 2048 \<le> c \<and> scalar c then Some (c, r2) else None)
              | _ \<Rightarrow> None)
           else if x < 248 then
             (case r0 of
                b1 # b2 # b3 # r3 \<Rightarrow>
                  (let c = (x - 240) * 262144 + (unat b1 - 128) * 4096
                             + (unat b2 - 128) * 64 + (unat b3 - 128) in
                   if cont b1 \<and> cont b2 \<and> cont b3 \<and> 65536 \<le> c \<and> scalar c
                   then Some (c, r3) else None)
              | _ \<Rightarrow> None)
           else None))"

lemma utf8_next_shorter: "utf8_next bs = Some (c, r) \<Longrightarrow> length r < length bs"
  by (auto simp: utf8_next_def Let_def split: list.splits if_splits)

lemma base64_split_3: "c div 4096 * 4096 + c div 64 mod 64 * 64 + c mod 64 = (c :: nat)"
proof -
  have "c div 4096 = c div 64 div 64" by (simp add: div_mult2_eq [symmetric])
  moreover have "c div 64 div 64 * 64 + c div 64 mod 64 = c div 64" by (rule div_mult_mod_eq)
  moreover have "c div 64 * 64 + c mod 64 = c" by (rule div_mult_mod_eq)
  ultimately show ?thesis by linarith
qed

lemma base64_split_4:
  "c div 262144 * 262144 + c div 4096 mod 64 * 4096 + c div 64 mod 64 * 64 + c mod 64 = (c :: nat)"
proof -
  have "c div 262144 = c div 4096 div 64" by (simp add: div_mult2_eq [symmetric])
  moreover have "c div 4096 div 64 * 64 + c div 4096 mod 64 = c div 4096"
    by (rule div_mult_mod_eq)
  ultimately show ?thesis using base64_split_3 [of c] by linarith
qed

lemma utf8_next_encode:
  assumes "scalar c"
  shows "utf8_next (encode_utf8 c @ r) = Some (c, r)"
proof -
  have lt: "c < 1114112" using assms by (auto simp: scalar_def)
  consider "c < 128" | "128 \<le> c" "c < 2048" | "2048 \<le> c" "c < 65536" | "65536 \<le> c" by linarith
  then show ?thesis
  proof cases
    case 1
    then show ?thesis by (simp add: encode_utf8_def utf8_next_def)
  next
    case 2
    have lead: "192 + c div 64 < 224" using 2 by (simp add: less_mult_imp_div_less)
    then have "unat (byte (192 + c div 64)) = 192 + c div 64" by (intro unat_byte) simp
    with 2 lead show ?thesis by (simp add: encode_utf8_def utf8_next_def cont_def)
  next
    case 3
    have lead: "224 + c div 4096 < 240" using 3 by (simp add: less_mult_imp_div_less)
    then have "unat (byte (224 + c div 4096)) = 224 + c div 4096" by (intro unat_byte) simp
    with 3 lead base64_split_3 [of c] assms show ?thesis
      by (simp add: encode_utf8_def utf8_next_def cont_def)
  next
    case 4
    have lead: "240 + c div 262144 < 245" using lt by (simp add: less_mult_imp_div_less)
    then have "unat (byte (240 + c div 262144)) = 240 + c div 262144" by (intro unat_byte) simp
    with 4 lead base64_split_4 [of c] assms show ?thesis
      by (simp add: encode_utf8_def utf8_next_def cont_def)
  qed
qed

lemma base64_div:
  fixes a b :: nat
  assumes "b < 64"
  shows "(a * 64 + b) div 64 = a" "(a * 64 + b) mod 64 = b"
  using assms by simp_all

lemma base64_3:
  fixes x a b :: nat
  assumes "a < 64" "b < 64" "c = x * 4096 + a * 64 + b"
  shows "c div 4096 = x" "c div 64 mod 64 = a" "c mod 64 = b"
proof -
  have c: "c = (x * 64 + a) * 64 + b" using assms(3) by simp
  have d: "c div 64 = x * 64 + a" unfolding c using base64_div(1) [OF assms(2)] .
  have "c div 4096 = c div 64 div 64" by (simp add: div_mult2_eq [symmetric])
  also have "\<dots> = x" unfolding d using base64_div(1) [OF assms(1)] .
  finally show "c div 4096 = x" .
  show "c div 64 mod 64 = a" unfolding d using base64_div(2) [OF assms(1)] .
  show "c mod 64 = b" unfolding c using base64_div(2) [OF assms(2)] .
qed

lemma base64_4:
  fixes x a b d :: nat
  assumes "a < 64" "b < 64" "d < 64" "c = x * 262144 + a * 4096 + b * 64 + d"
  shows "c div 262144 = x" "c div 4096 mod 64 = a" "c div 64 mod 64 = b" "c mod 64 = d"
proof -
  have c: "c = (x * 64 + a) * 4096 + b * 64 + d" using assms(4) by simp
  note three = base64_3 [OF assms(2,3) c]
  have "c div 262144 = c div 4096 div 64" by (simp add: div_mult2_eq [symmetric])
  then show "c div 262144 = x" using three(1) base64_div(1) [OF assms(1)] by simp
  show "c div 4096 mod 64 = a" using three(1) base64_div(2) [OF assms(1)] by simp
  show "c div 64 mod 64 = b" "c mod 64 = d" by (rule three(2), rule three(3))
qed

lemma encode_utf8_next:
  assumes "utf8_next bs = Some (c, r)"
  shows "bs = encode_utf8 c @ r \<and> scalar c"
proof -
  obtain b0 r0 where bs: "bs = b0 # r0" using assms by (cases bs) (auto simp: utf8_next_def)
  let ?x = "unat b0"
  have "?x < 128 \<or> (192 \<le> ?x \<and> ?x < 224) \<or> (224 \<le> ?x \<and> ?x < 240) \<or> (240 \<le> ?x \<and> ?x < 248)"
    using assms by (auto simp: bs utf8_next_def Let_def split: if_splits)
  then consider "?x < 128" | "192 \<le> ?x" "?x < 224" | "224 \<le> ?x" "?x < 240"
    | "240 \<le> ?x" "?x < 248" by blast
  then show ?thesis
  proof cases
    case 1
    then show ?thesis using assms by (auto simp: bs utf8_next_def encode_utf8_def scalar_def)
  next
    case 2
    with assms obtain b1 where r0: "r0 = b1 # r" "cont b1" "128 \<le> c"
      and c: "c = (?x - 192) * 64 + (unat b1 - 128)"
      by (auto simp: bs utf8_next_def Let_def split: list.splits if_splits)
    have l: "unat b1 - 128 < 64" using r0(2) by (auto simp: cont_def)
    have "c div 64 = ?x - 192" "c mod 64 = unat b1 - 128"
      unfolding c using base64_div [OF l] by auto
    moreover have "c < 2048" using 2 l by (simp add: c)
    ultimately show ?thesis
      using 2 r0 by (simp add: bs encode_utf8_def scalar_def cont_def)
  next
    case 3
    with assms obtain b1 b2 where r0: "r0 = b1 # b2 # r" "cont b1" "cont b2" "2048 \<le> c" "scalar c"
      and c: "c = (?x - 224) * 4096 + (unat b1 - 128) * 64 + (unat b2 - 128)"
      by (auto simp: bs utf8_next_def Let_def split: list.splits if_splits)
    have l: "unat b1 - 128 < 64" "unat b2 - 128 < 64" using r0(2,3) by (auto simp: cont_def)
    have "c < 65536" using 3 l by (simp add: c)
    with base64_3 [OF l c] 3 r0 show ?thesis
      by (simp add: bs encode_utf8_def cont_def)
  next
    case 4
    with assms obtain b1 b2 b3 where r0: "r0 = b1 # b2 # b3 # r" "cont b1" "cont b2" "cont b3"
        "65536 \<le> c" "scalar c"
      and c: "c = (?x - 240) * 262144 + (unat b1 - 128) * 4096 + (unat b2 - 128) * 64
        + (unat b3 - 128)"
      by (auto simp: bs utf8_next_def Let_def split: list.splits if_splits)
    have l: "unat b1 - 128 < 64" "unat b2 - 128 < 64" "unat b3 - 128 < 64"
      using r0(2-4) by (auto simp: cont_def)
    from base64_4 [OF l c] 4 r0 show ?thesis
      by (simp add: bs encode_utf8_def cont_def)
  qed
qed

section \<open>Whole strings\<close>

function utf8_decode :: "bytes \<Rightarrow> nat list option" where
  "utf8_decode bs =
     (if bs = [] then Some []
      else case utf8_next bs of
          None \<Rightarrow> None
        | Some (c, r) \<Rightarrow> map_option (Cons c) (utf8_decode r))"
  by pat_completeness auto
termination
  by (relation "measure length") (auto dest: utf8_next_shorter)

declare utf8_decode.simps [simp del]

definition utf8_valid :: "bytes \<Rightarrow> bool" where
  "utf8_valid bs \<longleftrightarrow> utf8_decode bs \<noteq> None"

definition from_utf8 :: "bytes \<Rightarrow> string option" where
  "from_utf8 bs = (if utf8_valid bs then Some (of_bytes bs) else None)"

text \<open>The invariant of the type \<open>String\<close>, and \<open>str::chars\<close> on a value that satisfies it.\<close>

definition is_str :: "string \<Rightarrow> bool" where
  "is_str s \<longleftrightarrow> utf8_valid (as_bytes s)"

definition utf8_chars :: "string \<Rightarrow> nat list" where
  "utf8_chars s = (case utf8_decode (as_bytes s) of None \<Rightarrow> [] | Some cs \<Rightarrow> cs)"

definition string_of_chars :: "nat list \<Rightarrow> string" where
  "string_of_chars cs = of_bytes (concat (map encode_utf8 cs))"

lemma utf8_decode_Nil [simp]: "utf8_decode [] = Some []"
  by (simp add: utf8_decode.simps)

lemma encode_utf8_not_Nil [simp]: "encode_utf8 c \<noteq> []"
  by (simp add: encode_utf8_def)

lemma length_encode_utf8: "length (encode_utf8 c) \<le> 4"
  by (simp add: encode_utf8_def)

lemma utf8_decode_cons:
  "scalar c \<Longrightarrow> utf8_decode (encode_utf8 c @ r) = map_option (Cons c) (utf8_decode r)"
  by (subst utf8_decode.simps) (simp add: utf8_next_encode)

lemma utf8_decode_encode:
  "\<forall>c \<in> set cs. scalar c \<Longrightarrow> utf8_decode (concat (map encode_utf8 cs)) = Some cs"
  by (induction cs) (simp_all add: utf8_decode_cons)

lemma encode_utf8_decode:
  "utf8_decode bs = Some cs \<Longrightarrow> bs = concat (map encode_utf8 cs) \<and> (\<forall>c \<in> set cs. scalar c)"
proof (induction bs arbitrary: cs rule: utf8_decode.induct)
  case (1 bs)
  show ?case
  proof (cases "bs = []")
    case True
    then show ?thesis using 1 by simp
  next
    case False
    from "1.prems" False obtain c r cs' where
      n: "utf8_next bs = Some (c, r)" and d: "utf8_decode r = Some cs'" and cs: "cs = c # cs'"
      by (subst (asm) utf8_decode.simps) (auto split: option.splits)
    with "1.IH" [OF False n refl d] encode_utf8_next [OF n] show ?thesis by simp
  qed
qed

lemma utf8_valid_iff:
  "utf8_valid bs \<longleftrightarrow> (\<exists>cs. bs = concat (map encode_utf8 cs) \<and> (\<forall>c \<in> set cs. scalar c))"
proof
  assume "utf8_valid bs"
  then obtain cs where "utf8_decode bs = Some cs" by (auto simp: utf8_valid_def)
  then show "\<exists>cs. bs = concat (map encode_utf8 cs) \<and> (\<forall>c \<in> set cs. scalar c)"
    using encode_utf8_decode by blast
next
  assume "\<exists>cs. bs = concat (map encode_utf8 cs) \<and> (\<forall>c \<in> set cs. scalar c)"
  then show "utf8_valid bs" by (auto simp: utf8_valid_def utf8_decode_encode)
qed

lemma utf8_valid_append: "utf8_valid a \<Longrightarrow> utf8_valid b \<Longrightarrow> utf8_valid (a @ b)"
proof -
  assume "utf8_valid a" "utf8_valid b"
  then obtain cs ds where "a = concat (map encode_utf8 cs)" "\<forall>c \<in> set cs. scalar c"
      "b = concat (map encode_utf8 ds)" "\<forall>c \<in> set ds. scalar c"
    by (auto simp: utf8_valid_iff)
  then have "a @ b = concat (map encode_utf8 (cs @ ds))" "\<forall>c \<in> set (cs @ ds). scalar c" by auto
  then show ?thesis unfolding utf8_valid_iff by blast
qed

lemma utf8_valid_Nil [simp]: "utf8_valid []"
  by (simp add: utf8_valid_def)

lemma is_str_of_chars: "\<forall>c \<in> set cs. scalar c \<Longrightarrow> is_str (string_of_chars cs)"
  by (auto simp: is_str_def string_of_chars_def utf8_valid_iff)

lemma utf8_chars_of_chars: "\<forall>c \<in> set cs. scalar c \<Longrightarrow> utf8_chars (string_of_chars cs) = cs"
  by (simp add: utf8_chars_def string_of_chars_def utf8_decode_encode)

lemma string_of_utf8_chars: "is_str s \<Longrightarrow> string_of_chars (utf8_chars s) = s"
  by (auto simp: is_str_def utf8_valid_def utf8_chars_def string_of_chars_def
      dest: encode_utf8_decode) (metis encode_utf8_decode of_bytes_as_bytes)

lemma scalar_utf8_chars: "is_str s \<Longrightarrow> c \<in> set (utf8_chars s) \<Longrightarrow> scalar c"
  using encode_utf8_decode by (auto simp: is_str_def utf8_valid_def utf8_chars_def)

lemma from_utf8_as_bytes [simp]: "is_str s \<Longrightarrow> from_utf8 (as_bytes s) = Some s"
  by (simp add: from_utf8_def is_str_def)

lemma from_utf8_Some [simp]: "from_utf8 bs = Some s \<longleftrightarrow> is_str s \<and> bs = as_bytes s"
  by (auto simp: from_utf8_def is_str_def)

text \<open>An ASCII string is a valid string.\<close>

definition is_ascii :: "string \<Rightarrow> bool" where
  "is_ascii s \<longleftrightarrow> (\<forall>c \<in> set s. (of_char c :: nat) < 128)"

lemma as_bytes_ascii:
  "is_ascii s \<Longrightarrow> as_bytes s = concat (map encode_utf8 (map of_char s))"
  by (induction s) (simp_all add: is_ascii_def as_bytes_def encode_utf8_def byte_def)

lemma is_ascii_is_str: "is_ascii s \<Longrightarrow> is_str s"
  unfolding is_str_def utf8_valid_iff
  by (rule exI [of _ "map of_char s"]) (auto simp: as_bytes_ascii is_ascii_def scalar_def)

lemma utf8_chars_ascii: "is_ascii s \<Longrightarrow> utf8_chars s = map of_char s"
  unfolding utf8_chars_def
  by (subst as_bytes_ascii, assumption, subst utf8_decode_encode)
    (auto simp: is_ascii_def scalar_def)

section \<open>Lossy decoding\<close>

text \<open>
  \<open>String::from_utf8_lossy\<close>: an ill-formed sequence is replaced by U+FFFD. \<open>bad_len\<close> is the
  number of bytes one replacement stands for: the lead byte and the continuation bytes that were
  still acceptable after it.
\<close>

definition second_ok :: "u8 \<Rightarrow> u8 \<Rightarrow> bool" where
  "second_ok b0 b1 =
     (let x = unat b0; y = unat b1 in
      if x = 0xE0 then 0xA0 \<le> y \<and> y \<le> 0xBF
      else if x = 0xED then 0x80 \<le> y \<and> y \<le> 0x9F
      else if x = 0xF0 then 0x90 \<le> y \<and> y \<le> 0xBF
      else if x = 0xF4 then 0x80 \<le> y \<and> y \<le> 0x8F
      else 0xC2 \<le> x \<and> x < 0xF4 \<and> cont b1)"

definition bad_len :: "bytes \<Rightarrow> nat" where
  "bad_len bs =
     (case bs of
        b0 # b1 # r \<Rightarrow>
          if \<not> second_ok b0 b1 then 1
          else (case r of b2 # _ \<Rightarrow> if cont b2 then 3 else 2 | [] \<Rightarrow> 2)
      | _ \<Rightarrow> 1)"

lemma bad_len_pos: "0 < bad_len bs"
  by (auto simp: bad_len_def split: list.splits)

function lossy_bytes :: "bytes \<Rightarrow> bytes" where
  "lossy_bytes bs =
     (if bs = [] then []
      else case utf8_next bs of
          Some (c, r) \<Rightarrow> encode_utf8 c @ lossy_bytes r
        | None \<Rightarrow> encode_utf8 0xFFFD @ lossy_bytes (drop (bad_len bs) bs))"
  by pat_completeness auto
termination
  by (relation "measure length") (auto dest: utf8_next_shorter simp: bad_len_pos)

declare lossy_bytes.simps [simp del]

definition from_utf8_lossy :: "bytes \<Rightarrow> string" where
  "from_utf8_lossy bs = of_bytes (lossy_bytes bs)"

lemma lossy_bytes_valid: "utf8_valid bs \<Longrightarrow> lossy_bytes bs = bs"
proof (induction bs rule: lossy_bytes.induct)
  case (1 bs)
  show ?case
  proof (cases "bs = []")
    case True
    then show ?thesis by (simp add: lossy_bytes.simps)
  next
    case False
    with "1.prems" obtain c r where n: "utf8_next bs = Some (c, r)" and "utf8_valid r"
      unfolding utf8_valid_def by (subst (asm) utf8_decode.simps) (auto split: option.splits)
    then have "lossy_bytes r = r" using "1.IH"(2) [OF False n refl] by simp
    then show ?thesis
      using False n encode_utf8_next [OF n] by (subst lossy_bytes.simps) simp
  qed
qed

lemma utf8_valid_encode: "scalar c \<Longrightarrow> utf8_valid (encode_utf8 c)"
  unfolding utf8_valid_iff by (rule exI [of _ "[c]"]) simp

lemma lossy_bytes_is_valid: "utf8_valid (lossy_bytes bs)"
proof (induction bs rule: lossy_bytes.induct)
  case (1 bs)
  have fffd: "utf8_valid (encode_utf8 0xFFFD)" by (simp add: utf8_valid_encode scalar_def)
  have step: "scalar c" if "utf8_next bs = Some (c, r)" for c r
    using encode_utf8_next [OF that] by simp
  have "utf8_valid (lossy_bytes r)" if "bs \<noteq> []" "utf8_next bs = Some (c, r)" for c r
    using "1.IH"(2) [OF that refl] .
  then show ?case
    using "1.IH"(1) fffd step
    by (subst lossy_bytes.simps)
      (auto split: option.splits simp: utf8_valid_append utf8_valid_encode)
qed

lemma from_utf8_lossy_str [simp]: "is_str (from_utf8_lossy bs)"
  by (simp add: is_str_def from_utf8_lossy_def lossy_bytes_is_valid)

lemma from_utf8_lossy_id: "is_str s \<Longrightarrow> from_utf8_lossy (as_bytes s) = s"
  by (simp add: is_str_def from_utf8_lossy_def lossy_bytes_valid)

end
