(* ===== verification/Channel.thy ===== *)
theory Channel
  imports Utf8
begin

text \<open>
  The host-to-guest wire channel, \<open>crates/eke-channel/src/lib.rs\<close>: the six-byte handshake, the
  length-prefixed frames, the request and response codecs with the bounds-checked cursor
  \<open>Body\<close> they decode with, the sanitizer for guest-chosen error text, the redacting \<open>Debug\<close> of
  requests, and the two connection roles. Readers and writers are the byte streams of the prelude.
  The locale \<open>body_codec\<close> is the contract of one field decoder against its encoder; it is
  interpreted on \<open>Body::u32\<close>, \<open>blob\<close>, \<open>string\<close> and the pair of strings of an
  environment entry, and its lemma on repeated fields serves the three counted loops.
\<close>

section \<open>Constants and messages\<close>

definition MAGIC :: bytes where
  "MAGIC = as_bytes ''AGCH''"

definition PROTOCOL_VERSION :: u16 where
  "PROTOCOL_VERSION = 2"

definition MAX_PAYLOAD :: usize where
  "MAX_PAYLOAD = 2 ^ 20"

definition ERROR_MSG_CAP :: usize where
  "ERROR_MSG_CAP = 4096"

definition TAG_EXEC :: u8 where "TAG_EXEC = 1"
definition TAG_STDOUT :: u8 where "TAG_STDOUT = 2"
definition TAG_STDERR :: u8 where "TAG_STDERR = 3"
definition TAG_EXIT :: u8 where "TAG_EXIT = 4"
definition TAG_ERROR :: u8 where "TAG_ERROR = 5"
definition TAG_PUTFILE :: u8 where "TAG_PUTFILE = 6"
definition TAG_FILE :: u8 where "TAG_FILE = 7"
definition TAG_TIMEDOUT :: u8 where "TAG_TIMEDOUT = 8"

lemmas tag_defs = TAG_EXEC_def TAG_STDOUT_def TAG_STDERR_def TAG_EXIT_def TAG_ERROR_def
  TAG_PUTFILE_def TAG_FILE_def TAG_TIMEDOUT_def

datatype request =
    PutFile string bytes
  | Exec "string list" bytes "(string \<times> string) list" "string list" u32
    \<comment> \<open>argv, stdin, env, artifacts, timeout_ms\<close>
  | UnknownReq u8

datatype response =
    Stdout bytes
  | Stderr bytes
  | File string bytes
  | Exit i32
  | TimedOutResp u32
  | Error string

datatype channel_error =
    Io io_kind
  | Protocol string
  | PayloadTooLarge u8 usize

definition is_disconnect :: "channel_error \<Rightarrow> bool" where
  "is_disconnect e \<longleftrightarrow> (case e of Io k \<Rightarrow> k = UnexpectedEof | _ \<Rightarrow> False)"

text \<open>\<open>From<io::Error>\<close>, applied by \<open>?\<close>.\<close>

definition io_q :: "('s, io_kind, 'a) smethod \<Rightarrow> ('s, channel_error, 'a) smethod" where
  "io_q m s = (case m s of (r, t) \<Rightarrow> (map_err Io r, t))"

lemma io_q_Inr [res]: "io_q m s = (Inr x, t) \<longleftrightarrow> m s = (Inr x, t)"
  by (auto simp: io_q_def map_err_Inr split: prod.splits)

section \<open>Sanitizing guest error text\<close>

text \<open>\<open>char::is_control\<close> (Unicode category Cc) and \<open>char::escape_default\<close>.\<close>

definition is_control :: "nat \<Rightarrow> bool" where
  "is_control c \<longleftrightarrow> c < 32 \<or> 127 \<le> c \<and> c < 160"

fun hex_min :: "nat \<Rightarrow> string" where
  "hex_min n = (if n < 16 then [hex_digit n] else hex_min (n div 16) @ [hex_digit (n mod 16)])"

declare hex_min.simps [simp del]

definition escape_default :: "nat \<Rightarrow> string" where
  "escape_default c =
     (if c = 9 then [CHR 0x5C, CHR ''t'']
      else if c = 13 then [CHR 0x5C, CHR ''r'']
      else if c = 10 then [CHR 0x5C, CHR ''n'']
      else if c = 39 \<or> c = 34 \<or> c = 92 then [CHR 0x5C, char_of c]
      else if 32 \<le> c \<and> c \<le> 126 then [char_of c]
      else [CHR 0x5C, CHR ''u'', CHR ''{''] @ hex_min c @ [CHR ''}''])"

definition sanitize_char :: "nat \<Rightarrow> string" where
  "sanitize_char c = (if is_control c then escape_default c else of_bytes (encode_utf8 c))"

definition ellipsis :: string where
  "ellipsis = of_bytes (encode_utf8 8230)"

fun sanitize_loop :: "nat list \<Rightarrow> string \<Rightarrow> string" where
  "sanitize_loop [] out = out"
| "sanitize_loop (c # cs) out =
     (if ERROR_MSG_CAP \<le> length out then out @ ellipsis
      else sanitize_loop cs (out @ sanitize_char c))"

definition sanitize_error_msg :: "string \<Rightarrow> string" where
  "sanitize_error_msg msg = sanitize_loop (utf8_chars msg) []"

section \<open>Handshake and frames\<close>

definition flush :: "(writer, io_kind, unit) smethod" where
  "flush = okm ()"

definition handshake_bytes :: bytes where
  "handshake_bytes = MAGIC @ to_le_bytes 2 PROTOCOL_VERSION"

definition write_handshake :: "(writer, channel_error, unit) smethod" where
  "write_handshake = seqm (io_q (write_all handshake_bytes)) (\<lambda>_. io_q flush)"

definition read_handshake :: "(reader, channel_error, unit) smethod" where
  "read_handshake =
     seqm (io_q (read_exact 6)) (\<lambda>b.
       if take 4 b \<noteq> MAGIC then failm (Protocol ''bad magic (not an agent channel)'')
       else
         (let version = (from_le_bytes [b ! 4, b ! 5] :: u16) in
          if version \<noteq> PROTOCOL_VERSION then
            failm (Protocol (''unsupported protocol version '' @ dec (unat version)
              @ '' (this build speaks '' @ dec (unat PROTOCOL_VERSION) @ '')''))
          else okm ()))"

definition frame_header :: "u8 \<Rightarrow> usize \<Rightarrow> bytes" where
  "frame_header tag len = tag # to_le_bytes 4 (word_of_nat len :: u32)"

definition write_frame :: "u8 \<Rightarrow> bytes \<Rightarrow> (writer, channel_error, unit) smethod" where
  "write_frame tag payload =
     (if MAX_PAYLOAD < length payload then failm (PayloadTooLarge tag (length payload))
      else
        seqm (io_q (write_all (frame_header tag (length payload)))) (\<lambda>_.
        seqm (io_q (write_all payload)) (\<lambda>_.
        io_q flush)))"

definition read_frame :: "(reader, channel_error, u8 \<times> bytes) smethod" where
  "read_frame =
     seqm (io_q (read_exact 5)) (\<lambda>header.
       (let tag = header ! 0;
            len = unat (from_le_bytes [header ! 1, header ! 2, header ! 3, header ! 4] :: u32) in
        if MAX_PAYLOAD < len then failm (PayloadTooLarge tag len)
        else seqm (io_q (read_exact len)) (\<lambda>payload. okm (tag, payload))))"

section \<open>The body cursor\<close>

record body =
  buf :: bytes
  pos :: usize

definition Body_new :: "bytes \<Rightarrow> body" where
  "Body_new b = \<lparr>buf = b, pos = 0\<rparr>"

definition Body_take :: "usize \<Rightarrow> (body, channel_error, bytes) smethod" where
  "Body_take n b =
     (case checked_add_usize (pos b) n of
        Some e \<Rightarrow>
          if e \<le> length (buf b)
          then (Inr (take (e - pos b) (drop (pos b) (buf b))), b\<lparr>pos := e\<rparr>)
          else (Inl (Protocol ''frame body ended mid-field (truncated)''), b)
      | None \<Rightarrow> (Inl (Protocol ''frame body ended mid-field (truncated)''), b))"

definition Body_u32 :: "(body, channel_error, u32) smethod" where
  "Body_u32 = seqm (Body_take 4) (\<lambda>bs. okm (from_le_bytes [bs ! 0, bs ! 1, bs ! 2, bs ! 3]))"

definition Body_blob :: "(body, channel_error, bytes) smethod" where
  "Body_blob = seqm Body_u32 (\<lambda>len. Body_take (unat len))"

definition Body_string :: "(body, channel_error, string) smethod" where
  "Body_string =
     seqm Body_blob (\<lambda>bs.
       case from_utf8 bs of
         Some s \<Rightarrow> okm s
       | None \<Rightarrow> failm (Protocol ''field is not valid UTF-8''))"

definition Body_finish :: "(body, channel_error, unit) smethod" where
  "Body_finish b =
     (if pos b = length (buf b) then (Inr (), b)
      else (Inl (Protocol (''frame body has '' @ dec (length (buf b) - pos b)
              @ '' unparsed trailing byte(s)'')), b))"

definition Body_env_entry :: "(body, channel_error, string \<times> string) smethod" where
  "Body_env_entry = seqm Body_string (\<lambda>k. seqm Body_string (\<lambda>v. okm (k, v)))"

section \<open>Requests\<close>

definition put_u32 :: "bytes \<Rightarrow> u32 \<Rightarrow> bytes" where
  "put_u32 payload v = payload @ to_le_bytes 4 v"

definition put_blob :: "bytes \<Rightarrow> bytes \<Rightarrow> bytes" where
  "put_blob payload bs = put_u32 payload (word_of_nat (length bs)) @ bs"

definition blob_len :: "bytes \<Rightarrow> usize" where
  "blob_len bs = 4 + length bs"

text \<open>The payload buffers \<open>write_put_file\<close> and \<open>write_exec\<close> fill, and the capacity each
  reserves before filling.\<close>

definition put_file_payload :: "string \<Rightarrow> bytes \<Rightarrow> bytes" where
  "put_file_payload path data = put_blob (put_blob [] (as_bytes path)) data"

definition put_file_cap :: "string \<Rightarrow> bytes \<Rightarrow> usize" where
  "put_file_cap path data = blob_len (as_bytes path) + blob_len data"

definition exec_payload ::
    "string list \<Rightarrow> bytes \<Rightarrow> (string \<times> string) list \<Rightarrow> string list \<Rightarrow> u32 \<Rightarrow> bytes" where
  "exec_payload argv stdin env artifacts timeout_ms =
     (let p0 = put_u32 [] (word_of_nat (length argv));
          p1 = foldl (\<lambda>p arg. put_blob p (as_bytes arg)) p0 argv;
          p2 = put_blob p1 stdin;
          p3 = put_u32 p2 (word_of_nat (length artifacts));
          p4 = foldl (\<lambda>p path. put_blob p (as_bytes path)) p3 artifacts;
          p5 = put_u32 p4 timeout_ms;
          p6 = put_u32 p5 (word_of_nat (length env))
      in foldl (\<lambda>p (k, v). put_blob (put_blob p (as_bytes k)) (as_bytes v)) p6 env)"

definition exec_cap ::
    "string list \<Rightarrow> bytes \<Rightarrow> (string \<times> string) list \<Rightarrow> string list \<Rightarrow> usize" where
  "exec_cap argv stdin env artifacts =
     4 + sum_list (map (\<lambda>a. blob_len (as_bytes a)) argv) + blob_len stdin
       + 4 + sum_list (map (\<lambda>p. blob_len (as_bytes p)) artifacts)
       + 4 + 4 + sum_list (map (\<lambda>(k, v). blob_len (as_bytes k) + blob_len (as_bytes v)) env)"

definition write_put_file :: "string \<Rightarrow> bytes \<Rightarrow> (writer, channel_error, unit) smethod" where
  "write_put_file path data = write_frame TAG_PUTFILE (put_file_payload path data)"

definition write_exec ::
    "string list \<Rightarrow> bytes \<Rightarrow> (string \<times> string) list \<Rightarrow> string list \<Rightarrow> u32
      \<Rightarrow> (writer, channel_error, unit) smethod" where
  "write_exec argv stdin env artifacts timeout_ms =
     write_frame TAG_EXEC (exec_payload argv stdin env artifacts timeout_ms)"

fun write_request :: "request \<Rightarrow> (writer, channel_error, unit) smethod" where
  "write_request (PutFile path data) = write_put_file path data"
| "write_request (Exec argv stdin env artifacts timeout_ms) =
     write_exec argv stdin env artifacts timeout_ms"
| "write_request (UnknownReq tag) =
     failm (Protocol (''Request::Unknown (tag '' @ dec (unat tag)
       @ '') is read-only and cannot be sent''))"

definition exec_body :: "(body, channel_error, request) smethod" where
  "exec_body =
     seqm Body_u32 (\<lambda>argc.
     seqm (repeatm (unat argc) Body_string) (\<lambda>argv.
     seqm Body_blob (\<lambda>stdin.
     seqm Body_u32 (\<lambda>artc.
     seqm (repeatm (unat artc) Body_string) (\<lambda>artifacts.
     seqm Body_u32 (\<lambda>timeout_ms.
     seqm Body_u32 (\<lambda>envc.
     seqm (repeatm (unat envc) Body_env_entry) (\<lambda>env.
     seqm Body_finish (\<lambda>_.
     okm (Exec argv stdin env artifacts timeout_ms))))))))))"

definition file_body :: "(string \<Rightarrow> bytes \<Rightarrow> 'a) \<Rightarrow> (body, channel_error, 'a) smethod" where
  "file_body mk =
     seqm Body_string (\<lambda>path.
     seqm Body_blob (\<lambda>data.
     seqm Body_finish (\<lambda>_.
     okm (mk path data))))"

definition decode_request :: "u8 \<Rightarrow> bytes \<Rightarrow> channel_error + request" where
  "decode_request tag payload =
     (if tag = TAG_EXEC then fst (exec_body (Body_new payload))
      else if tag = TAG_PUTFILE then fst (file_body PutFile (Body_new payload))
      else Inr (UnknownReq tag))"

definition read_request :: "(reader, channel_error, request) smethod" where
  "read_request = seqm read_frame (\<lambda>(tag, payload) r. (decode_request tag payload, r))"

section \<open>Responses\<close>

fun response_frame :: "response \<Rightarrow> u8 \<times> bytes" where
  "response_frame (Stdout b) = (TAG_STDOUT, b)"
| "response_frame (Stderr b) = (TAG_STDERR, b)"
| "response_frame (File path data) = (TAG_FILE, put_file_payload path data)"
| "response_frame (Exit code) = (TAG_EXIT, to_le_bytes 4 code)"
| "response_frame (TimedOutResp elapsed_ms) = (TAG_TIMEDOUT, to_le_bytes 4 elapsed_ms)"
| "response_frame (Error msg) = (TAG_ERROR, as_bytes msg)"

definition write_response :: "response \<Rightarrow> (writer, channel_error, unit) smethod" where
  "write_response resp = (case response_frame resp of (tag, payload) \<Rightarrow> write_frame tag payload)"

definition decode_response :: "u8 \<Rightarrow> bytes \<Rightarrow> channel_error + response" where
  "decode_response tag payload =
     (if tag = TAG_STDOUT then Inr (Stdout payload)
      else if tag = TAG_STDERR then Inr (Stderr payload)
      else if tag = TAG_FILE then fst (file_body File (Body_new payload))
      else if tag = TAG_EXIT then
        (if length payload = 4 then Inr (Exit (from_le_bytes payload))
         else Inl (Protocol ''exit frame is not 4 bytes''))
      else if tag = TAG_TIMEDOUT then
        (if length payload = 4 then Inr (TimedOutResp (from_le_bytes payload))
         else Inl (Protocol ''timed-out frame is not 4 bytes''))
      else if tag = TAG_ERROR then
        (case from_utf8 payload of
           Some msg \<Rightarrow> Inr (Error (sanitize_error_msg msg))
         | None \<Rightarrow> Inl (Protocol ''error frame is not valid UTF-8''))
      else Inl (Protocol (''unknown response tag '' @ dec (unat tag))))"

definition read_response :: "(reader, channel_error, response) smethod" where
  "read_response = seqm read_frame (\<lambda>(tag, payload) r. (decode_response tag payload, r))"

section \<open>Connections\<close>

record stream =
  s_in :: reader
  s_out :: writer

definition on_in :: "(reader, 'e, 'a) smethod \<Rightarrow> (stream, 'e, 'a) smethod" where
  "on_in m s = (case m (s_in s) of (x, t) \<Rightarrow> (x, s\<lparr>s_in := t\<rparr>))"

definition on_out :: "(writer, 'e, 'a) smethod \<Rightarrow> (stream, 'e, 'a) smethod" where
  "on_out m s = (case m (s_out s) of (x, t) \<Rightarrow> (x, s\<lparr>s_out := t\<rparr>))"

definition handshake :: "(stream, channel_error, unit) smethod" where
  "handshake = seqm (on_out write_handshake) (\<lambda>_. on_in read_handshake)"

text \<open>The role split of the source: a connection value exists only after the handshake, and the
  client has no way to read a request, nor the server to read a response.\<close>

datatype ClientConnection = ClientConnection stream
datatype ServerConnection = ServerConnection stream

definition connect :: "stream \<Rightarrow> channel_error + ClientConnection" where
  "connect s = (case handshake s of (Inl e, _) \<Rightarrow> Inl e | (Inr _, t) \<Rightarrow> Inr (ClientConnection t))"

definition accept :: "stream \<Rightarrow> channel_error + ServerConnection" where
  "accept s = (case handshake s of (Inl e, _) \<Rightarrow> Inl e | (Inr _, t) \<Rightarrow> Inr (ServerConnection t))"

definition on_client :: "(stream, 'e, 'a) smethod \<Rightarrow> (ClientConnection, 'e, 'a) smethod" where
  "on_client m c = (case c of ClientConnection s \<Rightarrow> (case m s of (x, t) \<Rightarrow> (x, ClientConnection t)))"

definition on_server :: "(stream, 'e, 'a) smethod \<Rightarrow> (ServerConnection, 'e, 'a) smethod" where
  "on_server m c = (case c of ServerConnection s \<Rightarrow> (case m s of (x, t) \<Rightarrow> (x, ServerConnection t)))"

definition send_request :: "request \<Rightarrow> (ClientConnection, channel_error, unit) smethod" where
  "send_request req = on_client (on_out (write_request req))"

definition send_put_file :: "string \<Rightarrow> bytes \<Rightarrow> (ClientConnection, channel_error, unit) smethod" where
  "send_put_file path data = on_client (on_out (write_put_file path data))"

definition send_exec ::
    "string list \<Rightarrow> bytes \<Rightarrow> (string \<times> string) list \<Rightarrow> string list \<Rightarrow> u32
      \<Rightarrow> (ClientConnection, channel_error, unit) smethod" where
  "send_exec argv stdin env artifacts timeout_ms =
     on_client (on_out (write_exec argv stdin env artifacts timeout_ms))"

definition recv_response :: "(ClientConnection, channel_error, response) smethod" where
  "recv_response = on_client (on_in read_response)"

definition recv_request :: "(ServerConnection, channel_error, request) smethod" where
  "recv_request = on_server (on_in read_request)"

definition send_response :: "response \<Rightarrow> (ServerConnection, channel_error, unit) smethod" where
  "send_response resp = on_server (on_out (write_response resp))"

section \<open>Redacting Debug\<close>

text \<open>The calls the hand-written \<open>Debug\<close> makes on the formatter: the struct name and, per field,
  either a value rendered by its own \<open>Debug\<close> or preformatted text.\<close>

datatype dbg_arg = DLit string | DNum nat | DStrs "string list"
datatype dbg_field = DbgStr string | DbgStrs "string list" | DbgU32 u32 | DbgU8 u8 | DbgArgs "dbg_arg list"

fun request_debug :: "request \<Rightarrow> string \<times> (string \<times> dbg_field) list" where
  "request_debug (PutFile path data) =
     (''PutFile'',
      [(''path'', DbgStr path),
       (''data'', DbgArgs [DLit ''<redacted; '', DNum (length data), DLit '' byte(s)>''])])"
| "request_debug (Exec argv stdin env artifacts timeout_ms) =
     (''Exec'',
      [(''argv'', DbgStrs argv),
       (''stdin'', DbgArgs [DLit ''<redacted; '', DNum (length stdin), DLit '' byte(s)>'']),
       (''env'', DbgArgs [DLit ''<'', DNum (length env), DLit '' var(s), values redacted; keys: '',
                          DStrs (map fst env), DLit ''>'']),
       (''artifacts'', DbgStrs artifacts),
       (''timeout_ms'', DbgU32 timeout_ms)])"
| "request_debug (UnknownReq tag) = (''Unknown'', [(''tag'', DbgU8 tag)])"

section \<open>Frames on the wire\<close>

definition frame :: "u8 \<Rightarrow> bytes \<Rightarrow> bytes" where
  "frame tag payload = frame_header tag (length payload) @ payload"

lemma list4: "length bs = 4 \<Longrightarrow> [bs ! 0, bs ! 1, bs ! 2, bs ! 3] = bs"
  by (auto simp: list_eq_iff_nth_eq less_Suc_eq numeral_eq_Suc)

lemma header_u32 [simp]:
  "length bs = 4 \<Longrightarrow> from_le_bytes [bs ! 0, bs ! Suc 0, bs ! 2, bs ! 3] = from_le_bytes bs"
  using list4 [of bs] by simp

lemma length_frame_header [simp]: "length (frame_header tag n) = 5"
  by (simp add: frame_header_def)

lemma unat_u32_payload: "n \<le> MAX_PAYLOAD \<Longrightarrow> unat (word_of_nat n :: u32) = n"
  by (simp add: MAX_PAYLOAD_def unat_of_nat)

lemma write_frame_ok:
  assumes "write_frame tag payload w = (Inr (), w')"
  shows "written w' = written w @ frame tag payload" "length payload \<le> MAX_PAYLOAD"
proof -
  from assms show "length payload \<le> MAX_PAYLOAD"
    by (auto simp: write_frame_def split: if_splits)
  from assms obtain w1 w2 where w1: "write_all (frame_header tag (length payload)) w = (Inr (), w1)"
    and w2: "write_all payload w1 = (Inr (), w2)" and "w' = w2"
    by (auto simp: write_frame_def seqm_Inr io_q_Inr flush_def okm_Inr split: if_splits)
  then show "written w' = written w @ frame tag payload"
    using write_all_ok [of "frame_header tag (length payload)" w] write_all_ok [of payload w1]
    by (simp add: frame_def)
qed

text \<open>A frame is read back exactly, whatever follows it.\<close>

lemma read_frame_frame [wire]:
  assumes "length payload \<le> MAX_PAYLOAD"
  shows "read_frame (r\<lparr>avail := frame tag payload @ rest\<rparr>) = (Inr (tag, payload), r\<lparr>avail := rest\<rparr>)"
proof -
  have h: "read_exact 5 (r\<lparr>avail := frame tag payload @ rest\<rparr>)
      = (Inr (frame_header tag (length payload)), r\<lparr>avail := payload @ rest\<rparr>)"
    by (simp add: frame_def read_exact_append)
  have len: "unat (from_le_bytes (to_le_bytes 4 (word_of_nat (length payload) :: u32)) :: u32)
      = length payload"
    using assms by (simp add: from_le_to_le unat_u32_payload)
  have p: "read_exact (length payload) (r\<lparr>avail := payload @ rest\<rparr>) = (Inr payload, r\<lparr>avail := rest\<rparr>)"
    by (simp add: read_exact_append)
  have hd: "io_q (read_exact 5) (r\<lparr>avail := frame tag payload @ rest\<rparr>)
      = (Inr (frame_header tag (length payload)), r\<lparr>avail := payload @ rest\<rparr>)"
    by (simp add: io_q_def h)
  show ?thesis
    using assms len
    by (simp add: read_frame_def seqm_def hd) (simp add: frame_header_def list4 seqm_def io_q_def p)
qed

text \<open>Conversely a frame that was read is a prefix of what was there, in its only encoding.\<close>

lemma read_frame_sound:
  assumes "read_frame r = (Inr (tag, payload), r')"
  shows "avail r = frame tag payload @ avail r'" "length payload \<le> MAX_PAYLOAD" "after r' = after r"
proof -
  from assms obtain header r1 where h: "read_exact 5 r = (Inr header, r1)"
    and tag: "tag = header ! 0"
    and le: "unat (from_le_bytes [header ! 1, header ! 2, header ! 3, header ! 4] :: u32) \<le> MAX_PAYLOAD"
    and p: "read_exact (unat (from_le_bytes [header ! 1, header ! 2, header ! 3, header ! 4] :: u32)) r1
        = (Inr payload, r')"
    by (auto simp: read_frame_def seqm_Inr io_q_Inr Let_def okm_Inr split: if_splits)
  note h' = read_exact_split [OF h] and p' = read_exact_split [OF p]
  let ?l = "[header ! 1, header ! 2, header ! 3, header ! 4]"
  have "header = tag # ?l"
    using h' tag by (auto simp: list_eq_iff_nth_eq less_Suc_eq numeral_eq_Suc)
  moreover have "to_le_bytes 4 (from_le_bytes ?l :: u32) = ?l"
    by (rule to_le_from_le_n) simp_all
  ultimately have "header = frame_header tag (length payload)"
    using p' by (simp add: frame_header_def)
  then show "avail r = frame tag payload @ avail r'" using h' p' by (simp add: frame_def)
  show "length payload \<le> MAX_PAYLOAD" "after r' = after r" using le h' p' by auto
qed

section \<open>Field codecs\<close>

definition wf_body :: "body \<Rightarrow> bool" where
  "wf_body b \<longleftrightarrow> pos b \<le> length (buf b) \<and> length (buf b) \<le> usize_max"

text \<open>\<open>steps b bs b'\<close>: the unread part of \<open>b\<close> starts with \<open>bs\<close>, and \<open>b'\<close> is past it.\<close>

definition steps :: "body \<Rightarrow> bytes \<Rightarrow> body \<Rightarrow> bool" where
  "steps b bs b' \<longleftrightarrow>
     (\<exists>rest. drop (pos b) (buf b) = bs @ rest) \<and> b' = b\<lparr>pos := pos b + length bs\<rparr>"

lemma steps_wf: "wf_body b \<Longrightarrow> steps b bs b' \<Longrightarrow> wf_body b'"
proof -
  assume w: "wf_body b" and s: "steps b bs b'"
  then obtain rest where d: "drop (pos b) (buf b) = bs @ rest" and b': "b' = b\<lparr>pos := pos b + length bs\<rparr>"
    by (auto simp: steps_def)
  have "length (drop (pos b) (buf b)) = length bs + length rest" by (simp only: d length_append)
  then have "pos b + length bs \<le> length (buf b)" using w by (auto simp: wf_body_def)
  then show ?thesis using w by (simp add: wf_body_def b')
qed

lemma steps_append:
  "steps b (xs @ ys) b'' \<longleftrightarrow> (\<exists>b'. steps b xs b' \<and> steps b' ys b'')"
proof -
  have "(\<exists>rest. drop (pos b) (buf b) = (xs @ ys) @ rest) \<longleftrightarrow>
      (\<exists>rest. drop (pos b) (buf b) = xs @ rest) \<and>
      (\<exists>rest. drop (pos b + length xs) (buf b) = ys @ rest)" (is "?l \<longleftrightarrow> ?r")
  proof -
    have "drop (pos b + length xs) (buf b) = drop (length xs) (drop (pos b) (buf b))"
      by (simp add: add.commute)
    then show ?thesis by (auto simp del: drop_drop)
  qed
  then show ?thesis by (auto simp: steps_def add.assoc)
qed

lemma steps_Nil [simp]: "steps b [] b' \<longleftrightarrow> b' = b"
  by (auto simp: steps_def)

lemma Body_take_iff:
  assumes "wf_body b"
  shows "Body_take n b = (Inr bs, b') \<longleftrightarrow> length bs = n \<and> steps b bs b'"
proof -
  have split: "(\<exists>rest. drop (pos b) (buf b) = bs @ rest) \<longleftrightarrow> bs = take (length bs) (drop (pos b) (buf b))"
    by (metis append_eq_conv_conj append_take_drop_id)
  show ?thesis
  proof (cases "pos b + n \<le> length (buf b)")
    case True
    then have "pos b + n \<le> usize_max" using assms by (simp add: wf_body_def)
    with True show ?thesis by (auto simp: Body_take_def checked_add_usize_def steps_def split)
  next
    case False
    then have "length bs = n \<Longrightarrow> bs \<noteq> take (length bs) (drop (pos b) (buf b))"
      using assms by (metis wf_body_def le_add_diff_inverse length_drop length_take min.cobounded1
          nat_add_left_cancel_le)
    with False show ?thesis
      by (auto simp: Body_take_def checked_add_usize_def steps_def split)
  qed
qed

text \<open>The contract between a field's decoder and its encoder: on a well-formed cursor the decoder
  succeeds exactly on the encodings of admissible values, and stops just past them.\<close>

locale body_codec =
  fixes dec_f :: "(body, channel_error, 'a) smethod"
    and enc_f :: "'a \<Rightarrow> bytes"
    and ok_f :: "'a \<Rightarrow> bool"
  assumes dec_iff: "wf_body b \<Longrightarrow> dec_f b = (Inr x, b') \<longleftrightarrow> ok_f x \<and> steps b (enc_f x) b'"
begin

lemma seq_iff:
  assumes "wf_body b"
    and "\<And>x b'. ok_f x \<Longrightarrow> wf_body b' \<Longrightarrow> f x b' = (Inr y, b'') \<longleftrightarrow> P x b'"
  shows "seqm dec_f f b = (Inr y, b'') \<longleftrightarrow> (\<exists>x b'. ok_f x \<and> steps b (enc_f x) b' \<and> P x b')"
  unfolding seqm_Inr dec_iff [OF assms(1)] using steps_wf [OF assms(1)] assms(2) by blast

lemma repeat_iff:
  assumes "wf_body b"
  shows "repeatm n dec_f b = (Inr xs, b') \<longleftrightarrow>
    length xs = n \<and> list_all ok_f xs \<and> steps b (concat (map enc_f xs)) b'"
  using assms
proof (induction n arbitrary: b xs)
  case 0
  then show ?case by (auto simp: okm_Inr)
next
  case (Suc n)
  show ?case
  proof (cases xs)
    case Nil
    then show ?thesis using Suc.prems by (auto simp: seqm_Inr okm_Inr)
  next
    case (Cons y ys)
    have "repeatm (Suc n) dec_f b = (Inr xs, b') \<longleftrightarrow>
        (\<exists>b1. ok_f y \<and> steps b (enc_f y) b1 \<and> wf_body b1 \<and> repeatm n dec_f b1 = (Inr ys, b'))"
      using steps_wf [OF Suc.prems]
      by (auto simp: Cons seqm_Inr okm_Inr dec_iff [OF Suc.prems])
    also have "\<dots> \<longleftrightarrow> (\<exists>b1. ok_f y \<and> steps b (enc_f y) b1 \<and> length ys = n \<and> list_all ok_f ys
        \<and> steps b1 (concat (map enc_f ys)) b')"
      using Suc.IH steps_wf [OF Suc.prems] by blast
    finally show ?thesis by (auto simp: Cons steps_append)
  qed
qed

lemma repeat_seq_iff:
  assumes "wf_body b"
    and "\<And>xs b'. list_all ok_f xs \<Longrightarrow> wf_body b' \<Longrightarrow> f xs b' = (Inr y, b'') \<longleftrightarrow> P xs b'"
  shows "seqm (repeatm n dec_f) f b = (Inr y, b'') \<longleftrightarrow>
    (\<exists>xs b'. length xs = n \<and> list_all ok_f xs \<and> steps b (concat (map enc_f xs)) b' \<and> P xs b')"
  unfolding seqm_Inr repeat_iff [OF assms(1)] using steps_wf [OF assms(1)] assms(2) by blast

end

text \<open>The encodings of the four field types.\<close>

abbreviation enc_u32 :: "u32 \<Rightarrow> bytes" where
  "enc_u32 v \<equiv> to_le_bytes 4 v"

definition enc_blob :: "bytes \<Rightarrow> bytes" where
  "enc_blob bs = put_blob [] bs"

definition enc_entry :: "string \<times> string \<Rightarrow> bytes" where
  "enc_entry e = enc_blob (as_bytes (fst e)) @ enc_blob (as_bytes (snd e))"

definition ok_blob :: "bytes \<Rightarrow> bool" where
  "ok_blob bs \<longleftrightarrow> length bs < 2 ^ 32"

definition ok_str :: "string \<Rightarrow> bool" where
  "ok_str s \<longleftrightarrow> is_str s \<and> length s < 2 ^ 32"

definition ok_entry :: "string \<times> string \<Rightarrow> bool" where
  "ok_entry e \<longleftrightarrow> ok_str (fst e) \<and> ok_str (snd e)"

interpretation u32_field: body_codec Body_u32 enc_u32 "\<lambda>_. True"
proof unfold_locales
  fix b b' x
  assume w: "wf_body b"
  show "(Body_u32 b = (Inr x, b')) = (True \<and> steps b (enc_u32 x) b')"
  proof
    assume "Body_u32 b = (Inr x, b')"
    then obtain bs where "length bs = 4" "steps b bs b'" "x = from_le_bytes bs"
      by (auto simp: Body_u32_def seqm_Inr okm_Inr Body_take_iff [OF w])
    then show "True \<and> steps b (enc_u32 x) b'" by (simp add: to_le_from_le_n)
  next
    assume "True \<and> steps b (enc_u32 x) b'"
    then show "Body_u32 b = (Inr x, b')"
      by (auto simp: Body_u32_def seqm_Inr okm_Inr Body_take_iff [OF w] from_le_to_le
          intro!: exI [of _ "enc_u32 x"])
  qed
qed

lemma count_iff: "length xs = unat (l :: u32) \<longleftrightarrow> length xs < 2 ^ 32 \<and> l = word_of_nat (length xs)"
  using unat_less_pow [of l] by (auto simp: unat_of_nat word_unat_eq_iff)

text \<open>A \<open>u32\<close> count followed by that many fields is again a field.\<close>

definition counted :: "(body, channel_error, 'a) smethod \<Rightarrow> (body, channel_error, 'a list) smethod" where
  "counted m = seqm Body_u32 (\<lambda>n. repeatm (unat n) m)"

definition enc_counted :: "('a \<Rightarrow> bytes) \<Rightarrow> 'a list \<Rightarrow> bytes" where
  "enc_counted enc xs = enc_u32 (word_of_nat (length xs)) @ concat (map enc xs)"

definition ok_counted :: "('a \<Rightarrow> bool) \<Rightarrow> 'a list \<Rightarrow> bool" where
  "ok_counted ok xs \<longleftrightarrow> length xs < 2 ^ 32 \<and> list_all ok xs"

context body_codec
begin

lemma counted_codec: "body_codec (counted dec_f) (enc_counted enc_f) (ok_counted ok_f)"
proof unfold_locales
  fix b b' xs
  assume w: "wf_body b"
  have "counted dec_f b = (Inr xs, b') \<longleftrightarrow>
      (\<exists>n b1. True \<and> steps b (enc_u32 n) b1 \<and>
        (length xs = unat n \<and> list_all ok_f xs \<and> steps b1 (concat (map enc_f xs)) b'))"
    unfolding counted_def by (rule u32_field.seq_iff [OF w]) (rule repeat_iff)
  then show "counted dec_f b = (Inr xs, b') \<longleftrightarrow> ok_counted ok_f xs \<and> steps b (enc_counted enc_f xs) b'"
    by (auto simp: count_iff ok_counted_def enc_counted_def steps_append)
qed

end

interpretation blob_field: body_codec Body_blob enc_blob ok_blob
proof unfold_locales
  fix b b' bs
  assume w: "wf_body b"
  have "(Body_blob b = (Inr bs, b')) \<longleftrightarrow>
      (\<exists>l b1. True \<and> steps b (enc_u32 l) b1 \<and> (length bs = unat l \<and> steps b1 bs b'))"
    unfolding Body_blob_def by (rule u32_field.seq_iff [OF w]) (simp add: Body_take_iff)
  also have "\<dots> \<longleftrightarrow> ok_blob bs \<and> steps b (enc_blob bs) b'"
    by (auto simp: count_iff ok_blob_def enc_blob_def put_blob_def put_u32_def steps_append)
  finally show "(Body_blob b = (Inr bs, b')) = (ok_blob bs \<and> steps b (enc_blob bs) b')" .
qed

lemma utf8_check_iff:
  "(case from_utf8 bs of Some s \<Rightarrow> okm s | None \<Rightarrow> failm e) b = (Inr s, b') \<longleftrightarrow>
     is_str s \<and> bs = as_bytes s \<and> b' = b"
  by (auto simp: from_utf8_def is_str_def)

interpretation str_field: body_codec Body_string "\<lambda>s. enc_blob (as_bytes s)" ok_str
proof unfold_locales
  fix b b' s
  assume w: "wf_body b"
  have "(Body_string b = (Inr s, b')) \<longleftrightarrow>
      (\<exists>bs b1. ok_blob bs \<and> steps b (enc_blob bs) b1 \<and> (is_str s \<and> bs = as_bytes s \<and> b' = b1))"
    unfolding Body_string_def by (rule blob_field.seq_iff [OF w]) (rule utf8_check_iff)
  then show "(Body_string b = (Inr s, b')) = (ok_str s \<and> steps b (enc_blob (as_bytes s)) b')"
    by (auto simp: ok_str_def ok_blob_def)
qed

interpretation entry_field: body_codec Body_env_entry enc_entry ok_entry
proof unfold_locales
  fix b b' :: body and e :: "string \<times> string"
  assume w: "wf_body b"
  have tl: "seqm Body_string (\<lambda>v. okm (k, v)) b1 = (Inr e, b') \<longleftrightarrow>
      k = fst e \<and> ok_str (snd e) \<and> steps b1 (enc_blob (as_bytes (snd e))) b'"
    if "wf_body b1" for k b1
    by (cases e) (auto simp: seqm_Inr okm_Inr str_field.dec_iff [OF that])
  have "(Body_env_entry b = (Inr e, b')) \<longleftrightarrow>
      (\<exists>k b1. ok_str k \<and> steps b (enc_blob (as_bytes k)) b1 \<and>
        (k = fst e \<and> ok_str (snd e) \<and> steps b1 (enc_blob (as_bytes (snd e))) b'))"
    unfolding Body_env_entry_def by (rule str_field.seq_iff [OF w]) (rule tl)
  then show "(Body_env_entry b = (Inr e, b')) = (ok_entry e \<and> steps b (enc_entry e) b')"
    by (auto simp: ok_entry_def enc_entry_def steps_append)
qed

interpretation strs_field: body_codec "counted Body_string"
    "enc_counted (\<lambda>s. enc_blob (as_bytes s))" "ok_counted ok_str"
  by (rule str_field.counted_codec)

interpretation entries_field: body_codec "counted Body_env_entry" "enc_counted enc_entry"
    "ok_counted ok_entry"
  by (rule entry_field.counted_codec)

section \<open>Whole messages\<close>

lemma finish_iff:
  "seqm Body_finish (\<lambda>_. okm x) b = (Inr y, b') \<longleftrightarrow> pos b = length (buf b) \<and> y = x \<and> b' = b"
  by (auto simp: seqm_def Body_finish_def)

lemma wf_Body_new: "length payload \<le> MAX_PAYLOAD \<Longrightarrow> wf_body (Body_new payload)"
  by (simp add: wf_body_def Body_new_def MAX_PAYLOAD_def usize_max_def)

lemma steps_new_end:
  "(\<exists>b. steps (Body_new payload) bs b \<and> pos b = length (buf b)) \<longleftrightarrow> payload = bs"
  by (auto simp: steps_def Body_new_def)

lemma fst_Inr: "fst p = Inr x \<longleftrightarrow> (\<exists>s. p = (Inr x, s))"
  by (cases p) auto

lemma file_body_iff:
  assumes "length payload \<le> MAX_PAYLOAD"
  shows "fst (file_body mk (Body_new payload)) = Inr y \<longleftrightarrow>
    (\<exists>path data. ok_str path \<and> ok_blob data \<and> y = mk path data \<and> payload = put_file_payload path data)"
proof -
  note w = wf_Body_new [OF assms]
  have tl: "seqm Body_blob (\<lambda>data. seqm Body_finish (\<lambda>_. okm (mk path data))) b1 = (Inr y, b2) \<longleftrightarrow>
      (\<exists>data b'. ok_blob data \<and> steps b1 (enc_blob data) b' \<and>
        (pos b' = length (buf b') \<and> y = mk path data \<and> b2 = b'))"
    if "wf_body b1" for path b1 b2
    by (rule blob_field.seq_iff [OF that]) (rule finish_iff)
  have "file_body mk (Body_new payload) = (Inr y, b2) \<longleftrightarrow>
      (\<exists>path b1. ok_str path \<and> steps (Body_new payload) (enc_blob (as_bytes path)) b1 \<and>
        (\<exists>data b'. ok_blob data \<and> steps b1 (enc_blob data) b' \<and>
          (pos b' = length (buf b') \<and> y = mk path data \<and> b2 = b')))" for b2
    unfolding file_body_def by (rule str_field.seq_iff [OF w]) (rule tl)
  then have "fst (file_body mk (Body_new payload)) = Inr y \<longleftrightarrow>
      (\<exists>path data. ok_str path \<and> ok_blob data \<and> y = mk path data \<and>
        (\<exists>b. steps (Body_new payload) (enc_blob (as_bytes path) @ enc_blob data) b
          \<and> pos b = length (buf b)))"
    unfolding fst_Inr steps_append by blast
  then show ?thesis
    unfolding steps_new_end
    by (simp add: put_file_payload_def enc_blob_def put_blob_def put_u32_def)
qed

text \<open>The payload of an \<open>Exec\<close>, field by field.\<close>

definition enc_exec ::
    "string list \<Rightarrow> bytes \<Rightarrow> (string \<times> string) list \<Rightarrow> string list \<Rightarrow> u32 \<Rightarrow> bytes" where
  "enc_exec argv stdin env artifacts timeout_ms =
     enc_counted (\<lambda>s. enc_blob (as_bytes s)) argv @ enc_blob stdin
     @ enc_counted (\<lambda>s. enc_blob (as_bytes s)) artifacts @ enc_u32 timeout_ms
     @ enc_counted enc_entry env"

lemma put_blob_enc: "put_blob p bs = p @ enc_blob bs"
  by (simp add: put_blob_def put_u32_def enc_blob_def)

lemma foldl_put: "foldl (\<lambda>p x. p @ f x) p xs = p @ concat (map f xs)"
  by (induction xs arbitrary: p) auto

lemma exec_payload_enc: "exec_payload argv stdin env artifacts t = enc_exec argv stdin env artifacts t"
proof -
  have env: "foldl (\<lambda>p (k, v). p @ enc_blob (as_bytes k) @ enc_blob (as_bytes v)) p env
      = p @ concat (map enc_entry env)" for p
    by (induction env arbitrary: p) (auto simp: enc_entry_def)
  show ?thesis
    by (simp add: exec_payload_def env put_u32_def put_blob_enc foldl_put enc_exec_def
        enc_counted_def Let_def)
qed

lemma length_enc_blob [simp]: "length (enc_blob bs) = blob_len bs"
  by (simp add: enc_blob_def put_blob_def put_u32_def blob_len_def)

lemma length_concat_blobs:
  "length (concat (map (\<lambda>s. enc_blob (f s)) xs)) = sum_list (map (\<lambda>s. blob_len (f s)) xs)"
  by (induction xs) auto

definition ok_exec ::
    "string list \<Rightarrow> bytes \<Rightarrow> (string \<times> string) list \<Rightarrow> string list \<Rightarrow> bool" where
  "ok_exec argv stdin env artifacts \<longleftrightarrow>
     ok_counted ok_str argv \<and> ok_blob stdin \<and> ok_counted ok_str artifacts \<and> ok_counted ok_entry env"

lemma seqm_assoc: "seqm (seqm m f) g = seqm m (\<lambda>x. seqm (f x) g)"
  by (rule ext) (auto simp: seqm_def split: prod.splits sum.splits)

lemma exec_body_counted:
  "exec_body =
     seqm (counted Body_string) (\<lambda>argv.
     seqm Body_blob (\<lambda>stdin.
     seqm (counted Body_string) (\<lambda>artifacts.
     seqm Body_u32 (\<lambda>timeout_ms.
     seqm (counted Body_env_entry) (\<lambda>env.
     seqm Body_finish (\<lambda>_.
     okm (Exec argv stdin env artifacts timeout_ms)))))))"
  by (simp add: exec_body_def counted_def seqm_assoc)

lemma exec_body_iff:
  assumes "length payload \<le> MAX_PAYLOAD"
  shows "fst (exec_body (Body_new payload)) = Inr y \<longleftrightarrow>
    (\<exists>argv stdin env artifacts t. ok_exec argv stdin env artifacts
       \<and> y = Exec argv stdin env artifacts t \<and> payload = exec_payload argv stdin env artifacts t)"
proof -
  let ?str = "\<lambda>s. enc_blob (as_bytes s)"
  have "exec_body (Body_new payload) = (Inr y, b') \<longleftrightarrow>
      (\<exists>argv b1. ok_counted ok_str argv \<and> steps (Body_new payload) (enc_counted ?str argv) b1 \<and>
      (\<exists>stdin b2. ok_blob stdin \<and> steps b1 (enc_blob stdin) b2 \<and>
      (\<exists>artifacts b3. ok_counted ok_str artifacts \<and> steps b2 (enc_counted ?str artifacts) b3 \<and>
      (\<exists>t b4. True \<and> steps b3 (enc_u32 t) b4 \<and>
      (\<exists>env b5. ok_counted ok_entry env \<and> steps b4 (enc_counted enc_entry env) b5 \<and>
        (pos b5 = length (buf b5) \<and> y = Exec argv stdin env artifacts t \<and> b' = b5))))))" for b'
    unfolding exec_body_counted
    by (rule strs_field.seq_iff [OF wf_Body_new [OF assms]], rule blob_field.seq_iff, assumption,
        rule strs_field.seq_iff, assumption, rule u32_field.seq_iff, assumption,
        rule entries_field.seq_iff, assumption, rule finish_iff)
  then have "fst (exec_body (Body_new payload)) = Inr y \<longleftrightarrow>
      (\<exists>argv stdin env artifacts t. ok_exec argv stdin env artifacts
         \<and> y = Exec argv stdin env artifacts t
         \<and> (\<exists>b. steps (Body_new payload) (enc_exec argv stdin env artifacts t) b
               \<and> pos b = length (buf b)))"
    by (cases y) (simp_all add: fst_Inr enc_exec_def steps_append ok_exec_def, blast)
  then show ?thesis unfolding steps_new_end exec_payload_enc .
qed

text \<open>Which requests can be on the wire, and their tag and payload.\<close>

fun ok_request :: "request \<Rightarrow> bool" where
  "ok_request (PutFile path data) \<longleftrightarrow> ok_str path \<and> ok_blob data"
| "ok_request (Exec argv stdin env artifacts t) \<longleftrightarrow> ok_exec argv stdin env artifacts"
| "ok_request (UnknownReq tag) \<longleftrightarrow> False"

fun request_frame :: "request \<Rightarrow> u8 \<times> bytes" where
  "request_frame (PutFile path data) = (TAG_PUTFILE, put_file_payload path data)"
| "request_frame (Exec argv stdin env artifacts t) =
     (TAG_EXEC, exec_payload argv stdin env artifacts t)"
| "request_frame (UnknownReq tag) = (tag, [])"

lemma decode_request_iff:
  assumes "length payload \<le> MAX_PAYLOAD"
  shows "decode_request tag payload = Inr req \<longleftrightarrow>
    (ok_request req \<and> request_frame req = (tag, payload)) \<or>
    (req = UnknownReq tag \<and> tag \<noteq> TAG_EXEC \<and> tag \<noteq> TAG_PUTFILE)"
  by (cases req) (auto simp: decode_request_def exec_body_iff [OF assms] file_body_iff [OF assms] tag_defs)

text \<open>The type invariant of the strings a request holds; a payload that fits a frame makes every
  count and length fit its \<open>u32\<close>.\<close>

fun str_request :: "request \<Rightarrow> bool" where
  "str_request (PutFile path data) \<longleftrightarrow> is_str path"
| "str_request (Exec argv stdin env artifacts t) \<longleftrightarrow>
     list_all is_str argv \<and> list_all is_str artifacts
     \<and> list_all (\<lambda>e. is_str (fst e) \<and> is_str (snd e)) env"
| "str_request (UnknownReq tag) \<longleftrightarrow> True"

lemma blob_in_concat:
  "x \<in> set xs \<Longrightarrow> length (enc x) \<le> length (concat (map enc xs))"
  by (induction xs) auto

lemma count_le_concat:
  "(\<And>x. 1 \<le> length (enc x)) \<Longrightarrow> length xs \<le> length (concat (map enc xs))"
proof (induction xs)
  case (Cons x xs)
  have "1 + length xs \<le> length (enc x) + length (concat (map enc xs))"
    using Cons by (intro add_mono) auto
  then show ?case by simp
qed simp

lemma ok_counted_fits:
  assumes "length (enc_counted enc xs) < 2 ^ 32" "\<And>x. 1 \<le> length (enc x)"
    and "\<And>x. x \<in> set xs \<Longrightarrow> length (enc x) < 2 ^ 32 \<Longrightarrow> ok x"
  shows "ok_counted ok xs"
proof -
  have c: "length (concat (map enc xs)) < 2 ^ 32" using assms(1) by (simp add: enc_counted_def)
  then have "length xs < 2 ^ 32" using count_le_concat [of enc xs, OF assms(2)] by linarith
  moreover have "list_all ok xs"
    unfolding list_all_iff using assms(3) blob_in_concat [of _ xs enc] c by (meson le_less_trans)
  ultimately show ?thesis by (simp add: ok_counted_def)
qed

lemma ok_request_fits:
  assumes "str_request req" "request_frame req = (tag, payload)" "length payload \<le> MAX_PAYLOAD"
    and "req \<noteq> UnknownReq tag"
  shows "ok_request req"
proof (cases req)
  case (PutFile path data)
  then show ?thesis
    using assms by (auto simp: ok_str_def ok_blob_def put_file_payload_def put_blob_enc blob_len_def
        MAX_PAYLOAD_def)
next
  case (Exec argv stdin env artifacts t)
  let ?str = "\<lambda>s. enc_blob (as_bytes s)"
  have small: "length (enc_exec argv stdin env artifacts t) \<le> 2 ^ 20"
    using assms Exec by (auto simp: exec_payload_enc MAX_PAYLOAD_def)
  have str: "ok_counted ok_str xs"
    if "length (enc_counted ?str xs) \<le> 2 ^ 20" "list_all is_str xs" for xs
    using that by (intro ok_counted_fits [of ?str]) (auto simp: ok_str_def list_all_iff blob_len_def)
  have "ok_counted ok_entry env"
    using small assms Exec
    by (intro ok_counted_fits [of enc_entry])
      (auto simp: ok_entry_def ok_str_def list_all_iff blob_len_def enc_entry_def enc_exec_def)
  then show ?thesis
    using small assms Exec str [of argv] str [of artifacts]
    by (auto simp: ok_exec_def enc_exec_def ok_blob_def blob_len_def)
qed (use assms in auto)

lemma write_request_frame:
  assumes "write_request req w = (Inr (), w')" "request_frame req = (tag, payload)"
  shows "write_frame tag payload w = (Inr (), w')" "req \<noteq> UnknownReq tag"
  using assms by (cases req; auto simp: write_put_file_def write_exec_def)+

lemma read_request_iff:
  "read_request r = (Inr req, r') \<longleftrightarrow>
     (\<exists>tag payload. read_frame r = (Inr (tag, payload), r') \<and> decode_request tag payload = Inr req)"
  by (auto simp: read_request_def seqm_Inr)

lemma read_response_iff:
  "read_response r = (Inr resp, r') \<longleftrightarrow>
     (\<exists>tag payload. read_frame r = (Inr (tag, payload), r') \<and> decode_response tag payload = Inr resp)"
  by (auto simp: read_response_def seqm_Inr)

section \<open>Properties\<close>

text \<open>(C1) A request that was sent is received: the bytes \<open>write_request\<close> appends to the stream
  form one frame within the cap, and \<open>read_request\<close> decodes them to the same request and leaves
  exactly what follows, whatever that is.\<close>

theorem request_roundtrip:
  assumes "write_request req w = (Inr (), w')" and "str_request req"
  shows "\<exists>bs. written w' = written w @ bs \<and> length bs \<le> 5 + MAX_PAYLOAD
    \<and> (\<forall>r rest. read_request (r\<lparr>avail := bs @ rest\<rparr>) = (Inr req, r\<lparr>avail := rest\<rparr>))"
proof -
  obtain tag payload where f: "request_frame req = (tag, payload)" by (cases "request_frame req")
  note wf = write_request_frame [OF assms(1) f]
  note w = write_frame_ok [OF wf(1)]
  have "decode_request tag payload = Inr req"
    using ok_request_fits [OF assms(2) f w(2) wf(2)] f by (simp add: decode_request_iff [OF w(2)])
  then have "\<forall>r rest. read_request (r\<lparr>avail := frame tag payload @ rest\<rparr>) = (Inr req, r\<lparr>avail := rest\<rparr>)"
    using read_frame_frame [OF w(2)] by (auto simp: read_request_iff)
  moreover have "length (frame tag payload) \<le> 5 + MAX_PAYLOAD" using w(2) by (simp add: frame_def)
  ultimately show ?thesis using w(1) by blast
qed

text \<open>(C2) The request decoder accepts only canonical bytes: what \<open>read_request\<close> took off the
  stream for a known request is byte for byte what \<open>write_request\<close> sends for it.\<close>

theorem request_canonical:
  assumes "read_request r = (Inr req, r')" and "\<And>tag. req \<noteq> UnknownReq tag" and "room w = None"
  shows "\<exists>bs. avail r = bs @ avail r' \<and> write_request req w = (Inr (), w\<lparr>written := written w @ bs\<rparr>)"
proof -
  from assms(1) obtain tag payload where f: "read_frame r = (Inr (tag, payload), r')"
    and d: "decode_request tag payload = Inr req"
    by (auto simp: read_request_iff)
  note rf = read_frame_sound [OF f]
  have "request_frame req = (tag, payload)"
    using d assms(2) by (auto simp: decode_request_iff [OF rf(2)])
  then have "write_request req w = write_frame tag payload w"
    using assms(2) by (cases req) (auto simp: write_put_file_def write_exec_def)
  also have "\<dots> = (Inr (), w\<lparr>written := written w @ frame tag payload\<rparr>)"
    using assms(3) rf(2)
    by (simp add: write_frame_def seqm_def io_q_def write_all_def flush_def frame_def)
  finally show ?thesis using rf(1) by blast
qed

text \<open>What the host sees of a response: guest error text is sanitized on decoding.\<close>

fun str_response :: "response \<Rightarrow> bool" where
  "str_response (File path data) \<longleftrightarrow> is_str path"
| "str_response (Error msg) \<longleftrightarrow> is_str msg"
| "str_response _ \<longleftrightarrow> True"

fun host_view :: "response \<Rightarrow> response" where
  "host_view (Error msg) = Error (sanitize_error_msg msg)"
| "host_view resp = resp"

lemma decode_response_frame:
  assumes "str_response resp" "response_frame resp = (tag, payload)" "length payload \<le> MAX_PAYLOAD"
  shows "decode_response tag payload = Inr (host_view resp)"
proof (cases resp)
  case (File path data)
  then have "ok_str path" "ok_blob data"
    using assms by (auto simp: ok_str_def ok_blob_def put_file_payload_def put_blob_enc blob_len_def
        MAX_PAYLOAD_def)
  then show ?thesis
    using assms File by (auto simp: decode_response_def file_body_iff tag_defs)
qed (use assms in \<open>auto simp: decode_response_def tag_defs from_le_to_le\<close>)

text \<open>A response that was sent is received by the host as the same response, except that the
  text of an error arrives sanitized; the reader stops exactly at the end of the frame.\<close>

theorem response_roundtrip:
  assumes "write_response resp w = (Inr (), w')" and "str_response resp"
  shows "\<exists>bs. written w' = written w @ bs
    \<and> (\<forall>r rest. read_response (r\<lparr>avail := bs @ rest\<rparr>) = (Inr (host_view resp), r\<lparr>avail := rest\<rparr>))"
proof -
  obtain tag payload where f: "response_frame resp = (tag, payload)" by (cases "response_frame resp")
  then have "write_frame tag payload w = (Inr (), w')"
    using assms(1) by (simp add: write_response_def)
  note w = write_frame_ok [OF this]
  have "\<forall>r rest. read_response (r\<lparr>avail := frame tag payload @ rest\<rparr>)
      = (Inr (host_view resp), r\<lparr>avail := rest\<rparr>)"
    using read_frame_frame [OF w(2)] decode_response_frame [OF assms(2) f w(2)]
    by (auto simp: read_response_iff)
  then show ?thesis using w(1) by blast
qed

lemma read_exact_prefix:
  "\<exists>used. avail r = used @ avail (snd (read_exact n r)) \<and> length used \<le> n"
  by (cases "n \<le> length (avail r)")
    (auto simp: read_exact_def intro: exI [of _ "take n (avail r)"])

lemma read_frame_prefix:
  "\<exists>used. avail r = used @ avail (snd (read_frame r)) \<and> length used \<le> 5 + MAX_PAYLOAD"
proof (cases "fst (read_exact 5 r)")
  case (Inl k)
  then have "snd (read_frame r) = snd (read_exact 5 r)"
    by (cases "read_exact 5 r") (simp add: read_frame_def seqm_def io_q_def)
  then show ?thesis using read_exact_prefix [of r 5] by auto
next
  case (Inr header)
  let ?r1 = "snd (read_exact 5 r)"
  let ?len = "unat (from_le_bytes [header ! 1, header ! 2, header ! 3, header ! 4] :: u32)"
  have "snd (read_frame r) = (if MAX_PAYLOAD < ?len then ?r1 else snd (read_exact ?len ?r1))"
    using Inr by (cases "read_exact 5 r"; cases "read_exact ?len ?r1"; cases "fst (read_exact ?len ?r1)")
      (simp_all add: read_frame_def seqm_def io_q_def Let_def)
  moreover obtain u1 where "avail r = u1 @ avail ?r1" "length u1 \<le> 5"
    using read_exact_prefix [of r 5] by blast
  moreover obtain u2 where "avail ?r1 = u2 @ avail (snd (read_exact ?len ?r1))" "length u2 \<le> ?len"
    using read_exact_prefix [of ?r1 ?len] by blast
  ultimately show ?thesis
    by (cases "MAX_PAYLOAD < ?len") (auto intro!: exI [of _ "u1 @ u2"])
qed

lemma snd_read_frame_then:
  "snd (seqm read_frame (\<lambda>(tag, payload) r. (f tag payload, r)) r) = snd (read_frame r)"
  by (auto simp: seqm_def split: prod.splits sum.splits)

lemma read_frame_too_large:
  assumes "MAX_PAYLOAD < unat (len :: u32)"
  shows "read_frame (r\<lparr>avail := tag # to_le_bytes 4 len @ rest\<rparr>)
    = (Inl (PayloadTooLarge tag (unat len)), r\<lparr>avail := rest\<rparr>)"
proof -
  have "read_exact 5 (r\<lparr>avail := (tag # to_le_bytes 4 len) @ rest\<rparr>)
      = (Inr (tag # to_le_bytes 4 len), r\<lparr>avail := rest\<rparr>)"
    by (rule read_exact_append) simp
  then show ?thesis using assms
    by (simp add: read_frame_def seqm_def io_q_def list4 from_le_to_le)
qed

text \<open>(C3) Whatever bytes a peer sends, one decode takes at most one capped frame off the stream,
  and a header that declares more than the cap is refused with a typed error after the five
  header bytes alone, before any payload is read or allocated.\<close>

theorem decode_bounded:
  "(\<exists>used. avail r = used @ avail (snd (read_request r)) \<and> length used \<le> 5 + MAX_PAYLOAD)
   \<and> (\<exists>used. avail r = used @ avail (snd (read_response r)) \<and> length used \<le> 5 + MAX_PAYLOAD)
   \<and> (\<forall>tag len rest. unat (len :: u32) > MAX_PAYLOAD \<longrightarrow>
        read_request (r\<lparr>avail := tag # to_le_bytes 4 len @ rest\<rparr>)
          = (Inl (PayloadTooLarge tag (unat len)), r\<lparr>avail := rest\<rparr>)
        \<and> read_response (r\<lparr>avail := tag # to_le_bytes 4 len @ rest\<rparr>)
          = (Inl (PayloadTooLarge tag (unat len)), r\<lparr>avail := rest\<rparr>))"
  unfolding read_request_def read_response_def snd_read_frame_then
  by (intro conjI read_frame_prefix) (auto simp: seqm_def read_frame_too_large)

section \<open>Error text\<close>

definition clean :: "nat \<Rightarrow> bool" where
  "clean c \<longleftrightarrow> scalar c \<and> \<not> is_control c"

lemma escape_control:
  assumes "is_control c"
  shows "list_all (\<lambda>d. 32 \<le> (of_char d :: nat) \<and> (of_char d :: nat) < 127) (escape_default c)"
    and "length (escape_default c) \<le> 6"
proof -
  have "list_all (\<lambda>c. is_control c \<longrightarrow>
      list_all (\<lambda>d. 32 \<le> (of_char d :: nat) \<and> (of_char d :: nat) < 127) (escape_default c)
      \<and> length (escape_default c) \<le> 6) [0..<160]"
    by code_simp
  moreover have "c \<in> set [0..<160]" using assms by (auto simp: is_control_def)
  ultimately show
    "list_all (\<lambda>d. 32 \<le> (of_char d :: nat) \<and> (of_char d :: nat) < 127) (escape_default c)"
    "length (escape_default c) \<le> 6"
    using assms unfolding list_all_iff by blast+
qed

lemma string_of_chars_append: "string_of_chars (cs @ ds) = string_of_chars cs @ string_of_chars ds"
  by (simp add: string_of_chars_def)

lemma sanitize_char_clean:
  assumes "scalar c"
  shows "\<exists>ds. sanitize_char c = string_of_chars ds \<and> list_all clean ds"
proof (cases "is_control c")
  case True
  let ?e = "escape_default c"
  have a: "is_ascii ?e" using escape_control(1) [OF True] by (auto simp: is_ascii_def list_all_iff)
  then have "?e = string_of_chars (map of_char ?e)"
    by (metis is_ascii_is_str string_of_utf8_chars utf8_chars_ascii)
  moreover have "list_all clean (map of_char ?e)"
    using escape_control(1) [OF True]
    by (auto simp: list_all_iff clean_def scalar_def is_control_def)
  ultimately show ?thesis using True by (auto simp: sanitize_char_def)
next
  case False
  then show ?thesis using assms
    by (intro exI [of _ "[c]"]) (simp add: sanitize_char_def string_of_chars_def clean_def)
qed

lemma length_sanitize_char: "length (sanitize_char c) \<le> 6"
  using escape_control(2) [of c] length_encode_utf8 [of c] by (simp add: sanitize_char_def)

lemma sanitize_loop_clean:
  "\<forall>c \<in> set cs. scalar c \<Longrightarrow> \<exists>ds. out = string_of_chars ds \<and> list_all clean ds \<Longrightarrow>
   \<exists>ds. sanitize_loop cs out = string_of_chars ds \<and> list_all clean ds"
proof (induction cs out rule: sanitize_loop.induct)
  case (2 c cs out)
  obtain ds where ds: "out = string_of_chars ds" "list_all clean ds" using "2.prems"(2) by blast
  obtain es where es: "sanitize_char c = string_of_chars es" "list_all clean es"
    using sanitize_char_clean "2.prems"(1) by auto
  have app: "\<exists>ds. out @ sanitize_char c = string_of_chars ds \<and> list_all clean ds"
    using ds es by (intro exI [of _ "ds @ es"]) (simp add: string_of_chars_append)
  have "ellipsis = string_of_chars [8230]" "clean 8230"
    by (simp_all add: ellipsis_def string_of_chars_def clean_def scalar_def is_control_def)
  then have "\<exists>ds. out @ ellipsis = string_of_chars ds \<and> list_all clean ds"
    using ds by (intro exI [of _ "ds @ [8230]"]) (simp add: string_of_chars_append)
  with app 2 show ?case by simp
qed simp

lemma length_sanitize_loop:
  "length out \<le> ERROR_MSG_CAP + 5 \<Longrightarrow> length (sanitize_loop cs out) \<le> ERROR_MSG_CAP + 8"
proof (induction cs out rule: sanitize_loop.induct)
  case (2 c cs out)
  have "length ellipsis = 3" by (simp add: ellipsis_def encode_utf8_def)
  then show ?case using 2 length_sanitize_char [of c] by simp
qed simp

lemma sanitize_loop_id:
  "list_all clean cs \<Longrightarrow> length out + length (string_of_chars cs) \<le> ERROR_MSG_CAP \<Longrightarrow>
   sanitize_loop cs out = out @ string_of_chars cs"
proof (induction cs out rule: sanitize_loop.induct)
  case (2 c cs out)
  have c: "sanitize_char c = of_bytes (encode_utf8 c)"
    using "2.prems"(1) by (simp add: sanitize_char_def clean_def)
  have cons: "string_of_chars (c # cs) = of_bytes (encode_utf8 c) @ string_of_chars cs"
    by (simp add: string_of_chars_def)
  have "1 \<le> length (encode_utf8 c)" by (simp add: encode_utf8_def)
  then have "length out < ERROR_MSG_CAP"
    using "2.prems"(2) unfolding cons length_append length_of_bytes by linarith
  with 2 show ?case by (simp add: c cons)
qed (simp add: string_of_chars_def)

text \<open>The one place guest-chosen text reaches the operator unquoted is safe: for every message
  the sanitized text is a valid string with no control character in it, at most eight bytes over
  the cap, and a message without control characters within the cap is passed on unchanged.\<close>

theorem sanitize_error_msg_safe:
  assumes "is_str msg"
  shows "is_str (sanitize_error_msg msg)
    \<and> (\<exists>ds. utf8_chars (sanitize_error_msg msg) = ds \<and> list_all (\<lambda>c. \<not> is_control c) ds)
    \<and> length (sanitize_error_msg msg) \<le> ERROR_MSG_CAP + 8
    \<and> (list_all (\<lambda>c. \<not> is_control c) (utf8_chars msg) \<and> length msg \<le> ERROR_MSG_CAP
        \<longrightarrow> sanitize_error_msg msg = msg)"
proof -
  have sc: "\<forall>c \<in> set (utf8_chars msg). scalar c" using scalar_utf8_chars [OF assms] by blast
  have start: "[] = string_of_chars [] \<and> list_all clean []" by (simp add: string_of_chars_def of_bytes_def)
  obtain ds where ds: "sanitize_error_msg msg = string_of_chars ds" "list_all clean ds"
    unfolding sanitize_error_msg_def
    using sanitize_loop_clean [OF sc, of "[]"] start by blast
  have "\<forall>c \<in> set ds. scalar c" using ds(2) by (simp add: list_all_iff clean_def)
  then have "is_str (sanitize_error_msg msg)" "utf8_chars (sanitize_error_msg msg) = ds"
    using ds(1) by (simp_all add: is_str_of_chars utf8_chars_of_chars)
  moreover have "length (sanitize_error_msg msg) \<le> ERROR_MSG_CAP + 8"
    unfolding sanitize_error_msg_def by (rule length_sanitize_loop) simp
  moreover have "sanitize_error_msg msg = msg"
    if "list_all (\<lambda>c. \<not> is_control c) (utf8_chars msg)" "length msg \<le> ERROR_MSG_CAP"
    using that sc sanitize_loop_id [of "utf8_chars msg" "[]"] string_of_utf8_chars [OF assms]
    by (simp add: sanitize_error_msg_def list_all_iff clean_def)
  ultimately show ?thesis using ds(2) by (simp add: list_all_iff clean_def)
qed

section \<open>Handshake, secrets and witnesses\<close>

lemma handshake_split:
  "length b = 6 \<Longrightarrow> take 4 b = MAGIC \<and> (from_le_bytes [b ! 4, b ! 5] :: u16) = PROTOCOL_VERSION \<longleftrightarrow>
     b = handshake_bytes"
proof -
  assume l: "length b = 6"
  have d: "drop 4 b = [b ! 4, b ! 5]"
    using l by (auto simp: list_eq_iff_nth_eq less_Suc_eq numeral_eq_Suc)
  have m: "length MAGIC = 4" by (simp add: MAGIC_def)
  have "(from_le_bytes [b ! 4, b ! 5] :: u16) = PROTOCOL_VERSION
      \<longleftrightarrow> [b ! 4, b ! 5] = to_le_bytes 2 PROTOCOL_VERSION"
    using to_le_from_le_n [where 'a = 16, of "[b ! 4, b ! 5]" 2]
      from_le_to_le [where n = 2 and w = PROTOCOL_VERSION] by auto
  then show ?thesis
    unfolding handshake_bytes_def d [symmetric]
    by (metis append_eq_conv_conj append_take_drop_id m)
qed

text \<open>The handshake admits a peer exactly when its first six bytes are the magic and this
  build's version; nothing beyond them is read.\<close>

theorem read_handshake_exact:
  "read_handshake r = (Inr (), r') \<longleftrightarrow>
     avail r = handshake_bytes @ avail r' \<and> r' = r\<lparr>avail := avail r'\<rparr>"
proof -
  have len: "length handshake_bytes = 6" by (simp add: handshake_bytes_def MAGIC_def)
  have "read_handshake r = (Inr (), r') \<longleftrightarrow>
      (\<exists>b. read_exact 6 r = (Inr b, r') \<and> take 4 b = MAGIC
         \<and> (from_le_bytes [b ! 4, b ! 5] :: u16) = PROTOCOL_VERSION)"
    by (auto simp: read_handshake_def seqm_Inr io_q_Inr Let_def okm_Inr split: if_splits)
  also have "\<dots> \<longleftrightarrow> read_exact 6 r = (Inr handshake_bytes, r')"
    using handshake_split read_exact_split len by metis
  also have "\<dots> \<longleftrightarrow> avail r = handshake_bytes @ avail r' \<and> r' = r\<lparr>avail := avail r'\<rparr>"
    using len by (auto simp: read_exact_Inr) (metis append_take_drop_id)+
  finally show ?thesis .
qed

text \<open>Two requests that differ only in secret bytes.\<close>

fun same_but_secrets :: "request \<Rightarrow> request \<Rightarrow> bool" where
  "same_but_secrets (PutFile p d) (PutFile p' d') \<longleftrightarrow> p = p' \<and> length d = length d'"
| "same_but_secrets (Exec a s e r t) (Exec a' s' e' r' t') \<longleftrightarrow>
     a = a' \<and> length s = length s' \<and> map fst e = map fst e' \<and> r = r' \<and> t = t'"
| "same_but_secrets (UnknownReq t) (UnknownReq t') \<longleftrightarrow> t = t'"
| "same_but_secrets _ _ \<longleftrightarrow> False"

text \<open>The \<open>Debug\<close> rendering of a request is a function of its public part: requests that
  agree on everything but file data, stdin bytes and environment values print the same, and
  requests that print the same agree on all of the public part.\<close>

theorem request_debug_redacts:
  "request_debug q = request_debug q' \<longleftrightarrow> same_but_secrets q q'"
  by (cases "(q, q')" rule: same_but_secrets.cases) (auto dest: map_eq_imp_length_eq)

definition idle_writer :: writer where
  "idle_writer = \<lparr>written = [], room = None, wfail = BrokenPipe\<rparr>"

lemma written_idle: "written idle_writer = []"
  by (simp add: idle_writer_def)

definition reader_of :: "bytes \<Rightarrow> reader" where
  "reader_of bs = \<lparr>avail = bs, after = None\<rparr>"

definition sample_exec :: request where
  "sample_exec = Exec [''sh''] [1, 2] [(''K'', ''v'')] [''out''] 250"

lemma write_request_idle:
  assumes "request_frame req = (tag, payload)" "req \<noteq> UnknownReq tag" "length payload \<le> MAX_PAYLOAD"
  shows "write_request req idle_writer = (Inr (), idle_writer\<lparr>written := frame tag payload\<rparr>)"
  using assms
  by (cases req) (auto simp: write_put_file_def write_exec_def write_frame_def seqm_def io_q_def
      write_all_def flush_def frame_def idle_writer_def)

lemma sample_exec_sent:
  "\<exists>w. write_request sample_exec idle_writer = (Inr (), w) \<and> str_request sample_exec
     \<and> written idle_writer = []"
proof -
  have "is_ascii ''sh''" "is_ascii ''K''" "is_ascii ''v''" "is_ascii ''out''"
    by (simp_all add: is_ascii_def)
  then have "str_request sample_exec" by (simp add: sample_exec_def is_ascii_is_str)
  moreover have "write_request sample_exec idle_writer = (Inr (), idle_writer\<lparr>written :=
      frame TAG_EXEC (exec_payload [''sh''] [1, 2] [(''K'', ''v'')] [''out''] 250)\<rparr>)"
    by (rule write_request_idle)
      (simp_all add: sample_exec_def exec_payload_def put_blob_def put_u32_def MAX_PAYLOAD_def)
  ultimately show ?thesis by (simp add: idle_writer_def)
qed

theorem request_roundtrip_witness:
  "\<exists>w' bs. write_request sample_exec idle_writer = (Inr (), w') \<and> written w' = bs
     \<and> read_request (reader_of bs) = (Inr sample_exec, reader_of [])"
proof -
  obtain w where w: "write_request sample_exec idle_writer = (Inr (), w)" "str_request sample_exec"
      "written idle_writer = []"
    using sample_exec_sent by blast
  obtain bs where "written w = bs"
    and rd: "\<And>r rest. read_request (r\<lparr>avail := bs @ rest\<rparr>) = (Inr sample_exec, r\<lparr>avail := rest\<rparr>)"
    using request_roundtrip [OF w(1,2)] w(3) by auto
  moreover have "read_request (reader_of bs) = (Inr sample_exec, reader_of [])"
    using rd [where r = "reader_of []" and rest = "[]"] by (simp add: reader_of_def)
  ultimately show ?thesis using w(1) by blast
qed

definition wire_put_file :: bytes where
  "wire_put_file = [6, 10, 0, 0, 0, 1, 0, 0, 0, 97, 1, 0, 0, 0, 7]"

lemma wire_put_file_frame: "wire_put_file = frame TAG_PUTFILE (put_file_payload ''a'' [7])"
  by (simp add: wire_put_file_def frame_def frame_header_def put_file_payload_def put_blob_def
      put_u32_def to_le_bytes_def le_digits_4 as_bytes_def TAG_PUTFILE_def)

lemma read_wire_put_file: "read_request (reader_of wire_put_file) = (Inr (PutFile ''a'' [7]), reader_of [])"
proof -
  let ?p = "put_file_payload ''a'' [7]"
  have l: "length ?p \<le> MAX_PAYLOAD"
    by (simp add: put_file_payload_def put_blob_def put_u32_def MAX_PAYLOAD_def)
  have "ok_request (PutFile ''a'' [7])"
    by (simp add: ok_str_def ok_blob_def is_ascii_is_str is_ascii_def)
  then have "decode_request TAG_PUTFILE ?p = Inr (PutFile ''a'' [7])"
    by (simp add: decode_request_iff [OF l])
  then show ?thesis
    using read_frame_frame [OF l, where r = "reader_of []" and rest = "[]" and tag = TAG_PUTFILE]
    by (simp add: read_request_iff wire_put_file_frame reader_of_def)
qed

theorem request_canonical_witness:
  "write_request (PutFile ''a'' [7]) idle_writer = (Inr (), idle_writer\<lparr>written := wire_put_file\<rparr>)"
  using request_canonical [OF read_wire_put_file, of idle_writer]
  by (simp add: idle_writer_def reader_of_def)

theorem response_roundtrip_witness:
  "\<exists>bs. written (snd (write_response (Exit 7) idle_writer)) = bs
     \<and> read_response (reader_of bs) = (Inr (Exit 7), reader_of [])"
proof -
  have w: "write_response (Exit 7) idle_writer
      = (Inr (), idle_writer\<lparr>written := frame TAG_EXIT (to_le_bytes 4 (7 :: u32))\<rparr>)"
    by (simp add: write_response_def write_frame_def seqm_def io_q_def write_all_def flush_def
        frame_def idle_writer_def MAX_PAYLOAD_def)
  obtain bs where "written (snd (write_response (Exit 7) idle_writer)) = bs"
    and "\<And>r rest. read_response (r\<lparr>avail := bs @ rest\<rparr>) = (Inr (Exit 7), r\<lparr>avail := rest\<rparr>)"
    using response_roundtrip [OF w] by (auto simp: w written_idle)
  from this(1) this(2) [where r = "reader_of []" and rest = "[]"] show ?thesis
    by (simp add: reader_of_def)
qed

theorem decode_bounded_witness:
  "read_response (reader_of [2, 0, 0, 0, 1, 9]) = (Inl (PayloadTooLarge 2 16777216), reader_of [9])"
proof -
  have "to_le_bytes 4 (16777216 :: u32) = [0, 0, 0, 1]"
    by (simp add: to_le_bytes_def le_digits_4)
  then show ?thesis
    using decode_bounded [of "reader_of []", THEN conjunct2, THEN conjunct2, rule_format,
        of 16777216 2 "[9]"]
    by (simp add: MAX_PAYLOAD_def reader_of_def)
qed

theorem sanitize_error_msg_safe_witness:
  "sanitize_error_msg ''no such file'' = ''no such file''
   \<and> length (sanitize_error_msg [CHR 0x1B, CHR ''['']) \<le> 4104"
proof -
  have a: "is_ascii ''no such file''" "is_ascii [CHR 0x1B, CHR ''['']" by (simp_all add: is_ascii_def)
  then have "list_all (\<lambda>c. \<not> is_control c) (utf8_chars ''no such file'')"
    by (simp add: utf8_chars_ascii is_control_def)
  then show ?thesis
    using sanitize_error_msg_safe [OF is_ascii_is_str [OF a(1)]]
      sanitize_error_msg_safe [OF is_ascii_is_str [OF a(2)]]
    by (simp add: ERROR_MSG_CAP_def)
qed

lemma write_exec_never_reallocates:
  "length (exec_payload argv stdin env artifacts t) = exec_cap argv stdin env artifacts"
proof -
  have "length (concat (map enc_entry env))
      = sum_list (map (\<lambda>(k, v). blob_len (as_bytes k) + blob_len (as_bytes v)) env)"
    by (induction env) (auto simp: enc_entry_def)
  then show ?thesis
    by (simp add: exec_payload_enc enc_exec_def enc_counted_def exec_cap_def length_concat_blobs)
qed

end
