(* ===== verification/ProbesCommon.thy ===== *)
theory ProbesCommon
  imports Utf8 "HOL-Library.Monad_Syntax"
begin

text \<open>
  The plain-old-data both sides of the eBPF boundary share, \<open>crates/eke-probes-common/src/lib.rs\<close>:
  the ring-buffer event, the IPv4 and IPv6 flow keys with their counters and frame parsers, and the
  egress allow-list rules with their matchers. An array \<open>[u8; n]\<close> is a byte list of that length;
  \<open>#[repr(C)]\<close> memory images are spelled out field by field and read back at the same offsets
  (little endian, the byte order of both supported targets). The locale \<open>repr_c\<close> is the contract
  between a memory image and its \<open>from_bytes\<close>, interpreted on all five records that cross the
  boundary.
\<close>

section \<open>Constants\<close>

definition COMM_CAP :: usize where "COMM_CAP = 16"
definition DETAIL_CAP :: usize where "DETAIL_CAP = 128"
definition SOCKADDR_SNAP :: usize where "SOCKADDR_SNAP = 28"
definition SOCKADDR_SNAP_V4 :: usize where "SOCKADDR_SNAP_V4 = 16"
definition ETH_HLEN :: usize where "ETH_HLEN = 14"
definition ETHERTYPE_OFFSET :: usize where "ETHERTYPE_OFFSET = 12"
definition ETH_P_IP :: u16 where "ETH_P_IP = 0x0800"
definition ETH_P_ARP :: u16 where "ETH_P_ARP = 0x0806"
definition ETH_P_IPV6 :: u16 where "ETH_P_IPV6 = 0x86dd"
definition ETH_P_8021Q :: u16 where "ETH_P_8021Q = 0x8100"
definition MAX_POLICY_RULES :: usize where "MAX_POLICY_RULES = 16"

datatype Protocol = Tcp | Udp

fun Protocol_as_u8 :: "Protocol \<Rightarrow> u8" where
  "Protocol_as_u8 Tcp = 6"
| "Protocol_as_u8 Udp = 17"

definition IPPROTO_TCP :: u8 where "IPPROTO_TCP = Protocol_as_u8 Tcp"
definition IPPROTO_UDP :: u8 where "IPPROTO_UDP = Protocol_as_u8 Udp"
definition IPPROTO_ICMPV6 :: u8 where "IPPROTO_ICMPV6 = 58"

definition Protocol_from_u8 :: "u8 \<Rightarrow> Protocol option" where
  "Protocol_from_u8 n =
     (if n = IPPROTO_TCP then Some Tcp else if n = IPPROTO_UDP then Some Udp else None)"

section \<open>Addresses as text\<close>

text \<open>\<open>Display\<close> of the standard library's \<open>Ipv4Addr\<close> and \<open>Ipv6Addr\<close>: dotted quad, and
  colon-separated groups with the first longest run of two or more zero groups elided.\<close>

definition join :: "string \<Rightarrow> string list \<Rightarrow> string" where
  "join sep xs = (case xs of [] \<Rightarrow> [] | y # ys \<Rightarrow> y @ concat (map (\<lambda>z. sep @ z) ys))"

definition fmt_ipv4 :: "bytes \<Rightarrow> string" where
  "fmt_ipv4 b = join ''.'' (map (\<lambda>x. dec (unat x)) b)"

fun hex_lower :: "nat \<Rightarrow> string" where
  "hex_lower n = (if n < 16 then [hex_digit n] else hex_lower (n div 16) @ [hex_digit (n mod 16)])"

declare hex_lower.simps [simp del]

fun segments :: "bytes \<Rightarrow> nat list" where
  "segments (a # b # r) = (unat a * 256 + unat b) # segments r"
| "segments _ = []"

fun zero_run :: "nat \<Rightarrow> nat list \<Rightarrow> nat \<times> nat \<Rightarrow> nat \<times> nat \<Rightarrow> nat \<times> nat" where
  "zero_run i [] cur best = best"
| "zero_run i (x # xs) (s, l) best =
     (if x = 0 then
        (let cur = (if l = 0 then i else s, l + 1)
         in zero_run (i + 1) xs cur (if snd cur > snd best then cur else best))
      else zero_run (i + 1) xs (0, 0) best)"

definition fmt_groups :: "nat list \<Rightarrow> string" where
  "fmt_groups gs = join '':'' (map hex_lower gs)"

definition fmt_ipv6 :: "bytes \<Rightarrow> string" where
  "fmt_ipv6 b =
     (if take 12 b = replicate 10 0 @ [255, 255] then ''::ffff:'' @ fmt_ipv4 (drop 12 b)
      else
        (let gs = segments b; (s, l) = zero_run 0 gs (0, 0) (0, 0)
         in if l > 1 then fmt_groups (take s gs) @ ''::'' @ fmt_groups (drop (s + l) gs)
            else fmt_groups gs))"

section \<open>Syscall events\<close>

datatype Syscall = Execve | Openat | Connect

fun Syscall_discr :: "Syscall \<Rightarrow> u32" where
  "Syscall_discr Execve = 0"
| "Syscall_discr Openat = 1"
| "Syscall_discr Connect = 2"

record SyscallEvent =
  ev_cgroup_id :: u64
  ev_pid :: u32
  ev_tid :: u32
  ev_syscall :: u32
  ev_detail_len :: u32
  ev_comm :: bytes
  ev_detail :: bytes

definition EVENT_SIZE :: usize where
  "EVENT_SIZE = 8 + 4 + 4 + 4 + 4 + COMM_CAP + DETAIL_CAP"

definition SyscallEvent_from_bytes :: "bytes \<Rightarrow> SyscallEvent option" where
  "SyscallEvent_from_bytes b =
     (if length b < EVENT_SIZE then None
      else do {
        cgroup_id \<leftarrow> slice_get b 0 8;
        pid \<leftarrow> slice_get b 8 12;
        tid \<leftarrow> slice_get b 12 16;
        sys \<leftarrow> slice_get b 16 20;
        detail_len \<leftarrow> slice_get b 20 24;
        comm \<leftarrow> slice_get b 24 (24 + COMM_CAP);
        detail \<leftarrow> slice_get b 40 (40 + DETAIL_CAP);
        Some \<lparr>ev_cgroup_id = from_le_bytes cgroup_id, ev_pid = from_le_bytes pid,
              ev_tid = from_le_bytes tid, ev_syscall = from_le_bytes sys,
              ev_detail_len = from_le_bytes detail_len, ev_comm = comm, ev_detail = detail\<rparr>
      })"

definition event_kind :: "SyscallEvent \<Rightarrow> Syscall option" where
  "event_kind e =
     (if ev_syscall e = 0 then Some Execve
      else if ev_syscall e = 1 then Some Openat
      else if ev_syscall e = 2 then Some Connect
      else None)"

definition event_detail :: "SyscallEvent \<Rightarrow> bytes" where
  "event_detail e = take (min (unat (ev_detail_len e)) DETAIL_CAP) (ev_detail e)"

definition comm_lossy :: "SyscallEvent \<Rightarrow> string" where
  "comm_lossy e = from_utf8_lossy (takeWhile (\<lambda>b. b \<noteq> 0) (ev_comm e))"

definition syscall_name :: "SyscallEvent \<Rightarrow> string" where
  "syscall_name e =
     (case event_kind e of
        Some Execve \<Rightarrow> ''execve'' | Some Openat \<Rightarrow> ''openat'' | Some Connect \<Rightarrow> ''connect''
      | None \<Rightarrow> ''?'')"

definition describe_sockaddr :: "bytes \<Rightarrow> string" where
  "describe_sockaddr bs =
     (if 8 \<le> length bs then
        (let family = (from_le_bytes [bs ! 0, bs ! 1] :: u16);
             port = (from_be_bytes [bs ! 2, bs ! 3] :: u16) in
         if family = 2 then
           join ''.'' (map (\<lambda>x. dec (unat x)) [bs ! 4, bs ! 5, bs ! 6, bs ! 7])
             @ '':'' @ dec (unat port)
         else if family = 10 \<and> 24 \<le> length bs then
           ''['' @ fmt_ipv6 (take 16 (drop 8 bs)) @ '']:'' @ dec (unat port)
         else ''<sockaddr family '' @ dec (unat family) @ ''>'')
      else ''<sockaddr: too short>'')"

definition detail_display :: "SyscallEvent \<Rightarrow> string" where
  "detail_display e =
     (let d = event_detail e in
      case event_kind e of Some Connect \<Rightarrow> describe_sockaddr d | _ \<Rightarrow> from_utf8_lossy d)"

definition describe :: "SyscallEvent \<Rightarrow> string" where
  "describe e =
     ''pid='' @ dec (unat (ev_pid e)) @ '' comm='' @ comm_lossy e @ '' '' @ syscall_name e
     @ '' '' @ detail_display e"

section \<open>IPv4 flows\<close>

record FlowKey =
  fk_src_addr :: u32
  fk_dst_addr :: u32
  fk_src_port :: u16
  fk_dst_port :: u16
  fk_proto :: u8
  fk_pad :: bytes

definition FlowKey_new :: "u32 \<Rightarrow> u32 \<Rightarrow> u16 \<Rightarrow> u16 \<Rightarrow> u8 \<Rightarrow> FlowKey" where
  "FlowKey_new src_addr dst_addr src_port dst_port proto =
     \<lparr>fk_src_addr = src_addr, fk_dst_addr = dst_addr, fk_src_port = src_port,
      fk_dst_port = dst_port, fk_proto = proto, fk_pad = [0, 0, 0]\<rparr>"

definition FLOW_KEY_SIZE :: usize where
  "FLOW_KEY_SIZE = 16"

definition FlowKey_from_bytes :: "bytes \<Rightarrow> FlowKey option" where
  "FlowKey_from_bytes b =
     (if length b < FLOW_KEY_SIZE then None
      else do {
        s \<leftarrow> slice_get b 0 4;
        d \<leftarrow> slice_get b 4 8;
        sp \<leftarrow> slice_get b 8 10;
        dp \<leftarrow> slice_get b 10 12;
        p \<leftarrow> slice_at b 12;
        Some (FlowKey_new (from_le_bytes s) (from_le_bytes d) (from_le_bytes sp) (from_le_bytes dp) p)
      })"

definition fmt_proto :: "u8 \<Rightarrow> string" where
  "fmt_proto p =
     (if p = IPPROTO_TCP then ''tcp'' else if p = IPPROTO_UDP then ''udp''
      else ''proto '' @ dec (unat p))"

definition FlowKey_display :: "FlowKey \<Rightarrow> string" where
  "FlowKey_display k =
     fmt_ipv4 (to_be_bytes 4 (fk_src_addr k)) @ '':'' @ dec (unat (fk_src_port k)) @ '' -> ''
     @ fmt_ipv4 (to_be_bytes 4 (fk_dst_addr k)) @ '':'' @ dec (unat (fk_dst_port k)) @ '' ''
     @ fmt_proto (fk_proto k)"

record FlowCounts =
  ingress_packets :: u64
  ingress_bytes :: u64
  egress_packets :: u64
  egress_bytes :: u64

definition FLOW_COUNTS_SIZE :: usize where
  "FLOW_COUNTS_SIZE = 32"

definition FlowCounts_from_bytes :: "bytes \<Rightarrow> FlowCounts option" where
  "FlowCounts_from_bytes b =
     (if length b < FLOW_COUNTS_SIZE then None
      else do {
        ip \<leftarrow> slice_get b 0 8;
        ib \<leftarrow> slice_get b 8 16;
        ep \<leftarrow> slice_get b 16 24;
        eb \<leftarrow> slice_get b 24 32;
        Some \<lparr>ingress_packets = from_le_bytes ip, ingress_bytes = from_le_bytes ib,
              egress_packets = from_le_bytes ep, egress_bytes = from_le_bytes eb\<rparr>
      })"

definition parse_ipv4_5tuple :: "bytes \<Rightarrow> FlowKey option" where
  "parse_ipv4_5tuple frame = do {
     e0 \<leftarrow> slice_at frame ETHERTYPE_OFFSET;
     e1 \<leftarrow> slice_at frame (ETHERTYPE_OFFSET + 1);
     if (from_be_bytes [e0, e1] :: u16) \<noteq> ETH_P_IP then None
     else do {
       ip \<leftarrow> slice_from frame ETH_HLEN;
       b0 \<leftarrow> slice_at ip 0;
       (let ihl = unat (b0 AND 0x0f) * 4 in
        if ihl < 20 then None
        else do {
          proto \<leftarrow> slice_at ip 9;
          src \<leftarrow> slice_get ip 12 16;
          dst \<leftarrow> slice_get ip 16 20;
          f0 \<leftarrow> slice_at ip 6;
          f1 \<leftarrow> slice_at ip 7;
          (if (from_be_bytes [f0, f1] :: u16) AND 0x1fff = 0
              \<and> (proto = IPPROTO_TCP \<or> proto = IPPROTO_UDP)
           then do {
             l4 \<leftarrow> slice_from ip ihl;
             p0 \<leftarrow> slice_at l4 0;
             p1 \<leftarrow> slice_at l4 1;
             p2 \<leftarrow> slice_at l4 2;
             p3 \<leftarrow> slice_at l4 3;
             Some (FlowKey_new (from_be_bytes src) (from_be_bytes dst)
                     (from_be_bytes [p0, p1]) (from_be_bytes [p2, p3]) proto)
           }
           else Some (FlowKey_new (from_be_bytes src) (from_be_bytes dst) 0 0 proto))
        })
     }
   }"

section \<open>IPv4 allow-list\<close>

record PolicyRule =
  pr_addr :: u32
  pr_port :: u16
  pr_prefix_len :: u8
  pr_proto :: u8
  pr_active :: u8
  pr_pad :: bytes

definition POLICY_RULE_SIZE :: usize where
  "POLICY_RULE_SIZE = 12"

definition PolicyRule_allow :: "u32 \<Rightarrow> u8 \<Rightarrow> u16 \<Rightarrow> u8 \<Rightarrow> PolicyRule" where
  "PolicyRule_allow addr prefix_len port proto =
     \<lparr>pr_addr = addr, pr_port = port, pr_prefix_len = prefix_len, pr_proto = proto,
      pr_active = 1, pr_pad = [0, 0, 0]\<rparr>"

definition PolicyRule_default :: PolicyRule where
  "PolicyRule_default =
     \<lparr>pr_addr = 0, pr_port = 0, pr_prefix_len = 0, pr_proto = 0, pr_active = 0, pr_pad = [0, 0, 0]\<rparr>"

definition PolicyRule_to_bytes :: "PolicyRule \<Rightarrow> bytes" where
  "PolicyRule_to_bytes r =
     to_le_bytes 4 (pr_addr r) @ to_le_bytes 2 (pr_port r)
     @ [pr_prefix_len r, pr_proto r, pr_active r, 0, 0, 0]"

definition PolicyRule_from_bytes :: "bytes \<Rightarrow> PolicyRule option" where
  "PolicyRule_from_bytes b =
     (if length b < POLICY_RULE_SIZE then None
      else do {
        a \<leftarrow> slice_get b 0 4;
        p \<leftarrow> slice_get b 4 6;
        len \<leftarrow> slice_at b 6;
        proto \<leftarrow> slice_at b 7;
        act \<leftarrow> slice_at b 8;
        Some \<lparr>pr_addr = from_le_bytes a, pr_port = from_le_bytes p, pr_prefix_len = len,
              pr_proto = proto, pr_active = act, pr_pad = [0, 0, 0]\<rparr>
      })"

text \<open>The shift is computed on \<open>u32\<close>; \<open>u32::MAX << shift\<close> is only reached with a shift below 32.\<close>

definition rule_matches :: "PolicyRule \<Rightarrow> u32 \<Rightarrow> u16 \<Rightarrow> u8 \<Rightarrow> bool" where
  "rule_matches rule dst_addr dst_port proto =
     (if pr_active rule = 0 \<or> pr_prefix_len rule > 32 then False
      else
        (let shift = 32 - unat (pr_prefix_len rule);
             mask = (if shift \<ge> 32 then 0 else push_bit shift (- 1)) :: u32
         in (dst_addr AND mask) = (pr_addr rule AND mask)
            \<and> (pr_port rule = 0 \<or> pr_port rule = dst_port)
            \<and> (pr_proto rule = 0 \<or> pr_proto rule = proto)))"

definition egress_allowed :: "PolicyRule list \<Rightarrow> u32 \<Rightarrow> u16 \<Rightarrow> u8 \<Rightarrow> bool" where
  "egress_allowed rules dst_addr dst_port proto =
     list_ex (\<lambda>r. rule_matches r dst_addr dst_port proto) rules"

section \<open>IPv6 flows and allow-list\<close>

record FlowKey6 =
  fk6_src_addr :: bytes
  fk6_dst_addr :: bytes
  fk6_src_port :: u16
  fk6_dst_port :: u16
  fk6_proto :: u8
  fk6_pad :: bytes

definition FLOW_KEY6_SIZE :: usize where
  "FLOW_KEY6_SIZE = 40"

definition FlowKey6_new :: "bytes \<Rightarrow> bytes \<Rightarrow> u16 \<Rightarrow> u16 \<Rightarrow> u8 \<Rightarrow> FlowKey6" where
  "FlowKey6_new src_addr dst_addr src_port dst_port proto =
     \<lparr>fk6_src_addr = src_addr, fk6_dst_addr = dst_addr, fk6_src_port = src_port,
      fk6_dst_port = dst_port, fk6_proto = proto, fk6_pad = [0, 0, 0]\<rparr>"

definition FlowKey6_from_bytes :: "bytes \<Rightarrow> FlowKey6 option" where
  "FlowKey6_from_bytes b =
     (if length b < FLOW_KEY6_SIZE then None
      else do {
        src \<leftarrow> slice_get b 0 16;
        dst \<leftarrow> slice_get b 16 32;
        sp \<leftarrow> slice_get b 32 34;
        dp \<leftarrow> slice_get b 34 36;
        p \<leftarrow> slice_at b 36;
        Some (FlowKey6_new src dst (from_le_bytes sp) (from_le_bytes dp) p)
      })"

definition FlowKey6_display :: "FlowKey6 \<Rightarrow> string" where
  "FlowKey6_display k =
     ''['' @ fmt_ipv6 (fk6_src_addr k) @ '']:'' @ dec (unat (fk6_src_port k)) @ '' -> [''
     @ fmt_ipv6 (fk6_dst_addr k) @ '']:'' @ dec (unat (fk6_dst_port k)) @ '' ''
     @ fmt_proto (fk6_proto k)"

definition parse_ipv6_5tuple :: "bytes \<Rightarrow> FlowKey6 option" where
  "parse_ipv6_5tuple frame = do {
     e0 \<leftarrow> slice_at frame ETHERTYPE_OFFSET;
     e1 \<leftarrow> slice_at frame (ETHERTYPE_OFFSET + 1);
     if (from_be_bytes [e0, e1] :: u16) \<noteq> ETH_P_IPV6 then None
     else do {
       ip \<leftarrow> slice_from frame ETH_HLEN;
       next_header \<leftarrow> slice_at ip 6;
       src \<leftarrow> slice_get ip 8 24;
       dst \<leftarrow> slice_get ip 24 40;
       (if next_header = IPPROTO_TCP \<or> next_header = IPPROTO_UDP
        then do {
          l4 \<leftarrow> slice_from ip 40;
          p0 \<leftarrow> slice_at l4 0;
          p1 \<leftarrow> slice_at l4 1;
          p2 \<leftarrow> slice_at l4 2;
          p3 \<leftarrow> slice_at l4 3;
          Some (FlowKey6_new src dst (from_be_bytes [p0, p1]) (from_be_bytes [p2, p3]) next_header)
        }
        else Some (FlowKey6_new src dst 0 0 next_header))
     }
   }"

record PolicyRule6 =
  pr6_addr :: bytes
  pr6_port :: u16
  pr6_prefix_len :: u8
  pr6_proto :: u8
  pr6_active :: u8
  pr6_pad :: bytes

definition POLICY_RULE6_SIZE :: usize where
  "POLICY_RULE6_SIZE = 24"

definition PolicyRule6_allow :: "bytes \<Rightarrow> u8 \<Rightarrow> u16 \<Rightarrow> u8 \<Rightarrow> PolicyRule6" where
  "PolicyRule6_allow addr prefix_len port proto =
     \<lparr>pr6_addr = addr, pr6_port = port, pr6_prefix_len = prefix_len, pr6_proto = proto,
      pr6_active = 1, pr6_pad = [0, 0, 0]\<rparr>"

definition PolicyRule6_default :: PolicyRule6 where
  "PolicyRule6_default =
     \<lparr>pr6_addr = replicate 16 0, pr6_port = 0, pr6_prefix_len = 0, pr6_proto = 0, pr6_active = 0,
      pr6_pad = [0, 0, 0]\<rparr>"

definition PolicyRule6_to_bytes :: "PolicyRule6 \<Rightarrow> bytes" where
  "PolicyRule6_to_bytes r =
     pr6_addr r @ to_le_bytes 2 (pr6_port r)
     @ [pr6_prefix_len r, pr6_proto r, pr6_active r, 0, 0, 0]"

text \<open>The bounded \<open>while\<close> over the sixteen address bytes.\<close>

function addr6_loop :: "bytes \<Rightarrow> bytes \<Rightarrow> nat \<Rightarrow> nat \<Rightarrow> nat \<Rightarrow> bool" where
  "addr6_loop addr net full rem i =
     (if i < 16 then
        if i < full \<and> addr ! i \<noteq> net ! i then False
        else if i = full \<and> rem \<noteq> 0
             \<and> (addr ! i AND push_bit (8 - rem) 0xff) \<noteq> (net ! i AND push_bit (8 - rem) 0xff) then False
        else addr6_loop addr net full rem (i + 1)
      else True)"
  by pat_completeness auto
termination
  by (relation "measure (\<lambda>(addr, net, full, rem, i). 16 - i)") auto

declare addr6_loop.simps [simp del]

definition addr6_in_prefix :: "bytes \<Rightarrow> bytes \<Rightarrow> u8 \<Rightarrow> bool" where
  "addr6_in_prefix addr net prefix_len =
     addr6_loop addr net (unat prefix_len div 8) (unat prefix_len mod 8) 0"

definition rule_matches6 :: "PolicyRule6 \<Rightarrow> bytes \<Rightarrow> u16 \<Rightarrow> u8 \<Rightarrow> bool" where
  "rule_matches6 rule dst_addr dst_port proto =
     (if pr6_active rule = 0 \<or> pr6_prefix_len rule > 128 then False
      else addr6_in_prefix dst_addr (pr6_addr rule) (pr6_prefix_len rule)
           \<and> (pr6_port rule = 0 \<or> pr6_port rule = dst_port)
           \<and> (pr6_proto rule = 0 \<or> pr6_proto rule = proto))"

definition egress_allowed6 :: "PolicyRule6 list \<Rightarrow> bytes \<Rightarrow> u16 \<Rightarrow> u8 \<Rightarrow> bool" where
  "egress_allowed6 rules dst_addr dst_port proto =
     list_ex (\<lambda>r. rule_matches6 r dst_addr dst_port proto) rules"

definition LINK_LOCAL :: bytes where "LINK_LOCAL = [0xfe, 0x80] @ replicate 14 0"
definition LINK_MCAST :: bytes where "LINK_MCAST = [0xff, 0x02] @ replicate 14 0"
definition ULA :: bytes where "ULA = [0xfc] @ replicate 15 0"

definition icmp6_dst_on_link :: "bytes \<Rightarrow> bool" where
  "icmp6_dst_on_link dst \<longleftrightarrow>
     addr6_in_prefix dst LINK_LOCAL 10 \<or> addr6_in_prefix dst LINK_MCAST 16
     \<or> addr6_in_prefix dst ULA 7"

section \<open>Memory images\<close>

text \<open>The \<open>#[repr(C)]\<close> bytes of the records the kernel writes and the host reads.\<close>

definition event_image :: "SyscallEvent \<Rightarrow> bytes" where
  "event_image e =
     to_le_bytes 8 (ev_cgroup_id e) @ to_le_bytes 4 (ev_pid e) @ to_le_bytes 4 (ev_tid e)
     @ to_le_bytes 4 (ev_syscall e) @ to_le_bytes 4 (ev_detail_len e) @ ev_comm e @ ev_detail e"

definition flow_key_image :: "FlowKey \<Rightarrow> bytes" where
  "flow_key_image k =
     to_le_bytes 4 (fk_src_addr k) @ to_le_bytes 4 (fk_dst_addr k) @ to_le_bytes 2 (fk_src_port k)
     @ to_le_bytes 2 (fk_dst_port k) @ [fk_proto k] @ fk_pad k"

definition flow_key6_image :: "FlowKey6 \<Rightarrow> bytes" where
  "flow_key6_image k =
     fk6_src_addr k @ fk6_dst_addr k @ to_le_bytes 2 (fk6_src_port k)
     @ to_le_bytes 2 (fk6_dst_port k) @ [fk6_proto k] @ fk6_pad k"

definition flow_counts_image :: "FlowCounts \<Rightarrow> bytes" where
  "flow_counts_image c =
     to_le_bytes 8 (ingress_packets c) @ to_le_bytes 8 (ingress_bytes c)
     @ to_le_bytes 8 (egress_packets c) @ to_le_bytes 8 (egress_bytes c)"

text \<open>Which values the types admit: array lengths, and the padding the constructors zero.\<close>

definition ok_event :: "SyscallEvent \<Rightarrow> bool" where
  "ok_event e \<longleftrightarrow> length (ev_comm e) = COMM_CAP \<and> length (ev_detail e) = DETAIL_CAP"

definition ok_key :: "FlowKey \<Rightarrow> bool" where
  "ok_key k \<longleftrightarrow> fk_pad k = [0, 0, 0]"

definition ok_key6 :: "FlowKey6 \<Rightarrow> bool" where
  "ok_key6 k \<longleftrightarrow> length (fk6_src_addr k) = 16 \<and> length (fk6_dst_addr k) = 16 \<and> fk6_pad k = [0, 0, 0]"

definition ok_rule :: "PolicyRule \<Rightarrow> bool" where
  "ok_rule r \<longleftrightarrow> pr_pad r = [0, 0, 0]"

locale repr_c =
  fixes image :: "'a \<Rightarrow> bytes" and from_b :: "bytes \<Rightarrow> 'a option" and size_b :: nat and ok_b :: "'a \<Rightarrow> bool"
  assumes length_image: "ok_b x \<Longrightarrow> length (image x) = size_b"
    and from_image: "ok_b x \<Longrightarrow> from_b (image x @ rest) = Some x"
    and from_short: "length bs < size_b \<Longrightarrow> from_b bs = None"
    and from_total: "size_b \<le> length bs \<Longrightarrow> \<exists>x. from_b bs = Some x \<and> ok_b x"
begin

lemma image_inj: "ok_b x \<Longrightarrow> ok_b y \<Longrightarrow> image x = image y \<longleftrightarrow> x = y"
  by (metis from_image option.inject)

lemma from_None_iff: "from_b bs = None \<longleftrightarrow> length bs < size_b"
  using from_short [of bs] from_total [of bs] by (auto simp: not_le [symmetric])

lemma from_ok: "from_b bs = Some x \<Longrightarrow> ok_b x"
  using from_total [of bs] from_None_iff [of bs] by (auto simp: not_le [symmetric])

end

lemmas layout_defs = slice_get_def slice_at_def from_le_to_le nth_append

interpretation event_repr: repr_c event_image SyscallEvent_from_bytes EVENT_SIZE ok_event
proof unfold_locales
  fix e rest
  assume ok: "ok_event e"
  then show "length (event_image e) = EVENT_SIZE"
    by (simp add: event_image_def ok_event_def EVENT_SIZE_def)
  show "SyscallEvent_from_bytes (event_image e @ rest) = Some e"
    using ok by (simp add: event_image_def SyscallEvent_from_bytes_def EVENT_SIZE_def ok_event_def
        COMM_CAP_def DETAIL_CAP_def slice_get_def from_le_to_le)
next
  fix bs :: bytes
  show "length bs < EVENT_SIZE \<Longrightarrow> SyscallEvent_from_bytes bs = None"
    by (simp add: SyscallEvent_from_bytes_def)
  assume "EVENT_SIZE \<le> length bs"
  then show "\<exists>x. SyscallEvent_from_bytes bs = Some x \<and> ok_event x"
    by (simp add: SyscallEvent_from_bytes_def EVENT_SIZE_def ok_event_def COMM_CAP_def DETAIL_CAP_def
        slice_get_def)
qed

interpretation key_repr: repr_c flow_key_image FlowKey_from_bytes FLOW_KEY_SIZE ok_key
  by unfold_locales
    (auto simp: flow_key_image_def FlowKey_from_bytes_def FLOW_KEY_SIZE_def ok_key_def FlowKey_new_def
      layout_defs)

interpretation key6_repr: repr_c flow_key6_image FlowKey6_from_bytes FLOW_KEY6_SIZE ok_key6
  by unfold_locales
    (auto simp: flow_key6_image_def FlowKey6_from_bytes_def FLOW_KEY6_SIZE_def ok_key6_def
      FlowKey6_new_def layout_defs)

interpretation counts_repr: repr_c flow_counts_image FlowCounts_from_bytes FLOW_COUNTS_SIZE "\<lambda>_. True"
  by unfold_locales
    (auto simp: flow_counts_image_def FlowCounts_from_bytes_def FLOW_COUNTS_SIZE_def layout_defs)

interpretation rule_repr: repr_c PolicyRule_to_bytes PolicyRule_from_bytes POLICY_RULE_SIZE ok_rule
  by unfold_locales
    (auto simp: PolicyRule_to_bytes_def PolicyRule_from_bytes_def POLICY_RULE_SIZE_def ok_rule_def
      layout_defs)

section \<open>Prefix matching\<close>

lemma masked_eq_iff:
  "(a AND push_bit s (- 1)) = (b AND push_bit s (- 1 :: 'a::len word)) \<longleftrightarrow>
     (\<forall>i. s \<le> i \<and> i < LENGTH('a) \<longrightarrow> bit a i = bit b i)"
  by (auto simp: bit_eq_iff bit_simps)

text \<open>Bit \<open>k\<close> of an address in network order, counted from the most significant bit.\<close>

definition addr4_bit :: "u32 \<Rightarrow> nat \<Rightarrow> bool" where
  "addr4_bit a k \<longleftrightarrow> bit a (31 - k)"

definition addr6_bit :: "bytes \<Rightarrow> nat \<Rightarrow> bool" where
  "addr6_bit a k \<longleftrightarrow> bit (a ! (k div 8)) (7 - k mod 8)"

lemma masked_high_bits:
  assumes "p \<le> 32"
  shows "(\<forall>i. 32 - p \<le> i \<and> i < 32 \<longrightarrow> bit a i = bit b i) \<longleftrightarrow>
    (\<forall>k < p. addr4_bit a k = addr4_bit b k)"
proof
  assume l: "\<forall>i. 32 - p \<le> i \<and> i < 32 \<longrightarrow> bit a i = bit b i"
  show "\<forall>k < p. addr4_bit a k = addr4_bit b k"
  proof (intro allI impI)
    fix k
    assume "k < p"
    then have "32 - p \<le> 31 - k \<and> 31 - k < 32" by auto
    then show "addr4_bit a k = addr4_bit b k" using l by (simp add: addr4_bit_def)
  qed
next
  assume r: "\<forall>k < p. addr4_bit a k = addr4_bit b k"
  show "\<forall>i. 32 - p \<le> i \<and> i < 32 \<longrightarrow> bit a i = bit b i"
  proof (intro allI impI)
    fix i
    assume i: "32 - p \<le> i \<and> i < 32"
    then have "31 - i < p" "31 - (31 - i) = i" using assms by auto
    then show "bit a i = bit b i" using r by (metis addr4_bit_def)
  qed
qed

lemma rule_matches_cidr:
  "rule_matches r d port proto \<longleftrightarrow>
     pr_active r \<noteq> 0 \<and> pr_prefix_len r \<le> 32
     \<and> (\<forall>k < unat (pr_prefix_len r). addr4_bit d k = addr4_bit (pr_addr r) k)
     \<and> (pr_port r = 0 \<or> pr_port r = port) \<and> (pr_proto r = 0 \<or> pr_proto r = proto)"
proof (cases "pr_active r = 0 \<or> pr_prefix_len r > 32")
  case True
  then show ?thesis by (auto simp: rule_matches_def)
next
  case False
  let ?p = "unat (pr_prefix_len r)"
  have p: "?p \<le> 32" using False by (simp add: word_less_nat_alt not_less)
  let ?mask = "(if 32 - ?p \<ge> 32 then 0 else push_bit (32 - ?p) (- 1)) :: u32"
  have "(d AND ?mask) = (pr_addr r AND ?mask) \<longleftrightarrow>
      (\<forall>k < ?p. addr4_bit d k = addr4_bit (pr_addr r) k)"
  proof (cases "?p = 0")
    case True
    then show ?thesis by simp
  next
    case False
    then have "?mask = push_bit (32 - ?p) (- 1)" using p by simp
    then show ?thesis using masked_high_bits [OF p] by (simp only: masked_eq_iff) simp
  qed
  then show ?thesis
    by (simp only: rule_matches_def if_not_P [OF False] Let_def) (use False in \<open>auto simp: not_less\<close>)
qed

lemma all_from_split:
  "i < n \<Longrightarrow> (\<forall>j. i \<le> j \<and> j < n \<longrightarrow> P j) \<longleftrightarrow> P i \<and> (\<forall>j. i + 1 \<le> j \<and> j < n \<longrightarrow> P j)" for n :: nat
  by (metis Suc_eq_plus1 Suc_le_eq le_less order_refl)

lemma all_div_mod:
  "(\<forall>j m. m < 8 \<and> 8 * j + m < p \<longrightarrow> Q j m) \<longleftrightarrow> (\<forall>k < p. Q (k div 8) (k mod 8))" for p :: nat
proof
  assume r: "\<forall>k < p. Q (k div 8) (k mod 8)"
  show "\<forall>j m. m < 8 \<and> 8 * j + m < p \<longrightarrow> Q j m"
  proof (intro allI impI)
    fix j m
    assume jm: "m < 8 \<and> 8 * j + m < p"
    then have "(8 * j + m) div 8 = j" "(8 * j + m) mod 8 = m" by simp_all
    then show "Q j m" using r jm by metis
  qed
qed simp

lemma addr6_loop_iff:
  "addr6_loop a n full rem i \<longleftrightarrow>
     (\<forall>j. i \<le> j \<and> j < 16 \<longrightarrow> (j < full \<longrightarrow> a ! j = n ! j)
        \<and> (j = full \<and> rem \<noteq> 0 \<longrightarrow> (a ! j AND push_bit (8 - rem) 0xff) = (n ! j AND push_bit (8 - rem) 0xff)))"
proof (induction a n full rem i rule: addr6_loop.induct)
  case (1 a n full rem i)
  let ?P = "\<lambda>j. (j < full \<longrightarrow> a ! j = n ! j) \<and> (j = full \<and> rem \<noteq> 0 \<longrightarrow>
    (a ! j AND push_bit (8 - rem) 0xff) = (n ! j AND push_bit (8 - rem) 0xff))"
  show ?case
  proof (cases "i < 16")
    case True
    have split: "(\<forall>j. i \<le> j \<and> j < 16 \<longrightarrow> ?P j) \<longleftrightarrow> ?P i \<and> (\<forall>j. i + 1 \<le> j \<and> j < 16 \<longrightarrow> ?P j)"
      by (rule all_from_split [OF True])
    show ?thesis
    proof (cases "?P i")
      case P: True
      then have "addr6_loop a n full rem i = addr6_loop a n full rem (i + 1)"
        using True by (subst addr6_loop.simps) auto
      also have "\<dots> \<longleftrightarrow> (\<forall>j. i + 1 \<le> j \<and> j < 16 \<longrightarrow> ?P j)"
        by (rule "1.IH") (use True P in auto)
      finally show ?thesis unfolding split using P by blast
    next
      case False
      then have "\<not> addr6_loop a n full rem i" using True by (subst addr6_loop.simps) auto
      then show ?thesis unfolding split using False by blast
    qed
  qed (auto simp: addr6_loop.simps)
qed

lemma byte_eq_bits: "(x :: u8) = y \<longleftrightarrow> (\<forall>m < 8. bit x (7 - m) = bit y (7 - m))"
proof
  assume r: "\<forall>m < 8. bit x (7 - m) = bit y (7 - m)"
  have "bit x i = bit y i" if "i < 8" for i
  proof -
    have "7 - (7 - i) = i" "7 - i < 8" using that by auto
    then show ?thesis using r by metis
  qed
  then show "x = y" by (intro bit_word_eqI) simp
qed simp

lemma byte_mask_bits:
  assumes "rem < 8"
  shows "((x :: u8) AND push_bit (8 - rem) 0xff) = (y AND push_bit (8 - rem) 0xff) \<longleftrightarrow>
    (\<forall>m < rem. bit x (7 - m) = bit y (7 - m))"
proof -
  have ff: "(0xff :: u8) = - 1" by simp
  have "(\<forall>i. 8 - rem \<le> i \<and> i < 8 \<longrightarrow> bit x i = bit y i) \<longleftrightarrow> (\<forall>m < rem. bit x (7 - m) = bit y (7 - m))"
    (is "?l \<longleftrightarrow> ?r")
  proof
    assume l: ?l
    show ?r
    proof (intro allI impI)
      fix m
      assume "m < rem"
      then have "8 - rem \<le> 7 - m \<and> 7 - m < 8" by auto
      then show "bit x (7 - m) = bit y (7 - m)" using l by blast
    qed
  next
    assume r: ?r
    show ?l
    proof (intro allI impI)
      fix i
      assume "8 - rem \<le> i \<and> i < 8"
      then have "7 - (7 - i) = i" "7 - i < rem" using assms by auto
      then show "bit x i = bit y i" using r by metis
    qed
  qed
  then show ?thesis unfolding ff masked_eq_iff by simp
qed

lemma block_iff:
  "m < 8 \<Longrightarrow> rem < 8 \<Longrightarrow> 8 * j + m < 8 * full + rem \<longleftrightarrow> j < full \<or> (j = full \<and> m < rem)" for j :: nat
  by (rule linorder_cases [of j full]) auto

lemma addr6_in_prefix_bits:
  assumes "unat p \<le> 128"
  shows "addr6_in_prefix a n p \<longleftrightarrow> (\<forall>k < unat p. addr6_bit a k = addr6_bit n k)"
proof -
  let ?full = "unat p div 8" and ?rem = "unat p mod 8"
  have rem: "?rem < 8" by simp
  have blk: "m < 8 \<Longrightarrow> 8 * j + m < unat p \<longleftrightarrow> j < ?full \<or> (j = ?full \<and> m < ?rem)" for j m
    using block_iff [OF _ rem, of m j ?full] by (simp only: mult_div_mod_eq)
  have "addr6_in_prefix a n p \<longleftrightarrow>
      (\<forall>j < 16. (j < ?full \<longrightarrow> (\<forall>m < 8. bit (a ! j) (7 - m) = bit (n ! j) (7 - m)))
        \<and> (j = ?full \<longrightarrow> (\<forall>m < ?rem. bit (a ! j) (7 - m) = bit (n ! j) (7 - m))))"
    unfolding addr6_in_prefix_def addr6_loop_iff byte_mask_bits [OF rem] byte_eq_bits [symmetric]
    by (intro all_cong1) (auto dest: gr_implies_not0)
  also have "\<dots> \<longleftrightarrow> (\<forall>j m. m < 8 \<and> 8 * j + m < unat p \<longrightarrow> bit (a ! j) (7 - m) = bit (n ! j) (7 - m))"
    (is "?l \<longleftrightarrow> ?r")
  proof
    assume l: ?l
    show ?r
    proof (intro allI impI)
      fix j m
      assume jm: "m < 8 \<and> 8 * j + m < unat p"
      then have "j < 16" "j < ?full \<or> (j = ?full \<and> m < ?rem)" using assms blk [of m j] by auto
      then show "bit (a ! j) (7 - m) = bit (n ! j) (7 - m)" using l jm by blast
    qed
  next
    assume r: ?r
    show ?l
    proof (intro allI impI conjI)
      fix j m
      assume "j < ?full" "m < (8 :: nat)"
      then have "8 * j + m < unat p" using blk by blast
      then show "bit (a ! j) (7 - m) = bit (n ! j) (7 - m)" using r \<open>m < 8\<close> by blast
    next
      fix j m
      assume "j = ?full" "m < ?rem"
      then have "8 * j + m < unat p" "m < 8" using blk rem less_trans by blast+
      then show "bit (a ! j) (7 - m) = bit (n ! j) (7 - m)" using r by blast
    qed
  qed
  also have "\<dots> \<longleftrightarrow> (\<forall>k < unat p. addr6_bit a k = addr6_bit n k)"
    unfolding addr6_bit_def by (rule all_div_mod)
  finally show ?thesis .
qed

section \<open>Allow-lists\<close>

text \<open>
  What the two rule families share: a rule that is not active, or whose prefix length is out of
  range, matches nothing. An allow-list stored in a fixed array whose unused slots hold inactive
  rules then admits what the list admits.
\<close>

locale allow_list =
  fixes matches :: "'r \<Rightarrow> 'd \<Rightarrow> bool" and empty_slot :: 'r
  assumes empty_matches_nothing: "\<not> matches empty_slot d"
begin

lemma slots_allow:
  "list_ex (\<lambda>r. matches r d) (rules @ replicate n empty_slot) \<longleftrightarrow> list_ex (\<lambda>r. matches r d) rules"
  by (auto simp: list_ex_iff empty_matches_nothing)

lemma deny_all: "\<not> list_ex (\<lambda>r. matches r d) (replicate n empty_slot)"
  by (simp add: list_ex_iff empty_matches_nothing)

end

interpretation v4_list: allow_list "\<lambda>r (d, port, proto). rule_matches r d port proto" PolicyRule_default
  by unfold_locales (auto simp: rule_matches_def PolicyRule_default_def)

interpretation v6_list: allow_list "\<lambda>r (d, port, proto). rule_matches6 r d port proto" PolicyRule6_default
  by unfold_locales (auto simp: rule_matches6_def PolicyRule6_default_def)

section \<open>Properties\<close>

text \<open>(C8) IPv4 rule matching is CIDR matching: an allow-list admits a destination exactly when some
  active rule of prefix length at most 32 agrees with it on that many leading address bits and on
  the port and the protocol it names, zero naming any.\<close>

theorem egress_allowed_cidr:
  "egress_allowed rules d port proto \<longleftrightarrow>
     (\<exists>r \<in> set rules. pr_active r \<noteq> 0 \<and> pr_prefix_len r \<le> 32
        \<and> (\<forall>k < unat (pr_prefix_len r). addr4_bit d k = addr4_bit (pr_addr r) k)
        \<and> pr_port r \<in> {0, port} \<and> pr_proto r \<in> {0, proto})"
  by (auto simp: egress_allowed_def list_ex_iff rule_matches_cidr)

theorem egress_allowed_cidr_witness:
  "egress_allowed [PolicyRule_allow 0x0a010000 16 443 6] 0x0a01ff07 443 6
   \<and> \<not> egress_allowed [PolicyRule_allow 0x0a010000 16 443 6] 0x0a02ff07 443 6"
proof -
  have "(\<forall>k < 16. addr4_bit 0x0a01ff07 k = addr4_bit 0x0a010000 k)"
    by (simp add: all_less_numeral addr4_bit_def)
  moreover have "\<not> (\<forall>k < 16. addr4_bit 0x0a02ff07 k = addr4_bit 0x0a010000 k)"
    by (simp add: all_less_numeral addr4_bit_def)
  ultimately show ?thesis
    unfolding egress_allowed_cidr by (simp add: PolicyRule_allow_def)
qed

text \<open>IPv6 rule matching is CIDR matching too: the byte-wise loop with its partial byte compares
  exactly the leading bits the prefix length names.\<close>

theorem egress_allowed6_cidr:
  "egress_allowed6 rules d port proto \<longleftrightarrow>
     (\<exists>r \<in> set rules. pr6_active r \<noteq> 0 \<and> pr6_prefix_len r \<le> 128
        \<and> (\<forall>k < unat (pr6_prefix_len r). addr6_bit d k = addr6_bit (pr6_addr r) k)
        \<and> pr6_port r \<in> {0, port} \<and> pr6_proto r \<in> {0, proto})"
proof -
  have "rule_matches6 r d port proto \<longleftrightarrow> pr6_active r \<noteq> 0 \<and> pr6_prefix_len r \<le> 128
      \<and> (\<forall>k < unat (pr6_prefix_len r). addr6_bit d k = addr6_bit (pr6_addr r) k)
      \<and> pr6_port r \<in> {0, port} \<and> pr6_proto r \<in> {0, proto}" for r
  proof (cases "pr6_prefix_len r \<le> 128")
    case True
    then have "unat (pr6_prefix_len r) \<le> 128" by (simp add: word_le_nat_alt)
    then show ?thesis using True
      by (auto simp: rule_matches6_def addr6_in_prefix_bits not_less)
  qed (auto simp: rule_matches6_def)
  then show ?thesis by (simp add: egress_allowed6_def list_ex_iff)
qed

theorem egress_allowed6_cidr_witness:
  "egress_allowed6 [PolicyRule6_allow ULA 7 0 0] ([0xfd, 1] @ replicate 14 9) 53 17
   \<and> \<not> egress_allowed6 [PolicyRule6_allow ULA 7 0 0] ([0x20, 1] @ replicate 14 9) 53 17"
proof -
  have "(\<forall>k < 7. addr6_bit ([0xfd, 1] @ replicate 14 9) k = addr6_bit ULA k)"
    by (simp add: all_less_numeral addr6_bit_def ULA_def)
  moreover have "\<not> (\<forall>k < 7. addr6_bit ([0x20, 1] @ replicate 14 9) k = addr6_bit ULA k)"
    by (simp add: all_less_numeral addr6_bit_def ULA_def)
  ultimately show ?thesis
    unfolding egress_allowed6_cidr by (simp add: PolicyRule6_allow_def)
qed

text \<open>The records that cross the eBPF boundary survive it: reading back the memory image of an
  event, a flow key of either family, a counter or a rule gives the value that was written, and
  two flow keys have the same image (hash to the same map slot) only when they are equal.\<close>

theorem boundary_records_roundtrip:
  "(ok_event e \<longrightarrow> SyscallEvent_from_bytes (event_image e) = Some e)
   \<and> (ok_key k \<longrightarrow> FlowKey_from_bytes (flow_key_image k) = Some k)
   \<and> (ok_key6 k6 \<longrightarrow> FlowKey6_from_bytes (flow_key6_image k6) = Some k6)
   \<and> FlowCounts_from_bytes (flow_counts_image c) = Some c
   \<and> (ok_rule r \<longrightarrow> PolicyRule_from_bytes (PolicyRule_to_bytes r) = Some r)
   \<and> (ok_key k \<and> ok_key k' \<longrightarrow> (flow_key_image k = flow_key_image k') = (k = k'))"
  using event_repr.from_image [of e "[]"] key_repr.from_image [of k "[]"]
    key6_repr.from_image [of k6 "[]"] counts_repr.from_image [of c "[]"]
    rule_repr.from_image [of r "[]"] key_repr.image_inj [of k k']
  by simp

theorem boundary_records_roundtrip_witness:
  "FlowKey_from_bytes (flow_key_image (FlowKey_new 1 2 3 4 6)) = Some (FlowKey_new 1 2 3 4 6)
   \<and> PolicyRule_from_bytes (PolicyRule_to_bytes (PolicyRule_allow 9 24 443 6)) = Some (PolicyRule_allow 9 24 443 6)"
  using boundary_records_roundtrip [of undefined "FlowKey_new 1 2 3 4 6" undefined undefined
      "PolicyRule_allow 9 24 443 6" undefined]
  by (simp add: ok_key_def FlowKey_new_def ok_rule_def PolicyRule_allow_def)

text \<open>The on-link test that spares ICMPv6 from enforcement covers three scopes only:
  \<open>fe80::/10\<close>, \<open>ff02::/16\<close> and \<open>fc00::/7\<close>, read off the first two bytes.\<close>

theorem icmp6_on_link_scopes:
  "icmp6_dst_on_link dst \<longleftrightarrow>
     (dst ! 0 = 0xfe \<and> (dst ! 1 AND 0xc0) = 0x80) \<or> (dst ! 0 = 0xff \<and> dst ! 1 = 0x02)
     \<or> (dst ! 0 AND 0xfe) = 0xfc"
proof -
  have all16: "(\<forall>j. 0 \<le> j \<and> j < 16 \<longrightarrow> P j) \<longleftrightarrow> P 0 \<and> P 1 \<and> (\<forall>j. 2 \<le> j \<and> j < 16 \<longrightarrow> P j)" for P :: "nat \<Rightarrow> bool"
    using all_from_split [of 0 16 P] all_from_split [of 1 16 P] by (simp add: numeral_2_eq_2)
  have mask: "push_bit (8 - unat (10 :: u8) mod 8) (0xff :: u8) = 0xc0"
    "push_bit (8 - unat (7 :: u8) mod 8) (0xff :: u8) = 0xfe" by simp_all
  have "addr6_in_prefix dst LINK_LOCAL 10 \<longleftrightarrow> dst ! 0 = 0xfe \<and> (dst ! 1 AND 0xc0) = 0x80"
    unfolding addr6_in_prefix_def addr6_loop_iff all16 mask by (simp add: LINK_LOCAL_def)
  moreover have "addr6_in_prefix dst LINK_MCAST 16 \<longleftrightarrow> dst ! 0 = 0xff \<and> dst ! 1 = 0x02"
    unfolding addr6_in_prefix_def addr6_loop_iff all16 by (simp add: LINK_MCAST_def)
  moreover have "addr6_in_prefix dst ULA 7 \<longleftrightarrow> (dst ! 0 AND 0xfe) = 0xfc"
    unfolding addr6_in_prefix_def addr6_loop_iff all16 mask by (simp add: ULA_def)
  ultimately show ?thesis by (simp add: icmp6_dst_on_link_def)
qed

end
