(* ===== verification/Probes.thy ===== *)
theory Probes
  imports ProbesCommon
begin

text \<open>
  The in-kernel programs, \<open>crates/probes/src/main.rs\<close>: the execve counter, the syscall tracepoints
  with their filter, the tap classifiers that count flows and enforce the egress allow-list, and the
  scheduler accounting. Each program is a function from its context and the contents of its maps to
  its return value and the new contents. A hash map is its entries in iteration order; whether the
  kernel accepts a new key when \<open>n\<close> entries are present is the parameter \<open>accepts\<close> (a full map
  refuses), a per-CPU array maps the CPU number to its slot, and the helpers that read the current
  task and user memory are fields of the context. Counters are \<open>u64\<close> and wrap.
\<close>

section \<open>Maps\<close>

type_synonym ('k, 'v) hmap = "('k \<times> 'v) list"
type_synonym percpu = "nat \<Rightarrow> u64"

fun hm_update :: "'k \<Rightarrow> ('v \<Rightarrow> 'v) \<Rightarrow> ('k, 'v) hmap \<Rightarrow> ('k, 'v) hmap" where
  "hm_update k f [] = []"
| "hm_update k f ((k', v) # m) = (if k' = k then (k', f v) # m else (k', v) # hm_update k f m)"

text \<open>\<open>get_ptr_mut\<close> then, on a miss, \<open>insert\<close>: the new contents, and whether the key has a row.\<close>

definition lookup_or_init ::
    "(nat \<Rightarrow> bool) \<Rightarrow> 'k \<Rightarrow> ('v \<Rightarrow> 'v) \<Rightarrow> 'v \<Rightarrow> ('k, 'v) hmap \<Rightarrow> ('k, 'v) hmap \<times> bool" where
  "lookup_or_init accepts k f init m =
     (case map_of m k of
        Some _ \<Rightarrow> (hm_update k f m, True)
      | None \<Rightarrow> if accepts (length m) then (m @ [(k, init)], True) else (m, False))"

definition count_map_drop :: "nat \<Rightarrow> percpu \<Rightarrow> percpu" where
  "count_map_drop cpu c = c(cpu := c cpu + 1)"

definition MAX_PIDS :: nat where "MAX_PIDS = 4096"
definition MAX_FLOWS :: nat where "MAX_FLOWS = 4096"
definition MAX_CGROUPS :: nat where "MAX_CGROUPS = 1024"

section \<open>Syscall tracing\<close>

text \<open>What the helpers report of the current task, and of its memory.\<close>

record task =
  pid_tgid :: u64
  cgroup_id :: u64
  cur_comm :: "bytes option"
  arg_at :: "nat \<Rightarrow> u64 option"
  user_str :: "u64 \<Rightarrow> nat \<Rightarrow> bytes option"
  user_buf :: "u64 \<Rightarrow> nat \<Rightarrow> bytes option"

record trace_maps =
  execve_count :: percpu
  execve_by_pid :: "(u32, u64) hmap"
  events :: "SyscallEvent list"
  filter_tgid :: u64
  filter_cgroup :: u64
  trace_targets :: "u64 list"
  trace_set :: u32
  event_drops :: percpu

fun comm_loop :: "bytes \<Rightarrow> nat \<Rightarrow> nat" where
  "comm_loop [] n = n"
| "comm_loop (b # bs) n = (if b = 0 then n else comm_loop bs (min (n + 1) (2 ^ 32 - 1)))"

definition comm_or_default :: "task \<Rightarrow> bytes" where
  "comm_or_default t = (case cur_comm t of Some c \<Rightarrow> c | None \<Rightarrow> replicate COMM_CAP 0)"

definition tgid_of :: "task \<Rightarrow> u32" where
  "tgid_of t = ucast (drop_bit 32 (pid_tgid t))"

definition count_execve :: "(nat \<Rightarrow> bool) \<Rightarrow> nat \<Rightarrow> task \<Rightarrow> trace_maps \<Rightarrow> u32 \<times> trace_maps" where
  "count_execve accepts cpu t s =
     (let s1 = s\<lparr>execve_count := (execve_count s)(cpu := execve_count s cpu + 1)\<rparr> in
      if comm_loop (comm_or_default t) 0 = 0 then (0, s1)
      else (0, s1\<lparr>execve_by_pid :=
              fst (lookup_or_init accepts (tgid_of t) (\<lambda>c. c + 1) 1 (execve_by_pid s1))\<rparr>))"

definition passes_filter :: "trace_maps \<Rightarrow> u32 \<Rightarrow> u64 \<Rightarrow> bool" where
  "passes_filter s tgid cgroup =
     (if trace_set s \<noteq> 0 then cgroup \<in> set (trace_targets s)
      else (filter_tgid s = 0 \<or> filter_tgid s = ucast tgid)
           \<and> (filter_cgroup s = 0 \<or> filter_cgroup s = cgroup))"

definition pad_detail :: "bytes \<Rightarrow> bytes" where
  "pad_detail b = b @ replicate (DETAIL_CAP - length b) 0"

definition record_event :: "(nat \<Rightarrow> bool) \<Rightarrow> nat \<Rightarrow> task \<Rightarrow> Syscall \<Rightarrow> nat \<Rightarrow> bool \<Rightarrow> trace_maps \<Rightarrow> u32 \<times> trace_maps" where
  "record_event ring_accepts cpu t kind arg_off path_like s =
     (let tgid = tgid_of t; tid = ucast (pid_tgid t); cgroup = cgroup_id t in
      if \<not> passes_filter s tgid cgroup then (0, s)
      else
        (let detail =
               (case arg_at t arg_off of
                  None \<Rightarrow> (0, [])
                | Some src \<Rightarrow>
                    if path_like then
                      (case user_str t src DETAIL_CAP of
                         Some b \<Rightarrow> (length b, b) | None \<Rightarrow> (0, []))
                    else
                      (case user_buf t src SOCKADDR_SNAP of
                         Some b \<Rightarrow> (SOCKADDR_SNAP, b)
                       | None \<Rightarrow>
                           (case user_buf t src SOCKADDR_SNAP_V4 of
                              Some b \<Rightarrow> (SOCKADDR_SNAP_V4, b) | None \<Rightarrow> (0, []))));
             ev = \<lparr>ev_cgroup_id = cgroup, ev_pid = tgid, ev_tid = tid,
                   ev_syscall = Syscall_discr kind, ev_detail_len = word_of_nat (fst detail),
                   ev_comm = comm_or_default t, ev_detail = pad_detail (snd detail)\<rparr>
         in if ring_accepts (length (events s)) then (0, s\<lparr>events := events s @ [ev]\<rparr>)
            else (0, s\<lparr>event_drops := count_map_drop cpu (event_drops s)\<rparr>)))"

definition trace_execve :: "(nat \<Rightarrow> bool) \<Rightarrow> nat \<Rightarrow> task \<Rightarrow> trace_maps \<Rightarrow> u32 \<times> trace_maps" where
  "trace_execve ring cpu t = record_event ring cpu t Execve 16 True"

definition trace_openat :: "(nat \<Rightarrow> bool) \<Rightarrow> nat \<Rightarrow> task \<Rightarrow> trace_maps \<Rightarrow> u32 \<times> trace_maps" where
  "trace_openat ring cpu t = record_event ring cpu t Openat 24 True"

definition trace_connect :: "(nat \<Rightarrow> bool) \<Rightarrow> nat \<Rightarrow> task \<Rightarrow> trace_maps \<Rightarrow> u32 \<times> trace_maps" where
  "trace_connect ring cpu t = record_event ring cpu t Connect 24 False"

section \<open>The tap classifiers\<close>

datatype Verdict = Pass | Drop

definition TC_ACT_OK :: i32 where "TC_ACT_OK = 0"
definition TC_ACT_SHOT :: i32 where "TC_ACT_SHOT = 2"

fun as_tc :: "Verdict \<Rightarrow> i32" where
  "as_tc Pass = TC_ACT_OK"
| "as_tc Drop = TC_ACT_SHOT"

datatype Direction = Ingress | Egress

record TcContext =
  frame :: bytes
  skb_len :: u32

record tap_maps =
  flows :: "(FlowKey, FlowCounts) hmap"
  denials :: "(FlowKey, u64) hmap"
  flows6 :: "(FlowKey6, FlowCounts) hmap"
  denials6 :: "(FlowKey6, u64) hmap"
  flow_drops :: percpu
  denial_drops :: percpu
  unparsed_l3 :: percpu
  policy :: "PolicyRule list"
  policy6 :: "PolicyRule6 list"
  enforce :: u32

text \<open>\<open>ctx.load::<T>(off)\<close> reads the bytes in memory order; \<open>u16::from_be\<close> swaps them on the
  little-endian target.\<close>

definition load_bytes :: "TcContext \<Rightarrow> nat \<Rightarrow> nat \<Rightarrow> bytes option" where
  "load_bytes ctx n off = slice_get (frame ctx) off (off + n)"

definition load_u8 :: "TcContext \<Rightarrow> nat \<Rightarrow> u8 option" where
  "load_u8 ctx off = map_option (\<lambda>b. b ! 0) (load_bytes ctx 1 off)"

definition load_u16 :: "TcContext \<Rightarrow> nat \<Rightarrow> u16 option" where
  "load_u16 ctx off = map_option from_le_bytes (load_bytes ctx 2 off)"

definition load_u32 :: "TcContext \<Rightarrow> nat \<Rightarrow> u32 option" where
  "load_u32 ctx off = map_option from_le_bytes (load_bytes ctx 4 off)"

definition u16_from_be :: "u16 \<Rightarrow> u16" where
  "u16_from_be x = from_be_bytes (to_le_bytes 2 x)"

definition u32_from_be :: "u32 \<Rightarrow> u32" where
  "u32_from_be x = from_be_bytes (to_le_bytes 4 x)"

definition parse :: "TcContext \<Rightarrow> FlowKey option" where
  "parse ctx = do {
     et \<leftarrow> load_u16 ctx ETHERTYPE_OFFSET;
     if u16_from_be et \<noteq> ETH_P_IP then None
     else do {
       version_ihl \<leftarrow> load_u8 ctx ETH_HLEN;
       (let ihl = unat (version_ihl AND 0x0f) * 4 in
        if ihl < 20 then None
        else do {
          proto \<leftarrow> load_u8 ctx (ETH_HLEN + 9);
          src \<leftarrow> load_u32 ctx (ETH_HLEN + 12);
          dst \<leftarrow> load_u32 ctx (ETH_HLEN + 16);
          fo \<leftarrow> load_u16 ctx (ETH_HLEN + 6);
          (if u16_from_be fo AND 0x1fff = 0 \<and> (proto = IPPROTO_TCP \<or> proto = IPPROTO_UDP)
           then do {
             sp \<leftarrow> load_u16 ctx (ETH_HLEN + ihl);
             dp \<leftarrow> load_u16 ctx (ETH_HLEN + ihl + 2);
             Some (FlowKey_new (u32_from_be src) (u32_from_be dst) (u16_from_be sp) (u16_from_be dp) proto)
           }
           else Some (FlowKey_new (u32_from_be src) (u32_from_be dst) 0 0 proto))
        })
     }
   }"

definition parse6 :: "TcContext \<Rightarrow> FlowKey6 option" where
  "parse6 ctx = do {
     et \<leftarrow> load_u16 ctx ETHERTYPE_OFFSET;
     if u16_from_be et \<noteq> ETH_P_IPV6 then None
     else do {
       next_header \<leftarrow> load_u8 ctx (ETH_HLEN + 6);
       src \<leftarrow> load_bytes ctx 16 (ETH_HLEN + 8);
       dst \<leftarrow> load_bytes ctx 16 (ETH_HLEN + 24);
       (if next_header = IPPROTO_TCP \<or> next_header = IPPROTO_UDP
        then do {
          sp \<leftarrow> load_u16 ctx (ETH_HLEN + 40);
          dp \<leftarrow> load_u16 ctx (ETH_HLEN + 40 + 2);
          Some (FlowKey6_new src dst (u16_from_be sp) (u16_from_be dp) next_header)
        }
        else Some (FlowKey6_new src dst 0 0 next_header))
     }
   }"

definition FlowCounts_default :: FlowCounts where
  "FlowCounts_default =
     \<lparr>ingress_packets = 0, ingress_bytes = 0, egress_packets = 0, egress_bytes = 0\<rparr>"

fun add_packet :: "Direction \<Rightarrow> u64 \<Rightarrow> FlowCounts \<Rightarrow> FlowCounts" where
  "add_packet Ingress n c =
     c\<lparr>ingress_packets := ingress_packets c + 1, ingress_bytes := ingress_bytes c + n\<rparr>"
| "add_packet Egress n c =
     c\<lparr>egress_packets := egress_packets c + 1, egress_bytes := egress_bytes c + n\<rparr>"

fun init_counts :: "Direction \<Rightarrow> u64 \<Rightarrow> FlowCounts" where
  "init_counts Ingress n = FlowCounts_default\<lparr>ingress_packets := 1, ingress_bytes := n\<rparr>"
| "init_counts Egress n = FlowCounts_default\<lparr>egress_packets := 1, egress_bytes := n\<rparr>"

definition count :: "(nat \<Rightarrow> bool) \<Rightarrow> nat \<Rightarrow> TcContext \<Rightarrow> Direction \<Rightarrow> FlowKey option \<Rightarrow> tap_maps \<Rightarrow> tap_maps" where
  "count accepts cpu ctx dir key s =
     (case key of
        None \<Rightarrow>
          (case load_u16 ctx ETHERTYPE_OFFSET of
             Some et \<Rightarrow>
               if u16_from_be et = ETH_P_IPV6 \<or> u16_from_be et = ETH_P_8021Q
               then s\<lparr>unparsed_l3 := count_map_drop cpu (unparsed_l3 s)\<rparr> else s
           | None \<Rightarrow> s)
      | Some k \<Rightarrow>
          (let n = ucast (skb_len ctx);
               (fl, kept) = lookup_or_init accepts k (add_packet dir n) (init_counts dir n) (flows s)
           in if kept then s\<lparr>flows := fl\<rparr>
              else s\<lparr>flow_drops := count_map_drop cpu (flow_drops s)\<rparr>))"

definition count6 :: "(nat \<Rightarrow> bool) \<Rightarrow> nat \<Rightarrow> TcContext \<Rightarrow> Direction \<Rightarrow> FlowKey6 \<Rightarrow> tap_maps \<Rightarrow> tap_maps" where
  "count6 accepts cpu ctx dir k s =
     (let n = ucast (skb_len ctx);
          (fl, kept) = lookup_or_init accepts k (add_packet dir n) (init_counts dir n) (flows6 s)
      in if kept then s\<lparr>flows6 := fl\<rparr>
         else s\<lparr>flow_drops := count_map_drop cpu (flow_drops s)\<rparr>)"

text \<open>The bounded scans: \<open>POLICY.get(i)\<close> is \<open>None\<close> beyond the array.\<close>

function policy_scan :: "PolicyRule list \<Rightarrow> u32 \<Rightarrow> u16 \<Rightarrow> u8 \<Rightarrow> nat \<Rightarrow> bool" where
  "policy_scan rules dst_addr dst_port proto i =
     (if i < MAX_POLICY_RULES then
        (case slice_at rules i of
           Some rule \<Rightarrow>
             if rule_matches rule dst_addr dst_port proto then True
             else policy_scan rules dst_addr dst_port proto (i + 1)
         | None \<Rightarrow> policy_scan rules dst_addr dst_port proto (i + 1))
      else False)"
  by pat_completeness auto
termination
  by (relation "measure (\<lambda>(rules, d, p, q, i). MAX_POLICY_RULES - i)") auto

function policy_scan6 :: "PolicyRule6 list \<Rightarrow> bytes \<Rightarrow> u16 \<Rightarrow> u8 \<Rightarrow> nat \<Rightarrow> bool" where
  "policy_scan6 rules dst_addr dst_port proto i =
     (if i < MAX_POLICY_RULES then
        (case slice_at rules i of
           Some rule \<Rightarrow>
             if rule_matches6 rule dst_addr dst_port proto then True
             else policy_scan6 rules dst_addr dst_port proto (i + 1)
         | None \<Rightarrow> policy_scan6 rules dst_addr dst_port proto (i + 1))
      else False)"
  by pat_completeness auto
termination
  by (relation "measure (\<lambda>(rules, d, p, q, i). MAX_POLICY_RULES - i)") auto

declare policy_scan.simps [simp del] policy_scan6.simps [simp del]

definition policy_allows :: "tap_maps \<Rightarrow> u32 \<Rightarrow> u16 \<Rightarrow> u8 \<Rightarrow> bool" where
  "policy_allows s dst_addr dst_port proto = policy_scan (policy s) dst_addr dst_port proto 0"

definition policy_allows6 :: "tap_maps \<Rightarrow> bytes \<Rightarrow> u16 \<Rightarrow> u8 \<Rightarrow> bool" where
  "policy_allows6 s dst_addr dst_port proto = policy_scan6 (policy6 s) dst_addr dst_port proto 0"

definition record_denial :: "(nat \<Rightarrow> bool) \<Rightarrow> nat \<Rightarrow> FlowKey \<Rightarrow> tap_maps \<Rightarrow> tap_maps" where
  "record_denial accepts cpu key s =
     (let dst = FlowKey_new 0 (fk_dst_addr key) 0 (fk_dst_port key) (fk_proto key);
          (m, kept) = lookup_or_init accepts dst (\<lambda>c. c + 1) 1 (denials s)
      in if kept then s\<lparr>denials := m\<rparr>
         else s\<lparr>denial_drops := count_map_drop cpu (denial_drops s)\<rparr>)"

definition record_denial6 :: "(nat \<Rightarrow> bool) \<Rightarrow> nat \<Rightarrow> FlowKey6 \<Rightarrow> tap_maps \<Rightarrow> tap_maps" where
  "record_denial6 accepts cpu key s =
     (let dst = FlowKey6_new (replicate 16 0) (fk6_dst_addr key) 0 (fk6_dst_port key) (fk6_proto key);
          (m, kept) = lookup_or_init accepts dst (\<lambda>c. c + 1) 1 (denials6 s)
      in if kept then s\<lparr>denials6 := m\<rparr>
         else s\<lparr>denial_drops := count_map_drop cpu (denial_drops s)\<rparr>)"

definition egress_verdict :: "(nat \<Rightarrow> bool) \<Rightarrow> nat \<Rightarrow> TcContext \<Rightarrow> FlowKey option \<Rightarrow> tap_maps \<Rightarrow> Verdict \<times> tap_maps" where
  "egress_verdict accepts cpu ctx key s =
     (if enforce s = 0 then (Pass, s)
      else case key of
          None \<Rightarrow>
            (case load_u16 ctx ETHERTYPE_OFFSET of
               Some et \<Rightarrow> if u16_from_be et = ETH_P_ARP then (Pass, s) else (Drop, s)
             | None \<Rightarrow> (Drop, s))
        | Some k \<Rightarrow>
            if policy_allows s (fk_dst_addr k) (fk_dst_port k) (fk_proto k) then (Pass, s)
            else (Drop, record_denial accepts cpu k s))"

definition egress_verdict6 :: "(nat \<Rightarrow> bool) \<Rightarrow> nat \<Rightarrow> FlowKey6 \<Rightarrow> tap_maps \<Rightarrow> Verdict \<times> tap_maps" where
  "egress_verdict6 accepts cpu k s =
     (if enforce s = 0 then (Pass, s)
      else if fk6_proto k = IPPROTO_ICMPV6 \<and> icmp6_dst_on_link (fk6_dst_addr k) then (Pass, s)
      else if policy_allows6 s (fk6_dst_addr k) (fk6_dst_port k) (fk6_proto k) then (Pass, s)
      else (Drop, record_denial6 accepts cpu k s))"

definition tap_ingress :: "(nat \<Rightarrow> bool) \<Rightarrow> nat \<Rightarrow> TcContext \<Rightarrow> tap_maps \<Rightarrow> i32 \<times> tap_maps" where
  "tap_ingress accepts cpu ctx s =
     (case parse ctx of
        Some key \<Rightarrow>
          (case egress_verdict accepts cpu ctx (Some key) (count accepts cpu ctx Ingress (Some key) s) of
             (v, t) \<Rightarrow> (as_tc v, t))
      | None \<Rightarrow>
          (case parse6 ctx of
             Some key6 \<Rightarrow>
               (case egress_verdict6 accepts cpu key6 (count6 accepts cpu ctx Ingress key6 s) of
                  (v, t) \<Rightarrow> (as_tc v, t))
           | None \<Rightarrow>
               (case egress_verdict accepts cpu ctx None (count accepts cpu ctx Ingress None s) of
                  (v, t) \<Rightarrow> (as_tc v, t))))"

definition tap_egress :: "(nat \<Rightarrow> bool) \<Rightarrow> nat \<Rightarrow> TcContext \<Rightarrow> tap_maps \<Rightarrow> i32 \<times> tap_maps" where
  "tap_egress accepts cpu ctx s =
     (as_tc Pass,
      case parse ctx of
        Some key \<Rightarrow> count accepts cpu ctx Egress (Some key) s
      | None \<Rightarrow>
          (case parse6 ctx of
             Some key6 \<Rightarrow> count6 accepts cpu ctx Egress key6 s
           | None \<Rightarrow> count accepts cpu ctx Egress None s))"

section \<open>CPU accounting\<close>

record meter_maps =
  cpu_ns :: "(u64, u64) hmap"
  last_switch :: percpu
  meter_targets :: "u64 list"
  meter_all :: u32

definition account_sched_switch :: "(nat \<Rightarrow> bool) \<Rightarrow> nat \<Rightarrow> u64 \<Rightarrow> u64 \<Rightarrow> meter_maps \<Rightarrow> u32 \<times> meter_maps" where
  "account_sched_switch accepts cpu now cgroup s =
     (let last = last_switch s cpu;
          s1 = s\<lparr>last_switch := (last_switch s)(cpu := now)\<rparr> in
      if last = 0 \<or> now \<le> last then (0, s1)
      else
        (let delta = now - last in
         if meter_all s1 = 0 \<and> cgroup \<notin> set (meter_targets s1) then (0, s1)
         else (0, s1\<lparr>cpu_ns := fst (lookup_or_init accepts cgroup (\<lambda>a. a + delta) delta (cpu_ns s1))\<rparr>)))"

section \<open>Lemmas on maps\<close>

lemma map_of_hm_update:
  "map_of (hm_update k f m) k' = (if k' = k then map_option f (map_of m k) else map_of m k')"
  by (induction k f m rule: hm_update.induct) auto

lemma keys_hm_update [simp]: "map fst (hm_update k f m) = map fst m"
  by (induction k f m rule: hm_update.induct) auto

lemma length_hm_update [simp]: "length (hm_update k f m) = length m"
  by (metis keys_hm_update length_map)

lemma lookup_or_init_get:
  "map_of (fst (lookup_or_init accepts k f init m)) k' =
     (if k' = k then
        (case map_of m k of Some v \<Rightarrow> Some (f v) | None \<Rightarrow> if accepts (length m) then Some init else None)
      else map_of m k')"
  by (auto simp: lookup_or_init_def map_of_hm_update map_add_def split: option.splits)

lemma lookup_or_init_kept:
  "snd (lookup_or_init accepts k f init m) \<longleftrightarrow> map_of m k \<noteq> None \<or> accepts (length m)"
  by (auto simp: lookup_or_init_def split: option.splits)

lemma lookup_or_init_dropped:
  "\<not> snd (lookup_or_init accepts k f init m) \<Longrightarrow> fst (lookup_or_init accepts k f init m) = m"
  by (auto simp: lookup_or_init_def split: option.splits if_splits)

text \<open>A map is well formed when its keys are distinct and within the cap.\<close>

definition wf_map :: "nat \<Rightarrow> ('k, 'v) hmap \<Rightarrow> bool" where
  "wf_map cap m \<longleftrightarrow> distinct (map fst m) \<and> length m \<le> cap"

lemma lookup_or_init_wf:
  assumes "\<And>n. accepts n \<Longrightarrow> n < cap" "wf_map cap m"
  shows "wf_map cap (fst (lookup_or_init accepts k f init m))"
proof (cases "map_of m k")
  case None
  then have "k \<notin> set (map fst m)" by (simp add: map_of_eq_None_iff)
  then show ?thesis
    using assms None by (auto simp: lookup_or_init_def wf_map_def Suc_le_eq)
next
  case (Some v)
  then show ?thesis using assms by (simp add: lookup_or_init_def wf_map_def)
qed

text \<open>
  A tally: a row update that adds a fixed amount to a weight of the row, and a fresh row of exactly
  that weight. The total over the map then grows by the amount, or the key was refused.
\<close>

definition total :: "('v \<Rightarrow> u64) \<Rightarrow> ('k, 'v) hmap \<Rightarrow> u64" where
  "total weight m = sum_list (map (\<lambda>kv. weight (snd kv)) m)"

locale tally =
  fixes f :: "'v \<Rightarrow> 'v" and init :: 'v and weight :: "'v \<Rightarrow> u64" and amount :: u64
  assumes weight_update: "weight (f v) = weight v + amount"
    and weight_init: "weight init = amount"
begin

lemma total_update: "map_of m k \<noteq> None \<Longrightarrow> total weight (hm_update k f m) = total weight m + amount"
proof (induction m)
  case (Cons kv m)
  then show ?case by (cases kv) (auto simp: total_def weight_update)
qed simp

lemma total_bump:
  "total weight (fst (lookup_or_init accepts k f init m)) =
     total weight m + (if snd (lookup_or_init accepts k f init m) then amount else 0)"
proof (cases "map_of m k")
  case None
  then show ?thesis by (simp add: lookup_or_init_def total_def weight_init)
next
  case (Some v)
  then show ?thesis using total_update [of m k] by (simp add: lookup_or_init_def)
qed

end

interpretation in_pkts: tally "add_packet Ingress n" "init_counts Ingress n" ingress_packets 1 for n
  by unfold_locales (simp_all add: FlowCounts_default_def)

interpretation in_bytes: tally "add_packet Ingress n" "init_counts Ingress n" ingress_bytes n for n
  by unfold_locales (simp_all add: FlowCounts_default_def)

interpretation out_pkts: tally "add_packet Egress n" "init_counts Egress n" egress_packets 1 for n
  by unfold_locales (simp_all add: FlowCounts_default_def)

interpretation rows: tally "\<lambda>c. c + 1" "1" "\<lambda>c. c" 1
  by unfold_locales simp_all

interpretation slices: tally "\<lambda>a. a + d" d "\<lambda>c. c" d for d
  by unfold_locales simp_all

section \<open>Parsing in the kernel and on the host\<close>

lemma u16_from_be_le: "length b = 2 \<Longrightarrow> u16_from_be (from_le_bytes b) = from_be_bytes b"
  by (simp add: u16_from_be_def to_le_from_le_n)

lemma u32_from_be_le: "length b = 4 \<Longrightarrow> u32_from_be (from_le_bytes b) = from_be_bytes b"
  by (simp add: u32_from_be_def to_le_from_le_n)

lemma load_u8_at: "load_u8 ctx off = slice_at (frame ctx) off"
  by (auto simp: load_u8_def load_bytes_def slice_get_def slice_at_def)

lemma take2_drop: "i + 2 \<le> length xs \<Longrightarrow> take 2 (drop i xs) = [xs ! i, xs ! (i + 1)]"
  by (auto simp: list_eq_iff_nth_eq less_Suc_eq numeral_eq_Suc)

lemma load_be16:
  "map_option u16_from_be (load_u16 ctx off) = do {
     a \<leftarrow> slice_at (frame ctx) off;
     b \<leftarrow> slice_at (frame ctx) (off + 1);
     Some (from_be_bytes [a, b])
   }"
  by (auto simp: load_u16_def load_bytes_def slice_get_def slice_at_def u16_from_be_le take2_drop)

lemma load_be16_Some:
  "(\<exists>x. load_u16 ctx off = Some x \<and> u16_from_be x = y) \<longleftrightarrow>
     off + 2 \<le> length (frame ctx) \<and> y = from_be_bytes [frame ctx ! off, frame ctx ! (off + 1)]"
  by (auto simp: load_u16_def load_bytes_def slice_get_def u16_from_be_le take2_drop)

lemma load_u16_cases:
  "load_u16 ctx off =
     (if off + 2 \<le> length (frame ctx)
      then Some (from_le_bytes [frame ctx ! off, frame ctx ! (off + 1)]) else None)"
  by (simp add: load_u16_def load_bytes_def slice_get_def take2_drop)

lemma load_u32_cases:
  "load_u32 ctx off =
     (if off + 4 \<le> length (frame ctx) then Some (from_le_bytes (take 4 (drop off (frame ctx)))) else None)"
  by (simp add: load_u32_def load_bytes_def slice_get_def)

lemma parse_host: "parse ctx = parse_ipv4_5tuple (frame ctx)"
proof -
  let ?f = "frame ctx"
  consider "length ?f < 15" | "15 \<le> length ?f" "length ?f < 34" | "34 \<le> length ?f" by linarith
  then show ?thesis
  proof cases
    case 1
    then show ?thesis
      by (auto simp: parse_def parse_ipv4_5tuple_def load_u16_cases load_u8_at slice_at_def slice_from_def
          ETHERTYPE_OFFSET_def ETH_HLEN_def u16_from_be_le)
  next
    case 2
    then show ?thesis
      by (auto simp: parse_def parse_ipv4_5tuple_def load_u16_cases load_u32_cases load_u8_at slice_at_def
          slice_from_def slice_get_def ETHERTYPE_OFFSET_def ETH_HLEN_def u16_from_be_le Let_def)
  next
    case 3
    then obtain m where len: "length ?f = 34 + m" using le_Suc_ex by blast
    let ?ihl = "unat (?f ! 14 AND 0x0f) * 4"
    note defs = parse_def parse_ipv4_5tuple_def load_u16_cases load_u32_cases load_u8_at slice_at_def
      slice_from_def slice_get_def ETHERTYPE_OFFSET_def ETH_HLEN_def u16_from_be_le u32_from_be_le Let_def
    show ?thesis
    proof (cases "18 + ?ihl \<le> 34 + m")
      case True
      then have "?ihl < 20 + m" "?ihl + 1 < 20 + m" "?ihl + 2 < 20 + m" "?ihl + 3 < 20 + m" by auto
      with len True show ?thesis by (simp add: defs add.commute add.left_commute) auto
    next
      case False
      with len show ?thesis by (auto simp: defs)
    qed
  qed
qed

lemma parse6_host: "parse6 ctx = parse_ipv6_5tuple (frame ctx)"
proof -
  let ?f = "frame ctx"
  note defs = parse6_def parse_ipv6_5tuple_def load_u16_cases load_bytes_def load_u8_at slice_at_def
      slice_from_def slice_get_def ETHERTYPE_OFFSET_def ETH_HLEN_def u16_from_be_le
  consider "length ?f < 54" | m where "length ?f = 54 + m" "m < 4" | m where "length ?f = 58 + m"
  proof -
    consider "length ?f < 54" | "54 \<le> length ?f" "length ?f < 58" | "58 \<le> length ?f" by linarith
    then show thesis
    proof cases
      case 2
      then have "length ?f = 54 + (length ?f - 54)" "length ?f - 54 < 4" by auto
      then show thesis using that(2) by blast
    next
      case 3
      then have "length ?f = 58 + (length ?f - 58)" by auto
      then show thesis using that(3) by blast
    qed (use that(1) in blast)
  qed
  then show ?thesis
  proof cases
    case 1
    then show ?thesis by (auto simp: defs)
  next
    case 2
    then show ?thesis by (simp add: defs add.commute)
  next
    case 3
    then show ?thesis by (simp add: defs add.commute)
  qed
qed

section \<open>Policy scans\<close>

lemma scan_range:
  "(\<exists>j. i \<le> j \<and> j < n \<and> j < length xs \<and> P (xs ! j)) \<longleftrightarrow>
     i < n \<and> (i < length xs \<and> P (xs ! i) \<or> (\<exists>j. i + 1 \<le> j \<and> j < n \<and> j < length xs \<and> P (xs ! j)))"
  (is "?l \<longleftrightarrow> ?r")
proof
  assume ?l
  then obtain j where j: "i \<le> j" "j < n" "j < length xs" "P (xs ! j)" by blast
  then show ?r by (cases "i = j") (auto intro!: exI [of _ j])
next
  assume ?r
  then show ?l by (auto intro: exI [of _ i] Suc_leD)
qed

lemma policy_scan_iff:
  "policy_scan rules d port proto i \<longleftrightarrow>
     (\<exists>j. i \<le> j \<and> j < MAX_POLICY_RULES \<and> j < length rules \<and> rule_matches (rules ! j) d port proto)"
proof (induction rules d port proto i rule: policy_scan.induct)
  case (1 rules d port proto i)
  show ?case
    using 1 by (subst policy_scan.simps, subst scan_range) (auto split: option.splits simp: slice_at_def)
qed

lemma policy_scan6_iff:
  "policy_scan6 rules d port proto i \<longleftrightarrow>
     (\<exists>j. i \<le> j \<and> j < MAX_POLICY_RULES \<and> j < length rules \<and> rule_matches6 (rules ! j) d port proto)"
proof (induction rules d port proto i rule: policy_scan6.induct)
  case (1 rules d port proto i)
  show ?case
    using 1 by (subst policy_scan6.simps, subst scan_range) (auto split: option.splits simp: slice_at_def)
qed

lemma policy_allows_list:
  "length (policy s) \<le> MAX_POLICY_RULES \<Longrightarrow> policy_allows s d port proto = egress_allowed (policy s) d port proto"
  unfolding policy_allows_def policy_scan_iff egress_allowed_def list_ex_length
  by (metis le0 less_le_trans)

lemma policy_allows6_list:
  "length (policy6 s) \<le> MAX_POLICY_RULES \<Longrightarrow> policy_allows6 s d port proto = egress_allowed6 (policy6 s) d port proto"
  unfolding policy_allows6_def policy_scan6_iff egress_allowed6_def list_ex_length
  by (metis le0 less_le_trans)

section \<open>What the classifiers leave alone\<close>

text \<open>The loader's half of the maps, which no packet changes.\<close>

definition config :: "tap_maps \<Rightarrow> PolicyRule list \<times> PolicyRule6 list \<times> u32" where
  "config s = (policy s, policy6 s, enforce s)"

lemma count_config [simp]: "config (count accepts cpu ctx dir key s) = config s"
  by (auto simp: count_def config_def Let_def split: option.splits prod.splits)

lemma count6_config [simp]: "config (count6 accepts cpu ctx dir key s) = config s"
  by (auto simp: count6_def config_def Let_def split: prod.splits)

lemma record_denial_config [simp]: "config (record_denial accepts cpu key s) = config s"
  by (auto simp: record_denial_def config_def Let_def split: prod.splits)

lemma record_denial6_config [simp]: "config (record_denial6 accepts cpu key s) = config s"
  by (auto simp: record_denial6_def config_def Let_def split: prod.splits)

lemma config_eq: "config s = config t \<longleftrightarrow> policy s = policy t \<and> policy6 s = policy6 t \<and> enforce s = enforce t"
  by (auto simp: config_def)

lemma count_policy [simp]:
  "policy (count accepts cpu ctx dir key s) = policy s"
  "policy6 (count6 accepts cpu ctx dir key6 s) = policy6 s"
  "enforce (count accepts cpu ctx dir key s) = enforce s"
  "enforce (count6 accepts cpu ctx dir key6 s) = enforce s"
  using count_config [of accepts cpu ctx dir key s, unfolded config_eq]
    count6_config [of accepts cpu ctx dir key6 s, unfolded config_eq]
  by blast+

section \<open>Properties of enforcement\<close>

text \<open>(C7) The in-kernel readers and the host-tested parsers are the same functions of the frame,
  for every frame, truncated and fragmented ones included.\<close>

theorem kernel_parsers_agree:
  "parse ctx = parse_ipv4_5tuple (frame ctx) \<and> parse6 ctx = parse_ipv6_5tuple (frame ctx)"
  by (simp add: parse_host parse6_host)

definition is_arp :: "bytes \<Rightarrow> bool" where
  "is_arp f \<longleftrightarrow> 14 \<le> length f \<and> (from_be_bytes [f ! 12, f ! 13] :: u16) = ETH_P_ARP"

definition wf_policy :: "tap_maps \<Rightarrow> bool" where
  "wf_policy s \<longleftrightarrow> length (policy s) = MAX_POLICY_RULES \<and> length (policy6 s) = MAX_POLICY_RULES"

text \<open>What deny-by-default promises for a frame the guest sends.\<close>

definition admitted :: "PolicyRule list \<Rightarrow> PolicyRule6 list \<Rightarrow> bytes \<Rightarrow> bool" where
  "admitted rules rules6 f =
     (case parse_ipv4_5tuple f of
        Some k \<Rightarrow> egress_allowed rules (fk_dst_addr k) (fk_dst_port k) (fk_proto k)
      | None \<Rightarrow>
          (case parse_ipv6_5tuple f of
             Some k \<Rightarrow>
               (fk6_proto k = IPPROTO_ICMPV6 \<and> icmp6_dst_on_link (fk6_dst_addr k))
               \<or> egress_allowed6 rules6 (fk6_dst_addr k) (fk6_dst_port k) (fk6_proto k)
           | None \<Rightarrow> is_arp f))"

lemma arp_load:
  "(case load_u16 ctx ETHERTYPE_OFFSET of
      Some et \<Rightarrow> if u16_from_be et = ETH_P_ARP then a else b
    | None \<Rightarrow> b) = (if is_arp (frame ctx) then a else b)"
  by (simp add: load_u16_cases is_arp_def ETHERTYPE_OFFSET_def u16_from_be_le)

lemma as_tc_eq [simp]: "as_tc v = TC_ACT_OK \<longleftrightarrow> v = Pass" "as_tc v = TC_ACT_SHOT \<longleftrightarrow> v = Drop"
  by (cases v; simp add: TC_ACT_OK_def TC_ACT_SHOT_def)+

lemma tc_act_distinct [simp]: "TC_ACT_OK \<noteq> TC_ACT_SHOT"
  by (simp add: TC_ACT_OK_def TC_ACT_SHOT_def)

lemma ingress_verdict:
  assumes "wf_policy s"
  shows "fst (tap_ingress accepts cpu ctx s) =
    as_tc (if enforce s = 0 \<or> admitted (policy s) (policy6 s) (frame ctx) then Pass else Drop)"
proof -
  have "length (policy s) \<le> MAX_POLICY_RULES" "length (policy6 s) \<le> MAX_POLICY_RULES"
    using assms by (simp_all add: wf_policy_def)
  then have "policy_allows (count accepts cpu ctx Ingress (Some k) s) d port proto = egress_allowed (policy s) d port proto"
    "policy_allows6 (count6 accepts cpu ctx Ingress k6 s) d6 port proto = egress_allowed6 (policy6 s) d6 port proto"
    for k k6 d d6 port proto
    by (simp_all add: policy_allows_list policy_allows6_list)
  then show ?thesis
    by (simp add: tap_ingress_def admitted_def parse_host parse6_host egress_verdict_def
        egress_verdict6_def arp_load split: option.splits)
qed

text \<open>(C4) Deny by default, enforced in the kernel: with the toggle on, the tap accepts a
  guest-sent frame exactly when it is IPv4 to a destination the allow-list admits, IPv6 to one the
  v6 list admits or on-link ICMPv6, or ARP; every other frame, the unparsable ones included, is
  shot. With the toggle off every frame passes. Frames to the guest always pass, and no frame
  changes the policy.\<close>

theorem deny_by_default:
  assumes "wf_policy s"
  shows "(fst (tap_ingress accepts cpu ctx s) = TC_ACT_OK
            \<longleftrightarrow> enforce s = 0 \<or> admitted (policy s) (policy6 s) (frame ctx))
    \<and> fst (tap_ingress accepts cpu ctx s) \<in> {TC_ACT_OK, TC_ACT_SHOT}
    \<and> fst (tap_egress accepts cpu ctx s) = TC_ACT_OK
    \<and> config (snd (tap_ingress accepts cpu ctx s)) = config s
    \<and> config (snd (tap_egress accepts cpu ctx s)) = config s"
proof (intro conjI)
  show "config (snd (tap_ingress accepts cpu ctx s)) = config s"
    by (auto simp: tap_ingress_def egress_verdict_def egress_verdict6_def split: option.splits prod.splits if_splits)
  show "config (snd (tap_egress accepts cpu ctx s)) = config s"
    by (auto simp: tap_egress_def split: option.splits)
  show "fst (tap_egress accepts cpu ctx s) = TC_ACT_OK"
    by (simp add: tap_egress_def)
  show "fst (tap_ingress accepts cpu ctx s) = TC_ACT_OK
      \<longleftrightarrow> enforce s = 0 \<or> admitted (policy s) (policy6 s) (frame ctx)"
    by (simp add: ingress_verdict [OF assms])
  show "fst (tap_ingress accepts cpu ctx s) \<in> {TC_ACT_OK, TC_ACT_SHOT}"
    by (simp add: ingress_verdict [OF assms])
qed

definition fresh_maps :: "u32 \<Rightarrow> PolicyRule list \<Rightarrow> tap_maps" where
  "fresh_maps en rules =
     \<lparr>flows = [], denials = [], flows6 = [], denials6 = [], flow_drops = (\<lambda>_. 0),
      denial_drops = (\<lambda>_. 0), unparsed_l3 = (\<lambda>_. 0),
      policy = rules @ replicate (MAX_POLICY_RULES - length rules) PolicyRule_default,
      policy6 = replicate MAX_POLICY_RULES PolicyRule6_default, enforce = en\<rparr>"

definition arp_frame :: TcContext where
  "arp_frame = \<lparr>frame = replicate 12 0 @ [0x08, 0x06] @ replicate 28 0, skb_len = 42\<rparr>"

definition vlan_frame :: TcContext where
  "vlan_frame = \<lparr>frame = replicate 12 0 @ [0x81, 0x00] @ replicate 28 0, skb_len = 42\<rparr>"

lemma be16_numeral: "from_be_bytes [a, b] = (word_of_nat (unat b + 256 * unat a) :: u16)"
  by (simp add: from_be_bytes_def from_le_bytes_def)

lemma arp_not_ip:
  "parse_ipv4_5tuple (frame arp_frame) = None" "parse_ipv6_5tuple (frame arp_frame) = None"
  "parse_ipv4_5tuple (frame vlan_frame) = None" "parse_ipv6_5tuple (frame vlan_frame) = None"
  by (simp_all add: arp_frame_def vlan_frame_def parse_ipv4_5tuple_def parse_ipv6_5tuple_def
      slice_at_def ETHERTYPE_OFFSET_def nth_append be16_numeral ETH_P_IP_def ETH_P_IPV6_def)

theorem deny_by_default_witness:
  "fst (tap_ingress (\<lambda>n. n < MAX_FLOWS) 0 arp_frame (fresh_maps 1 [])) = TC_ACT_OK
   \<and> fst (tap_ingress (\<lambda>n. n < MAX_FLOWS) 0 vlan_frame (fresh_maps 1 [])) \<noteq> TC_ACT_OK
   \<and> fst (tap_ingress (\<lambda>n. n < MAX_FLOWS) 0 vlan_frame (fresh_maps 0 [])) = TC_ACT_OK"
proof -
  have wf: "wf_policy (fresh_maps e [])" for e by (simp add: wf_policy_def fresh_maps_def)
  have arp: "is_arp (frame arp_frame)" "\<not> is_arp (frame vlan_frame)"
    by (simp_all add: is_arp_def arp_frame_def vlan_frame_def nth_append be16_numeral ETH_P_ARP_def)
  have "admitted p p6 (frame arp_frame)" "\<not> admitted p p6 (frame vlan_frame)" for p p6
    by (simp_all add: admitted_def arp_not_ip arp)
  then show ?thesis
    using deny_by_default [OF wf, where accepts = "\<lambda>n. n < MAX_FLOWS" and cpu = 0 and ctx = arp_frame]
      deny_by_default [OF wf, where accepts = "\<lambda>n. n < MAX_FLOWS" and cpu = 0 and ctx = vlan_frame]
    by (simp add: fresh_maps_def)
qed

section \<open>Properties of accounting\<close>

text \<open>Guest-sent packets the flow maps account for on a CPU, refused rows included; and denied
  packets likewise. Both are sums of \<open>u64\<close> counters.\<close>

definition seen :: "nat \<Rightarrow> tap_maps \<Rightarrow> u64" where
  "seen cpu s = total ingress_packets (flows s) + total ingress_packets (flows6 s) + flow_drops s cpu"

definition blocked :: "nat \<Rightarrow> tap_maps \<Rightarrow> u64" where
  "blocked cpu s = total (\<lambda>c. c) (denials s) + total (\<lambda>c. c) (denials6 s) + denial_drops s cpu"

lemma seen_count: "seen cpu (count accepts cpu ctx Ingress (Some k) s) = seen cpu s + 1"
  using in_pkts.total_bump [where n = "ucast (skb_len ctx)" and accepts = accepts and k = k and m = "flows s"]
  by (auto simp: seen_def count_def Let_def count_map_drop_def split: prod.splits)

lemma seen_count6: "seen cpu (count6 accepts cpu ctx Ingress k s) = seen cpu s + 1"
  using in_pkts.total_bump [where n = "ucast (skb_len ctx)" and accepts = accepts and k = k and m = "flows6 s"]
  by (auto simp: seen_def count6_def Let_def count_map_drop_def split: prod.splits)

lemma seen_count_None: "seen cpu (count accepts cpu ctx dir None s) = seen cpu s"
  by (auto simp: seen_def count_def split: option.splits)

lemma blocked_count [simp]:
  "blocked cpu (count accepts cpu ctx dir key s) = blocked cpu s"
  "blocked cpu (count6 accepts cpu ctx dir key6 s) = blocked cpu s"
  by (auto simp: blocked_def count_def count6_def Let_def split: option.splits prod.splits)

lemma blocked_denial:
  "blocked cpu (record_denial accepts cpu k s) = blocked cpu s + 1"
  using rows.total_bump [of accepts "FlowKey_new 0 (fk_dst_addr k) 0 (fk_dst_port k) (fk_proto k)" "denials s"]
  by (auto simp: blocked_def record_denial_def Let_def count_map_drop_def split: prod.splits)

lemma blocked_denial6:
  "blocked cpu (record_denial6 accepts cpu k s) = blocked cpu s + 1"
  using rows.total_bump [of accepts "FlowKey6_new (replicate 16 0) (fk6_dst_addr k) 0 (fk6_dst_port k) (fk6_proto k)" "denials6 s"]
  by (auto simp: blocked_def record_denial6_def Let_def count_map_drop_def split: prod.splits)

lemma seen_denial [simp]:
  "seen cpu (record_denial accepts cpu' k s) = seen cpu s"
  "seen cpu (record_denial6 accepts cpu' k6 s) = seen cpu s"
  by (auto simp: seen_def record_denial_def record_denial6_def Let_def split: prod.splits)

definition is_flow :: "bytes \<Rightarrow> bool" where
  "is_flow f \<longleftrightarrow> parse_ipv4_5tuple f \<noteq> None \<or> parse_ipv6_5tuple f \<noteq> None"


text \<open>The denial key of a packet: its destination only.\<close>

definition denial_key :: "FlowKey \<Rightarrow> FlowKey" where
  "denial_key k = FlowKey_new 0 (fk_dst_addr k) 0 (fk_dst_port k) (fk_proto k)"


definition udp_frame :: TcContext where
  "udp_frame = \<lparr>frame = replicate 12 0 @ [0x08, 0x00]
       @ [0x45, 0, 0, 28, 0, 0, 0, 0, 64, 17, 0, 0, 10, 0, 0, 2, 8, 8, 8, 8]
       @ [0x30, 0x39, 0, 53, 0, 8, 0, 0], skb_len = 42\<rparr>"

definition udp_key :: FlowKey where
  "udp_key = FlowKey_new 0x0a000002 0x08080808 12345 53 17"

lemma be32_numeral:
  "from_be_bytes [a, b, c, d] =
     (word_of_nat (unat d + 256 * (unat c + 256 * (unat b + 256 * unat a))) :: u32)"
  by (simp add: from_be_bytes_def from_le_bytes_def)

lemma udp_frame_parses: "parse_ipv4_5tuple (frame udp_frame) = Some udp_key"
  by (simp add: udp_frame_def udp_key_def parse_ipv4_5tuple_def slice_at_def slice_from_def slice_get_def
      ETHERTYPE_OFFSET_def ETH_HLEN_def nth_append be16_numeral be32_numeral ETH_P_IP_def
      IPPROTO_TCP_def IPPROTO_UDP_def)


section \<open>Reachable map contents\<close>

inductive tap_reach :: "(nat \<Rightarrow> bool) \<Rightarrow> tap_maps \<Rightarrow> tap_maps \<Rightarrow> bool" for accepts s where
  start: "tap_reach accepts s s"
| ingress: "tap_reach accepts s t \<Longrightarrow> tap_reach accepts s (snd (tap_ingress accepts cpu ctx t))"
| egress: "tap_reach accepts s t \<Longrightarrow> tap_reach accepts s (snd (tap_egress accepts cpu ctx t))"

definition wf_tap :: "tap_maps \<Rightarrow> bool" where
  "wf_tap s \<longleftrightarrow>
     wf_map MAX_FLOWS (flows s) \<and> wf_map MAX_FLOWS (denials s)
     \<and> wf_map MAX_FLOWS (flows6 s) \<and> wf_map MAX_FLOWS (denials6 s)"

lemma wf_count:
  assumes "\<And>n. accepts n \<Longrightarrow> n < MAX_FLOWS" "wf_tap s"
  shows "wf_tap (count accepts cpu ctx dir key s)" "wf_tap (count6 accepts cpu ctx dir key6 s)"
  using assms(2)
  by (auto simp: wf_tap_def count_def count6_def Let_def case_prod_unfold
      intro!: lookup_or_init_wf [OF assms(1)] split: option.splits)

lemma wf_denial:
  assumes "\<And>n. accepts n \<Longrightarrow> n < MAX_FLOWS" "wf_tap s"
  shows "wf_tap (record_denial accepts cpu k s)" "wf_tap (record_denial6 accepts cpu k6 s)"
  using assms(2)
  by (auto simp: wf_tap_def record_denial_def record_denial6_def Let_def case_prod_unfold
      intro!: lookup_or_init_wf [OF assms(1)])

lemma wf_ingress:
  assumes "\<And>n. accepts n \<Longrightarrow> n < MAX_FLOWS" "wf_tap s"
  shows "wf_tap (snd (tap_ingress accepts cpu ctx s))"
  by (auto simp: tap_ingress_def egress_verdict_def egress_verdict6_def assms(2)
      intro!: wf_count [OF assms(1)] wf_denial [OF assms(1)] split: option.splits prod.splits if_splits)

lemma wf_egress:
  assumes "\<And>n. accepts n \<Longrightarrow> n < MAX_FLOWS" "wf_tap s"
  shows "wf_tap (snd (tap_egress accepts cpu ctx s))"
  by (auto simp: tap_egress_def assms(2) intro!: wf_count [OF assms(1)] split: option.splits)



section \<open>CPU time\<close>

text \<open>The slices a list of switches on one CPU charges to a cgroup: the time since the previous
  switch, when there was one and the clock moved forward.\<close>

fun charged :: "u64 \<Rightarrow> (u64 \<times> u64) list \<Rightarrow> u64 \<Rightarrow> u64" where
  "charged prev [] cg = 0"
| "charged prev ((now, c) # xs) cg =
     (if c = cg \<and> prev \<noteq> 0 \<and> prev < now then now - prev else 0) + charged now xs cg"

definition metered :: "meter_maps \<Rightarrow> u64 \<Rightarrow> bool" where
  "metered s cg \<longleftrightarrow> meter_all s \<noteq> 0 \<or> cg \<in> set (meter_targets s)"

definition ns_of :: "meter_maps \<Rightarrow> u64 \<Rightarrow> u64" where
  "ns_of s cg = (case map_of (cpu_ns s) cg of Some n \<Rightarrow> n | None \<Rightarrow> 0)"

fun run_switches :: "(nat \<Rightarrow> bool) \<Rightarrow> nat \<Rightarrow> (u64 \<times> u64) list \<Rightarrow> meter_maps \<Rightarrow> meter_maps" where
  "run_switches accepts cpu [] s = s"
| "run_switches accepts cpu ((now, c) # xs) s =
     run_switches accepts cpu xs (snd (account_sched_switch accepts cpu now c s))"

lemma switch_step:
  assumes "\<And>n. accepts n"
  shows "ns_of (snd (account_sched_switch accepts cpu now c s)) cg =
      ns_of s cg + (if metered s cg \<and> c = cg \<and> last_switch s cpu \<noteq> 0 \<and> last_switch s cpu < now
                    then now - last_switch s cpu else 0)"
    and "last_switch (snd (account_sched_switch accepts cpu now c s)) cpu = now"
    and "metered (snd (account_sched_switch accepts cpu now c s)) cg = metered s cg"
  using assms
  by (auto simp: account_sched_switch_def Let_def ns_of_def metered_def lookup_or_init_get not_le
      split: option.splits)



section \<open>Tracing\<close>

text \<open>The tracer shows a sandbox's own footprint only, and loses nothing silently: an event that
  passes the filter is appended with the task's own identity or counted as dropped on that CPU,
  one that does not pass leaves no trace.\<close>

theorem trace_filtered_and_accounted:
  "let s' = snd (record_event ring cpu t kind off path_like s) in
   if passes_filter s (tgid_of t) (cgroup_id t)
   then if ring (length (events s))
        then (\<exists>ev. events s' = events s @ [ev] \<and> ev_cgroup_id ev = cgroup_id t \<and> ev_pid ev = tgid_of t
                \<and> event_kind ev = Some kind \<and> event_drops s' = event_drops s)
        else events s' = events s \<and> event_drops s' = (event_drops s)(cpu := event_drops s cpu + 1)
   else s' = s"
proof -
  have "event_kind ev = Some kind" if "ev_syscall ev = Syscall_discr kind" for ev
    using that by (cases kind) (simp_all add: event_kind_def)
  then show ?thesis
    by (auto simp: record_event_def Let_def count_map_drop_def)
qed

end
