(* ===== verification/StrLib.thy ===== *)
theory StrLib
  imports Utf8
begin

text \<open>
  The string operations of the Rust standard library the program parses configuration and kernel
  text files with: \<open>lines\<close>, \<open>split_whitespace\<close>, \<open>trim\<close>, \<open>strip_prefix\<close>, \<open>split_once\<close> on a
  character, and \<open>parse\<close> for unsigned integers in decimal and in hexadecimal. Splitting on white
  space follows the Unicode property and works on scalar values; the others work on bytes, which is
  the same for ASCII separators.
\<close>

section \<open>White space, lines, prefixes\<close>

definition is_whitespace :: "nat \<Rightarrow> bool" where
  "is_whitespace c \<longleftrightarrow>
     9 \<le> c \<and> c \<le> 13 \<or> c = 32 \<or> c = 0x85 \<or> c = 0xA0 \<or> c = 0x1680
     \<or> 0x2000 \<le> c \<and> c \<le> 0x200A \<or> c = 0x2028 \<or> c = 0x2029 \<or> c = 0x202F \<or> c = 0x205F \<or> c = 0x3000"

fun split_on :: "('a \<Rightarrow> bool) \<Rightarrow> 'a list \<Rightarrow> 'a list list" where
  "split_on p [] = [[]]"
| "split_on p (x # xs) =
     (if p x then [] # split_on p xs
      else case split_on p xs of y # ys \<Rightarrow> (x # y) # ys | [] \<Rightarrow> [[x]])"

definition split_whitespace :: "string \<Rightarrow> string list" where
  "split_whitespace s =
     map string_of_chars (filter (\<lambda>w. w \<noteq> []) (split_on is_whitespace (utf8_chars s)))"

definition trim :: "string \<Rightarrow> string" where
  "trim s = string_of_chars (rev (dropWhile is_whitespace (rev (dropWhile is_whitespace (utf8_chars s)))))"

text \<open>\<open>str::lines\<close>: split at line feeds, drop an empty last piece, strip one carriage return.\<close>

definition strip_cr :: "string \<Rightarrow> string" where
  "strip_cr l = (if l \<noteq> [] \<and> last l = CHR 0x0D then butlast l else l)"

definition str_lines :: "string \<Rightarrow> string list" where
  "str_lines s =
     (let ps = split_on (\<lambda>c. c = CHR 0x0A) s;
          qs = (if last ps = [] then butlast ps else ps)
      in map strip_cr (butlast qs) @ (if qs = [] then []
           else [if last ps = [] then strip_cr (last qs) else last qs]))"

definition strip_prefix :: "string \<Rightarrow> string \<Rightarrow> string option" where
  "strip_prefix p s = (if take (length p) s = p then Some (drop (length p) s) else None)"

definition split_once :: "char \<Rightarrow> string \<Rightarrow> (string \<times> string) option" where
  "split_once c s =
     (if c \<in> set s then Some (takeWhile (\<lambda>x. x \<noteq> c) s, tl (dropWhile (\<lambda>x. x \<noteq> c) s)) else None)"

fun find_map :: "('a \<Rightarrow> 'b option) \<Rightarrow> 'a list \<Rightarrow> 'b option" where
  "find_map f [] = None"
| "find_map f (x # xs) = (case f x of Some y \<Rightarrow> Some y | None \<Rightarrow> find_map f xs)"

lemma strip_prefix_Some [simp]: "strip_prefix p s = Some r \<longleftrightarrow> s = p @ r"
  by (auto simp: strip_prefix_def) (metis append_take_drop_id)

lemma find_map_Some:
  "find_map f xs = Some y \<longleftrightarrow>
     (\<exists>as x bs. xs = as @ x # bs \<and> f x = Some y \<and> (\<forall>a \<in> set as. f a = None))"
proof (induction xs)
  case (Cons z zs)
  show ?case
  proof (cases "f z")
    case None
    show ?thesis
    proof
      assume "find_map f (z # zs) = Some y"
      then obtain as x bs where "zs = as @ x # bs" "f x = Some y" "\<forall>a \<in> set as. f a = None"
        using None Cons.IH by auto
      then show "\<exists>as x bs. z # zs = as @ x # bs \<and> f x = Some y \<and> (\<forall>a \<in> set as. f a = None)"
        using None by (intro exI [of _ "z # as"] exI [of _ x] exI [of _ bs]) simp
    next
      assume "\<exists>as x bs. z # zs = as @ x # bs \<and> f x = Some y \<and> (\<forall>a \<in> set as. f a = None)"
      then obtain as x bs where a: "z # zs = as @ x # bs" "f x = Some y" "\<forall>a \<in> set as. f a = None"
        by blast
      then obtain as' where "as = z # as'" using None by (cases as) auto
      then show "find_map f (z # zs) = Some y" using a None Cons.IH by auto
    qed
  next
    case (Some w)
    show ?thesis
    proof
      assume "find_map f (z # zs) = Some y"
      then show "\<exists>as x bs. z # zs = as @ x # bs \<and> f x = Some y \<and> (\<forall>a \<in> set as. f a = None)"
        using Some by (intro exI [of _ "[]"] exI [of _ z] exI [of _ zs]) simp
    next
      assume "\<exists>as x bs. z # zs = as @ x # bs \<and> f x = Some y \<and> (\<forall>a \<in> set as. f a = None)"
      then obtain as x bs where a: "z # zs = as @ x # bs" "f x = Some y" "\<forall>a \<in> set as. f a = None"
        by blast
      then have "as = []" using Some by (cases as) auto
      then show "find_map f (z # zs) = Some y" using a Some by simp
    qed
  qed
qed simp

text \<open>The double quote and the line end of HTTP.\<close>

definition dq :: string where "dq = [CHR 0x22]"
definition crlf :: string where "crlf = [CHR 0x0D, CHR 0x0A]"
definition nl :: string where "nl = [CHR 0x0A]"

section \<open>Unsigned integers\<close>

text \<open>\<open>from_str_radix\<close> for an unsigned type with maximum \<open>mx\<close>: an optional plus sign, at least one
  digit, nothing else, and no overflow at any step.\<close>

definition digit_of :: "nat \<Rightarrow> char \<Rightarrow> nat option" where
  "digit_of radix c =
     (let n = of_char c :: nat;
          d = (if 48 \<le> n \<and> n \<le> 57 then n - 48
               else if 97 \<le> n \<and> n \<le> 122 then n - 87
               else if 65 \<le> n \<and> n \<le> 90 then n - 55 else 36)
      in if d < radix then Some d else None)"

fun parse_digits :: "nat \<Rightarrow> nat \<Rightarrow> nat \<Rightarrow> string \<Rightarrow> nat option" where
  "parse_digits radix mx acc [] = Some acc"
| "parse_digits radix mx acc (c # cs) =
     (case digit_of radix c of
        None \<Rightarrow> None
      | Some d \<Rightarrow>
          if acc * radix + d \<le> mx then parse_digits radix mx (acc * radix + d) cs else None)"

definition from_str_radix :: "nat \<Rightarrow> nat \<Rightarrow> string \<Rightarrow> nat option" where
  "from_str_radix radix mx s =
     (let digits = (if s \<noteq> [] \<and> hd s = CHR ''+'' then tl s else s)
      in if digits = [] then None else parse_digits radix mx 0 digits)"

definition parse_u64 :: "string \<Rightarrow> u64 option" where
  "parse_u64 s = map_option word_of_nat (from_str_radix 10 u64_max s)"

definition parse_u32 :: "string \<Rightarrow> u32 option" where
  "parse_u32 s = map_option word_of_nat (from_str_radix 10 (2 ^ 32 - 1) s)"

definition parse_u16 :: "string \<Rightarrow> u16 option" where
  "parse_u16 s = map_option word_of_nat (from_str_radix 10 (2 ^ 16 - 1) s)"

definition parse_u8 :: "string \<Rightarrow> u8 option" where
  "parse_u8 s = map_option word_of_nat (from_str_radix 10 (2 ^ 8 - 1) s)"

lemma digit_of_dec: "d < 10 \<Longrightarrow> digit_of 10 (digit_char d) = Some d"
  by (simp add: digit_of_def digit_char_range Let_def)

lemma parse_digits_append:
  "parse_digits r mx acc (xs @ ys) =
     (case parse_digits r mx acc xs of None \<Rightarrow> None | Some a \<Rightarrow> parse_digits r mx a ys)"
  by (induction r mx acc xs rule: parse_digits.induct) (auto split: option.splits)

lemma parse_digits_dec: "n \<le> mx \<Longrightarrow> parse_digits 10 mx 0 (dec n) = Some n"
proof (induction n rule: dec.induct)
  case (1 n)
  show ?case
  proof (cases "n < 10")
    case True
    then show ?thesis using "1.prems" by (subst dec.simps) (simp add: digit_of_dec)
  next
    case False
    have "n div 10 \<le> mx" using "1.prems" by (meson div_le_dividend le_trans)
    then have "parse_digits 10 mx 0 (dec (n div 10)) = Some (n div 10)"
      using "1.IH" False by simp
    moreover have "n div 10 * 10 + n mod 10 = n" by simp
    ultimately show ?thesis
      using False "1.prems" by (subst dec.simps) (simp add: parse_digits_append digit_of_dec)
  qed
qed

lemma dec_no_plus: "hd (dec n) \<noteq> CHR ''+''"
proof
  assume h: "hd (dec n) = CHR ''+''"
  have "hd (dec n) \<in> set (dec n)" by simp
  then have "(48 :: nat) \<le> of_char (hd (dec n))" using dec_digits by blast
  then show False using h by simp
qed

lemma from_str_radix_dec: "n \<le> mx \<Longrightarrow> from_str_radix 10 mx (dec n) = Some n"
  by (simp add: from_str_radix_def dec_no_plus parse_digits_dec)

lemma parse_u64_dec [simp]: "parse_u64 (dec (unat w)) = Some w"
  by (simp add: parse_u64_def from_str_radix_dec)

lemma parse_digits_le: "parse_digits r mx acc s = Some n \<Longrightarrow> acc \<le> mx \<Longrightarrow> n \<le> mx"
  by (induction r mx acc s rule: parse_digits.induct) (auto split: option.splits if_splits)

lemma from_str_radix_le: "from_str_radix r mx s = Some n \<Longrightarrow> n \<le> mx"
  by (auto simp: from_str_radix_def Let_def split: if_splits dest: parse_digits_le)


text \<open>Trimming an ASCII string with no white space at its ends.\<close>

lemma string_of_chars_ascii: "is_ascii s \<Longrightarrow> string_of_chars (map of_char s) = s"
  unfolding string_of_chars_def by (subst as_bytes_ascii [symmetric]) simp_all

lemma trim_ascii:
  assumes "is_ascii s" "s \<noteq> []" "\<not> is_whitespace (of_char (hd s))" "\<not> is_whitespace (of_char (last s))"
  shows "trim s = s"
proof -
  let ?cs = "map of_char s :: nat list"
  have h: "dropWhile is_whitespace ?cs = ?cs"
    using assms(2,3) by (cases s) simp_all
  have l: "dropWhile is_whitespace (rev ?cs) = rev ?cs"
    using assms(2,4) by (cases s rule: rev_cases) simp_all
  show ?thesis
    by (simp add: trim_def utf8_chars_ascii [OF assms(1)] h l string_of_chars_ascii [OF assms(1)])
qed

lemma trim_Nil [simp]: "trim [] = []"
  using utf8_chars_ascii [of "[]"] string_of_chars_ascii [of "[]"] by (simp add: trim_def is_ascii_def)

end
