(* ===== verification/Loader.thy ===== *)
theory Loader
  imports Probes StrLib
begin

text \<open>
  The userspace side of the probes, \<open>crates/eke-probes-loader/src/lib.rs\<close>: building an egress
  policy, writing it into the kernel maps and arming enforcement, reading flows and denials back,
  the tracer's and the meter's target sets, and the parsers for cgroup and capability files. The
  maps of the loaded object are the records of theory \<open>Probes\<close>; what the kernel interface can
  refuse (a missing map, a failed open, a failed read or write) is the parameter \<open>aya\<close>.
\<close>

section \<open>Errors and kernel access\<close>

datatype PolicyError = PrefixTooLong u8 | TooManyRules usize usize

datatype ProbeError =
    Unsupported string | Object string | Load string | Attach string | MapErr string
  | PolicyErr PolicyError

record aya =
  has_map :: "string \<Rightarrow> bool"
  open_err :: "string \<Rightarrow> string option"
  op_err :: "string \<Rightarrow> nat \<Rightarrow> string option"

definition open_map :: "aya \<Rightarrow> string \<Rightarrow> string \<Rightarrow> ProbeError + unit" where
  "open_map a name kind =
     (if \<not> has_map a name then Inl (MapErr (''map `'' @ name @ ''` not found''))
      else case open_err a name of
          Some e \<Rightarrow> Inl (MapErr (''open `'' @ name @ ''` as '' @ kind @ '': '' @ e))
        | None \<Rightarrow> Inr ())"

definition em_dash :: string where
  "em_dash = of_bytes (encode_utf8 0x2014)"

section \<open>Building a policy\<close>

record Ipv4Cidr =
  v4_network :: u32
  v4_prefix_len :: u8

record Ipv6Cidr =
  v6_network :: bytes
  v6_prefix_len :: u8

definition Ipv4Cidr_new :: "u32 \<Rightarrow> u8 \<Rightarrow> PolicyError + Ipv4Cidr" where
  "Ipv4Cidr_new network prefix_len =
     (if prefix_len > 32 then Inl (PrefixTooLong prefix_len)
      else Inr \<lparr>v4_network = network, v4_prefix_len = prefix_len\<rparr>)"

definition Ipv4Cidr_host :: "u32 \<Rightarrow> Ipv4Cidr" where
  "Ipv4Cidr_host addr = \<lparr>v4_network = addr, v4_prefix_len = 32\<rparr>"

definition Ipv6Cidr_new :: "bytes \<Rightarrow> u8 \<Rightarrow> PolicyError + Ipv6Cidr" where
  "Ipv6Cidr_new network prefix_len =
     (if prefix_len > 128 then Inl (PrefixTooLong prefix_len)
      else Inr \<lparr>v6_network = network, v6_prefix_len = prefix_len\<rparr>)"

definition Ipv6Cidr_host :: "bytes \<Rightarrow> Ipv6Cidr" where
  "Ipv6Cidr_host addr = \<lparr>v6_network = addr, v6_prefix_len = 128\<rparr>"

record EgressPolicy =
  rules :: "PolicyRule list"
  rules6 :: "PolicyRule6 list"

definition deny_all :: EgressPolicy where
  "deny_all = \<lparr>rules = [], rules6 = []\<rparr>"

definition port_or_any :: "u16 option \<Rightarrow> u16" where
  "port_or_any p = (case p of Some x \<Rightarrow> x | None \<Rightarrow> 0)"

definition proto_or_any :: "Protocol option \<Rightarrow> u8" where
  "proto_or_any p = (case p of Some x \<Rightarrow> Protocol_as_u8 x | None \<Rightarrow> 0)"

definition allow :: "Ipv4Cidr \<Rightarrow> u16 option \<Rightarrow> Protocol option \<Rightarrow> EgressPolicy \<Rightarrow> EgressPolicy" where
  "allow cidr port proto p =
     p\<lparr>rules := rules p @ [PolicyRule_allow (v4_network cidr) (v4_prefix_len cidr)
                             (port_or_any port) (proto_or_any proto)]\<rparr>"

definition allow_host :: "u32 \<Rightarrow> u16 option \<Rightarrow> Protocol option \<Rightarrow> EgressPolicy \<Rightarrow> EgressPolicy" where
  "allow_host host port proto = allow (Ipv4Cidr_host host) port proto"

definition allow6 :: "Ipv6Cidr \<Rightarrow> u16 option \<Rightarrow> Protocol option \<Rightarrow> EgressPolicy \<Rightarrow> EgressPolicy" where
  "allow6 cidr port proto p =
     p\<lparr>rules6 := rules6 p @ [PolicyRule6_allow (v6_network cidr) (v6_prefix_len cidr)
                               (port_or_any port) (proto_or_any proto)]\<rparr>"

definition allow_host6 :: "bytes \<Rightarrow> u16 option \<Rightarrow> Protocol option \<Rightarrow> EgressPolicy \<Rightarrow> EgressPolicy" where
  "allow_host6 host port proto = allow6 (Ipv6Cidr_host host) port proto"

definition is_deny_all :: "EgressPolicy \<Rightarrow> bool" where
  "is_deny_all p \<longleftrightarrow> rules p = [] \<and> rules6 p = []"

section \<open>Writing a policy into the kernel\<close>

text \<open>What the classifier reads in a slot that holds the given raw bytes.\<close>

definition rule_in_slot :: "bytes \<Rightarrow> PolicyRule" where
  "rule_in_slot b = (case PolicyRule_from_bytes b of Some r \<Rightarrow> r | None \<Rightarrow> PolicyRule_default)"

definition rule6_in_slot :: "bytes \<Rightarrow> PolicyRule6" where
  "rule6_in_slot b =
     \<lparr>pr6_addr = take 16 b, pr6_port = from_le_bytes (take 2 (drop 16 b)), pr6_prefix_len = b ! 18,
      pr6_proto = b ! 19, pr6_active = b ! 20, pr6_pad = take 3 (drop 21 b)\<rparr>"

fun write_slots :: "aya \<Rightarrow> string \<Rightarrow> (nat \<Rightarrow> 's) \<Rightarrow> nat list \<Rightarrow> ('s list, ProbeError, unit) smethod" where
  "write_slots a name val [] slots = (Inr (), slots)"
| "write_slots a name val (i # is) slots =
     (case op_err a name i of
        Some e \<Rightarrow> (Inl (MapErr (''write `'' @ name @ ''`['' @ dec i @ '']: '' @ e)), slots)
      | None \<Rightarrow> write_slots a name val is (slots[i := val i]))"

definition slot_bytes :: "PolicyRule list \<Rightarrow> nat \<Rightarrow> bytes" where
  "slot_bytes rs i =
     (case slice_at rs i of Some r \<Rightarrow> PolicyRule_to_bytes r | None \<Rightarrow> replicate POLICY_RULE_SIZE 0)"

definition slot_bytes6 :: "PolicyRule6 list \<Rightarrow> nat \<Rightarrow> bytes" where
  "slot_bytes6 rs i =
     (case slice_at rs i of Some r \<Rightarrow> PolicyRule6_to_bytes r | None \<Rightarrow> replicate POLICY_RULE6_SIZE 0)"

definition write_policy :: "aya \<Rightarrow> PolicyRule list \<Rightarrow> (tap_maps, ProbeError, unit) smethod" where
  "write_policy a rs s =
     (case open_map a ''POLICY'' ''an array'' of
        Inl e \<Rightarrow> (Inl e, s)
      | Inr _ \<Rightarrow>
          (case write_slots a ''POLICY'' (\<lambda>i. rule_in_slot (slot_bytes rs i)) [0..<MAX_POLICY_RULES] (policy s) of
             (r, slots) \<Rightarrow> (r, s\<lparr>policy := slots\<rparr>)))"

definition write_policy6 :: "aya \<Rightarrow> PolicyRule6 list \<Rightarrow> (tap_maps, ProbeError, unit) smethod" where
  "write_policy6 a rs s =
     (case open_map a ''POLICY6'' ''an array'' of
        Inl e \<Rightarrow> (Inl e, s)
      | Inr _ \<Rightarrow>
          (case write_slots a ''POLICY6'' (\<lambda>i. rule6_in_slot (slot_bytes6 rs i)) [0..<MAX_POLICY_RULES] (policy6 s) of
             (r, slots) \<Rightarrow> (r, s\<lparr>policy6 := slots\<rparr>)))"

definition set_enforce :: "aya \<Rightarrow> bool \<Rightarrow> (tap_maps, ProbeError, unit) smethod" where
  "set_enforce a on s =
     (case open_map a ''ENFORCE'' ''an array'' of
        Inl e \<Rightarrow> (Inl e, s)
      | Inr _ \<Rightarrow>
          (case op_err a ''ENFORCE'' 0 of
             Some e \<Rightarrow> (Inl (MapErr (''write `ENFORCE`: '' @ e)), s)
           | None \<Rightarrow> (Inr (), s\<lparr>enforce := of_bool on\<rparr>)))"

definition apply_policy :: "aya \<Rightarrow> EgressPolicy \<Rightarrow> (tap_maps, ProbeError, unit) smethod" where
  "apply_policy a pol =
     (if length (rules pol) > MAX_POLICY_RULES
      then failm (PolicyErr (TooManyRules (length (rules pol)) MAX_POLICY_RULES))
      else if length (rules6 pol) > MAX_POLICY_RULES
      then failm (PolicyErr (TooManyRules (length (rules6 pol)) MAX_POLICY_RULES))
      else
        seqm (write_policy a (rules pol)) (\<lambda>_.
        seqm (write_policy6 a (rules6 pol)) (\<lambda>_.
        set_enforce a True)))"

definition set_egress_policy :: "aya \<Rightarrow> EgressPolicy \<Rightarrow> (tap_maps, ProbeError, unit) smethod" where
  "set_egress_policy a pol = apply_policy a pol"

definition clear_egress_policy :: "aya \<Rightarrow> (tap_maps, ProbeError, unit) smethod" where
  "clear_egress_policy a = set_enforce a False"

text \<open>\<open>enforce_in_netns\<close>: the prerequisite check, the loading of the object (which yields fresh
  maps) and the attachment of the programs are parameters; the attachment sees the maps as they are
  when the programs go live.\<close>

definition enforce_in_netns ::
    "ProbeError + unit \<Rightarrow> ProbeError + tap_maps \<Rightarrow> (tap_maps \<Rightarrow> ProbeError + unit) \<Rightarrow> aya \<Rightarrow> EgressPolicy
      \<Rightarrow> ProbeError + tap_maps" where
  "enforce_in_netns support loaded attach a pol =
     and_then support (\<lambda>_.
     and_then loaded (\<lambda>maps.
       case apply_policy a pol maps of
         (Inl e, _) \<Rightarrow> Inl e
       | (Inr _, armed) \<Rightarrow> and_then (attach armed) (\<lambda>_. Inr armed)))"

section \<open>Reading back\<close>

record NetStats =
  ns_ingress_packets :: u64
  ns_ingress_bytes :: u64
  ns_egress_packets :: u64
  ns_egress_bytes :: u64

text \<open>A hash map as the kernel hands it out: raw entries, any of which may fail to be read.\<close>

fun decode_entries ::
    "string \<Rightarrow> ('r \<Rightarrow> 'a option) \<Rightarrow> ('r \<Rightarrow> string) \<Rightarrow> (string + 'r) list \<Rightarrow> ProbeError + 'a list" where
  "decode_entries name f msg [] = Inr []"
| "decode_entries name f msg (Inl e # es) = Inl (MapErr (''iterate `'' @ name @ ''`: '' @ e))"
| "decode_entries name f msg (Inr r # es) =
     (case f r of
        None \<Rightarrow> Inl (MapErr (msg r))
      | Some x \<Rightarrow> and_then (decode_entries name f msg es) (\<lambda>xs. Inr (x # xs)))"

definition bad_entry :: "string \<Rightarrow> bytes \<times> bytes \<Rightarrow> string" where
  "bad_entry name r =
     ''decode a `'' @ name @ ''` entry: '' @ dec (length (fst r)) @ ''-byte key / ''
     @ dec (length (snd r)) @ ''-byte value don't match the shared record''"

definition bad_key :: "string \<Rightarrow> bytes \<times> u64 \<Rightarrow> string" where
  "bad_key name r =
     ''decode a `'' @ name @ ''` key: '' @ dec (length (fst r))
     @ ''-byte key doesn't match the shared record''"

definition decode_flow :: "bytes \<times> bytes \<Rightarrow> (FlowKey \<times> FlowCounts) option" where
  "decode_flow r = do { k \<leftarrow> FlowKey_from_bytes (fst r); c \<leftarrow> FlowCounts_from_bytes (snd r); Some (k, c) }"

definition decode_flow6 :: "bytes \<times> bytes \<Rightarrow> (FlowKey6 \<times> FlowCounts) option" where
  "decode_flow6 r = do { k \<leftarrow> FlowKey6_from_bytes (fst r); c \<leftarrow> FlowCounts_from_bytes (snd r); Some (k, c) }"

definition read_flows :: "aya \<Rightarrow> (string + bytes \<times> bytes) list \<Rightarrow> ProbeError + (FlowKey \<times> FlowCounts) list" where
  "read_flows a raw =
     and_then (open_map a ''FLOWS'' ''a hash map'')
       (\<lambda>_. decode_entries ''FLOWS'' decode_flow (bad_entry ''FLOWS'') raw)"

definition read_flows6 :: "aya \<Rightarrow> (string + bytes \<times> bytes) list \<Rightarrow> ProbeError + (FlowKey6 \<times> FlowCounts) list" where
  "read_flows6 a raw =
     and_then (open_map a ''FLOWS6'' ''a hash map'')
       (\<lambda>_. decode_entries ''FLOWS6'' decode_flow6 (bad_entry ''FLOWS6'') raw)"

definition read_denials :: "aya \<Rightarrow> (string + bytes \<times> u64) list \<Rightarrow> ProbeError + (FlowKey \<times> u64) list" where
  "read_denials a raw =
     and_then (open_map a ''DENIALS'' ''a hash map'')
       (\<lambda>_. decode_entries ''DENIALS''
              (\<lambda>r. map_option (\<lambda>k. (k, snd r)) (FlowKey_from_bytes (fst r))) (bad_key ''DENIALS'') raw)"

definition read_denials6 :: "aya \<Rightarrow> (string + bytes \<times> u64) list \<Rightarrow> ProbeError + (FlowKey6 \<times> u64) list" where
  "read_denials6 a raw =
     and_then (open_map a ''DENIALS6'' ''a hash map'')
       (\<lambda>_. decode_entries ''DENIALS6''
              (\<lambda>r. map_option (\<lambda>k. (k, snd r)) (FlowKey6_from_bytes (fst r))) (bad_key ''DENIALS6'') raw)"

definition add_counts :: "NetStats \<Rightarrow> FlowCounts \<Rightarrow> NetStats" where
  "add_counts st c =
     \<lparr>ns_ingress_packets = saturating_add_u64 (ns_ingress_packets st) (ingress_packets c),
      ns_ingress_bytes = saturating_add_u64 (ns_ingress_bytes st) (ingress_bytes c),
      ns_egress_packets = saturating_add_u64 (ns_egress_packets st) (egress_packets c),
      ns_egress_bytes = saturating_add_u64 (ns_egress_bytes st) (egress_bytes c)\<rparr>"

definition NetStats_default :: NetStats where
  "NetStats_default =
     \<lparr>ns_ingress_packets = 0, ns_ingress_bytes = 0, ns_egress_packets = 0, ns_egress_bytes = 0\<rparr>"

definition totals :: "aya \<Rightarrow> (string + bytes \<times> bytes) list \<Rightarrow> ProbeError + NetStats" where
  "totals a raw =
     and_then (read_flows a raw) (\<lambda>fl. Inr (foldl (\<lambda>st kc. add_counts st (snd kc)) NetStats_default fl))"

definition per_cpu_sum :: "aya \<Rightarrow> string \<Rightarrow> u64 list \<Rightarrow> ProbeError + u64" where
  "per_cpu_sum a name per_cpu =
     and_then (open_map a name ''a per-cpu array'')
       (\<lambda>_. case op_err a name 0 of
              Some e \<Rightarrow> Inl (MapErr (''read `'' @ name @ ''`[0]: '' @ e))
            | None \<Rightarrow> Inr (foldl saturating_add_u64 0 per_cpu))"

section \<open>Tracer and meter configuration\<close>

definition set_mode :: "aya \<Rightarrow> bool \<Rightarrow> (trace_maps, ProbeError, unit) smethod" where
  "set_mode a on s =
     (case open_map a ''TRACE_SET'' ''an array'' of
        Inl e \<Rightarrow> (Inl e, s)
      | Inr _ \<Rightarrow>
          (case op_err a ''TRACE_SET'' 0 of
             Some e \<Rightarrow> (Inl (MapErr (''write `TRACE_SET`: '' @ e)), s)
           | None \<Rightarrow> (Inr (), s\<lparr>trace_set := of_bool on\<rparr>)))"

definition set_filter :: "aya \<Rightarrow> nat \<Rightarrow> u64 \<Rightarrow> (trace_maps, ProbeError, unit) smethod" where
  "set_filter a slot v s =
     (case open_map a ''FILTER'' ''an array'' of
        Inl e \<Rightarrow> (Inl e, s)
      | Inr _ \<Rightarrow>
          (case op_err a ''FILTER'' slot of
             Some e \<Rightarrow> (Inl (MapErr (''set `FILTER`['' @ dec slot @ '']: '' @ e)), s)
           | None \<Rightarrow> (Inr (), if slot = 0 then s\<lparr>filter_tgid := v\<rparr> else s\<lparr>filter_cgroup := v\<rparr>)))"

definition watch_pid :: "aya \<Rightarrow> u32 \<Rightarrow> (trace_maps, ProbeError, unit) smethod" where
  "watch_pid a pid = seqm (set_mode a False) (\<lambda>_. set_filter a 0 (ucast pid))"

definition watch_cgroup :: "aya \<Rightarrow> u64 \<Rightarrow> (trace_maps, ProbeError, unit) smethod" where
  "watch_cgroup a cg = seqm (set_mode a False) (\<lambda>_. set_filter a 1 cg)"

definition watch_all :: "aya \<Rightarrow> (trace_maps, ProbeError, unit) smethod" where
  "watch_all a = seqm (set_mode a False) (\<lambda>_. seqm (set_filter a 0 0) (\<lambda>_. set_filter a 1 0))"

definition use_target_set :: "aya \<Rightarrow> (trace_maps, ProbeError, unit) smethod" where
  "use_target_set a = set_mode a True"

definition add_target :: "aya \<Rightarrow> u64 \<Rightarrow> (trace_maps, ProbeError, unit) smethod" where
  "add_target a cg =
     seqm (set_mode a True) (\<lambda>_ s.
       case open_map a ''TRACE_TARGETS'' ''a hash map'' of
         Inl e \<Rightarrow> (Inl e, s)
       | Inr _ \<Rightarrow>
           (case op_err a ''TRACE_TARGETS'' (unat cg) of
              Some e \<Rightarrow> (Inl (MapErr (''register cgroup '' @ dec (unat cg) @ '' for tracing: '' @ e)), s)
            | None \<Rightarrow> (Inr (), s\<lparr>trace_targets := List.insert cg (trace_targets s)\<rparr>)))"

definition remove_target :: "aya \<Rightarrow> u64 \<Rightarrow> (trace_maps, ProbeError, unit) smethod" where
  "remove_target a cg s =
     (case open_map a ''TRACE_TARGETS'' ''a hash map'' of
        Inl e \<Rightarrow> (Inl e, s)
      | Inr _ \<Rightarrow>
          (case op_err a ''TRACE_TARGETS'' (unat cg) of
             Some e \<Rightarrow>
               if cg \<in> set (trace_targets s)
               then (Inl (MapErr (''unregister cgroup '' @ dec (unat cg) @ '' from tracing: '' @ e)), s)
               else (Inr (), s)
           | None \<Rightarrow> (Inr (), s\<lparr>trace_targets := removeAll cg (trace_targets s)\<rparr>)))"

definition meter_add_target :: "aya \<Rightarrow> u64 \<Rightarrow> (meter_maps, ProbeError, unit) smethod" where
  "meter_add_target a cg s =
     (case open_map a ''METER_TARGETS'' ''a hash map'' of
        Inl e \<Rightarrow> (Inl e, s)
      | Inr _ \<Rightarrow>
          (case op_err a ''METER_TARGETS'' (unat cg) of
             Some e \<Rightarrow> (Inl (MapErr (''register cgroup '' @ dec (unat cg) @ '' for metering: '' @ e)), s)
           | None \<Rightarrow> (Inr (), s\<lparr>meter_targets := List.insert cg (meter_targets s)\<rparr>)))"

definition meter_remove_target :: "aya \<Rightarrow> u64 \<Rightarrow> (meter_maps, ProbeError, unit) smethod" where
  "meter_remove_target a cg s =
     (case open_map a ''METER_TARGETS'' ''a hash map'' of
        Inl e \<Rightarrow> (Inl e, s)
      | Inr _ \<Rightarrow>
          (case op_err a ''METER_TARGETS'' (unat cg) of
             Some e \<Rightarrow>
               if cg \<in> set (meter_targets s)
               then (Inl (MapErr (''unregister cgroup '' @ dec (unat cg) @ '': '' @ e)), s)
               else (Inr (), s)
           | None \<Rightarrow> (Inr (), s\<lparr>meter_targets := removeAll cg (meter_targets s)\<rparr>)))"

text \<open>\<open>insert\<close> from userspace overwrites the row, or adds it.\<close>

definition meter_reset :: "aya \<Rightarrow> u64 \<Rightarrow> (meter_maps, ProbeError, unit) smethod" where
  "meter_reset a cg s =
     (case open_map a ''CPU_NS'' ''a hash map'' of
        Inl e \<Rightarrow> (Inl e, s)
      | Inr _ \<Rightarrow>
          (case op_err a ''CPU_NS'' (unat cg) of
             Some e \<Rightarrow> (Inl (MapErr (''reset cgroup '' @ dec (unat cg) @ '' CPU total: '' @ e)), s)
           | None \<Rightarrow> (Inr (), s\<lparr>cpu_ns := fst (lookup_or_init (\<lambda>_. True) cg (\<lambda>_. 0) 0 (cpu_ns s))\<rparr>)))"

definition meter_clear :: "aya \<Rightarrow> u64 \<Rightarrow> (meter_maps, ProbeError, unit) smethod" where
  "meter_clear a cg s =
     (case open_map a ''CPU_NS'' ''a hash map'' of
        Inl e \<Rightarrow> (Inl e, s)
      | Inr _ \<Rightarrow>
          (case op_err a ''CPU_NS'' (unat cg) of
             Some e \<Rightarrow>
               if map_of (cpu_ns s) cg \<noteq> None
               then (Inl (MapErr (''clear cgroup '' @ dec (unat cg) @ '' CPU total: '' @ e)), s)
               else (Inr (), s)
           | None \<Rightarrow> (Inr (), s\<lparr>cpu_ns := filter (\<lambda>kv. fst kv \<noteq> cg) (cpu_ns s)\<rparr>)))"

definition set_meter_all :: "aya \<Rightarrow> bool \<Rightarrow> (meter_maps, ProbeError, unit) smethod" where
  "set_meter_all a on s =
     (case open_map a ''METER_ALL'' ''an array'' of
        Inl e \<Rightarrow> (Inl e, s)
      | Inr _ \<Rightarrow>
          (case op_err a ''METER_ALL'' 0 of
             Some e \<Rightarrow> (Inl (MapErr (''write `METER_ALL`: '' @ e)), s)
           | None \<Rightarrow> (Inr (), s\<lparr>meter_all := of_bool on\<rparr>)))"

definition read_cpu_ns :: "aya \<Rightarrow> u64 \<Rightarrow> meter_maps \<Rightarrow> ProbeError + u64" where
  "read_cpu_ns a cg s =
     and_then (open_map a ''CPU_NS'' ''a hash map'') (\<lambda>_.
       case op_err a ''CPU_NS'' (unat cg) of
         Some e \<Rightarrow> Inl (MapErr (''read `CPU_NS` for cgroup '' @ dec (unat cg) @ '': '' @ e))
       | None \<Rightarrow> Inr (case map_of (cpu_ns s) cg of Some n \<Rightarrow> n | None \<Rightarrow> 0))"

section \<open>Files of the host\<close>

definition parse_single_u64 :: "string \<Rightarrow> u64 option" where
  "parse_single_u64 text = parse_u64 (trim text)"

definition parse_keyed_u64 :: "string \<Rightarrow> string \<Rightarrow> u64 option" where
  "parse_keyed_u64 text key =
     find_map (\<lambda>line.
       case split_whitespace line of
         k # v # _ \<Rightarrow> if k = key then parse_u64 v else None
       | _ \<Rightarrow> None) (str_lines text)"

definition io_token :: "u64 \<times> u64 \<Rightarrow> string \<Rightarrow> u64 \<times> u64" where
  "io_token rw token =
     (case Option.bind (strip_prefix ''rbytes='' token) parse_u64 of
        Some v \<Rightarrow> (saturating_add_u64 (fst rw) v, snd rw)
      | None \<Rightarrow>
          (case Option.bind (strip_prefix ''wbytes='' token) parse_u64 of
             Some v \<Rightarrow> (fst rw, saturating_add_u64 (snd rw) v)
           | None \<Rightarrow> rw))"

definition parse_io_bytes :: "string \<Rightarrow> u64 \<times> u64" where
  "parse_io_bytes text =
     foldl (\<lambda>rw line. foldl io_token rw (split_whitespace line)) (0, 0) (str_lines text)"

definition CAP_PERFMON :: nat where "CAP_PERFMON = 38"
definition CAP_BPF :: nat where "CAP_BPF = 39"

definition parse_cap_eff :: "string \<Rightarrow> u64 option" where
  "parse_cap_eff status =
     (case find_map (strip_prefix ''CapEff:'') (str_lines status) of
        None \<Rightarrow> None
      | Some h \<Rightarrow>
          (let hex = trim h in
           if hex = [] \<or> \<not> is_ascii hex then None
           else map_option word_of_nat (from_str_radix 16 u64_max (drop (length hex - 16) hex))))"

definition mask_has_load_caps :: "u64 \<Rightarrow> bool" where
  "mask_has_load_caps caps \<longleftrightarrow>
     drop_bit CAP_BPF caps AND 1 = 1 \<and> drop_bit CAP_PERFMON caps AND 1 = 1"

definition pick_object_path :: "'p option \<Rightarrow> 'p option \<Rightarrow> 'p option \<Rightarrow> 'p \<Rightarrow> 'p" where
  "pick_object_path env_override built installed fallback =
     (case env_override of Some p \<Rightarrow> p
      | None \<Rightarrow> (case built of Some p \<Rightarrow> p
      | None \<Rightarrow> (case installed of Some p \<Rightarrow> p | None \<Rightarrow> fallback)))"

text \<open>\<open>have_load_caps\<close> and \<open>check_support\<close>: the two host probes are the presence of the kernel BTF
  file and the text of \<open>/proc/self/status\<close>, when it can be read.\<close>

definition have_load_caps :: "string option \<Rightarrow> bool" where
  "have_load_caps status =
     (case Option.bind status parse_cap_eff of Some caps \<Rightarrow> mask_has_load_caps caps | None \<Rightarrow> False)"

definition check_support :: "bool \<Rightarrow> string option \<Rightarrow> ProbeError + unit" where
  "check_support btf status =
     (if \<not> btf then
        Inl (Unsupported (''kernel BTF (/sys/kernel/btf/vmlinux) is absent '' @ em_dash
          @ '' CO-RE eBPF needs a BTF-enabled kernel (CONFIG_DEBUG_INFO_BTF=y)''))
      else if \<not> have_load_caps status then
        Inl (Unsupported (''missing CAP_BPF and/or CAP_PERFMON '' @ em_dash
          @ '' loading and attaching the probes needs both (or root); grant them with `setcap ''
          @ ''cap_bpf,cap_perfmon+ep <binary>`, or run as root''))
      else Inr ())"

definition cgroup_dir_of_pid :: "u32 \<Rightarrow> string + string \<Rightarrow> ProbeError + string" where
  "cgroup_dir_of_pid pid contents =
     (let proc_path = ''/proc/'' @ dec (unat pid) @ ''/cgroup'' in
      case contents of
        Inl e \<Rightarrow> Inl (MapErr (''read '' @ proc_path @ '': '' @ e))
      | Inr text \<Rightarrow>
          (case find_map (strip_prefix ''0::'') (str_lines text) of
             None \<Rightarrow> Inl (MapErr (proc_path @ '' has no unified (0::) cgroup line '' @ em_dash
                 @ '' a cgroup v2 host is required''))
           | Some rel \<Rightarrow>
               Inr (''/sys/fs/cgroup/'' @ dropWhile (\<lambda>c. c = CHR ''/'') (trim rel))))"

section \<open>Slots\<close>

definition ok_rule6 :: "PolicyRule6 \<Rightarrow> bool" where
  "ok_rule6 r \<longleftrightarrow> length (pr6_addr r) = 16 \<and> pr6_pad r = [0, 0, 0]"

definition ok_policy :: "EgressPolicy \<Rightarrow> bool" where
  "ok_policy p \<longleftrightarrow> list_all ok_rule (rules p) \<and> list_all ok_rule6 (rules6 p)"

text \<open>The contents of a rule array that holds a list of rules.\<close>

definition padded :: "'r \<Rightarrow> 'r list \<Rightarrow> 'r list" where
  "padded d rs = rs @ replicate (MAX_POLICY_RULES - length rs) d"

lemma zero_slot: "rule_in_slot (replicate POLICY_RULE_SIZE 0) = PolicyRule_default"
proof -
  have "to_le_bytes 2 (0 :: u16) = replicate 2 0" by (simp add: to_le_bytes_def numeral_2_eq_2)
  moreover have "to_le_bytes 4 (0 :: u32) = replicate 4 0"
    by (simp add: to_le_bytes_def le_digits_4) (simp add: numeral_eq_Suc)
  moreover have "[0, 0, 0, 0, 0, 0] = replicate 6 (0 :: u8)" by (simp add: numeral_eq_Suc)
  ultimately have "PolicyRule_to_bytes PolicyRule_default = replicate POLICY_RULE_SIZE 0"
    by (simp add: PolicyRule_to_bytes_def PolicyRule_default_def POLICY_RULE_SIZE_def
        flip: replicate_add)
  then show ?thesis
    using rule_repr.from_image [of PolicyRule_default "[]"]
    by (simp add: rule_in_slot_def ok_rule_def PolicyRule_default_def)
qed

lemma rule_slot: "ok_rule r \<Longrightarrow> rule_in_slot (PolicyRule_to_bytes r) = r"
  using rule_repr.from_image [of r "[]"] by (simp add: rule_in_slot_def)

lemma rule6_slot: "ok_rule6 r \<Longrightarrow> rule6_in_slot (PolicyRule6_to_bytes r) = r"
  by (auto simp: ok_rule6_def rule6_in_slot_def PolicyRule6_to_bytes_def nth_append from_le_to_le)

lemma zero_slot6: "rule6_in_slot (replicate POLICY_RULE6_SIZE 0) = PolicyRule6_default"
proof -
  have "to_le_bytes 2 (0 :: u16) = replicate 2 0" by (simp add: to_le_bytes_def numeral_2_eq_2)
  moreover have "[0, 0, 0, 0, 0, 0] = replicate 6 (0 :: u8)" by (simp add: numeral_eq_Suc)
  ultimately have "PolicyRule6_to_bytes PolicyRule6_default = replicate POLICY_RULE6_SIZE 0"
    by (simp add: PolicyRule6_to_bytes_def PolicyRule6_default_def POLICY_RULE6_SIZE_def
        flip: replicate_add)
  then show ?thesis
    using rule6_slot [of PolicyRule6_default] by (simp add: ok_rule6_def PolicyRule6_default_def)
qed

lemma slots_written:
  assumes "list_all ok_rule rs" "length rs \<le> MAX_POLICY_RULES"
  shows "map (\<lambda>i. rule_in_slot (slot_bytes rs i)) [0..<MAX_POLICY_RULES] = padded PolicyRule_default rs"
  using assms
  by (intro nth_equalityI)
    (auto simp: padded_def slot_bytes_def slice_at_def nth_append zero_slot rule_slot list_all_length)

lemma slots6_written:
  assumes "list_all ok_rule6 rs" "length rs \<le> MAX_POLICY_RULES"
  shows "map (\<lambda>i. rule6_in_slot (slot_bytes6 rs i)) [0..<MAX_POLICY_RULES] = padded PolicyRule6_default rs"
  using assms
  by (intro nth_equalityI)
    (auto simp: padded_def slot_bytes6_def slice_at_def nth_append zero_slot6 rule6_slot list_all_length)

text \<open>A run over the slots, cut off at any point, has replaced a prefix.\<close>

lemma write_slots_prefix:
  assumes "write_slots a name val [k..<n] slots = (r, slots')" "length slots = n" "k \<le> n"
  shows "\<exists>i. k \<le> i \<and> i \<le> n \<and> slots' = take k slots @ map val [k..<i] @ drop i slots \<and> (r = Inr () \<longrightarrow> i = n)"
  using assms
proof (induction "n - k" arbitrary: k slots)
  case 0
  then show ?case by (intro exI [of _ n]) simp
next
  case (Suc m)
  then have k: "k < n" and upt: "[k..<n] = k # [Suc k..<n]" by (simp_all add: upt_conv_Cons)
  show ?case
  proof (cases "op_err a name k")
    case (Some e)
    then show ?thesis using Suc.prems k by (auto simp: upt intro!: exI [of _ k])
  next
    case None
    have m: "m = n - Suc k" using Suc.hyps(2) by simp
    have len: "length (slots[k := val k]) = n" using Suc.prems(2) by simp
    have "write_slots a name val [Suc k..<n] (slots[k := val k]) = (r, slots')"
      using Suc.prems(1) None by (simp add: upt)
    then obtain i where i: "Suc k \<le> i" "i \<le> n" "r = Inr () \<longrightarrow> i = n"
      and s: "slots' = take (Suc k) (slots[k := val k]) @ map val [Suc k..<i] @ drop i (slots[k := val k])"
      using Suc.hyps(1) [OF m _ len] k by auto
    have "take (Suc k) (slots[k := val k]) = take k slots @ [val k]"
      using k Suc.prems(2) by (simp add: take_Suc_conv_app_nth)
    moreover have "[k..<i] = k # [Suc k..<i]" using i by (simp add: upt_conv_Cons)
    ultimately show ?thesis using i s by (intro exI [of _ i]) simp
  qed
qed

lemma write_policy_slots:
  assumes "write_policy a rs s = (r, s')" "wf_policy s" "list_all ok_rule rs" "length rs \<le> MAX_POLICY_RULES"
  shows "\<exists>i. s' = s\<lparr>policy := take i (padded PolicyRule_default rs) @ drop i (policy s)\<rparr>
    \<and> (r = Inr () \<longrightarrow> i = MAX_POLICY_RULES)"
proof (cases "open_map a ''POLICY'' ''an array''")
  case (Inl e)
  then show ?thesis using assms(1) by (intro exI [of _ 0]) (auto simp: write_policy_def)
next
  case (Inr u)
  then obtain slots where w: "write_slots a ''POLICY'' (\<lambda>i. rule_in_slot (slot_bytes rs i))
      [0..<MAX_POLICY_RULES] (policy s) = (r, slots)" and s': "s' = s\<lparr>policy := slots\<rparr>"
    using assms(1) by (auto simp: write_policy_def split: prod.splits)
  from write_slots_prefix [OF w] assms(2) obtain i where "i \<le> MAX_POLICY_RULES" "r = Inr () \<longrightarrow> i = MAX_POLICY_RULES"
    "slots = map (\<lambda>i. rule_in_slot (slot_bytes rs i)) [0..<i] @ drop i (policy s)"
    by (auto simp: wf_policy_def)
  then show ?thesis
    using s' by (intro exI [of _ i]) (simp add: take_map take_upt flip: slots_written [OF assms(3,4)])
qed

lemma write_policy6_slots:
  assumes "write_policy6 a rs s = (r, s')" "wf_policy s" "list_all ok_rule6 rs" "length rs \<le> MAX_POLICY_RULES"
  shows "\<exists>i. s' = s\<lparr>policy6 := take i (padded PolicyRule6_default rs) @ drop i (policy6 s)\<rparr>
    \<and> (r = Inr () \<longrightarrow> i = MAX_POLICY_RULES)"
proof (cases "open_map a ''POLICY6'' ''an array''")
  case (Inl e)
  then show ?thesis using assms(1) by (intro exI [of _ 0]) (auto simp: write_policy6_def)
next
  case (Inr u)
  then obtain slots where w: "write_slots a ''POLICY6'' (\<lambda>i. rule6_in_slot (slot_bytes6 rs i))
      [0..<MAX_POLICY_RULES] (policy6 s) = (r, slots)" and s': "s' = s\<lparr>policy6 := slots\<rparr>"
    using assms(1) by (auto simp: write_policy6_def split: prod.splits)
  from write_slots_prefix [OF w] assms(2) obtain i where "i \<le> MAX_POLICY_RULES" "r = Inr () \<longrightarrow> i = MAX_POLICY_RULES"
    "slots = map (\<lambda>i. rule6_in_slot (slot_bytes6 rs i)) [0..<i] @ drop i (policy6 s)"
    by (auto simp: wf_policy_def)
  then show ?thesis
    using s' by (intro exI [of _ i]) (simp add: take_map take_upt flip: slots6_written [OF assms(3,4)])
qed

section \<open>What a written policy admits\<close>

lemma admitted_mono:
  assumes "\<And>d port proto. egress_allowed p d port proto \<Longrightarrow> egress_allowed q d port proto \<or> egress_allowed q' d port proto"
    and "\<And>d port proto. egress_allowed6 p6 d port proto \<Longrightarrow> egress_allowed6 q6 d port proto \<or> egress_allowed6 q6' d port proto"
    and "admitted p p6 f"
  shows "admitted q q6 f \<or> admitted q' q6' f"
  using assms(3) by (auto simp: admitted_def split: option.splits dest!: assms(1,2))

lemma admitted_padded [simp]:
  "admitted (padded PolicyRule_default rs) (padded PolicyRule6_default rs6) f = admitted rs rs6 f"
proof -
  have "egress_allowed (padded PolicyRule_default rs) d port proto = egress_allowed rs d port proto" for d port proto
    using v4_list.slots_allow [of "(d, port, proto)" rs] by (simp add: egress_allowed_def padded_def)
  moreover have "egress_allowed6 (padded PolicyRule6_default rs6) d port proto = egress_allowed6 rs6 d port proto"
    for d port proto
    using v6_list.slots_allow [of "(d, port, proto)" rs6] by (simp add: egress_allowed6_def padded_def)
  ultimately show ?thesis by (simp add: admitted_def split: option.splits)
qed

lemma mixed_allows:
  "egress_allowed (take i p @ drop i q) d port proto \<Longrightarrow> egress_allowed p d port proto \<or> egress_allowed q d port proto"
  "egress_allowed6 (take i p6 @ drop i q6) d6 port proto \<Longrightarrow> egress_allowed6 p6 d6 port proto \<or> egress_allowed6 q6 d6 port proto"
  by (auto simp: egress_allowed_def egress_allowed6_def list_ex_iff dest: in_set_takeD in_set_dropD)

lemma length_padded: "length rs \<le> MAX_POLICY_RULES \<Longrightarrow> length (padded d rs) = MAX_POLICY_RULES"
  by (simp add: padded_def)

lemma set_enforce_cases:
  "set_enforce a on s = (r, s') \<Longrightarrow> (r = Inr () \<and> s' = s\<lparr>enforce := of_bool on\<rparr>) \<or> (r \<noteq> Inr () \<and> s' = s)"
  by (auto simp: set_enforce_def split: sum.splits option.splits)

text \<open>Every outcome of installing a policy: a prefix of each array is new, and the toggle moved only
  when everything was written.\<close>

lemma apply_policy_cases:
  assumes "apply_policy a pol s = (r, s')" "wf_policy s" "ok_policy pol"
  shows "(\<exists>i j. policy s' = take i (padded PolicyRule_default (rules pol)) @ drop i (policy s)
      \<and> policy6 s' = take j (padded PolicyRule6_default (rules6 pol)) @ drop j (policy6 s))
    \<and> (r = Inr () \<longrightarrow> policy s' = padded PolicyRule_default (rules pol)
        \<and> policy6 s' = padded PolicyRule6_default (rules6 pol) \<and> enforce s' = 1)
    \<and> (r \<noteq> Inr () \<longrightarrow> enforce s' = enforce s)"
proof (cases "length (rules pol) \<le> MAX_POLICY_RULES \<and> length (rules6 pol) \<le> MAX_POLICY_RULES")
  case False
  then have "s' = s" "r \<noteq> Inr ()" using assms(1) by (auto simp: apply_policy_def split: if_splits)
  then show ?thesis by (auto intro!: exI [of _ 0])
next
  case True
  note len = conjunct1 [OF True] conjunct2 [OF True]
  note ok = assms(3) [unfolded ok_policy_def]
  obtain r1 s1 where w1: "write_policy a (rules pol) s = (r1, s1)" by fastforce
  from write_policy_slots [OF w1 assms(2) conjunct1 [OF ok] len(1)] obtain i where
    s1: "s1 = s\<lparr>policy := take i (padded PolicyRule_default (rules pol)) @ drop i (policy s)\<rparr>"
    and i: "r1 = Inr () \<longrightarrow> i = MAX_POLICY_RULES" by blast
  show ?thesis
  proof (cases r1)
    case (Inl e)
    then have "r = Inl e" "s' = s1" using assms(1) True w1 by (auto simp: apply_policy_def seqm_def)
    moreover from this s1 have "policy6 s' = take 0 (padded PolicyRule6_default (rules6 pol)) @ drop 0 (policy6 s)"
      by simp
    ultimately show ?thesis using s1 by fastforce
  next
    case (Inr u)
    then have p1: "policy s1 = padded PolicyRule_default (rules pol)"
      using s1 i assms(2) len(1) by (simp add: wf_policy_def length_padded)
    have wf1: "wf_policy s1" using assms(2) p1 s1 len(1) by (simp add: wf_policy_def length_padded)
    obtain r2 s2 where w2: "write_policy6 a (rules6 pol) s1 = (r2, s2)" by fastforce
    from write_policy6_slots [OF w2 wf1 conjunct2 [OF ok] len(2)] obtain j where
      s2: "s2 = s1\<lparr>policy6 := take j (padded PolicyRule6_default (rules6 pol)) @ drop j (policy6 s1)\<rparr>"
      and j: "r2 = Inr () \<longrightarrow> j = MAX_POLICY_RULES" by blast
    show ?thesis
    proof (cases r2)
      case (Inl e)
      then have "r = Inl e" "s' = s2" using assms(1) True w1 w2 Inr by (auto simp: apply_policy_def seqm_def)
      then show ?thesis using s1 s2 by fastforce
    next
      case r2: (Inr u')
      have e: "set_enforce a True s2 = (r, s')"
        using assms(1) True w1 w2 Inr r2 by (auto simp: apply_policy_def seqm_def)
      have "policy6 s2 = padded PolicyRule6_default (rules6 pol)"
        using s2 j r2 wf1 len(2) by (simp add: wf_policy_def length_padded)
      note p2 = this
      have "policy s2 = take i (padded PolicyRule_default (rules pol)) @ drop i (policy s)"
        "policy6 s2 = take j (padded PolicyRule6_default (rules6 pol)) @ drop j (policy6 s)"
        "policy s2 = padded PolicyRule_default (rules pol)" "enforce s2 = enforce s"
        using p1 s1 s2 by simp_all
      then show ?thesis using set_enforce_cases [OF e] p2 by (elim disjE) (simp, blast)+
    qed
  qed
qed

text \<open>(C11) Arm before attach: when \<open>enforce_in_netns\<close> returns a monitor, the maps the tap programs
  went live on enforce exactly the requested policy, so the first packet is already policed; a
  guest-sent frame is accepted exactly when the policy (or ARP, or on-link ICMPv6) admits it.\<close>

theorem enforce_in_netns_armed:
  assumes "enforce_in_netns support (Inr maps) attach a pol = Inr armed"
    and "wf_policy maps" and "ok_policy pol"
  shows "attach armed = Inr () \<and> enforce armed = 1
    \<and> (fst (tap_ingress accepts cpu ctx armed) = TC_ACT_OK
        \<longleftrightarrow> admitted (rules pol) (rules6 pol) (frame ctx))"
proof -
  from assms(1) have ap: "apply_policy a pol maps = (Inr (), armed)" and at: "attach armed = Inr ()"
    by (auto simp: enforce_in_netns_def and_then_Inr split: prod.splits sum.splits)
  note c = apply_policy_cases [OF ap assms(2,3)]
  then have arr: "policy armed = padded PolicyRule_default (rules pol)"
    "policy6 armed = padded PolicyRule6_default (rules6 pol)" "enforce armed = 1" by auto
  have "length (rules pol) \<le> MAX_POLICY_RULES" "length (rules6 pol) \<le> MAX_POLICY_RULES"
    using ap by (auto simp: apply_policy_def split: if_splits)
  then have "wf_policy armed" by (simp add: wf_policy_def arr length_padded)
  then show ?thesis using at arr by (simp add: ingress_verdict)
qed

text \<open>(C12) Replacing a live policy fails closed: whatever map write fails, and at whatever slot, a
  frame the resulting rule arrays admit was admitted by the old policy or by the new one, and a
  failed update leaves the enforcement toggle as it was.\<close>

theorem set_egress_policy_fails_closed:
  assumes "set_egress_policy a pol s = (r, s')" and "wf_policy s" and "ok_policy pol"
  shows "(admitted (policy s') (policy6 s') f
           \<longrightarrow> admitted (policy s) (policy6 s) f \<or> admitted (rules pol) (rules6 pol) f)
    \<and> (r \<noteq> Inr () \<longrightarrow> enforce s' = enforce s)
    \<and> (r = Inr () \<longrightarrow> enforce s' = 1 \<and> (admitted (policy s') (policy6 s') f \<longleftrightarrow> admitted (rules pol) (rules6 pol) f))"
proof -
  note c = apply_policy_cases [OF assms(1) [unfolded set_egress_policy_def] assms(2,3)]
  then obtain i j where ij: "policy s' = take i (padded PolicyRule_default (rules pol)) @ drop i (policy s)"
    "policy6 s' = take j (padded PolicyRule6_default (rules6 pol)) @ drop j (policy6 s)" by blast
  have "admitted (padded PolicyRule_default (rules pol)) (padded PolicyRule6_default (rules6 pol)) f
      \<or> admitted (policy s) (policy6 s) f" if "admitted (policy s') (policy6 s') f"
    by (rule admitted_mono [OF _ _ that]) (auto simp: ij dest: mixed_allows)
  then show ?thesis using c by auto
qed

definition sound_aya :: aya where
  "sound_aya = \<lparr>has_map = (\<lambda>_. True), open_err = (\<lambda>_. None), op_err = (\<lambda>_ _. None)\<rparr>"

definition broken_aya :: aya where
  "broken_aya = \<lparr>has_map = (\<lambda>_. True), open_err = (\<lambda>_. None),
     op_err = (\<lambda>name i. if name = ''POLICY'' \<and> i = 3 then Some ''EPERM'' else None)\<rparr>"

definition dns_policy :: EgressPolicy where
  "dns_policy = allow_host 0x08080808 (Some 53) (Some Udp) deny_all"

lemma dns_policy_ok: "ok_policy dns_policy"
  by (simp add: dns_policy_def allow_host_def allow_def deny_all_def ok_policy_def ok_rule_def PolicyRule_allow_def)

lemma fresh_wf: "wf_policy (fresh_maps e [])"
  by (simp add: wf_policy_def fresh_maps_def)

lemma write_slots_sound: "fst (write_slots sound_aya name val is slots) = Inr ()"
  by (induction "is" arbitrary: slots) (simp_all add: sound_aya_def)

lemma sound_open: "open_map sound_aya name kind = Inr ()"
  by (simp add: open_map_def sound_aya_def)

lemma sound_apply: "\<exists>s'. apply_policy sound_aya dns_policy s = (Inr (), s')"
proof -
  have w: "\<exists>t. write_policy sound_aya rs s = (Inr (), t)" for rs s
    using write_slots_sound [of "''POLICY''" "\<lambda>i. rule_in_slot (slot_bytes rs i)"]
    by (auto simp: write_policy_def sound_open split: prod.splits) (metis fst_conv)
  have w6: "\<exists>t. write_policy6 sound_aya rs s = (Inr (), t)" for rs s
    using write_slots_sound [of "''POLICY6''" "\<lambda>i. rule6_in_slot (slot_bytes6 rs i)"]
    by (auto simp: write_policy6_def sound_open split: prod.splits) (metis fst_conv)
  have e: "\<exists>t. set_enforce sound_aya True s = (Inr (), t)" for s
    by (simp add: set_enforce_def sound_open) (simp add: sound_aya_def)
  have l: "\<not> MAX_POLICY_RULES < length (rules dns_policy)" "\<not> MAX_POLICY_RULES < length (rules6 dns_policy)"
    by (simp_all add: dns_policy_def allow_host_def allow_def deny_all_def MAX_POLICY_RULES_def)
  show ?thesis
    using w [of "rules dns_policy" s] w6 [of "rules6 dns_policy"] e l
    by (auto simp: apply_policy_def seqm_def) (metis (no_types, lifting) old.prod.case old.sum.simps(6))
qed

theorem enforce_in_netns_armed_witness:
  "\<exists>armed. enforce_in_netns (Inr ()) (Inr (fresh_maps 0 [])) (\<lambda>_. Inr ()) sound_aya dns_policy = Inr armed
     \<and> enforce armed = 1
     \<and> (fst (tap_ingress (\<lambda>n. n < MAX_FLOWS) 0 udp_frame armed) = TC_ACT_OK
         \<longleftrightarrow> admitted (rules dns_policy) (rules6 dns_policy) (frame udp_frame))"
proof -
  obtain armed where "apply_policy sound_aya dns_policy (fresh_maps 0 []) = (Inr (), armed)"
    using sound_apply by blast
  then have "enforce_in_netns (Inr ()) (Inr (fresh_maps 0 [])) (\<lambda>_. Inr ()) sound_aya dns_policy = Inr armed"
    by (simp add: enforce_in_netns_def)
  from this enforce_in_netns_armed [OF this fresh_wf dns_policy_ok] show ?thesis by blast
qed

theorem set_egress_policy_fails_closed_witness:
  "\<exists>r s'. set_egress_policy broken_aya dns_policy (fresh_maps 1 []) = (r, s') \<and> r \<noteq> Inr () \<and> enforce s' = 1"
proof -
  obtain r s' where c: "set_egress_policy broken_aya dns_policy (fresh_maps 1 []) = (r, s')" by fastforce
  have op: "open_map broken_aya name kind = Inr ()" for name kind
    by (simp add: open_map_def broken_aya_def)
  have u: "[0..<MAX_POLICY_RULES] = 0 # 1 # 2 # 3 # [4..<16]"
    by (simp add: MAX_POLICY_RULES_def upt_conv_Cons)
  have "fst (write_policy broken_aya rs s) \<noteq> Inr ()" for rs s
    by (simp add: write_policy_def op u) (simp add: broken_aya_def)
  then have "r \<noteq> Inr ()"
    using c by (auto simp: set_egress_policy_def apply_policy_def seqm_def split: if_splits prod.splits sum.splits)
      (metis fst_conv)
  moreover have "enforce s' = 1"
    using set_egress_policy_fails_closed [OF c fresh_wf dns_policy_ok, of "[]"] calculation
    by (simp add: fresh_maps_def)
  ultimately show ?thesis using c by blast
qed

section \<open>Builder and read-back\<close>

lemma egress_allowed_append [simp]:
  "egress_allowed (p @ q) d port proto \<longleftrightarrow> egress_allowed p d port proto \<or> egress_allowed q d port proto"
  by (simp add: egress_allowed_def)

text \<open>Adding an allowance adds exactly that CIDR, port and protocol to what the policy admits
  and takes nothing away; the empty policy admits nothing. A port given as zero reads as any port,
  like no port at all.\<close>

theorem allow_extends_policy:
  assumes "Ipv4Cidr_new network plen = Inr cidr"
  shows "(egress_allowed (rules (allow cidr port proto p)) d q pr \<longleftrightarrow>
      egress_allowed (rules p) d q pr
      \<or> ((\<forall>k < unat plen. addr4_bit d k = addr4_bit network k)
          \<and> port \<in> {None, Some 0, Some q}
          \<and> (proto = None \<or> (\<exists>x. proto = Some x \<and> Protocol_as_u8 x = pr))))
    \<and> \<not> egress_allowed (rules deny_all) d q pr"
proof -
  have c: "v4_network cidr = network" "v4_prefix_len cidr = plen" "plen \<le> 32"
    using assms by (auto simp: Ipv4Cidr_new_def not_less split: if_splits)
  have nz: "Protocol_as_u8 x \<noteq> 0" for x by (cases x) simp_all
  have "rule_matches (PolicyRule_allow network plen (port_or_any port) (proto_or_any proto)) d q pr \<longleftrightarrow>
      (\<forall>k < unat plen. addr4_bit d k = addr4_bit network k) \<and> port \<in> {None, Some 0, Some q}
      \<and> (proto = None \<or> (\<exists>x. proto = Some x \<and> Protocol_as_u8 x = pr))"
    using c(3) nz by (auto simp: rule_matches_cidr PolicyRule_allow_def port_or_any_def proto_or_any_def
        split: option.splits)
  then show ?thesis
    by (simp add: allow_def c deny_all_def) (simp add: egress_allowed_def)
qed

theorem allow_extends_policy_witness:
  "egress_allowed (rules (allow \<lparr>v4_network = 0x0a000000, v4_prefix_len = 0\<rparr> (Some 443) (Some Tcp) deny_all)) 0x01020304 443 6"
  using allow_extends_policy [where network = "0x0a000000" and plen = 0
      and cidr = "\<lparr>v4_network = 0x0a000000, v4_prefix_len = 0\<rparr>" and port = "Some 443"
      and proto = "Some Tcp" and p = deny_all and d = "0x01020304" and q = 443 and pr = 6]
  by (simp add: Ipv4Cidr_new_def)

definition raw_flow :: "FlowKey \<times> FlowCounts \<Rightarrow> string + bytes \<times> bytes" where
  "raw_flow kc = Inr (flow_key_image (fst kc), flow_counts_image (snd kc))"

lemma decode_raw_flows:
  "\<forall>kc \<in> set fl. ok_key (fst kc) \<Longrightarrow> decode_entries name decode_flow msg (map raw_flow fl) = Inr fl"
proof (induction fl)
  case (Cons kc fl)
  have "FlowKey_from_bytes (flow_key_image (fst kc)) = Some (fst kc)"
    using Cons.prems key_repr.from_image [of "fst kc" "[]"] by simp
  then show ?case
    using Cons counts_repr.from_image [of "snd kc" "[]"] by (simp add: raw_flow_def decode_flow_def)
qed simp

lemma totals_fold:
  "ns_ingress_bytes (foldl (\<lambda>st kc. add_counts st (snd kc)) st fl)
     = foldl (\<lambda>acc kc. saturating_add_u64 acc (ingress_bytes (snd kc))) (ns_ingress_bytes st) fl"
  "ns_ingress_packets (foldl (\<lambda>st kc. add_counts st (snd kc)) st fl)
     = foldl (\<lambda>acc kc. saturating_add_u64 acc (ingress_packets (snd kc))) (ns_ingress_packets st) fl"
  "ns_egress_bytes (foldl (\<lambda>st kc. add_counts st (snd kc)) st fl)
     = foldl (\<lambda>acc kc. saturating_add_u64 acc (egress_bytes (snd kc))) (ns_egress_bytes st) fl"
  "ns_egress_packets (foldl (\<lambda>st kc. add_counts st (snd kc)) st fl)
     = foldl (\<lambda>acc kc. saturating_add_u64 acc (egress_packets (snd kc))) (ns_egress_packets st) fl"
  by (induction fl arbitrary: st) (simp_all add: add_counts_def)

text \<open>The host reads back what the kernel counted: the decoded flow list is the map's contents
  entry by entry, and each total is the sum over the flows, cut off at the \<open>u64\<close> maximum and never
  wrapped.\<close>

theorem totals_saturate:
  assumes "\<forall>kc \<in> set fl. ok_key (fst kc)" and "open_map a ''FLOWS'' ''a hash map'' = Inr ()"
  shows "read_flows a (map raw_flow fl) = Inr fl
    \<and> (\<exists>st. totals a (map raw_flow fl) = Inr st
        \<and> unat (ns_ingress_packets st) = min (sum_list (map (\<lambda>kc. unat (ingress_packets (snd kc))) fl)) u64_max
        \<and> unat (ns_ingress_bytes st) = min (sum_list (map (\<lambda>kc. unat (ingress_bytes (snd kc))) fl)) u64_max
        \<and> unat (ns_egress_packets st) = min (sum_list (map (\<lambda>kc. unat (egress_packets (snd kc))) fl)) u64_max
        \<and> unat (ns_egress_bytes st) = min (sum_list (map (\<lambda>kc. unat (egress_bytes (snd kc))) fl)) u64_max)"
proof -
  have r: "read_flows a (map raw_flow fl) = Inr fl"
    using decode_raw_flows [OF assms(1)] assms(2) by (simp add: read_flows_def)
  then show ?thesis
    by (simp add: totals_def totals_fold unat_foldl_saturating NetStats_default_def)
qed

theorem totals_saturate_witness:
  "\<exists>st. totals sound_aya (map raw_flow [(udp_key, init_counts Ingress 60), (udp_key, init_counts Ingress (- 1))]) = Inr st
     \<and> unat (ns_ingress_bytes st) = u64_max"
proof -
  have "unat (- 1 :: u64) = u64_max"
    by (simp add: u64_max_def unsigned_minus_1_eq_mask mask_eq_exp_minus_1)
  then show ?thesis
    using totals_saturate [of "[(udp_key, init_counts Ingress 60), (udp_key, init_counts Ingress (- 1))]" sound_aya]
    by (auto simp: udp_key_def ok_key_def FlowKey_new_def sound_open FlowCounts_default_def)
qed

end
