(* ===== verification/Policy.thy ===== *)
theory Policy
  imports Utf8
begin

text \<open>
  Operator policy, \<open>crates/cli/src/policy.rs\<close>, and the engine's default limits,
  \<open>crates/vmm/src/lib.rs\<close>: how a caller's request is resolved against the host's defaults and
  ceilings, and the jail and network postures. Budgets are the values of their \<open>u64\<close> or \<open>usize\<close>
  fields as naturals; \<open>NonZeroU8\<close> and \<open>NonZeroU32\<close> carry their range as the predicates
  \<open>nz8\<close> and \<open>nz32\<close>.
\<close>

definition nz8 :: "nat \<Rightarrow> bool" where "nz8 n \<longleftrightarrow> 0 < n \<and> n < 2 ^ 8"
definition nz32 :: "nat \<Rightarrow> bool" where "nz32 n \<longleftrightarrow> 0 < n \<and> n < 2 ^ 32"

section \<open>Limits\<close>

record Limits =
  vcpus :: nat
  mem_mib :: nat
  wall_secs :: nat
  output_cap :: usize

definition DEFAULT_EXEC_TIMEOUT :: nat where "DEFAULT_EXEC_TIMEOUT = 30"
definition MAX_EXEC_OUTPUT :: usize where "MAX_EXEC_OUTPUT = 16 * 2 ^ 20"

definition Limits_default :: Limits where
  "Limits_default = \<lparr>vcpus = 1, mem_mib = 256, wall_secs = DEFAULT_EXEC_TIMEOUT, output_cap = MAX_EXEC_OUTPUT\<rparr>"

section \<open>Request, policy, refusal\<close>

record Requested =
  rq_vcpus :: "nat option"
  rq_mem_mib :: "nat option"
  rq_wall_secs :: "nat option"
  rq_output_cap :: "usize option"

definition Requested_default :: Requested where
  "Requested_default = \<lparr>rq_vcpus = None, rq_mem_mib = None, rq_wall_secs = None, rq_output_cap = None\<rparr>"

record Policy =
  po_vcpus :: "nat option"
  po_mem_mib :: "nat option"
  po_wall_secs :: "nat option"
  po_output_cap :: "usize option"
  max_vcpus :: "nat option"
  max_mem_mib :: "nat option"
  max_wall_secs :: "nat option"
  max_output_cap :: "usize option"
  require_jail :: bool
  allow_net :: "bool option"

datatype RunPolicyError = Ceiling string nat nat | JailRequired | NetForbidden

fun RunPolicyError_display :: "RunPolicyError \<Rightarrow> string" where
  "RunPolicyError_display (Ceiling knob asked ceiling) =
     knob @ '' '' @ dec asked @ '' exceeds this host's limit of '' @ dec ceiling
     @ '' (operator policy: `max_'' @ knob @ ''` in .eke.toml)''"
| "RunPolicyError_display JailRequired =
     ''this host requires the jail: `--unjailed` is refused (operator policy: `require_jail` in .eke.toml)''"
| "RunPolicyError_display NetForbidden =
     ''this host does not permit guest networking: `--net` is refused (operator policy: ''
     @ ''`allow_net = false` in .eke.toml)''"

section \<open>Resolution\<close>

definition resolve_knob ::
    "string \<Rightarrow> nat option \<Rightarrow> nat option \<Rightarrow> nat \<Rightarrow> nat option \<Rightarrow> RunPolicyError + nat" where
  "resolve_knob knob asked operator_default engine_default ceiling =
     (let value = (case asked of Some a \<Rightarrow> a
                   | None \<Rightarrow> (case operator_default of Some d \<Rightarrow> d | None \<Rightarrow> engine_default));
          bounded = (case ceiling of Some c \<Rightarrow> min value c | None \<Rightarrow> value)
      in case (asked, ceiling) of
           (Some a, Some c) \<Rightarrow> if a > c then Inl (Ceiling knob a c) else Inr bounded
         | _ \<Rightarrow> Inr bounded)"

definition try_nz8 :: "nat \<Rightarrow> nat \<Rightarrow> nat" where
  "try_nz8 n fallback = (if nz8 n then n else fallback)"

definition try_nz32 :: "nat \<Rightarrow> nat \<Rightarrow> nat" where
  "try_nz32 n fallback = (if nz32 n then n else fallback)"

definition try_usize :: "nat \<Rightarrow> nat \<Rightarrow> nat" where
  "try_usize n fallback = (if n \<le> usize_max then n else fallback)"

definition resolve :: "Policy \<Rightarrow> Requested \<Rightarrow> RunPolicyError + Limits" where
  "resolve p req =
     (let l = Limits_default in
      and_then (resolve_knob ''vcpus'' (rq_vcpus req) (po_vcpus p) (vcpus l) (max_vcpus p)) (\<lambda>v.
      let l = l\<lparr>vcpus := try_nz8 v (vcpus l)\<rparr> in
      and_then (resolve_knob ''mem_mib'' (rq_mem_mib req) (po_mem_mib p) (mem_mib l) (max_mem_mib p)) (\<lambda>m.
      let l = l\<lparr>mem_mib := try_nz32 m (mem_mib l)\<rparr> in
      and_then (resolve_knob ''wall_secs'' (rq_wall_secs req) (po_wall_secs p) (wall_secs l) (max_wall_secs p)) (\<lambda>w.
      let l = l\<lparr>wall_secs := w\<rparr> in
      and_then (resolve_knob ''output_cap'' (rq_output_cap req) (po_output_cap p) (output_cap l) (max_output_cap p)) (\<lambda>c.
      Inr (l\<lparr>output_cap := try_usize c (output_cap l)\<rparr>))))))"

definition check_jail :: "Policy \<Rightarrow> bool \<Rightarrow> RunPolicyError + unit" where
  "check_jail p unjailed = (if unjailed \<and> require_jail p then Inl JailRequired else Inr ())"

definition check_net :: "Policy \<Rightarrow> bool \<Rightarrow> RunPolicyError + unit" where
  "check_net p net = (if net \<and> allow_net p = Some False then Inl NetForbidden else Inr ())"

section \<open>Knobs\<close>

definition opt_ok :: "('a \<Rightarrow> bool) \<Rightarrow> 'a option \<Rightarrow> bool" where
  "opt_ok P x = (case x of None \<Rightarrow> True | Some y \<Rightarrow> P y)"

lemma opt_ok_simps [simp]: "opt_ok P None" "opt_ok P (Some x) \<longleftrightarrow> P x"
  by (simp_all add: opt_ok_def)

text \<open>The ranges the field types enforce.\<close>

definition ok_requested :: "Requested \<Rightarrow> bool" where
  "ok_requested r \<longleftrightarrow>
     opt_ok nz8 (rq_vcpus r) \<and> opt_ok nz32 (rq_mem_mib r) \<and> opt_ok (\<lambda>c. c \<le> usize_max) (rq_output_cap r)"

definition ok_operator :: "Policy \<Rightarrow> bool" where
  "ok_operator p \<longleftrightarrow>
     opt_ok nz8 (po_vcpus p) \<and> opt_ok nz8 (max_vcpus p) \<and> opt_ok nz32 (po_mem_mib p)
     \<and> opt_ok nz32 (max_mem_mib p) \<and> opt_ok (\<lambda>c. c \<le> usize_max) (po_output_cap p)
     \<and> opt_ok (\<lambda>c. c \<le> usize_max) (max_output_cap p)"

definition over :: "nat option \<Rightarrow> nat option \<Rightarrow> bool" where
  "over asked ceiling \<longleftrightarrow> (case (asked, ceiling) of (Some a, Some c) \<Rightarrow> a > c | _ \<Rightarrow> False)"

text \<open>What the caller gets for a knob that is not refused.\<close>

definition granted :: "nat option \<Rightarrow> nat option \<Rightarrow> nat \<Rightarrow> nat option \<Rightarrow> nat" where
  "granted asked operator_default engine_default ceiling =
     (case asked of
        Some a \<Rightarrow> a
      | None \<Rightarrow>
          (let d = (case operator_default of Some d \<Rightarrow> d | None \<Rightarrow> engine_default)
           in case ceiling of Some c \<Rightarrow> min d c | None \<Rightarrow> d))"

lemma resolve_knob_cases:
  "resolve_knob k a d e c =
     (if over a c then Inl (Ceiling k (the a) (the c)) else Inr (granted a d e c))"
  by (auto simp: resolve_knob_def over_def granted_def Let_def split: option.splits)

lemma granted_range:
  assumes "\<not> over a c" "opt_ok P a" "opt_ok P d" "P e" "opt_ok P c"
  shows "P (granted a d e c)"
  using assms by (auto simp: granted_def Let_def opt_ok_def min_def split: option.splits)

lemma granted_le: "\<not> over a c \<Longrightarrow> opt_ok (\<lambda>x. granted a d e c \<le> x) c"
  by (auto simp: granted_def over_def Let_def split: option.splits)

lemma granted_asked: "granted (Some a) d e c = a"
  by (simp add: granted_def)

definition any_over :: "Policy \<Rightarrow> Requested \<Rightarrow> bool" where
  "any_over p r \<longleftrightarrow>
     over (rq_vcpus r) (max_vcpus p) \<or> over (rq_mem_mib r) (max_mem_mib p)
     \<or> over (rq_wall_secs r) (max_wall_secs p) \<or> over (rq_output_cap r) (max_output_cap p)"

definition granted_limits :: "Policy \<Rightarrow> Requested \<Rightarrow> Limits" where
  "granted_limits p r =
     \<lparr>vcpus = granted (rq_vcpus r) (po_vcpus p) 1 (max_vcpus p),
      mem_mib = granted (rq_mem_mib r) (po_mem_mib p) 256 (max_mem_mib p),
      wall_secs = granted (rq_wall_secs r) (po_wall_secs p) DEFAULT_EXEC_TIMEOUT (max_wall_secs p),
      output_cap = granted (rq_output_cap r) (po_output_cap p) MAX_EXEC_OUTPUT (max_output_cap p)\<rparr>"

lemma nz_defaults [simp]: "nz8 1" "nz8 (Suc 0)" "nz32 256"
  by (simp_all add: nz8_def nz32_def)

lemma granted_legal:
  assumes "ok_operator p" "ok_requested r" "\<not> any_over p r"
  shows "nz8 (granted (rq_vcpus r) (po_vcpus p) 1 (max_vcpus p))"
    and "nz32 (granted (rq_mem_mib r) (po_mem_mib p) 256 (max_mem_mib p))"
    and "granted (rq_output_cap r) (po_output_cap p) MAX_EXEC_OUTPUT (max_output_cap p) \<le> usize_max"
proof -
  show "nz8 (granted (rq_vcpus r) (po_vcpus p) 1 (max_vcpus p))"
    by (rule granted_range) (use assms in \<open>auto simp: ok_operator_def ok_requested_def any_over_def\<close>)
  show "nz32 (granted (rq_mem_mib r) (po_mem_mib p) 256 (max_mem_mib p))"
    by (rule granted_range) (use assms in \<open>auto simp: ok_operator_def ok_requested_def any_over_def\<close>)
  show "granted (rq_output_cap r) (po_output_cap p) MAX_EXEC_OUTPUT (max_output_cap p) \<le> usize_max"
    by (rule granted_range [of _ _ "\<lambda>c. c \<le> usize_max"])
      (use assms in \<open>auto simp: ok_operator_def ok_requested_def any_over_def MAX_EXEC_OUTPUT_def usize_max_def\<close>)
qed

lemma resolve_ok:
  assumes "ok_operator p" "ok_requested r" "\<not> any_over p r"
  shows "resolve p r = Inr (granted_limits p r)"
  using granted_legal [OF assms] assms(3)
  by (simp add: resolve_def resolve_knob_cases any_over_def granted_limits_def Limits_default_def Let_def
      try_nz8_def try_nz32_def try_usize_def)

lemma resolve_refused: "any_over p r \<Longrightarrow> \<exists>knob a c. resolve p r = Inl (Ceiling knob a c) \<and> a > c"
  by (auto simp: resolve_def resolve_knob_cases any_over_def Let_def over_def split: option.splits prod.splits)

text \<open>The operator's ceilings hold and nothing is degraded silently: a request is refused
  exactly when it explicitly asks for more than a ceiling, otherwise every limit the run gets is
  within its ceiling, is exactly what the caller asked for where it asked, and is a legal budget.\<close>

theorem resolve_respects_policy:
  assumes "ok_operator p" and "ok_requested r"
  shows "((\<exists>e. resolve p r = Inl e) \<longleftrightarrow> any_over p r)
    \<and> (\<forall>l. resolve p r = Inr l \<longrightarrow>
        opt_ok (\<lambda>c. vcpus l \<le> c) (max_vcpus p) \<and> opt_ok (\<lambda>c. mem_mib l \<le> c) (max_mem_mib p)
        \<and> opt_ok (\<lambda>c. wall_secs l \<le> c) (max_wall_secs p) \<and> opt_ok (\<lambda>c. output_cap l \<le> c) (max_output_cap p)
        \<and> opt_ok (\<lambda>a. vcpus l = a) (rq_vcpus r) \<and> opt_ok (\<lambda>a. mem_mib l = a) (rq_mem_mib r)
        \<and> opt_ok (\<lambda>a. wall_secs l = a) (rq_wall_secs r) \<and> opt_ok (\<lambda>a. output_cap l = a) (rq_output_cap r)
        \<and> nz8 (vcpus l) \<and> nz32 (mem_mib l))"
proof (cases "any_over p r")
  case True
  then show ?thesis using resolve_refused [OF True] by auto
next
  case False
  note ok = resolve_ok [OF assms False]
  have asked: "opt_ok (\<lambda>x. granted a d e c = x) a" for a d e c
    by (cases a) (simp_all add: granted_asked)
  have "nz8 (vcpus (granted_limits p r))" "nz32 (mem_mib (granted_limits p r))"
    using granted_legal [OF assms False] by (simp_all add: granted_limits_def)
  then show ?thesis
    using ok False asked granted_le by (simp add: granted_limits_def any_over_def)
qed

definition house_policy :: Policy where
  "house_policy =
     \<lparr>po_vcpus = Some 2, po_mem_mib = None, po_wall_secs = None, po_output_cap = None,
      max_vcpus = Some 4, max_mem_mib = Some 1024, max_wall_secs = Some 10, max_output_cap = None,
      require_jail = True, allow_net = Some False\<rparr>"

theorem resolve_respects_policy_witness:
  "(\<exists>l. resolve house_policy (Requested_default\<lparr>rq_mem_mib := Some 512\<rparr>) = Inr l
      \<and> mem_mib l = 512 \<and> wall_secs l \<le> 10)
   \<and> (\<exists>e. resolve house_policy (Requested_default\<lparr>rq_vcpus := Some 8\<rparr>) = Inl e)"
proof -
  have ok: "ok_operator house_policy" "ok_requested (Requested_default\<lparr>rq_mem_mib := Some 512\<rparr>)"
    "ok_requested (Requested_default\<lparr>rq_vcpus := Some 8\<rparr>)"
    by (simp_all add: ok_operator_def ok_requested_def house_policy_def Requested_default_def nz8_def nz32_def)
  have o: "\<not> any_over house_policy (Requested_default\<lparr>rq_mem_mib := Some 512\<rparr>)"
    "any_over house_policy (Requested_default\<lparr>rq_vcpus := Some 8\<rparr>)"
    by (simp_all add: any_over_def over_def house_policy_def Requested_default_def)
  obtain l where l: "resolve house_policy (Requested_default\<lparr>rq_mem_mib := Some 512\<rparr>) = Inr l"
    using resolve_ok [OF ok(1,2) o(1)] by blast
  then show ?thesis
    using resolve_respects_policy [OF ok(1,2)] resolve_respects_policy [OF ok(1,3)] o(2)
    by (auto simp: house_policy_def Requested_default_def)
qed

lemma postures_monotone:
  "check_jail p unjailed = Inr () \<longleftrightarrow> \<not> (unjailed \<and> require_jail p)"
  "check_net p net = Inr () \<longleftrightarrow> \<not> (net \<and> allow_net p = Some False)"
  by (simp_all add: check_jail_def check_net_def)

end
