(* ===== verification/AuditRecord.thy ===== *)
theory AuditRecord
  imports Loader "HOL-Library.Product_Lexorder" "HOL-Library.List_Lexorder" "HOL-Library.Char_ord"
    "HOL-Library.Multiset"
begin

text \<open>
  The per-run audit record, \<open>crates/eke-probes-loader/src/record.rs\<close>: the network section built
  from the tap's raw reads, the streaming fold of host syscalls, and the sections around them. A
  \<open>BTreeMap\<close> is its entries in key order; tuples, byte arrays and strings are ordered as in Rust,
  lexicographically. The lemmas show that a record is a function of what was observed and not of
  the order in which the kernel handed it over, and that what the caps leave out is counted.
\<close>

section \<open>Ordered maps\<close>

type_synonym ('k, 'v) btree = "('k \<times> 'v) list"

fun bt_put :: "'k::linorder \<Rightarrow> 'v \<Rightarrow> ('k, 'v) btree \<Rightarrow> ('k, 'v) btree" where
  "bt_put k v [] = [(k, v)]"
| "bt_put k v ((k', v') # m) =
     (if k < k' then (k, v) # (k', v') # m
      else if k = k' then (k, v) # m
      else (k', v') # bt_put k v m)"

definition wf_bt :: "('k::linorder, 'v) btree \<Rightarrow> bool" where
  "wf_bt m \<longleftrightarrow> sorted_wrt (<) (map fst m)"

lemma map_of_bt_put [simp]: "map_of (bt_put k v m) = (map_of m)(k \<mapsto> v)"
  by (induction k v m rule: bt_put.induct) auto

lemma keys_bt_put: "fst ` set (bt_put k v m) = insert k (fst ` set m)"
  by (induction k v m rule: bt_put.induct) auto

lemma wf_bt_put: "wf_bt m \<Longrightarrow> wf_bt (bt_put k v m)"
proof (induction k v m rule: bt_put.induct)
  case (2 k v k' v' m)
  have "\<forall>x \<in> set (map fst (bt_put k v m)). k' < x" if "k' < k"
    using 2 that keys_bt_put [of k v m] by (auto simp: wf_bt_def)
  then show ?case using 2 by (auto simp: wf_bt_def)
qed (simp add: wf_bt_def)

lemma wf_bt_distinct: "wf_bt m \<Longrightarrow> distinct (map fst m)"
  by (simp add: wf_bt_def strict_sorted_iff)

lemma btree_eqI:
  assumes "wf_bt m" "wf_bt m'" "map_of m = map_of m'"
  shows "m = m'"
proof -
  have "fst ` set m = fst ` set m'"
    using assms(3) by (metis dom_map_of_conv_image_fst)
  then have k: "map fst m = map fst m'"
    using assms(1,2) by (intro sorted_distinct_set_unique) (auto simp: wf_bt_def strict_sorted_iff)
  have len: "length m = length m'" using k by (metis length_map)
  show ?thesis
  proof (rule nth_equalityI [OF len])
    fix i
    assume i: "i < length m"
    then have "map_of m (fst (m ! i)) = Some (snd (m ! i))" "map_of m' (fst (m' ! i)) = Some (snd (m' ! i))"
      using wf_bt_distinct [OF assms(1)] wf_bt_distinct [OF assms(2)] len by simp_all
    moreover have "fst (m ! i) = fst (m' ! i)" using k i len by (metis nth_map)
    ultimately show "m ! i = m' ! i" using assms(3) by (metis option.inject prod.collapse)
  qed
qed

section \<open>The network section\<close>

definition MAX_NOTABLE :: nat where "MAX_NOTABLE = 64"

record FlowRecord =
  fr_key :: FlowKey
  fr_counts :: FlowCounts

record FlowRecord6 =
  fr6_key :: FlowKey6
  fr6_counts :: FlowCounts

record DenialRecord =
  dr_dst_addr :: u32
  dr_dst_port :: u16
  dr_proto :: u8
  dr_count :: u64

record DenialRecord6 =
  dr6_dst_addr :: bytes
  dr6_dst_port :: u16
  dr6_proto :: u8
  dr6_count :: u64

record NetSection =
  net_totals :: NetStats
  net_flows :: "FlowRecord list"
  net_flows6 :: "FlowRecord6 list"
  net_denials :: "DenialRecord list"
  net_denials6 :: "DenialRecord6 list"
  dropped_flows :: u64
  dropped_denials :: u64

definition flow_order :: "FlowKey \<Rightarrow> u32 \<times> u16 \<times> u8 \<times> u32 \<times> u16" where
  "flow_order k = (fk_dst_addr k, fk_dst_port k, fk_proto k, fk_src_addr k, fk_src_port k)"

definition flow_order6 :: "FlowKey6 \<Rightarrow> bytes \<times> u16 \<times> u8 \<times> bytes \<times> u16" where
  "flow_order6 k = (fk6_dst_addr k, fk6_dst_port k, fk6_proto k, fk6_src_addr k, fk6_src_port k)"

text \<open>\<open>entry(k).or_insert(0)\<close> followed by a saturating add.\<close>

definition bt_add :: "'k::linorder \<Rightarrow> u64 \<Rightarrow> ('k, u64) btree \<Rightarrow> ('k, u64) btree" where
  "bt_add k n m = bt_put k (saturating_add_u64 (case map_of m k of Some v \<Rightarrow> v | None \<Rightarrow> 0) n) m"

definition by_dst :: "(FlowKey \<times> u64) list \<Rightarrow> (u32 \<times> u16 \<times> u8, u64) btree" where
  "by_dst ds = foldl (\<lambda>m (k, n). bt_add (fk_dst_addr k, fk_dst_port k, fk_proto k) n m) [] ds"

definition by_dst6 :: "(FlowKey6 \<times> u64) list \<Rightarrow> (bytes \<times> u16 \<times> u8, u64) btree" where
  "by_dst6 ds = foldl (\<lambda>m (k, n). bt_add (fk6_dst_addr k, fk6_dst_port k, fk6_proto k) n m) [] ds"

definition from_tap ::
    "(FlowKey \<times> FlowCounts) list \<Rightarrow> NetStats \<Rightarrow> (FlowKey \<times> u64) list \<Rightarrow> u64 \<Rightarrow> u64 \<Rightarrow> NetSection" where
  "from_tap fl tot ds df dd =
     \<lparr>net_totals = tot,
      net_flows = sort_key (\<lambda>f. flow_order (fr_key f)) (map (\<lambda>(k, c). \<lparr>fr_key = k, fr_counts = c\<rparr>) fl),
      net_flows6 = [],
      net_denials = map (\<lambda>((a, p, q), n). \<lparr>dr_dst_addr = a, dr_dst_port = p, dr_proto = q, dr_count = n\<rparr>) (by_dst ds),
      net_denials6 = [], dropped_flows = df, dropped_denials = dd\<rparr>"

definition with_v6 :: "NetSection \<Rightarrow> (FlowKey6 \<times> FlowCounts) list \<Rightarrow> (FlowKey6 \<times> u64) list \<Rightarrow> NetSection" where
  "with_v6 s fl6 ds6 =
     s\<lparr>net_totals := foldl (\<lambda>st kc. add_counts st (snd kc)) (net_totals s) fl6,
       net_flows6 := sort_key (\<lambda>f. flow_order6 (fr6_key f)) (map (\<lambda>(k, c). \<lparr>fr6_key = k, fr6_counts = c\<rparr>) fl6),
       net_denials6 := map (\<lambda>((a, p, q), n). \<lparr>dr6_dst_addr = a, dr6_dst_port = p, dr6_proto = q, dr6_count = n\<rparr>) (by_dst6 ds6)\<rparr>"

definition truncated :: "NetSection \<Rightarrow> bool" where
  "truncated s \<longleftrightarrow> dropped_flows s > 0 \<or> dropped_denials s > 0"

section \<open>The syscall footprint\<close>

record SyscallCounts =
  sc_execve :: u64
  sc_openat :: u64
  sc_connect :: u64
  sc_unknown :: u64

record NotableSyscall =
  no_kind :: Syscall
  no_detail :: string
  no_comm :: string
  no_hits :: u64

record SyscallFootprint =
  fp_total :: u64
  fp_by_kind :: SyscallCounts
  fp_notable :: "NotableSyscall list"
  fp_notable_truncated :: bool
  fp_overflow_events :: u64

record NotableAccum =
  acc_kind :: Syscall
  acc_comm :: string
  acc_hits :: u64

record SyscallFold =
  sf_cgroup_id :: u64
  sf_total :: u64
  sf_by_kind :: SyscallCounts
  sf_notable :: "(u32, (string, NotableAccum) btree) btree"
  sf_distinct :: usize
  sf_overflow_events :: u64

definition SyscallCounts_default :: SyscallCounts where
  "SyscallCounts_default = \<lparr>sc_execve = 0, sc_openat = 0, sc_connect = 0, sc_unknown = 0\<rparr>"

definition SyscallFold_new :: "u64 \<Rightarrow> SyscallFold" where
  "SyscallFold_new cg =
     \<lparr>sf_cgroup_id = cg, sf_total = 0, sf_by_kind = SyscallCounts_default, sf_notable = [],
      sf_distinct = 0, sf_overflow_events = 0\<rparr>"

fun bump_kind :: "Syscall \<Rightarrow> SyscallCounts \<Rightarrow> SyscallCounts" where
  "bump_kind Execve c = c\<lparr>sc_execve := sc_execve c + 1\<rparr>"
| "bump_kind Openat c = c\<lparr>sc_openat := sc_openat c + 1\<rparr>"
| "bump_kind Connect c = c\<lparr>sc_connect := sc_connect c + 1\<rparr>"

definition SyscallFold_record :: "SyscallEvent \<Rightarrow> SyscallFold \<Rightarrow> SyscallFold" where
  "SyscallFold_record ev f =
     (if ev_cgroup_id ev \<noteq> sf_cgroup_id f then f
      else
        (let f1 = f\<lparr>sf_total := sf_total f + 1\<rparr> in
         case event_kind ev of
           None \<Rightarrow> f1\<lparr>sf_by_kind := (sf_by_kind f1)\<lparr>sc_unknown := sc_unknown (sf_by_kind f1) + 1\<rparr>\<rparr>
         | Some kind \<Rightarrow>
             (let f2 = f1\<lparr>sf_by_kind := bump_kind kind (sf_by_kind f1)\<rparr>;
                  detail = detail_display ev;
                  inner = (case map_of (sf_notable f2) (Syscall_discr kind) of Some m \<Rightarrow> m | None \<Rightarrow> []);
                  f3 = f2\<lparr>sf_notable := bt_put (Syscall_discr kind) inner (sf_notable f2)\<rparr>
              in case map_of inner detail of
                   Some acc \<Rightarrow>
                     (let acc1 = acc\<lparr>acc_hits := acc_hits acc + 1\<rparr>;
                          comm = comm_lossy ev;
                          acc2 = (if comm < acc_comm acc1 then acc1\<lparr>acc_comm := comm\<rparr> else acc1)
                      in f3\<lparr>sf_notable := bt_put (Syscall_discr kind) (bt_put detail acc2 inner) (sf_notable f3)\<rparr>)
                 | None \<Rightarrow>
                     if sf_distinct f3 \<ge> MAX_NOTABLE
                     then f3\<lparr>sf_overflow_events := sf_overflow_events f3 + 1\<rparr>
                     else f3\<lparr>sf_notable := bt_put (Syscall_discr kind)
                               (bt_put detail \<lparr>acc_kind = kind, acc_comm = comm_lossy ev, acc_hits = 1\<rparr> inner)
                               (sf_notable f3),
                             sf_distinct := sf_distinct f3 + 1\<rparr>)))"

definition SyscallFold_finish :: "SyscallFold \<Rightarrow> SyscallFootprint" where
  "SyscallFold_finish f =
     \<lparr>fp_total = sf_total f, fp_by_kind = sf_by_kind f,
      fp_notable =
        map (\<lambda>(detail, acc). \<lparr>no_kind = acc_kind acc, no_detail = detail, no_comm = acc_comm acc, no_hits = acc_hits acc\<rparr>)
          (concat (map snd (sf_notable f))),
      fp_notable_truncated = (sf_overflow_events f > 0),
      fp_overflow_events = sf_overflow_events f\<rparr>"

definition from_events :: "u64 \<Rightarrow> SyscallEvent list \<Rightarrow> SyscallFootprint" where
  "from_events cg evs = SyscallFold_finish (foldl (\<lambda>f ev. SyscallFold_record ev f) (SyscallFold_new cg) evs)"

section \<open>The record\<close>

record CgroupStats =
  cpu_usage_usec :: "u64 option"
  memory_current :: "u64 option"
  memory_peak :: "u64 option"
  io_rbytes :: "u64 option"
  io_wbytes :: "u64 option"

record ResourceSummary =
  rs_cpu_time_ns :: nat
  rs_cgroup :: CgroupStats

record Timing =
  tm_boot_ns :: nat
  tm_exec_wall_ns :: nat

datatype AxisGap = HostSyscalls string | Network string | CpuGap string

record RunRecord =
  rr_network :: "NetSection option"
  rr_resources :: ResourceSummary
  rr_host_syscalls :: SyscallFootprint
  rr_timing :: Timing
  rr_coverage :: "AxisGap list"

definition from_parts ::
    "NetSection option \<Rightarrow> ResourceSummary \<Rightarrow> SyscallFootprint \<Rightarrow> Timing \<Rightarrow> AxisGap list \<Rightarrow> RunRecord" where
  "from_parts network resources host_syscalls timing coverage =
     \<lparr>rr_network = network, rr_resources = resources, rr_host_syscalls = host_syscalls,
      rr_timing = timing, rr_coverage = coverage\<rparr>"


section \<open>The network section is a function of what was observed\<close>

lemma sort_key_mset_eq:
  assumes "mset xs = mset ys" and "inj_on f (set xs)" and "distinct xs"
  shows "sort_key f xs = sort_key f ys"
proof -
  have s: "set xs = set ys" and d: "distinct ys"
    using assms(1,3) by (metis set_mset_mset) (metis assms(1,3) mset_eq_imp_distinct_iff)
  show ?thesis
    by (rule map_sorted_distinct_set_unique [where f = f])
       (use assms(2,3) s d in \<open>auto simp: distinct_map\<close>)
qed

lemma mset_map_eq: "mset xs = mset ys \<Longrightarrow> mset (map f xs) = mset (map f ys)"
  by (simp add: mset_map)

lemma flow_order_inj: "ok_key k \<Longrightarrow> ok_key k' \<Longrightarrow> flow_order k = flow_order k' \<Longrightarrow> k = k'"
  by (simp add: flow_order_def ok_key_def)

definition dst_total :: "('k \<Rightarrow> 'd) \<Rightarrow> ('k \<times> u64) list \<Rightarrow> 'd \<Rightarrow> nat" where
  "dst_total dst ds d = sum_list (map (\<lambda>kn. unat (snd kn)) (filter (\<lambda>kn. dst (fst kn) = d) ds))"

lemma bt_add_fold:
  fixes dst :: "'a \<Rightarrow> 'd::linorder"
  assumes "wf_bt m"
  shows "wf_bt (foldl (\<lambda>m (k, n). bt_add (dst k) n m) m ds)"
    and "map_of (foldl (\<lambda>m (k, n). bt_add (dst k) n m) m ds) d =
         (if map_of m d = None \<and> d \<notin> dst ` fst ` set ds then None
          else Some (foldl (\<lambda>acc kn. saturating_add_u64 acc (snd kn)) (case map_of m d of Some v \<Rightarrow> v | None \<Rightarrow> 0)
                 (filter (\<lambda>kn. dst (fst kn) = d) ds)))"
proof -
  show "wf_bt (foldl (\<lambda>m (k, n). bt_add (dst k) n m) m ds)"
    using assms by (induction ds arbitrary: m) (auto simp: bt_add_def wf_bt_put split: prod.splits)
  show "map_of (foldl (\<lambda>m (k, n). bt_add (dst k) n m) m ds) d =
         (if map_of m d = None \<and> d \<notin> dst ` fst ` set ds then None
          else Some (foldl (\<lambda>acc kn. saturating_add_u64 acc (snd kn)) (case map_of m d of Some v \<Rightarrow> v | None \<Rightarrow> 0)
                 (filter (\<lambda>kn. dst (fst kn) = d) ds)))"
    using assms
    by (induction ds arbitrary: m) (auto simp: bt_add_def wf_bt_put split: prod.splits option.splits)
qed

lemma bt_add_mset:
  fixes dst :: "'a \<Rightarrow> 'd::linorder"
  assumes "mset ds = mset ds'"
  shows "foldl (\<lambda>m (k, n). bt_add (dst k) n m) [] ds = foldl (\<lambda>m (k, n). bt_add (dst k) n m) [] ds'"
proof (rule btree_eqI)
  have w: "wf_bt ([] :: ('d, u64) btree)" by (simp add: wf_bt_def)
  show "wf_bt (foldl (\<lambda>m (k, n). bt_add (dst k) n m) [] ds)" "wf_bt (foldl (\<lambda>m (k, n). bt_add (dst k) n m) [] ds')"
    by (rule bt_add_fold(1) [OF w])+
  have sums: "foldl (\<lambda>acc kn. saturating_add_u64 acc (snd kn)) 0 (filter (\<lambda>kn. dst (fst kn) = d) ds)
      = foldl (\<lambda>acc kn. saturating_add_u64 acc (snd kn)) 0 (filter (\<lambda>kn. dst (fst kn) = d) ds')" for d
  proof -
    have "mset (map (\<lambda>kn. unat (snd kn)) (filter (\<lambda>kn. dst (fst kn) = d) ds))
        = mset (map (\<lambda>kn. unat (snd kn)) (filter (\<lambda>kn. dst (fst kn) = d) ds'))"
      using assms by (simp add: mset_filter)
    then have "sum_list (map (\<lambda>kn. unat (snd kn)) (filter (\<lambda>kn. dst (fst kn) = d) ds))
        = sum_list (map (\<lambda>kn. unat (snd kn)) (filter (\<lambda>kn. dst (fst kn) = d) ds'))"
      using sum_mset_sum_list by metis
    then show ?thesis by (simp add: word_unat_eq_iff unat_foldl_saturating)
  qed
  have "set ds = set ds'" using assms by (metis set_mset_mset)
  then show "map_of (foldl (\<lambda>m (k, n). bt_add (dst k) n m) [] ds) = map_of (foldl (\<lambda>m (k, n). bt_add (dst k) n m) [] ds')"
    by (simp add: fun_eq_iff bt_add_fold(2) [OF w] sums)
qed

lemma by_dst_mset: "mset ds = mset ds' \<Longrightarrow> by_dst ds = by_dst ds'"
  unfolding by_dst_def by (rule bt_add_mset)

lemma by_dst6_mset: "mset ds = mset ds' \<Longrightarrow> by_dst6 ds = by_dst6 ds'"
  unfolding by_dst6_def by (rule bt_add_mset)


lemma totals_mset:
  assumes "mset fl = mset fl'"
  shows "foldl (\<lambda>st kc. add_counts st (snd kc)) st fl = foldl (\<lambda>st kc. add_counts st (snd kc)) st fl'"
proof -
  have "foldl (\<lambda>acc kc. saturating_add_u64 acc (g (snd kc))) a fl
      = foldl (\<lambda>acc kc. saturating_add_u64 acc (g (snd kc))) a fl'" for g a
  proof -
    have "mset (map (\<lambda>kc. unat (g (snd kc))) fl) = mset (map (\<lambda>kc. unat (g (snd kc))) fl')"
      using assms by (rule mset_map_eq)
    then have "sum_list (map (\<lambda>kc. unat (g (snd kc))) fl) = sum_list (map (\<lambda>kc. unat (g (snd kc))) fl')"
      using sum_mset_sum_list by metis
    then show ?thesis by (simp add: word_unat_eq_iff unat_foldl_saturating)
  qed
  then show ?thesis by (intro NetStats.equality) (simp_all add: totals_fold)
qed

lemma flows_mset:
  assumes "mset fl = mset fl'" "distinct (map fst fl)" "inj_on ord (fst ` set fl)"
    "\<And>k c. key (mk (k, c)) = k"
  shows "sort_key (\<lambda>f. ord (key f)) (map mk fl) = sort_key (\<lambda>f. ord (key f)) (map mk fl')"
proof (rule sort_key_mset_eq [OF mset_map_eq [OF assms(1)]])
  have key: "key (mk kc) = fst kc" for kc using assms(4) by (cases kc) simp
  have d: "inj_on fst (set fl)" "distinct fl" using assms(2) by (simp_all add: distinct_map)
  have "inj_on mk (set fl)" using d(1) key by (metis (no_types, lifting) inj_on_def)
  then show "distinct (map mk fl)" using d(2) by (simp add: distinct_map)
  show "inj_on (\<lambda>f. ord (key f)) (set (map mk fl))"
    using d(1) assms(3) by (auto simp: inj_on_def key)
qed

text \<open>(C13) The network section of a run's record does not depend on the order in which the kernel's
  hash maps are iterated: two reads of the same flows and denials, in any order, give the same
  section, sorted flows, aggregated denials, dual-stack totals and all.\<close>

theorem section_order_independent:
  assumes "mset fl = mset fl'" "distinct (map fst fl)" "\<forall>kc \<in> set fl. ok_key (fst kc)"
    and "mset fl6 = mset fl6'" "distinct (map fst fl6)" "\<forall>kc \<in> set fl6. ok_key6 (fst kc)"
    and "mset ds = mset ds'" "mset ds6 = mset ds6'"
  shows "with_v6 (from_tap fl tot ds df dd) fl6 ds6 = with_v6 (from_tap fl' tot ds' df dd) fl6' ds6'"
proof -
  have i4: "inj_on flow_order (fst ` set fl)"
    using assms(3) by (auto simp: inj_on_def flow_order_def ok_key_def)
  have i6: "inj_on flow_order6 (fst ` set fl6)"
    using assms(6) by (auto simp: inj_on_def flow_order6_def ok_key6_def)
  have "net_flows (from_tap fl tot ds df dd) = net_flows (from_tap fl' tot ds' df dd)"
    using flows_mset [OF assms(1,2) i4, of fr_key "\<lambda>(k, c). \<lparr>fr_key = k, fr_counts = c\<rparr>"]
    by (simp add: from_tap_def)
  moreover have "net_flows6 (with_v6 s fl6 ds6) = net_flows6 (with_v6 s fl6' ds6')" for s
    using flows_mset [OF assms(4,5) i6, of fr6_key "\<lambda>(k, c). \<lparr>fr6_key = k, fr6_counts = c\<rparr>"]
    by (simp add: with_v6_def)
  ultimately show ?thesis
    by (simp add: with_v6_def from_tap_def totals_mset [OF assms(4)] by_dst_mset [OF assms(7)] by_dst6_mset [OF assms(8)])
qed

theorem section_order_independent_witness:
  "with_v6 (from_tap [(FlowKey_new 1 2 3 4 6, FlowCounts_default), (FlowKey_new 1 1 3 4 6, FlowCounts_default)] NetStats_default
      [(FlowKey_new 0 9 0 53 17, 2), (FlowKey_new 0 9 1 53 17, 3)] 0 0) [] []
   = with_v6 (from_tap [(FlowKey_new 1 1 3 4 6, FlowCounts_default), (FlowKey_new 1 2 3 4 6, FlowCounts_default)] NetStats_default
      [(FlowKey_new 0 9 1 53 17, 3), (FlowKey_new 0 9 0 53 17, 2)] 0 0) [] []"
  by (rule section_order_independent) (simp_all add: FlowKey_new_def ok_key_def)

text \<open>The denial trail has exactly one row per blocked destination, in strictly increasing order
  of (address, port, protocol), and its count is the sum of the packets dropped towards that
  destination from every source, cut off at the \<open>u64\<close> maximum.\<close>

theorem denials_aggregated:
  fixes fl tot ds df dd
  defines "dst \<equiv> \<lambda>k. (fk_dst_addr k, fk_dst_port k, fk_proto k)"
    and "triple \<equiv> \<lambda>r. (dr_dst_addr r, dr_dst_port r, dr_proto r)"
    and "rows \<equiv> net_denials (from_tap fl tot ds df dd)"
  shows "sorted_wrt (<) (map triple rows) \<and> triple ` set rows = dst ` fst ` set ds
    \<and> (\<forall>r \<in> set rows. unat (dr_count r) = min (dst_total dst ds (triple r)) u64_max)"
proof -
  have w: "wf_bt ([] :: (u32 \<times> u16 \<times> u8, u64) btree)" by (simp add: wf_bt_def)
  have wb: "wf_bt (by_dst ds)"
    unfolding by_dst_def using bt_add_fold(1) [OF w, of dst ds] by (simp add: dst_def)
  have look: "map_of (by_dst ds) d = (if d \<notin> dst ` fst ` set ds then None
      else Some (foldl (\<lambda>acc kn. saturating_add_u64 acc (snd kn)) 0 (filter (\<lambda>kn. dst (fst kn) = d) ds)))" for d
    unfolding by_dst_def using bt_add_fold(2) [OF w, of dst ds d] by (simp add: dst_def)
  have rows: "rows = map (\<lambda>((a, p, q), n). \<lparr>dr_dst_addr = a, dr_dst_port = p, dr_proto = q, dr_count = n\<rparr>) (by_dst ds)"
    by (simp add: rows_def from_tap_def)
  have trip: "map triple rows = map fst (by_dst ds)"
    unfolding rows by (simp add: triple_def split: prod.splits)
  have cnt: "map_of (by_dst ds) (triple r) = Some (dr_count r)" if "r \<in> set rows" for r
    using that wf_bt_distinct [OF wb] unfolding rows by (auto simp: triple_def)
  have "triple ` set rows = dom (map_of (by_dst ds))"
    by (metis dom_map_of_conv_image_fst list.set_map trip)
  also have "\<dots> = dst ` fst ` set ds" by (auto simp: look dom_def split: if_splits)
  finally have keys: "triple ` set rows = dst ` fst ` set ds" .
  have "unat (dr_count r) = min (dst_total dst ds (triple r)) u64_max" if "r \<in> set rows" for r
  proof -
    have "dr_count r = foldl (\<lambda>acc kn. saturating_add_u64 acc (snd kn)) 0 (filter (\<lambda>kn. dst (fst kn) = triple r) ds)"
      using cnt [OF that] by (simp add: look split: if_splits)
    then show ?thesis by (simp add: unat_foldl_saturating dst_total_def)
  qed
  then show ?thesis using keys wb by (simp add: trip wf_bt_def)
qed

theorem denials_aggregated_witness:
  "(\<lambda>r. (dr_dst_addr r, dr_dst_port r, dr_proto r)) `
     set (net_denials (from_tap [] NetStats_default [(FlowKey_new 0 9 0 53 17, 2), (FlowKey_new 7 9 1 53 17, 3)] 0 0))
   = {(9, 53, 17)}"
  using denials_aggregated [of "[]" NetStats_default "[(FlowKey_new 0 9 0 53 17, 2), (FlowKey_new 7 9 1 53 17, 3)]" 0 0]
  by (simp add: FlowKey_new_def)


section \<open>The fold against its reference\<close>

text \<open>The reference reads the whole sequence at once: which events are the sandbox's, which
  (kind, detail) pairs arrived first, how often each occurred and the smallest command name.\<close>

type_synonym ev_id = "Syscall \<times> string"

definition ev_key :: "SyscallEvent \<Rightarrow> ev_id option" where
  "ev_key e = map_option (\<lambda>k. (k, detail_display e)) (event_kind e)"

definition attributed :: "u64 \<Rightarrow> SyscallEvent list \<Rightarrow> SyscallEvent list" where
  "attributed cg evs = filter (\<lambda>e. ev_cgroup_id e = cg) evs"

definition ids :: "SyscallEvent list \<Rightarrow> ev_id list" where
  "ids es = List.map_filter ev_key es"

definition kept :: "SyscallEvent list \<Rightarrow> ev_id list" where
  "kept es = take MAX_NOTABLE (rev (remdups (rev (ids es))))"

definition hits_of :: "SyscallEvent list \<Rightarrow> ev_id \<Rightarrow> nat" where
  "hits_of es i = length (filter (\<lambda>e. ev_key e = Some i) es)"

definition comms_of :: "SyscallEvent list \<Rightarrow> ev_id \<Rightarrow> string set" where
  "comms_of es i = comm_lossy ` {e \<in> set es. ev_key e = Some i}"

definition omitted :: "SyscallEvent list \<Rightarrow> nat" where
  "omitted es = length (filter (\<lambda>i. i \<notin> set (kept es)) (ids es))"

definition kind_count :: "SyscallEvent list \<Rightarrow> Syscall option \<Rightarrow> nat" where
  "kind_count es k = length (filter (\<lambda>e. event_kind e = k) es)"

definition acc_of :: "SyscallEvent list \<Rightarrow> ev_id \<Rightarrow> NotableAccum" where
  "acc_of es i = \<lparr>acc_kind = fst i, acc_comm = Min (comms_of es i), acc_hits = of_nat (hits_of es i)\<rparr>"

definition look :: "(u32, (string, NotableAccum) btree) btree \<Rightarrow> ev_id \<Rightarrow> NotableAccum option" where
  "look n i = (case map_of n (Syscall_discr (fst i)) of None \<Rightarrow> None | Some m \<Rightarrow> map_of m (snd i))"

definition wf_notable :: "(u32, (string, NotableAccum) btree) btree \<Rightarrow> bool" where
  "wf_notable n \<longleftrightarrow> wf_bt n \<and>
     (\<forall>(d, m) \<in> set n. wf_bt m \<and> (\<forall>(_, acc) \<in> set m. d = Syscall_discr (acc_kind acc)))"

lemma Syscall_discr_eq [simp]: "Syscall_discr k = Syscall_discr k' \<longleftrightarrow> k = k'"
  by (cases k; cases k') simp_all

lemma look_put:
  "look (bt_put (Syscall_discr k) m n) (k', d') = (if k' = k then map_of m d' else look n (k', d'))"
  by (auto simp: look_def)

lemma ids_snoc: "ids (es @ [e]) = ids es @ (case ev_key e of None \<Rightarrow> [] | Some i \<Rightarrow> [i])"
  by (simp add: ids_def map_filter_def split: option.splits)

lemma ids_iff: "i \<in> set (ids es) \<longleftrightarrow> (\<exists>e \<in> set es. ev_key e = Some i)"
  by (auto simp: ids_def map_filter_def intro!: image_eqI)

lemma kept_snoc:
  "kept (es @ [e]) =
     (case ev_key e of
        None \<Rightarrow> kept es
      | Some i \<Rightarrow> if i \<in> set (ids es) \<or> length (kept es) \<ge> MAX_NOTABLE then kept es else kept es @ [i])"
  by (auto simp: kept_def ids_snoc split: option.splits)

lemma kept_full: "i \<in> set (ids es) \<Longrightarrow> i \<notin> set (kept es) \<Longrightarrow> length (kept es) = MAX_NOTABLE"
  by (auto simp: kept_def min_def dest: in_set_takeD split: if_splits)

lemma kept_sub: "i \<in> set (kept es) \<Longrightarrow> i \<in> set (ids es)"
  by (auto simp: kept_def dest: in_set_takeD)

lemma kept_len: "length (kept es) \<le> MAX_NOTABLE"
  by (simp add: kept_def)

lemma kept_distinct: "distinct (kept es)"
  by (simp add: kept_def)

definition fold_inv :: "u64 \<Rightarrow> SyscallEvent list \<Rightarrow> SyscallFold \<Rightarrow> bool" where
  "fold_inv cg es f \<longleftrightarrow>
     sf_cgroup_id f = cg \<and> sf_total f = of_nat (length es)
     \<and> sf_by_kind f = \<lparr>sc_execve = of_nat (kind_count es (Some Execve)), sc_openat = of_nat (kind_count es (Some Openat)),
                        sc_connect = of_nat (kind_count es (Some Connect)), sc_unknown = of_nat (kind_count es None)\<rparr>
     \<and> wf_notable (sf_notable f) \<and> sf_distinct f = length (kept es)
     \<and> sf_overflow_events f = of_nat (omitted es)
     \<and> (\<forall>i. look (sf_notable f) i = (if i \<in> set (kept es) then Some (acc_of es i) else None))"

lemma fold_inv_new: "fold_inv cg [] (SyscallFold_new cg)"
  by (simp add: fold_inv_def SyscallFold_new_def SyscallCounts_default_def kind_count_def wf_notable_def wf_bt_def
      kept_def ids_def map_filter_def omitted_def look_def)

lemma comms_snoc:
  "comms_of (es @ [e]) i = (if ev_key e = Some i then insert (comm_lossy e) (comms_of es i) else comms_of es i)"
  by (auto simp: comms_of_def)

lemma hits_snoc: "hits_of (es @ [e]) i = (if ev_key e = Some i then Suc (hits_of es i) else hits_of es i)"
  by (simp add: hits_of_def)

lemma comms_fin [simp]: "finite (comms_of es i)"
  by (simp add: comms_of_def)

lemma comms_nonempty: "i \<in> set (ids es) \<Longrightarrow> comms_of es i \<noteq> {}"
  by (auto simp: comms_of_def ids_iff)

lemma acc_of_snoc_other: "ev_key e \<noteq> Some i \<Longrightarrow> acc_of (es @ [e]) i = acc_of es i"
  by (simp add: acc_of_def comms_snoc hits_snoc)

lemma acc_of_snoc_hit:
  assumes "ev_key e = Some i" "i \<in> set (ids es)"
  shows "acc_of (es @ [e]) i =
    (let acc = (acc_of es i)\<lparr>acc_hits := acc_hits (acc_of es i) + 1\<rparr>
     in if comm_lossy e < acc_comm acc then acc\<lparr>acc_comm := comm_lossy e\<rparr> else acc)"
proof -
  have "Min (insert (comm_lossy e) (comms_of es i)) = min (comm_lossy e) (Min (comms_of es i))"
    using comms_nonempty [OF assms(2)] by (intro Min_insert) simp_all
  also have "\<dots> = (if comm_lossy e < Min (comms_of es i) then comm_lossy e else Min (comms_of es i))"
    by (auto simp: min_def order.strict_iff_order)
  finally show ?thesis
    using assms by (simp add: acc_of_def comms_snoc hits_snoc Let_def del: Min_gr_iff Min_less_iff)
qed

lemma acc_of_snoc_new:
  assumes "ev_key e = Some i" "i \<notin> set (ids es)"
  shows "acc_of (es @ [e]) i = \<lparr>acc_kind = fst i, acc_comm = comm_lossy e, acc_hits = 1\<rparr>"
proof -
  have "comms_of es i = {}" "hits_of es i = 0"
    using assms(2) by (auto simp: comms_of_def hits_of_def ids_iff filter_empty_conv)
  then show ?thesis using assms(1) by (simp add: acc_of_def comms_snoc hits_snoc)
qed


lemma omitted_snoc:
  "omitted (es @ [e]) =
     omitted es + (case ev_key e of None \<Rightarrow> 0 | Some i \<Rightarrow> if i \<in> set (kept (es @ [e])) then 0 else 1)"
proof (cases "ev_key e")
  case None
  then show ?thesis by (simp add: omitted_def kept_snoc ids_snoc)
next
  case (Some i)
  have "filter (\<lambda>j. j \<notin> set (kept (es @ [e]))) (ids es) = filter (\<lambda>j. j \<notin> set (kept es)) (ids es)"
    using Some by (intro filter_cong) (auto simp: kept_snoc)
  then show ?thesis using Some by (simp add: omitted_def ids_snoc)
qed

lemma set_bt_put: "set (bt_put k v m) \<subseteq> insert (k, v) (set m)"
  by (induction k v m rule: bt_put.induct) auto

lemma wf_notable_put:
  assumes "wf_notable n" "wf_bt m" "\<forall>(_, acc) \<in> set m. acc_kind acc = k"
  shows "wf_notable (bt_put (Syscall_discr k) m n)"
  using assms set_bt_put [of "Syscall_discr k" m n] unfolding wf_notable_def
  by (auto simp: wf_bt_put split: prod.splits; blast)

definition inner_of :: "Syscall \<Rightarrow> (u32, (string, NotableAccum) btree) btree \<Rightarrow> (string, NotableAccum) btree" where
  "inner_of k n = (case map_of n (Syscall_discr k) of Some m \<Rightarrow> m | None \<Rightarrow> [])"

lemma inner_of_look: "map_of (inner_of k n) d = look n (k, d)"
  by (simp add: inner_of_def look_def split: option.splits)

lemma inner_of_wf:
  assumes "wf_notable n"
  shows "wf_bt (inner_of k n)" "\<forall>(_, acc) \<in> set (inner_of k n). acc_kind acc = k"
proof -
  consider (none) "inner_of k n = []" | (some) "(Syscall_discr k, inner_of k n) \<in> set n"
    by (cases "map_of n (Syscall_discr k)") (auto simp: inner_of_def dest: map_of_SomeD)
  then show "wf_bt (inner_of k n)" "\<forall>(_, acc) \<in> set (inner_of k n). acc_kind acc = k"
    using assms by (cases; fastforce simp: wf_notable_def wf_bt_def)+
qed

lemma inner_put_wf:
  assumes "wf_notable n" "acc_kind acc = k"
  shows "wf_notable (bt_put (Syscall_discr k) (bt_put d acc (inner_of k n)) (bt_put (Syscall_discr k) (inner_of k n) n))"
proof -
  have "\<forall>(_, a) \<in> set (bt_put d acc (inner_of k n)). acc_kind a = k"
    using inner_of_wf(2) [OF assms(1), of k] set_bt_put [of d acc "inner_of k n"] assms(2) by fastforce
  then show ?thesis
    using assms inner_of_wf [OF assms(1), of k] by (intro wf_notable_put) (auto intro: wf_bt_put)
qed

lemma record_known:
  assumes "ev_cgroup_id e = sf_cgroup_id f" "event_kind e = Some k"
  shows "SyscallFold_record e f =
    (let d = detail_display e; n = bt_put (Syscall_discr k) (inner_of k (sf_notable f)) (sf_notable f);
         put = (\<lambda>acc. bt_put (Syscall_discr k) (bt_put d acc (inner_of k (sf_notable f))) n);
         f1 = f\<lparr>sf_total := sf_total f + 1, sf_by_kind := bump_kind k (sf_by_kind f)\<rparr>
     in case look (sf_notable f) (k, d) of
          Some acc \<Rightarrow>
            f1\<lparr>sf_notable := put (let acc1 = acc\<lparr>acc_hits := acc_hits acc + 1\<rparr>
                 in if comm_lossy e < acc_comm acc1 then acc1\<lparr>acc_comm := comm_lossy e\<rparr> else acc1)\<rparr>
        | None \<Rightarrow>
            if sf_distinct f \<ge> MAX_NOTABLE then f1\<lparr>sf_notable := n, sf_overflow_events := sf_overflow_events f + 1\<rparr>
            else f1\<lparr>sf_notable := put \<lparr>acc_kind = k, acc_comm = comm_lossy e, acc_hits = 1\<rparr>,
                     sf_distinct := sf_distinct f + 1\<rparr>)"
  using assms
  by (simp add: SyscallFold_record_def Let_def inner_of_def [symmetric] inner_of_look split: option.split)


lemma kind_count_snoc:
  "kind_count (es @ [e]) k = (if event_kind e = k then Suc (kind_count es k) else kind_count es k)"
  by (simp add: kind_count_def)

lemma bump_kind_inv:
  "bump_kind k \<lparr>sc_execve = of_nat (kind_count es (Some Execve)), sc_openat = of_nat (kind_count es (Some Openat)),
                sc_connect = of_nat (kind_count es (Some Connect)), sc_unknown = of_nat (kind_count es None)\<rparr>
   = \<lparr>sc_execve = of_nat (kind_count (es @ [e]) (Some Execve)), sc_openat = of_nat (kind_count (es @ [e]) (Some Openat)),
      sc_connect = of_nat (kind_count (es @ [e]) (Some Connect)), sc_unknown = of_nat (kind_count (es @ [e]) None)\<rparr>"
  if "event_kind e = Some k"
  using that by (cases k) (simp_all add: kind_count_snoc)

lemma look_put_inner:
  "look (bt_put (Syscall_discr k) (bt_put d acc (inner_of k n)) (bt_put (Syscall_discr k) (inner_of k n) n)) i
     = (if i = (k, d) then Some acc else look n i)"
  "look (bt_put (Syscall_discr k) (inner_of k n) n) i = look n i"
  by (cases i; auto simp: look_put inner_of_look)+

lemma fold_inv_look:
  "fold_inv cg es f \<Longrightarrow> look (sf_notable f) i = (if i \<in> set (kept es) then Some (acc_of es i) else None)"
  unfolding fold_inv_def by blast

lemma fold_inv_unknown:
  assumes "fold_inv cg es f" "ev_cgroup_id e = cg" "event_kind e = None"
  shows "fold_inv cg (es @ [e]) (SyscallFold_record e f)"
proof -
  have k: "ev_key e = None" using assms(3) by (simp add: ev_key_def)
  show ?thesis
    using assms unfolding fold_inv_def
    by (simp add: SyscallFold_record_def kind_count_snoc kept_snoc omitted_snoc k acc_of_snoc_other)
qed

lemma fold_inv_hit:
  assumes "fold_inv cg es f" "ev_cgroup_id e = cg" "event_kind e = Some k" "(k, detail_display e) \<in> set (kept es)"
  shows "fold_inv cg (es @ [e]) (SyscallFold_record e f)"
proof -
  let ?i = "(k, detail_display e)"
  have k: "ev_key e = Some ?i" using assms(3) by (simp add: ev_key_def)
  have ids: "?i \<in> set (ids es)" using assms(4) by (rule kept_sub)
  have same: "kept (es @ [e]) = kept es" using ids by (simp add: kept_snoc k)
  have l: "look (sf_notable f) ?i = Some (acc_of es ?i)" using assms(1,4) by (simp add: fold_inv_def)
  have cg: "ev_cgroup_id e = sf_cgroup_id f" using assms(1,2) by (simp add: fold_inv_def)
  have r: "SyscallFold_record e f = f\<lparr>sf_total := sf_total f + 1, sf_by_kind := bump_kind k (sf_by_kind f),
      sf_notable := bt_put (Syscall_discr k) (bt_put (detail_display e) (acc_of (es @ [e]) ?i) (inner_of k (sf_notable f)))
        (bt_put (Syscall_discr k) (inner_of k (sf_notable f)) (sf_notable f))\<rparr>"
    by (simp add: record_known [OF cg assms(3)] l acc_of_snoc_hit [OF k ids] Let_def)
  have "look (sf_notable (SyscallFold_record e f)) j
      = (if j \<in> set (kept (es @ [e])) then Some (acc_of (es @ [e]) j) else None)" for j
    using assms(4) k by (auto simp: r look_put_inner same fold_inv_look [OF assms(1)] acc_of_snoc_other)
  moreover have "wf_notable (sf_notable (SyscallFold_record e f))"
    using assms(1) by (simp add: r fold_inv_def inner_put_wf acc_of_def)
  moreover have "omitted (es @ [e]) = omitted es" using assms(4) by (simp add: omitted_snoc k same)
  ultimately show ?thesis
    using assms(1) unfolding fold_inv_def by (simp add: r same bump_kind_inv [OF assms(3)])
qed

lemma fold_inv_overflow:
  assumes "fold_inv cg es f" "ev_cgroup_id e = cg" "event_kind e = Some k" "(k, detail_display e) \<notin> set (kept es)"
    "length (kept es) = MAX_NOTABLE"
  shows "fold_inv cg (es @ [e]) (SyscallFold_record e f)"
proof -
  let ?i = "(k, detail_display e)"
  have k: "ev_key e = Some ?i" using assms(3) by (simp add: ev_key_def)
  have same: "kept (es @ [e]) = kept es" using assms(5) by (simp add: kept_snoc k)
  have l: "look (sf_notable f) ?i = None" using assms(1,4) by (simp add: fold_inv_def)
  have cg: "ev_cgroup_id e = sf_cgroup_id f" using assms(1,2) by (simp add: fold_inv_def)
  have dist: "sf_distinct f = MAX_NOTABLE" using assms(1,5) by (simp add: fold_inv_def)
  have r: "SyscallFold_record e f = f\<lparr>sf_total := sf_total f + 1, sf_by_kind := bump_kind k (sf_by_kind f),
      sf_notable := bt_put (Syscall_discr k) (inner_of k (sf_notable f)) (sf_notable f),
      sf_overflow_events := sf_overflow_events f + 1\<rparr>"
    by (simp add: record_known [OF cg assms(3)] l dist Let_def)
  have wf: "wf_notable (sf_notable f)" using assms(1) by (simp add: fold_inv_def)
  have "look (sf_notable (SyscallFold_record e f)) j
      = (if j \<in> set (kept (es @ [e])) then Some (acc_of (es @ [e]) j) else None)" for j
    using assms(4) k by (auto simp: r look_put_inner same fold_inv_look [OF assms(1)] intro!: acc_of_snoc_other [symmetric])
  moreover have "wf_notable (sf_notable (SyscallFold_record e f))"
    using wf_notable_put [OF wf inner_of_wf(1) [OF wf] inner_of_wf(2) [OF wf]] by (simp add: r)
  moreover have "omitted (es @ [e]) = Suc (omitted es)" using assms(4) by (simp add: omitted_snoc k same)
  ultimately show ?thesis
    using assms(1) unfolding fold_inv_def by (simp add: r same bump_kind_inv [OF assms(3)])
qed

lemma fold_inv_new_id:
  assumes "fold_inv cg es f" "ev_cgroup_id e = cg" "event_kind e = Some k" "(k, detail_display e) \<notin> set (kept es)"
    "length (kept es) < MAX_NOTABLE"
  shows "fold_inv cg (es @ [e]) (SyscallFold_record e f)"
proof -
  let ?i = "(k, detail_display e)"
  have k: "ev_key e = Some ?i" using assms(3) by (simp add: ev_key_def)
  have ids: "?i \<notin> set (ids es)" using kept_full [of ?i es] assms(4,5) by auto
  have app: "kept (es @ [e]) = kept es @ [?i]" using assms(5) ids by (simp add: kept_snoc k)
  have l: "look (sf_notable f) ?i = None" using assms(1,4) by (simp add: fold_inv_def)
  have cg: "ev_cgroup_id e = sf_cgroup_id f" using assms(1,2) by (simp add: fold_inv_def)
  have dist: "sf_distinct f = length (kept es)" using assms(1) by (simp add: fold_inv_def)
  have r: "SyscallFold_record e f = f\<lparr>sf_total := sf_total f + 1, sf_by_kind := bump_kind k (sf_by_kind f),
      sf_notable := bt_put (Syscall_discr k) (bt_put (detail_display e) (acc_of (es @ [e]) ?i) (inner_of k (sf_notable f)))
        (bt_put (Syscall_discr k) (inner_of k (sf_notable f)) (sf_notable f)),
      sf_distinct := sf_distinct f + 1\<rparr>"
    using assms(5) by (simp add: record_known [OF cg assms(3)] l dist acc_of_snoc_new [OF k ids] Let_def)
  have "look (sf_notable (SyscallFold_record e f)) j
      = (if j \<in> set (kept (es @ [e])) then Some (acc_of (es @ [e]) j) else None)" for j
    using assms(4) k by (auto simp: r look_put_inner app fold_inv_look [OF assms(1)] acc_of_snoc_other)
  moreover have "wf_notable (sf_notable (SyscallFold_record e f))"
    using assms(1) by (simp add: r fold_inv_def inner_put_wf acc_of_def)
  moreover have "omitted (es @ [e]) = omitted es" by (simp add: omitted_snoc k app)
  ultimately show ?thesis
    using assms(1) unfolding fold_inv_def by (simp add: r app bump_kind_inv [OF assms(3)])
qed

lemma fold_inv_all: "fold_inv cg (attributed cg evs) (foldl (\<lambda>f ev. SyscallFold_record ev f) (SyscallFold_new cg) evs)"
proof (induction evs rule: rev_induct)
  case Nil
  then show ?case by (simp add: fold_inv_new attributed_def)
next
  case (snoc e evs)
  let ?f = "foldl (\<lambda>f ev. SyscallFold_record ev f) (SyscallFold_new cg) evs"
  let ?es = "attributed cg evs"
  show ?case
  proof (cases "ev_cgroup_id e = cg")
    case False
    then show ?thesis using snoc by (simp add: attributed_def SyscallFold_record_def fold_inv_def)
  next
    case True
    have "length (kept ?es) = MAX_NOTABLE \<or> length (kept ?es) < MAX_NOTABLE" using kept_len [of ?es] by auto
    then have "fold_inv cg (?es @ [e]) (SyscallFold_record e ?f)"
      using snoc True fold_inv_unknown fold_inv_hit fold_inv_overflow fold_inv_new_id
      by (cases "event_kind e") blast+
    then show ?thesis using True by (simp add: attributed_def)
  qed
qed


text \<open>\<open>finish\<close> flattens the two levels in key order.\<close>

definition notable_id :: "NotableSyscall \<Rightarrow> u32 \<times> string" where
  "notable_id n = (Syscall_discr (no_kind n), no_detail n)"

lemma flatten_sorted:
  assumes "wf_notable n"
  shows "sorted_wrt (<) (map (\<lambda>(d, acc). (Syscall_discr (acc_kind acc), d)) (concat (map snd n)))"
  using assms
proof (induction n)
  case Nil
  then show ?case by simp
next
  case (Cons dm n)
  obtain d m where dm: "dm = (d, m)" by (cases dm)
  have wf: "wf_notable n" "wf_bt m" "\<And>x. x \<in> set m \<Longrightarrow> Syscall_discr (acc_kind (snd x)) = d"
    and later: "\<And>x. x \<in> set (concat (map snd n)) \<Longrightarrow> d < Syscall_discr (acc_kind (snd x))"
    using Cons.prems dm by (fastforce simp: wf_notable_def wf_bt_def)+
  have "sorted_wrt (<) (map (\<lambda>(d, acc). (Syscall_discr (acc_kind acc), d)) m)"
    using wf(2,3) unfolding wf_bt_def sorted_wrt_map
    by (elim sorted_wrt_mono_rel [rotated]) (auto split: prod.splits)
  then show ?case
    using Cons.IH [OF wf(1)] wf(3) later by (fastforce simp: dm sorted_wrt_append)
qed

lemma flatten_set:
  assumes "wf_notable n"
  shows "(d, acc) \<in> set (concat (map snd n)) \<longleftrightarrow> look n (acc_kind acc, d) = Some acc"
proof
  assume "(d, acc) \<in> set (concat (map snd n))"
  then obtain k m where km: "(k, m) \<in> set n" "(d, acc) \<in> set m" by auto
  then have "k = Syscall_discr (acc_kind acc)" "wf_bt m" using assms by (fastforce simp: wf_notable_def)+
  then show "look n (acc_kind acc, d) = Some acc"
    using km assms wf_bt_distinct [of m] wf_bt_distinct [of n] by (simp add: look_def wf_notable_def)
next
  assume "look n (acc_kind acc, d) = Some acc"
  then show "(d, acc) \<in> set (concat (map snd n))"
    by (force simp: look_def dest!: map_of_SomeD split: option.splits)
qed

lemma notable_sorted: "sorted_wrt (<) (map notable_id (fp_notable (from_events cg evs)))"
proof -
  let ?n = "sf_notable (foldl (\<lambda>f ev. SyscallFold_record ev f) (SyscallFold_new cg) evs)"
  have "wf_notable ?n" using fold_inv_all [of cg evs] by (simp add: fold_inv_def)
  moreover have "map notable_id (fp_notable (from_events cg evs))
      = map (\<lambda>(d, acc). (Syscall_discr (acc_kind acc), d)) (concat (map snd ?n))"
    by (simp add: from_events_def SyscallFold_finish_def notable_id_def map_concat comp_def case_prod_unfold)
  ultimately show ?thesis using flatten_sorted by simp
qed

definition notable_of :: "SyscallEvent list \<Rightarrow> ev_id \<Rightarrow> NotableSyscall" where
  "notable_of es i = \<lparr>no_kind = fst i, no_detail = snd i, no_comm = Min (comms_of es i), no_hits = of_nat (hits_of es i)\<rparr>"

lemma notable_set: "set (fp_notable (from_events cg evs)) = notable_of (attributed cg evs) ` set (kept (attributed cg evs))"
proof -
  let ?f = "foldl (\<lambda>f ev. SyscallFold_record ev f) (SyscallFold_new cg) evs"
  let ?es = "attributed cg evs"
  let ?mk = "\<lambda>(d, acc). \<lparr>no_kind = acc_kind acc, no_detail = d, no_comm = acc_comm acc, no_hits = acc_hits acc\<rparr>"
  have wf: "wf_notable (sf_notable ?f)" using fold_inv_all [of cg evs] by (simp add: fold_inv_def)
  have "set (concat (map snd (sf_notable ?f))) = (\<lambda>i. (snd i, acc_of ?es i)) ` set (kept ?es)" (is "?A = ?B")
  proof -
    have A: "x \<in> ?A \<longleftrightarrow> (acc_kind (snd x), fst x) \<in> set (kept ?es) \<and> acc_of ?es (acc_kind (snd x), fst x) = snd x" for x
      using flatten_set [OF wf, of "fst x" "snd x"] fold_inv_look [OF fold_inv_all, of cg evs "(acc_kind (snd x), fst x)"]
      by (simp split: if_splits)
    have kind: "acc_kind (acc_of ?es i) = fst i" for i by (simp add: acc_of_def)
    show ?thesis
    proof (intro set_eqI iffI)
      fix x assume "x \<in> ?A"
      then show "x \<in> ?B" unfolding A by (intro image_eqI [of _ _ "(acc_kind (snd x), fst x)"]) (simp_all add: prod_eq_iff)
    next
      fix x assume "x \<in> ?B"
      then show "x \<in> ?A" unfolding A by (clarsimp simp: kind)
    qed
  qed
  then have "set (fp_notable (from_events cg evs)) = ?mk ` ?B"
    by (simp only: from_events_def SyscallFold_finish_def list.set_map SyscallFootprint.select_convs)
  then show ?thesis by (simp add: image_image notable_of_def acc_of_def)
qed


lemma footprint_fields:
  "fp_total (from_events cg evs) = of_nat (length (attributed cg evs))"
  "fp_by_kind (from_events cg evs) =
     \<lparr>sc_execve = of_nat (kind_count (attributed cg evs) (Some Execve)),
      sc_openat = of_nat (kind_count (attributed cg evs) (Some Openat)),
      sc_connect = of_nat (kind_count (attributed cg evs) (Some Connect)),
      sc_unknown = of_nat (kind_count (attributed cg evs) None)\<rparr>"
  "fp_overflow_events (from_events cg evs) = of_nat (omitted (attributed cg evs))"
  "fp_notable_truncated (from_events cg evs) = (fp_overflow_events (from_events cg evs) > 0)"
  using fold_inv_all [of cg evs] by (simp_all add: fold_inv_def from_events_def SyscallFold_finish_def)

lemma kind_counts_total:
  "length es = kind_count es (Some Execve) + kind_count es (Some Openat) + kind_count es (Some Connect) + kind_count es None"
proof (induction es)
  case (Cons e es)
  then show ?case by (cases "event_kind e"; simp add: kind_count_def) (metis (full_types) Syscall.exhaust add_Suc add_Suc_right)
qed (simp add: kind_count_def)

lemma notable_distinct: "distinct (fp_notable (from_events cg evs))"
  using notable_sorted [of cg evs] by (metis distinct_map strict_sorted_iff)

lemma notable_of_inj: "inj_on (notable_of es) A"
  by (auto simp: inj_on_def notable_of_def prod_eq_iff)

lemma notable_length: "length (fp_notable (from_events cg evs)) = length (kept (attributed cg evs))"
  using distinct_card [OF notable_distinct] distinct_card [OF kept_distinct]
  by (metis notable_set card_image notable_of_inj)

lemma hits_of_ids: "hits_of es i = count_list (ids es) i"
  by (induction es) (auto simp: hits_of_def ids_def map_filter_def split: option.splits)

lemma unknown_ids: "length es = kind_count es None + length (ids es)"
  by (induction es) (auto simp: kind_count_def ids_def map_filter_def ev_key_def split: option.splits)

lemma hits_sum: "(\<Sum>i \<in> set (kept es). hits_of es i) + omitted es = length (ids es)"
proof -
  let ?K = "set (kept es)"
  have "(\<Sum>i \<in> ?K. hits_of es i) = (\<Sum>i \<in> ?K. count_list (filter (\<lambda>i. i \<in> ?K) (ids es)) i)"
    by (intro sum.cong) (auto simp: hits_of_ids count_list_eq_length_filter intro!: arg_cong [where f = length] filter_cong)
  also have "\<dots> = length (filter (\<lambda>i. i \<in> ?K) (ids es))" by (rule sum_count_set) auto
  finally show ?thesis
    using sum_length_filter_compl [of "\<lambda>i. i \<in> ?K" "ids es"] by (simp add: omitted_def)
qed

lemma notable_hits:
  "sum_list (map no_hits (fp_notable (from_events cg evs)))
     = of_nat (\<Sum>i \<in> set (kept (attributed cg evs)). hits_of (attributed cg evs) i)"
proof -
  have "sum_list (map no_hits (fp_notable (from_events cg evs))) = sum no_hits (set (fp_notable (from_events cg evs)))"
    using notable_distinct by (simp add: sum_list_distinct_conv_sum_set)
  also have "\<dots> = (\<Sum>i \<in> set (kept (attributed cg evs)). no_hits (notable_of (attributed cg evs) i))"
    unfolding notable_set by (simp add: sum.reindex [OF notable_of_inj])
  finally show ?thesis by (simp add: notable_of_def)
qed

definition sample_open :: "u64 \<Rightarrow> string \<Rightarrow> SyscallEvent" where
  "sample_open cg path =
     \<lparr>ev_cgroup_id = cg, ev_pid = 1, ev_tid = 1, ev_syscall = 1, ev_detail_len = of_nat (length path),
      ev_comm = as_bytes ''sh'' @ replicate 14 0, ev_detail = as_bytes path @ replicate (DETAIL_CAP - length path) 0\<rparr>"

text \<open>(C14) The streaming fold of host syscalls equals its one-pass reference, on every sequence of
  events: the total counts exactly the events of the sandbox's cgroup, the sample holds the first
  \<open>MAX_NOTABLE\<close> distinct (kind, detail) pairs by arrival, in strictly increasing order, each with all
  its occurrences and the smallest command name, and the overflow counter is the number of events
  the sample leaves out.\<close>

theorem footprint_refines_reference:
  fixes cg evs
  defines "es \<equiv> attributed cg evs" and "fp \<equiv> from_events cg evs"
  shows "fp_total fp = of_nat (length es)
    \<and> sorted_wrt (<) (map notable_id (fp_notable fp))
    \<and> set (fp_notable fp) = notable_of es ` set (kept es) \<and> length (fp_notable fp) \<le> MAX_NOTABLE
    \<and> fp_overflow_events fp = of_nat (omitted es) \<and> fp_notable_truncated fp = (fp_overflow_events fp > 0)"
  unfolding es_def fp_def
  using notable_sorted notable_set kept_len [of "attributed cg evs"] by (simp add: footprint_fields notable_length)

theorem footprint_refines_reference_witness:
  "fp_total (from_events 7 [sample_open 7 ''a'', sample_open 8 ''b'']) = 1
   \<and> map notable_id (fp_notable (from_events 7 [sample_open 7 ''a'', sample_open 8 ''b'']))
       = [(1, detail_display (sample_open 7 ''a''))]"
proof -
  let ?evs = "[sample_open 7 ''a'', sample_open 8 ''b'']"
  let ?d = "detail_display (sample_open 7 ''a'')"
  have "attributed 7 ?evs = [sample_open 7 ''a'']" by (simp add: attributed_def sample_open_def)
  moreover have "kept [sample_open 7 ''a''] = [(Openat, ?d)]"
  proof -
    have "event_kind (sample_open 7 ''a'') = Some Openat" by (simp add: sample_open_def event_kind_def)
    then show ?thesis by (simp add: kept_def ids_def map_filter_def ev_key_def MAX_NOTABLE_def)
  qed
  ultimately have "fp_total (from_events 7 ?evs) = 1"
    and n: "set (fp_notable (from_events 7 ?evs)) = {notable_of [sample_open 7 ''a''] (Openat, ?d)}"
    using footprint_refines_reference [of 7 ?evs] by simp_all
  moreover have "length (fp_notable (from_events 7 ?evs)) = 1"
    using distinct_card [OF notable_distinct, of 7 ?evs] by (simp add: n)
  moreover from this have "fp_notable (from_events 7 ?evs) = [notable_of [sample_open 7 ''a''] (Openat, ?d)]"
    using n by (cases "fp_notable (from_events 7 ?evs)") simp_all
  ultimately show ?thesis by (simp add: notable_id_def notable_of_def)
qed

text \<open>(C15) Nothing is lost by the caps: the counts by kind add up to the total, and so do the hits
  of the sampled events, the overflow count and the events of unknown kind.\<close>

theorem footprint_accounts:
  "fp_total (from_events cg evs) =
     sc_execve (fp_by_kind (from_events cg evs)) + sc_openat (fp_by_kind (from_events cg evs))
     + sc_connect (fp_by_kind (from_events cg evs)) + sc_unknown (fp_by_kind (from_events cg evs))
   \<and> fp_total (from_events cg evs) =
     sum_list (map no_hits (fp_notable (from_events cg evs))) + fp_overflow_events (from_events cg evs)
     + sc_unknown (fp_by_kind (from_events cg evs))"
proof
  let ?es = "attributed cg evs"
  have "of_nat (length ?es) = (of_nat (kind_count ?es (Some Execve) + kind_count ?es (Some Openat)
      + kind_count ?es (Some Connect) + kind_count ?es None) :: u64)"
    using kind_counts_total [of ?es] by simp
  then show "fp_total (from_events cg evs) =
     sc_execve (fp_by_kind (from_events cg evs)) + sc_openat (fp_by_kind (from_events cg evs))
     + sc_connect (fp_by_kind (from_events cg evs)) + sc_unknown (fp_by_kind (from_events cg evs))"
    by (simp add: footprint_fields)
  have "of_nat (length ?es) = (of_nat ((\<Sum>i \<in> set (kept ?es). hits_of ?es i) + omitted ?es + kind_count ?es None) :: u64)"
    using unknown_ids [of ?es] hits_sum [of ?es] by simp
  then show "fp_total (from_events cg evs) =
     sum_list (map no_hits (fp_notable (from_events cg evs))) + fp_overflow_events (from_events cg evs)
     + sc_unknown (fp_by_kind (from_events cg evs))"
    by (simp only: footprint_fields notable_hits of_nat_add SyscallCounts.select_convs)
qed

text \<open>While the distinct pairs fit the sample, the footprint does not depend on the order in which
  the ring buffer delivers the events.\<close>

theorem footprint_order_independent:
  assumes "mset evs = mset evs'" and "card (set (ids (attributed cg evs))) \<le> MAX_NOTABLE"
  shows "from_events cg evs = from_events cg evs'"
proof -
  let ?es = "attributed cg evs" and ?es' = "attributed cg evs'"
  have m: "mset ?es = mset ?es'" using assms(1) by (simp add: attributed_def mset_filter)
  then have s: "set ?es = set ?es'" by (metis set_mset_mset)
  then have i: "set (ids ?es) = set (ids ?es')" by (auto simp: ids_iff)
  have kept_all: "set (kept es) = set (ids es)" if "card (set (ids es)) \<le> MAX_NOTABLE" for es
    using that by (simp add: kept_def length_remdups_card_conv)
  have none: "omitted es = 0" if "card (set (ids es)) \<le> MAX_NOTABLE" for es
    using kept_all [OF that] by (simp add: omitted_def)
  have len: "length (filter P ?es) = length (filter P ?es')" for P
    using m by (metis mset_filter size_mset)
  have notable: "notable_of ?es j = notable_of ?es' j" for j
    using s by (simp add: notable_of_def hits_of_def comms_of_def len)
  have lists: "fp_notable (from_events cg evs) = fp_notable (from_events cg evs')"
  proof (rule map_sorted_distinct_set_unique [where f = notable_id])
    have sets: "set (fp_notable (from_events cg evs)) = set (fp_notable (from_events cg evs'))"
      using assms(2) i by (simp add: notable_set kept_all notable)
    then show "set (fp_notable (from_events cg evs)) = set (fp_notable (from_events cg evs'))" .
    show "inj_on notable_id (set (fp_notable (from_events cg evs)) \<union> set (fp_notable (from_events cg evs')))"
      unfolding sets [symmetric] Un_absorb unfolding notable_set by (auto simp: inj_on_def notable_id_def notable_of_def)
  qed (use notable_sorted [of cg evs] notable_sorted [of cg evs'] in \<open>simp_all only: strict_sorted_iff\<close>)
  have "length ?es = length ?es'" using m by (metis size_mset)
  moreover have "kind_count ?es k = kind_count ?es' k" for k by (simp add: kind_count_def len)
  ultimately show ?thesis
    using lists none assms(2) i
    by (intro SyscallFootprint.equality) (simp_all add: footprint_fields)
qed


theorem footprint_order_independent_witness:
  "from_events 7 [sample_open 7 ''a'', sample_open 8 ''b'', sample_open 7 ''b'']
   = from_events 7 [sample_open 7 ''b'', sample_open 7 ''a'', sample_open 8 ''b'']"
proof (rule footprint_order_independent)
  have "card (set (ids (attributed 7 [sample_open 7 ''a'', sample_open 8 ''b'', sample_open 7 ''b'']))) \<le> 2"
    by (rule order_trans [OF card_length]) (simp add: attributed_def ids_def map_filter_def sample_open_def)
  then show "card (set (ids (attributed 7 [sample_open 7 ''a'', sample_open 8 ''b'', sample_open 7 ''b'']))) \<le> MAX_NOTABLE"
    by (simp add: MAX_NOTABLE_def)
qed simp

end
