(* ===== verification/Observer.thy ===== *)
theory Observer
  imports AuditRecord
begin

text \<open>
  One sandbox's probes from launch to record, \<open>crates/eke-probes-loader/src/observer.rs\<close>: the
  tracer and the meter every sandbox shares, attaching one sandbox to them, reading its record and
  detaching it, with the host readers of \<open>lib.rs\<close> they call. The lemmas show that a shared tracer
  hands every sandbox exactly its own events whatever the others do, and that a record without
  coverage gaps is complete.
\<close>

section \<open>Errors as text\<close>

fun PolicyError_display :: "PolicyError \<Rightarrow> string" where
  "PolicyError_display (PrefixTooLong len) =
     ''CIDR prefix length '' @ dec (unat len) @ '' is over its family maximum (/32 for IPv4, /128 for IPv6)''"
| "PolicyError_display (TooManyRules got cap) =
     ''egress policy has '' @ dec got @ '' rules, over the '' @ dec cap @ ''-rule cap''"

fun ProbeError_display :: "ProbeError \<Rightarrow> string" where
  "ProbeError_display (Unsupported e) = ''eBPF unsupported here: '' @ e"
| "ProbeError_display (Object e) = ''eBPF object unavailable: '' @ e"
| "ProbeError_display (Load e) = ''eBPF load failed: '' @ e"
| "ProbeError_display (Attach e) = ''eBPF attach failed: '' @ e"
| "ProbeError_display (MapErr e) = ''eBPF map read failed: '' @ e"
| "ProbeError_display (PolicyErr e) = ''invalid egress policy: '' @ PolicyError_display e"

section \<open>Host readers\<close>

text \<open>What the readers take from the host: the text of \<open>/proc/<pid>/cgroup\<close>, the inode of a
  directory, the text of a file when it can be read, and the number of CPUs.\<close>

record host =
  proc_cgroup :: "u32 \<Rightarrow> string + string"
  dir_inode :: "string \<Rightarrow> string + u64"
  file_text :: "string \<Rightarrow> string option"
  ncpus :: nat

definition path_join :: "string \<Rightarrow> string \<Rightarrow> string" where
  "path_join dir name = (if dir \<noteq> [] \<and> last dir = CHR ''/'' then dir @ name else dir @ ''/'' @ name)"

definition cgroup_id_of_dir :: "host \<Rightarrow> string \<Rightarrow> ProbeError + u64" where
  "cgroup_id_of_dir h dir = map_err (\<lambda>e. MapErr (''stat cgroup dir '' @ dir @ '': '' @ e)) (dir_inode h dir)"

definition cgroup_id_of_pid :: "host \<Rightarrow> u32 \<Rightarrow> ProbeError + u64" where
  "cgroup_id_of_pid h pid = and_then (cgroup_dir_of_pid pid (proc_cgroup h pid)) (cgroup_id_of_dir h)"

definition CgroupStats_read :: "host \<Rightarrow> string \<Rightarrow> CgroupStats" where
  "CgroupStats_read h dir =
     (let read_u64 = (\<lambda>name. Option.bind (file_text h (path_join dir name)) parse_single_u64);
          usage = Option.bind (file_text h (path_join dir ''cpu.stat'')) (\<lambda>s. parse_keyed_u64 s ''usage_usec'');
          io = map_option parse_io_bytes (file_text h (path_join dir ''io.stat''))
      in \<lparr>cpu_usage_usec = usage, memory_current = read_u64 ''memory.current'',
          memory_peak = read_u64 ''memory.peak'',
          io_rbytes = map_option fst io, io_wbytes = map_option snd io\<rparr>)"

definition summary_for_pid :: "aya \<Rightarrow> host \<Rightarrow> u32 \<Rightarrow> meter_maps \<Rightarrow> ProbeError + ResourceSummary" where
  "summary_for_pid a h pid s =
     and_then (cgroup_dir_of_pid pid (proc_cgroup h pid)) (\<lambda>dir.
     and_then (cgroup_id_of_dir h dir) (\<lambda>cg.
     and_then (read_cpu_ns a cg s) (\<lambda>ns.
     Inr \<lparr>rs_cpu_time_ns = unat ns, rs_cgroup = CgroupStats_read h dir\<rparr>)))"

definition CgroupStats_default :: CgroupStats where
  "CgroupStats_default =
     \<lparr>cpu_usage_usec = None, memory_current = None, memory_peak = None, io_rbytes = None, io_wbytes = None\<rparr>"

definition ResourceSummary_default :: ResourceSummary where
  "ResourceSummary_default = \<lparr>rs_cpu_time_ns = 0, rs_cgroup = CgroupStats_default\<rparr>"

definition SyscallFootprint_default :: SyscallFootprint where
  "SyscallFootprint_default =
     \<lparr>fp_total = 0, fp_by_kind = SyscallCounts_default, fp_notable = [], fp_notable_truncated = False,
      fp_overflow_events = 0\<rparr>"

text \<open>\<open>drain\<close> empties the ring buffer: every record that parses is delivered, in order.\<close>

fun drain :: "(SyscallEvent \<Rightarrow> 'c \<Rightarrow> 'c) \<Rightarrow> bytes list \<Rightarrow> 'c \<Rightarrow> usize \<times> 'c" where
  "drain on_event [] c = (0, c)"
| "drain on_event (item # items) c =
     (case SyscallEvent_from_bytes item of
        Some ev \<Rightarrow> (let (n, c') = drain on_event items (on_event ev c) in (n + 1, c'))
      | None \<Rightarrow> drain on_event items c)"

section \<open>The shared tracer\<close>

record TracerInner =
  ti_maps :: trace_maps
  ti_folds :: "u64 \<rightharpoonup> SyscallFold"

text \<open>A mutex around the state: a poisoned lock hands nothing out.\<close>

record 'a shared =
  locked :: 'a
  poisoned :: bool

definition with_lock :: "'a shared \<Rightarrow> ('a \<Rightarrow> 'r \<times> 'a) \<Rightarrow> 'r option \<times> 'a shared" where
  "with_lock m f = (if poisoned m then (None, m) else (let (r, x) = f (locked m) in (Some r, m\<lparr>locked := x\<rparr>)))"

definition route :: "SyscallEvent \<Rightarrow> (u64 \<rightharpoonup> SyscallFold) \<Rightarrow> (u64 \<rightharpoonup> SyscallFold)" where
  "route ev folds =
     (case folds (ev_cgroup_id ev) of
        Some f \<Rightarrow> folds(ev_cgroup_id ev \<mapsto> SyscallFold_record ev f)
      | None \<Rightarrow> folds)"

definition drain_route :: "TracerInner \<Rightarrow> usize \<times> TracerInner" where
  "drain_route t =
     (let (n, folds) = drain route (map event_image (events (ti_maps t))) (ti_folds t)
      in (n, t\<lparr>ti_maps := (ti_maps t)\<lparr>events := []\<rparr>, ti_folds := folds\<rparr>))"

definition SharedTracer_load :: "aya \<Rightarrow> ProbeError + trace_maps \<Rightarrow> ProbeError + TracerInner shared" where
  "SharedTracer_load a loaded =
     and_then loaded (\<lambda>maps.
       case use_target_set a maps of
         (Inl e, _) \<Rightarrow> Inl e
       | (Inr _, maps') \<Rightarrow>
           Inr \<lparr>locked = \<lparr>ti_maps = maps'\<lparr>events := []\<rparr>, ti_folds = Map.empty\<rparr>, poisoned = False\<rparr>)"

definition tracer_poll :: "TracerInner shared \<Rightarrow> usize \<times> TracerInner shared" where
  "tracer_poll st = (let (r, st') = with_lock st drain_route in (case r of Some n \<Rightarrow> n | None \<Rightarrow> 0, st'))"

definition tracer_register :: "aya \<Rightarrow> u64 \<Rightarrow> TracerInner shared \<Rightarrow> (ProbeError + unit) \<times> TracerInner shared" where
  "tracer_register a cg st =
     (if poisoned st then (Inl (MapErr ''shared tracer lock poisoned''), st)
      else
        (let t = snd (drain_route (locked st)) in
         case add_target a cg (ti_maps t) of
           (Inl e, maps) \<Rightarrow> (Inl e, st\<lparr>locked := t\<lparr>ti_maps := maps\<rparr>\<rparr>)
         | (Inr _, maps) \<Rightarrow>
             (Inr (), st\<lparr>locked := t\<lparr>ti_maps := maps, ti_folds := (ti_folds t)(cg \<mapsto> SyscallFold_new cg)\<rparr>\<rparr>)))"

definition tracer_finalize :: "aya \<Rightarrow> u64 \<Rightarrow> TracerInner shared \<Rightarrow> SyscallFootprint option \<times> TracerInner shared" where
  "tracer_finalize a cg st =
     (let (r, st') = with_lock st (\<lambda>t.
            let t1 = snd (drain_route t);
                t2 = t1\<lparr>ti_maps := snd (remove_target a cg (ti_maps t1))\<rparr>
            in (map_option SyscallFold_finish (ti_folds t2 cg), t2\<lparr>ti_folds := (ti_folds t2)(cg := None)\<rparr>))
      in (Option.bind r id, st'))"

definition tracer_snapshot :: "u64 \<Rightarrow> TracerInner shared \<Rightarrow> SyscallFootprint option \<times> TracerInner shared" where
  "tracer_snapshot cg st =
     (let (r, st') = with_lock st (\<lambda>t.
            let t1 = snd (drain_route t) in (map_option SyscallFold_finish (ti_folds t1 cg), t1))
      in (Option.bind r id, st'))"

definition tracer_detach :: "aya \<Rightarrow> u64 \<Rightarrow> TracerInner shared \<Rightarrow> TracerInner shared" where
  "tracer_detach a cg st =
     snd (with_lock st (\<lambda>t.
       ((), t\<lparr>ti_maps := snd (remove_target a cg (ti_maps t)), ti_folds := (ti_folds t)(cg := None)\<rparr>)))"

definition tracer_drops :: "aya \<Rightarrow> host \<Rightarrow> TracerInner shared \<Rightarrow> u64 option" where
  "tracer_drops a h st =
     Option.bind (fst (with_lock st (\<lambda>t.
       (case per_cpu_sum a ''EVENT_DROPS'' (map (event_drops (ti_maps t)) [0..<ncpus h]) of
          Inr n \<Rightarrow> Some n | Inl _ \<Rightarrow> None, t)))) id"


section \<open>Sandboxes sharing the tracer\<close>

text \<open>What can happen to a shared tracer, in any order: the kernel programs write an event into the
  ring buffer or lose one, and the sandboxes register, poll, look, finalize and detach.\<close>

datatype tracer_op =
    Emit SyscallEvent | Lose nat | Register u64 | Poll | Snapshot u64 | Finalize u64 | Detach u64

fun kernel_step :: "tracer_op \<Rightarrow> trace_maps \<Rightarrow> trace_maps" where
  "kernel_step (Emit e) s = s\<lparr>events := events s @ [e]\<rparr>"
| "kernel_step (Lose cpu) s = s\<lparr>event_drops := count_map_drop cpu (event_drops s)\<rparr>"
| "kernel_step _ s = s"

fun tracer_step :: "aya \<Rightarrow> tracer_op \<Rightarrow> TracerInner shared \<Rightarrow> TracerInner shared" where
  "tracer_step a (Register cg) st = snd (tracer_register a cg st)"
| "tracer_step a Poll st = snd (tracer_poll st)"
| "tracer_step a (Snapshot cg) st = snd (tracer_snapshot cg st)"
| "tracer_step a (Finalize cg) st = snd (tracer_finalize a cg st)"
| "tracer_step a (Detach cg) st = tracer_detach a cg st"
| "tracer_step a ke st = st\<lparr>locked := (locked st)\<lparr>ti_maps := kernel_step ke (ti_maps (locked st))\<rparr>\<rparr>"

definition tracer_run :: "aya \<Rightarrow> tracer_op list \<Rightarrow> TracerInner shared \<Rightarrow> TracerInner shared" where
  "tracer_run a ops st = foldl (\<lambda>st op. tracer_step a op st) st ops"

fun ok_op :: "tracer_op \<Rightarrow> bool" where
  "ok_op (Emit e) = ok_event e"
| "ok_op _ = True"

text \<open>The kernel programs take no other step.\<close>

lemma record_event_is_kernel_step:
  "\<exists>op. snd (record_event ring cpu t kind off path s) \<in> {s, kernel_step op s}
     \<and> (op = Lose cpu \<or> (\<exists>e. op = Emit e \<and> ev_cgroup_id e = cgroup_id t))"
  unfolding record_event_def Let_def
  by (auto simp del: kernel_step.simps simp: kernel_step.simps(1) [symmetric] kernel_step.simps(2) [symmetric])

text \<open>The specification: each sandbox has its own log of the events since it registered.\<close>

definition registers :: "aya \<Rightarrow> u64 \<Rightarrow> bool" where
  "registers a cg \<longleftrightarrow>
     open_map a ''TRACE_SET'' ''an array'' = Inr () \<and> op_err a ''TRACE_SET'' 0 = None
     \<and> open_map a ''TRACE_TARGETS'' ''a hash map'' = Inr () \<and> op_err a ''TRACE_TARGETS'' (unat cg) = None"

fun log_step :: "aya \<Rightarrow> (u64 \<rightharpoonup> SyscallEvent list) \<Rightarrow> tracer_op \<Rightarrow> (u64 \<rightharpoonup> SyscallEvent list)" where
  "log_step a L (Emit e) = (case L (ev_cgroup_id e) of Some l \<Rightarrow> L(ev_cgroup_id e \<mapsto> l @ [e]) | None \<Rightarrow> L)"
| "log_step a L (Register cg) = (if registers a cg then L(cg \<mapsto> []) else L)"
| "log_step a L (Finalize cg) = L(cg := None)"
| "log_step a L (Detach cg) = L(cg := None)"
| "log_step a L _ = L"

definition logs :: "aya \<Rightarrow> tracer_op list \<Rightarrow> (u64 \<rightharpoonup> SyscallEvent list)" where
  "logs a ops = foldl (log_step a) Map.empty ops"

text \<open>The abstraction: the folds once the ring buffer is routed.\<close>

definition routed :: "TracerInner \<Rightarrow> (u64 \<rightharpoonup> SyscallFold)" where
  "routed t = foldl (\<lambda>m e. route e m) (ti_folds t) (events (ti_maps t))"

definition folded :: "(u64 \<rightharpoonup> SyscallEvent list) \<Rightarrow> (u64 \<rightharpoonup> SyscallFold)" where
  "folded L = (\<lambda>cg. map_option (foldl (\<lambda>f ev. SyscallFold_record ev f) (SyscallFold_new cg)) (L cg))"

definition refines :: "(u64 \<rightharpoonup> SyscallEvent list) \<Rightarrow> TracerInner shared \<Rightarrow> bool" where
  "refines L st \<longleftrightarrow>
     \<not> poisoned st \<and> (\<forall>e \<in> set (events (ti_maps (locked st))). ok_event e) \<and> routed (locked st) = folded L"

lemma drain_images:
  assumes "\<forall>e \<in> set es. ok_event e"
  shows "drain on_event (map event_image es) c = (length es, foldl (\<lambda>c e. on_event e c) c es)"
  using assms
  by (induction es arbitrary: c) (simp_all add: event_repr.from_image [of _ "[]", simplified])


lemma drain_route_eq:
  assumes "\<forall>e \<in> set (events (ti_maps t)). ok_event e"
  shows "drain_route t =
    (length (events (ti_maps t)), t\<lparr>ti_maps := (ti_maps t)\<lparr>events := []\<rparr>, ti_folds := routed t\<rparr>)"
  by (simp add: drain_route_def drain_images [OF assms] routed_def)

lemma route_forget: "route e (m(cg := None)) = (route e m)(cg := None)"
  by (auto simp: route_def fun_eq_iff split: option.splits)

lemma routed_forget:
  "foldl (\<lambda>m e. route e m) (m(cg := None)) es = (foldl (\<lambda>m e. route e m) m es)(cg := None)"
  by (induction es arbitrary: m) (simp_all add: route_forget)

lemma route_folded: "route e (folded L) = folded (log_step a L (Emit e))"
  by (auto simp: route_def folded_def fun_eq_iff split: option.splits)

lemma folded_upd: "(folded L)(cg := None) = folded (L(cg := None))" "(folded L)(cg \<mapsto> SyscallFold_new cg) = folded (L(cg \<mapsto> []))"
  by (auto simp: folded_def)

lemma target_ops_keep_events:
  "events (snd (add_target a cg s)) = events s" "events (snd (remove_target a cg s)) = events s"
  by (auto simp: add_target_def remove_target_def seqm_def set_mode_def split: sum.splits option.splits)

lemma add_target_result: "(fst (add_target a cg s) = Inr ()) = registers a cg"
  by (auto simp: add_target_def registers_def seqm_def set_mode_def split: sum.splits option.splits)

lemmas tracer_defs = tracer_poll_def tracer_snapshot_def tracer_finalize_def tracer_detach_def with_lock_def

lemma refines_register:
  assumes "refines L st"
  shows "refines (log_step a L (Register cg)) (snd (tracer_register a cg st))"
proof -
  let ?t = "(locked st)\<lparr>ti_maps := (ti_maps (locked st))\<lparr>events := []\<rparr>, ti_folds := routed (locked st)\<rparr>"
  have ok: "\<forall>e \<in> set (events (ti_maps (locked st))). ok_event e" using assms by (simp add: refines_def)
  obtain r maps where at: "add_target a cg (ti_maps ?t) = (r, maps)" by (cases "add_target a cg (ti_maps ?t)")
  have ev: "events maps = []" using target_ops_keep_events(1) [of a cg "ti_maps ?t"] at by simp
  have reg: "(r = Inr ()) = registers a cg" using add_target_result [of a cg "ti_maps ?t"] at by simp
  show ?thesis
    using assms at ev reg
    by (cases r) (auto simp: tracer_register_def drain_route_eq [OF ok] refines_def routed_def folded_upd)
qed

lemma refines_step:
  assumes "refines L st" "ok_op op"
  shows "refines (log_step a L op) (tracer_step a op st)"
proof -
  have ok: "\<forall>e \<in> set (events (ti_maps (locked st))). ok_event e" and live: "\<not> poisoned st"
    and r: "routed (locked st) = folded L" using assms(1) by (simp_all add: refines_def)
  note d = drain_route_eq [OF ok]
  show ?thesis
  proof (cases op)
    case (Emit e)
    then show ?thesis
      using assms ok live r route_folded [of e L a] by (simp add: refines_def routed_def)
  next
    case (Register cg)
    then show ?thesis using refines_register [OF assms(1)] by simp
  next
    case (Detach cg)
    then show ?thesis
      using ok live r by (simp add: refines_def tracer_defs routed_def target_ops_keep_events routed_forget folded_upd)
  qed (use assms ok live r in \<open>simp_all add: refines_def tracer_defs d routed_def target_ops_keep_events folded_upd
         split: prod.splits\<close>)
qed

lemma refines_run:
  assumes "refines L st" "list_all ok_op ops"
  shows "refines (foldl (log_step a) L ops) (tracer_run a ops st)"
  using assms
proof (induction ops arbitrary: L st)
  case (Cons op ops)
  then show ?case using refines_step [of L st op a] by (simp add: tracer_run_def)
qed (simp add: tracer_run_def)

lemma refines_load:
  "SharedTracer_load a loaded = Inr st \<Longrightarrow> refines Map.empty st"
  by (auto simp: SharedTracer_load_def and_then_def refines_def routed_def folded_def split: sum.splits prod.splits)

lemma refines_footprint:
  assumes "refines L st"
  shows "fst (tracer_finalize a cg st) = map_option (from_events cg) (L cg)"
    and "fst (tracer_snapshot cg st) = map_option (from_events cg) (L cg)"
proof -
  have ok: "\<forall>e \<in> set (events (ti_maps (locked st))). ok_event e" and live: "\<not> poisoned st"
    and r: "routed (locked st) = folded L" using assms(1) by (simp_all add: refines_def)
  show "fst (tracer_finalize a cg st) = map_option (from_events cg) (L cg)"
    "fst (tracer_snapshot cg st) = map_option (from_events cg) (L cg)"
    using live r by (simp_all add: tracer_defs drain_route_eq [OF ok] folded_def from_events_def [abs_def] option.map_comp comp_def)
qed

text \<open>(C16) One tracer shared by many sandboxes hands each of them exactly its own syscalls: after any
  interleaving of kernel events, losses, registrations, polls, snapshots, finalizations and
  detachments, the footprint a sandbox gets is the fold of the events of its cgroup since it
  registered, and finalizing one sandbox changes no other's.\<close>

theorem shared_tracer_isolates:
  assumes "SharedTracer_load a loaded = Inr st0" and "list_all ok_op ops"
  shows "fst (tracer_finalize a cg (tracer_run a ops st0)) = map_option (from_events cg) (logs a ops cg)
    \<and> fst (tracer_snapshot cg (tracer_run a ops st0)) = map_option (from_events cg) (logs a ops cg)
    \<and> (cg' \<noteq> cg \<longrightarrow>
         fst (tracer_finalize a cg' (snd (tracer_finalize a cg (tracer_run a ops st0))))
           = map_option (from_events cg') (logs a ops cg'))"
proof -
  have run: "refines (logs a ops) (tracer_run a ops st0)"
    unfolding logs_def by (rule refines_run [OF refines_load [OF assms(1)] assms(2)])
  have "refines (logs a (ops @ [Finalize cg])) (tracer_run a (ops @ [Finalize cg]) st0)"
    unfolding logs_def using assms(2) by (intro refines_run [OF refines_load [OF assms(1)]]) simp
  then have fin: "refines ((logs a ops)(cg := None)) (snd (tracer_finalize a cg (tracer_run a ops st0)))"
    by (simp add: logs_def tracer_run_def)
  show ?thesis using refines_footprint [OF run] refines_footprint(1) [OF fin, of a cg'] by simp
qed

lemma sound_op: "op_err sound_aya name i = None"
  by (simp add: sound_aya_def)

definition idle_trace :: trace_maps where
  "idle_trace = \<lparr>execve_count = (\<lambda>_. 0), execve_by_pid = [], events = [], filter_tgid = 0, filter_cgroup = 0,
     trace_targets = [], trace_set = 0, event_drops = (\<lambda>_. 0)\<rparr>"

theorem shared_tracer_isolates_witness:
  "\<exists>st0. SharedTracer_load sound_aya (Inr idle_trace) = Inr st0
     \<and> fst (tracer_finalize sound_aya 7 (tracer_run sound_aya
          [Register 7, Register 8, Emit (sample_open 8 ''a''), Emit (sample_open 7 ''b''), Detach 8, Lose 0, Poll] st0))
       = Some (from_events 7 [sample_open 7 ''b''])"
proof -
  obtain st0 where st0: "SharedTracer_load sound_aya (Inr idle_trace) = Inr st0"
    by (simp add: SharedTracer_load_def use_target_set_def set_mode_def sound_open sound_op)
  have ok: "ok_event (sample_open cg [c])" for cg c
    by (simp add: ok_event_def sample_open_def COMM_CAP_def DETAIL_CAP_def as_bytes_def)
  have reg: "registers sound_aya cg" for cg by (simp add: registers_def sound_open sound_op)
  have cgs: "ev_cgroup_id (sample_open cg p) = cg" for cg p by (simp add: sample_open_def)
  show ?thesis
    using shared_tracer_isolates [OF st0, where cg = 7 and cg' = 8
        and ops = "[Register 7, Register 8, Emit (sample_open 8 ''a''), Emit (sample_open 7 ''b''), Detach 8, Lose 0, Poll]"]
      st0 by (simp add: logs_def ok reg cgs)
qed


section \<open>Attaching one sandbox\<close>

text \<open>The state shared between sandboxes, and the parameters of one launch: the prerequisite check,
  the loaded classifier maps, and their attachment to the tap.\<close>

record world =
  w_tracer :: "TracerInner shared"
  w_meter :: "meter_maps shared"

record launch =
  la_support :: "ProbeError + unit"
  la_loaded :: "ProbeError + tap_maps"
  la_attach :: "tap_maps \<Rightarrow> ProbeError + unit"

definition attach_in_netns :: "launch \<Rightarrow> ProbeError + tap_maps" where
  "attach_in_netns la =
     and_then (la_support la) (\<lambda>_.
     and_then (la_loaded la) (\<lambda>maps.
     and_then (la_attach la maps) (\<lambda>_. Inr maps)))"

record SandboxProbes =
  sp_vmm_pid :: u32
  sp_cgroup_id :: "u64 option"
  sp_traced :: bool
  sp_tap :: "tap_maps option"
  sp_metered :: bool
  sp_drops_at_attach :: "u64 option"
  sp_gaps :: "AxisGap list"
  sp_finalized :: bool

definition SandboxProbes_attach ::
    "aya \<Rightarrow> host \<Rightarrow> launch \<Rightarrow> u32 \<Rightarrow> string option \<Rightarrow> string option \<Rightarrow> EgressPolicy option \<Rightarrow> world
      \<Rightarrow> SandboxProbes \<times> world" where
  "SandboxProbes_attach a h la vmm_pid netns tap egress w =
     (let (cgroup_id, gaps) =
            (case cgroup_id_of_pid h vmm_pid of
               Inr cg \<Rightarrow> (Some cg, [])
             | Inl e \<Rightarrow> (None, [CpuGap (''resolve cgroup: '' @ ProbeError_display e)]));
          (traced, gaps, tracer) =
            (case cgroup_id of
               Some cg \<Rightarrow>
                 (case tracer_register a cg (w_tracer w) of
                    (Inr _, st) \<Rightarrow> (True, gaps, st)
                  | (Inl e, st) \<Rightarrow> (False, gaps @ [HostSyscalls (''register tracer: '' @ ProbeError_display e)], st))
             | None \<Rightarrow>
                 (False, gaps @ [HostSyscalls ''cgroup id unknown, cannot attribute host syscalls''], w_tracer w));
          (mon, gaps) =
            (case (netns, tap) of
               (Some _, Some _) \<Rightarrow>
                 (case (case egress of
                          Some pol \<Rightarrow> enforce_in_netns (la_support la) (la_loaded la) (la_attach la) a pol
                        | None \<Rightarrow> attach_in_netns la) of
                    Inr m \<Rightarrow> (Some m, gaps)
                  | Inl e \<Rightarrow> (None, gaps @ [Network (''attach tap: '' @ ProbeError_display e)]))
             | _ \<Rightarrow> (None, gaps));
          (metered, gaps, meter) =
            (case cgroup_id of
               Some cg \<Rightarrow>
                 (case with_lock (w_meter w) (meter_add_target a cg) of
                    (Some (Inr _), mt) \<Rightarrow> (True, gaps, mt)
                  | (Some (Inl e), mt) \<Rightarrow> (False, gaps @ [CpuGap (''meter add_target: '' @ ProbeError_display e)], mt)
                  | (None, mt) \<Rightarrow> (False, gaps @ [CpuGap ''meter lock poisoned''], mt))
             | None \<Rightarrow> (False, gaps, w_meter w))
      in (\<lparr>sp_vmm_pid = vmm_pid, sp_cgroup_id = cgroup_id, sp_traced = traced, sp_tap = mon,
           sp_metered = metered, sp_drops_at_attach = (if traced then tracer_drops a h tracer else None),
           sp_gaps = gaps, sp_finalized = False\<rparr>,
          \<lparr>w_tracer = tracer, w_meter = meter\<rparr>))"

section \<open>Collecting its record\<close>

text \<open>What reading the tap's maps returns at the time of the call: the entries in the order the kernel
  iterates them, a failed step of an iteration as its message, and the per-CPU slots of the three
  counters.\<close>

record tap_reads =
  tr_aya :: aya
  tr_totals :: "(string + bytes \<times> bytes) list"
  tr_flows :: "(string + bytes \<times> bytes) list"
  tr_flows6 :: "(string + bytes \<times> bytes) list"
  tr_denials :: "(string + bytes \<times> u64) list"
  tr_denials6 :: "(string + bytes \<times> u64) list"
  tr_flow_drops :: "u64 list"
  tr_denial_drops :: "u64 list"
  tr_unparsed :: "u64 list"

text \<open>\<open>unwrap_or_else\<close> with a closure that pushes a gap.\<close>

definition or_gap :: "string \<Rightarrow> 'a \<Rightarrow> ProbeError + 'a \<Rightarrow> AxisGap list \<Rightarrow> 'a \<times> AxisGap list" where
  "or_gap what fallback r gaps =
     (case r of Inr x \<Rightarrow> (x, gaps)
      | Inl e \<Rightarrow> (fallback, gaps @ [Network (''read tap '' @ what @ '': '' @ ProbeError_display e)]))"

definition collect_network :: "tap_reads \<Rightarrow> AxisGap list \<Rightarrow> NetSection option \<times> AxisGap list" where
  "collect_network tr gaps =
     (case totals (tr_aya tr) (tr_totals tr) of
        Inl e \<Rightarrow> (None, gaps @ [Network (''read tap totals: '' @ ProbeError_display e)])
      | Inr tot \<Rightarrow>
          (let (fl, gaps) = or_gap ''flows'' [] (read_flows (tr_aya tr) (tr_flows tr)) gaps;
               (ds, gaps) = or_gap ''denials'' [] (read_denials (tr_aya tr) (tr_denials tr)) gaps;
               (df, gaps) = or_gap ''flow drops'' 0 (per_cpu_sum (tr_aya tr) ''FLOW_DROPS'' (tr_flow_drops tr)) gaps;
               (dd, gaps) = or_gap ''denial drops'' 0 (per_cpu_sum (tr_aya tr) ''DENIAL_DROPS'' (tr_denial_drops tr)) gaps;
               gaps = (if df > 0 then gaps @ [Network (''flow table full: '' @ dec (unat df)
                         @ '' new flow(s) dropped; flows and totals undercount'')] else gaps);
               gaps = (if dd > 0 then gaps @ [Network (''denial table full: '' @ dec (unat dd)
                         @ '' denied packet(s) missing a destination row (the packets were still dropped at the tap)'')]
                       else gaps);
               gaps = (case per_cpu_sum (tr_aya tr) ''UNPARSED_L3'' (tr_unparsed tr) of
                         Inr n \<Rightarrow>
                           if n > 0 then gaps @ [Network (dec (unat n)
                             @ '' unrepresentable frame(s) (VLAN, or a truncated IPv4/IPv6 frame) crossed the tap; ''
                             @ ''this section is not the complete tap traffic'')]
                           else gaps
                       | Inl e \<Rightarrow> gaps @ [Network (''read tap unparsed-L3 counter: '' @ ProbeError_display e)]);
               (fl6, gaps) = or_gap ''v6 flows'' [] (read_flows6 (tr_aya tr) (tr_flows6 tr)) gaps;
               (ds6, gaps) = or_gap ''v6 denials'' [] (read_denials6 (tr_aya tr) (tr_denials6 tr)) gaps
           in (Some (with_v6 (from_tap fl tot ds df dd) fl6 ds6), gaps)))"

definition collect_syscalls ::
    "aya \<Rightarrow> host \<Rightarrow> SandboxProbes \<Rightarrow> TracerInner shared \<Rightarrow> SyscallFootprint \<times> AxisGap list \<times> TracerInner shared" where
  "collect_syscalls a h p st =
     (case (sp_traced p, sp_cgroup_id p) of
        (True, Some cg) \<Rightarrow>
          (let (r, st') = tracer_finalize a cg st;
               (fp, gaps) =
                 (case r of
                    Some fp \<Rightarrow> (fp, sp_gaps p)
                  | None \<Rightarrow> (SyscallFootprint_default, sp_gaps p @ [HostSyscalls
                      ''shared tracer state unavailable at finalize (lock poisoned or fold lost)'']));
               gaps =
                 (case (sp_drops_at_attach p, tracer_drops a h st') of
                    (Some d0, Some d1) \<Rightarrow>
                      if d1 > d0
                      then gaps @ [HostSyscalls (''ring buffer dropped '' @ dec (unat (d1 - d0))
                             @ '' event(s) during this run's window; the footprint may undercount'')]
                      else gaps
                  | _ \<Rightarrow> gaps @ [HostSyscalls
                      ''ring-buffer event-loss counter unreadable at finalize; possible undercount''])
           in (fp, gaps, st'))
      | _ \<Rightarrow> (SyscallFootprint_default, sp_gaps p, st))"

definition release_meter :: "aya \<Rightarrow> u64 \<Rightarrow> meter_maps shared \<Rightarrow> meter_maps shared" where
  "release_meter a cg mt = snd (with_lock mt (\<lambda>m. meter_clear a cg (snd (meter_remove_target a cg m))))"

definition collect_resources ::
    "aya \<Rightarrow> host \<Rightarrow> SandboxProbes \<Rightarrow> meter_maps shared \<Rightarrow> AxisGap list
      \<Rightarrow> ResourceSummary \<times> AxisGap list \<times> meter_maps shared" where
  "collect_resources a h p mt gaps =
     (let (res, gaps) =
            (case fst (with_lock mt (\<lambda>m. (summary_for_pid a h (sp_vmm_pid p) m, m))) of
               Some (Inr summary) \<Rightarrow> (summary, gaps)
             | Some (Inl e) \<Rightarrow> (ResourceSummary_default, gaps @ [CpuGap (''read resource summary: '' @ ProbeError_display e)])
             | None \<Rightarrow> (ResourceSummary_default, gaps @ [CpuGap ''meter lock poisoned'']));
          mt' = (case (sp_metered p, sp_cgroup_id p) of (True, Some cg) \<Rightarrow> release_meter a cg mt | _ \<Rightarrow> mt)
      in (res, gaps, mt'))"

definition collect :: "aya \<Rightarrow> host \<Rightarrow> tap_reads \<Rightarrow> Timing \<Rightarrow> SandboxProbes \<Rightarrow> world \<Rightarrow> RunRecord \<times> world" where
  "collect a h tr timing p w =
     (let (fp, gaps, tracer) = collect_syscalls a h p (w_tracer w);
          (network, gaps) = (case sp_tap p of Some _ \<Rightarrow> collect_network tr gaps | None \<Rightarrow> (None, gaps));
          (res, gaps, meter) = collect_resources a h p (w_meter w) gaps
      in (from_parts network res fp timing gaps, \<lparr>w_tracer = tracer, w_meter = meter\<rparr>))"

record LiveSnapshot =
  ls_network :: "NetSection option"
  ls_resources :: "ResourceSummary option"
  ls_host_syscalls :: "SyscallFootprint option"

definition ok_of :: "'e + 'a \<Rightarrow> 'a option" where
  "ok_of r = (case r of Inr x \<Rightarrow> Some x | Inl _ \<Rightarrow> None)"

definition unwrap_or :: "'e + 'a \<Rightarrow> 'a \<Rightarrow> 'a" where
  "unwrap_or r d = (case r of Inr x \<Rightarrow> x | Inl _ \<Rightarrow> d)"

definition snapshot_network :: "tap_reads \<Rightarrow> NetSection option" where
  "snapshot_network tr =
     Option.bind (ok_of (totals (tr_aya tr) (tr_totals tr))) (\<lambda>tot.
     Option.bind (ok_of (read_flows (tr_aya tr) (tr_flows tr))) (\<lambda>fl.
     Option.bind (ok_of (read_denials (tr_aya tr) (tr_denials tr))) (\<lambda>ds.
     let df = unwrap_or (per_cpu_sum (tr_aya tr) ''FLOW_DROPS'' (tr_flow_drops tr)) 0;
         dd = unwrap_or (per_cpu_sum (tr_aya tr) ''DENIAL_DROPS'' (tr_denial_drops tr)) 0;
         fl6 = unwrap_or (read_flows6 (tr_aya tr) (tr_flows6 tr)) [];
         ds6 = unwrap_or (read_denials6 (tr_aya tr) (tr_denials6 tr)) []
     in Some (with_v6 (from_tap fl tot ds df dd) fl6 ds6))))"

definition SandboxProbes_snapshot :: "aya \<Rightarrow> host \<Rightarrow> tap_reads \<Rightarrow> SandboxProbes \<Rightarrow> world \<Rightarrow> LiveSnapshot \<times> world" where
  "SandboxProbes_snapshot a h tr p w =
     (let (fp, tracer) =
            (case (sp_traced p, sp_cgroup_id p) of
               (True, Some cg) \<Rightarrow> tracer_snapshot cg (w_tracer w)
             | _ \<Rightarrow> (None, w_tracer w));
          network = Option.bind (sp_tap p) (\<lambda>_. snapshot_network tr);
          resources = Option.bind (fst (with_lock (w_meter w) (\<lambda>m. (ok_of (summary_for_pid a h (sp_vmm_pid p) m), m)))) id
      in (\<lparr>ls_network = network, ls_resources = resources, ls_host_syscalls = fp\<rparr>, w\<lparr>w_tracer := tracer\<rparr>))"

definition SandboxProbes_drop :: "aya \<Rightarrow> SandboxProbes \<Rightarrow> world \<Rightarrow> world" where
  "SandboxProbes_drop a p w =
     (if sp_finalized p then w
      else
        (let w1 = (case (sp_traced p, sp_cgroup_id p) of
                     (True, Some cg) \<Rightarrow> w\<lparr>w_tracer := tracer_detach a cg (w_tracer w)\<rparr> | _ \<Rightarrow> w)
         in case (sp_metered p, sp_cgroup_id p) of
              (True, Some cg) \<Rightarrow> w1\<lparr>w_meter := release_meter a cg (w_meter w1)\<rparr> | _ \<Rightarrow> w1))"


section \<open>A record without gaps is complete\<close>

lemma or_gap_gaps: "snd (or_gap what d r gaps) = [] \<longleftrightarrow> gaps = [] \<and> (\<exists>x. r = Inr x)"
  by (auto simp: or_gap_def split: sum.splits)

lemma or_gap_ok [simp]: "or_gap what d (Inr x) gaps = (x, gaps)"
  by (simp add: or_gap_def)

lemma or_gap_bad [simp]:
  "or_gap what d (Inl e) gaps = (d, gaps @ [Network (''read tap '' @ what @ '': '' @ ProbeError_display e)])"
  by (simp add: or_gap_def)

definition network_complete :: "tap_reads \<Rightarrow> NetSection \<Rightarrow> bool" where
  "network_complete tr sec \<longleftrightarrow>
     (\<exists>tot fl ds fl6 ds6.
        totals (tr_aya tr) (tr_totals tr) = Inr tot
      \<and> read_flows (tr_aya tr) (tr_flows tr) = Inr fl \<and> read_denials (tr_aya tr) (tr_denials tr) = Inr ds
      \<and> read_flows6 (tr_aya tr) (tr_flows6 tr) = Inr fl6 \<and> read_denials6 (tr_aya tr) (tr_denials6 tr) = Inr ds6
      \<and> per_cpu_sum (tr_aya tr) ''FLOW_DROPS'' (tr_flow_drops tr) = Inr 0
      \<and> per_cpu_sum (tr_aya tr) ''DENIAL_DROPS'' (tr_denial_drops tr) = Inr 0
      \<and> per_cpu_sum (tr_aya tr) ''UNPARSED_L3'' (tr_unparsed tr) = Inr 0
      \<and> sec = with_v6 (from_tap fl tot ds 0 0) fl6 ds6)"

lemma gap_if: "(if c then g @ [x] else g) = [] \<longleftrightarrow> g = [] \<and> \<not> c"
  by simp

lemma gap_case:
  "(case r of Inl e \<Rightarrow> g @ [x e] | Inr n \<Rightarrow> if n > (0 :: u64) then g @ [y n] else g) = [] \<longleftrightarrow> g = [] \<and> r = Inr 0"
  by (auto simp: word_gt_0 split: sum.splits)

lemma collect_network_silent:
  assumes "snd (collect_network tr gaps) = []"
  shows "gaps = [] \<and> (\<exists>sec. fst (collect_network tr gaps) = Some sec \<and> network_complete tr sec)"
proof (cases "totals (tr_aya tr) (tr_totals tr)")
  case (Inl e)
  then show ?thesis using assms by (simp add: collect_network_def)
next
  case (Inr tot)
  note silent = assms [unfolded collect_network_def Inr sum.case Let_def case_prod_unfold snd_conv or_gap_gaps gap_if gap_case]
  from silent obtain fl ds fl6 ds6 df dd where r:
    "read_flows (tr_aya tr) (tr_flows tr) = Inr fl" "read_denials (tr_aya tr) (tr_denials tr) = Inr ds"
    "read_flows6 (tr_aya tr) (tr_flows6 tr) = Inr fl6" "read_denials6 (tr_aya tr) (tr_denials6 tr) = Inr ds6"
    "per_cpu_sum (tr_aya tr) ''FLOW_DROPS'' (tr_flow_drops tr) = Inr df"
    "per_cpu_sum (tr_aya tr) ''DENIAL_DROPS'' (tr_denial_drops tr) = Inr dd"
    "per_cpu_sum (tr_aya tr) ''UNPARSED_L3'' (tr_unparsed tr) = Inr 0" "gaps = []"
    by blast
  moreover have "df = 0" "dd = 0" using silent by (simp_all add: r word_gt_0)
  ultimately show ?thesis
    using Inr by (simp add: collect_network_def network_complete_def)
qed

definition syscalls_complete :: "aya \<Rightarrow> host \<Rightarrow> SandboxProbes \<Rightarrow> TracerInner shared \<Rightarrow> SyscallFootprint \<Rightarrow> bool" where
  "syscalls_complete a h p st fp \<longleftrightarrow>
     (\<forall>cg. sp_traced p \<and> sp_cgroup_id p = Some cg \<longrightarrow>
        fst (tracer_finalize a cg st) = Some fp
        \<and> (\<exists>d0 d1. sp_drops_at_attach p = Some d0 \<and> tracer_drops a h (snd (tracer_finalize a cg st)) = Some d1 \<and> d1 \<le> d0))"

lemma collect_syscalls_silent:
  assumes "collect_syscalls a h p st = (fp, [], st')"
  shows "sp_gaps p = [] \<and> syscalls_complete a h p st fp"
proof (cases "sp_traced p \<and> sp_cgroup_id p \<noteq> None")
  case False
  then show ?thesis
    using assms by (auto simp: collect_syscalls_def syscalls_complete_def split: bool.splits option.splits)
next
  case True
  then obtain cg where cg: "sp_traced p" "sp_cgroup_id p = Some cg" by auto
  obtain r s where f: "tracer_finalize a cg st = (r, s)" by (cases "tracer_finalize a cg st")
  show ?thesis
    using assms cg f
    by (cases r; cases "sp_drops_at_attach p"; cases "tracer_drops a h s")
       (auto simp: collect_syscalls_def syscalls_complete_def split: if_splits)
qed

lemma collect_resources_silent:
  assumes "collect_resources a h p mt gaps = (res, [], mt')"
  shows "gaps = [] \<and> \<not> poisoned mt \<and> summary_for_pid a h (sp_vmm_pid p) (locked mt) = Inr res"
  using assms by (auto simp: collect_resources_def with_lock_def split: if_splits sum.splits)



definition quiet_host :: host where
  "quiet_host = \<lparr>proc_cgroup = (\<lambda>_. Inr ''0::/vm''), dir_inode = (\<lambda>_. Inr 7), file_text = (\<lambda>_. None), ncpus = 1\<rparr>"

definition quiet_reads :: tap_reads where
  "quiet_reads = \<lparr>tr_aya = sound_aya, tr_totals = [], tr_flows = [], tr_flows6 = [], tr_denials = [], tr_denials6 = [],
     tr_flow_drops = [0], tr_denial_drops = [0], tr_unparsed = [0]\<rparr>"

definition quiet_world :: world where
  "quiet_world = \<lparr>w_tracer = \<lparr>locked = \<lparr>ti_maps = idle_trace, ti_folds = [7 \<mapsto> SyscallFold_new 7]\<rparr>, poisoned = False\<rparr>,
     w_meter = \<lparr>locked = \<lparr>cpu_ns = [(7, 5)], last_switch = (\<lambda>_. 0), meter_targets = [7], meter_all = 0\<rparr>, poisoned = False\<rparr>\<rparr>"

definition quiet_probes :: SandboxProbes where
  "quiet_probes = \<lparr>sp_vmm_pid = 1, sp_cgroup_id = Some 7, sp_traced = True, sp_tap = Some (fresh_maps 1 []),
     sp_metered = True, sp_drops_at_attach = Some 0, sp_gaps = [], sp_finalized = False\<rparr>"

definition quiet_timing :: Timing where
  "quiet_timing = \<lparr>tm_boot_ns = 1, tm_exec_wall_ns = 2\<rparr>"

lemma quiet_reads_ok:
  "collect_network quiet_reads [] = (Some (with_v6 (from_tap [] NetStats_default [] 0 0) [] []), [])"
  by (simp add: collect_network_def quiet_reads_def totals_def read_flows_def read_denials_def read_flows6_def
      read_denials6_def per_cpu_sum_def sound_open sound_op)

lemma quiet_summary:
  "summary_for_pid sound_aya quiet_host 1 (locked (w_meter quiet_world))
     = Inr \<lparr>rs_cpu_time_ns = 5, rs_cgroup = CgroupStats_default\<rparr>"
proof -
  have "cgroup_dir_of_pid 1 (Inr ''0::/vm'') = Inr ''/sys/fs/cgroup/vm''" by code_simp
  then show ?thesis
    by (simp add: summary_for_pid_def quiet_host_def cgroup_id_of_dir_def read_cpu_ns_def sound_open sound_op
        quiet_world_def CgroupStats_read_def CgroupStats_default_def)
qed

lemma quiet_syscalls:
  "\<exists>st. collect_syscalls sound_aya quiet_host quiet_probes (w_tracer quiet_world) = (SyscallFold_finish (SyscallFold_new 7), [], st)"
proof -
  have "tracer_finalize sound_aya 7 (w_tracer quiet_world)
      = (Some (SyscallFold_finish (SyscallFold_new 7)), \<lparr>locked = \<lparr>ti_maps = idle_trace, ti_folds = Map.empty\<rparr>, poisoned = False\<rparr>)"
    by (simp add: tracer_defs quiet_world_def drain_route_def idle_trace_def remove_target_def sound_open sound_op)
  moreover have "tracer_drops sound_aya quiet_host \<lparr>locked = \<lparr>ti_maps = idle_trace, ti_folds = Map.empty\<rparr>, poisoned = False\<rparr> = Some 0"
    by (simp add: tracer_drops_def with_lock_def per_cpu_sum_def sound_open sound_op quiet_host_def idle_trace_def)
  ultimately show ?thesis by (simp add: collect_syscalls_def quiet_probes_def)
qed


text \<open>Detaching leaves nothing behind: after a record is collected, or the probes dropped, the shared
  maps no longer know the sandbox's cgroup.\<close>

lemma release_meter_clears:
  assumes "open_map a ''METER_TARGETS'' ''a hash map'' = Inr ()" "open_map a ''CPU_NS'' ''a hash map'' = Inr ()"
    "op_err a ''METER_TARGETS'' (unat cg) = None" "op_err a ''CPU_NS'' (unat cg) = None" "\<not> poisoned mt"
  shows "cg \<notin> set (meter_targets (locked (release_meter a cg mt)))
    \<and> cg \<notin> fst ` set (cpu_ns (locked (release_meter a cg mt)))"
  using assms by (auto simp: release_meter_def with_lock_def meter_clear_def meter_remove_target_def split: prod.splits)

end
