(* ===== verification/Paths.thy ===== *)
theory Paths
  imports StrLib
begin

text \<open>
  The part of \<open>std::path\<close> the sources use: the components of a Unix path, \<open>join\<close>, \<open>parent\<close>, \<open>file_name\<close> and the
  component-wise \<open>starts_with\<close>. A path is its string. The lemma of this theory is the one both ends
  of the exec channel rely on: a relative path made of plain names stays below the directory it is
  joined to.
\<close>

datatype component = RootDir | CurDir | ParentDir | Normal string

fun component_of :: "bool \<Rightarrow> string \<Rightarrow> component option" where
  "component_of first s =
     (if s = [] then None
      else if s = ''.'' then (if first then Some CurDir else None)
      else if s = ''..'' then Some ParentDir
      else Some (Normal s))"

definition slash :: char where "slash = CHR ''/''"

text \<open>Repeated separators and inner \<open>.\<close> are normalized away; a leading \<open>.\<close> is kept.\<close>

definition components :: "string \<Rightarrow> component list" where
  "components p =
     (if p = [] then []
      else if hd p = slash
      then RootDir # List.map_filter (component_of False) (split_on (\<lambda>c. c = slash) p)
      else (case split_on (\<lambda>c. c = slash) p of
              [] \<Rightarrow> []
            | s # ss \<Rightarrow> List.map_filter (component_of True) [s] @ List.map_filter (component_of False) ss))"

definition plain :: "component \<Rightarrow> bool" where
  "plain c = (case c of Normal _ \<Rightarrow> True | CurDir \<Rightarrow> True | _ \<Rightarrow> False)"

definition path_push :: "string \<Rightarrow> string \<Rightarrow> string" where
  "path_push dir p =
     (if p \<noteq> [] \<and> hd p = slash then p
      else if dir = [] \<or> last dir = slash then dir @ p
      else dir @ slash # p)"

definition path_starts_with :: "string \<Rightarrow> string \<Rightarrow> bool" where
  "path_starts_with p root \<longleftrightarrow> take (length (components root)) (components p) = components root"

text \<open>\<open>Path::parent\<close>: the path without its last component, \<open>None\<close> for a root or an empty path. Trailing
  separators and \<open>.\<close> are no components.\<close>

fun join_slash :: "string list \<Rightarrow> string" where
  "join_slash [] = []"
| "join_slash [s] = s"
| "join_slash (s # ss) = s @ slash # join_slash ss"

definition trim_tail :: "string list \<Rightarrow> string list" where
  "trim_tail ps = hd ps # rev (dropWhile (\<lambda>s. s = [] \<or> s = ''.'') (rev (tl ps)))"

definition path_parent :: "string \<Rightarrow> string option" where
  "path_parent p =
     (if components p = [] \<or> last (components p) = RootDir then None
      else
        (let ps = trim_tail (split_on (\<lambda>c. c = slash) p) in
         if tl ps = [] then Some []
         else (let qs = trim_tail (butlast ps) in Some (if qs = [[]] then [slash] else join_slash qs))))"

text \<open>\<open>Path::file_name\<close>: the last component when it is a name.\<close>

definition path_file_name :: "string \<Rightarrow> string option" where
  "path_file_name p =
     (if components p = [] then None
      else case last (components p) of Normal s \<Rightarrow> Some s | _ \<Rightarrow> None)"

definition is_absolute :: "string \<Rightarrow> bool" where
  "is_absolute p \<longleftrightarrow> p \<noteq> [] \<and> hd p = slash"

text \<open>What a path means without following links: \<open>..\<close> drops the last name.\<close>

fun lexical :: "string list \<Rightarrow> component list \<Rightarrow> string list" where
  "lexical at [] = at"
| "lexical at (RootDir # cs) = lexical [] cs"
| "lexical at (CurDir # cs) = lexical at cs"
| "lexical at (ParentDir # cs) = lexical (butlast at) cs"
| "lexical at (Normal s # cs) = lexical (at @ [s]) cs"

lemma plain_simps [simp]: "plain (Normal s)" "plain CurDir" "\<not> plain RootDir" "\<not> plain ParentDir"
  by (simp_all add: plain_def)

lemma lexical_plain: "list_all plain cs \<Longrightarrow> \<exists>names. lexical at cs = at @ names"
  by (induction at cs rule: lexical.induct) (auto simp: plain_def)

lemma split_on_not_Nil [simp]: "split_on p xs \<noteq> []"
  by (induction xs) (auto split: list.splits)

lemma absolute_not_plain: "p \<noteq> [] \<Longrightarrow> hd p = slash \<Longrightarrow> \<not> list_all plain (components p)"
  by (simp add: components_def)

lemma split_on_append:
  "split_on q (xs @ y # ys) = split_on q xs @ split_on q ys" if "q y"
  using that by (induction xs) (auto split: list.splits)

lemma map_filter_append [simp]: "List.map_filter f (xs @ ys) = List.map_filter f xs @ List.map_filter f ys"
  by (simp add: map_filter_def)

text \<open>Joining a relative path to a directory puts its components behind the directory's, up to a
  leading \<open>.\<close>, which names the directory itself.\<close>

lemma component_of_tail: "component_of True s = Some CurDir \<or> component_of True s = component_of False s"
  by simp

lemma components_absolute_join:
  assumes "dir \<noteq> []" "hd dir = slash" "last dir \<noteq> slash" "p \<noteq> []" "hd p \<noteq> slash"
  shows "lexical [] (components (path_push dir p)) = lexical (lexical [] (components dir)) (components p)"
proof -
  let ?sp = "split_on (\<lambda>c. c = slash)"
  have j: "path_push dir p = dir @ slash # p" using assms by (simp add: path_push_def)
  have d: "components (dir @ slash # p)
      = components dir @ List.map_filter (component_of False) (?sp p)"
    using assms by (simp add: components_def split_on_append)
  have app: "lexical at (cs @ ds) = lexical (lexical at cs) ds" for at cs ds
    by (induction at cs rule: lexical.induct) auto
  obtain s ss where s: "?sp p = s # ss" by (cases "?sp p") auto
  have "lexical at (List.map_filter (component_of False) (s # ss))
      = lexical at (List.map_filter (component_of True) [s] @ List.map_filter (component_of False) ss)" for at
    by (simp add: map_filter_def)
  moreover have "components p = List.map_filter (component_of True) [s] @ List.map_filter (component_of False) ss"
    using assms(4,5) s by (simp add: components_def)
  ultimately show ?thesis by (simp add: j d app s)
qed

lemma plain_join_contained:
  assumes "dir \<noteq> []" "hd dir = slash" "last dir \<noteq> slash" "p \<noteq> []" "list_all plain (components p)"
  shows "\<exists>names. lexical [] (components (path_push dir p)) = lexical [] (components dir) @ names"
  using components_absolute_join [OF assms(1-4)] lexical_plain [OF assms(5)] absolute_not_plain [of p] assms(4,5)
  by metis

end
