(* ===== verification/Exec.thy ===== *)
theory Exec
  imports Channel Paths Policy
begin

text \<open>
  The host side of running one command in a guest: the typed errors and their buckets of
  \<open>crates/vmm/src/lib.rs\<close>, the vsock connection and the bounded collect loop of
  \<open>crates/vmm/src/exec.rs\<close>, and \<open>exec_with_files\<close> of \<open>crates/vmm/src/vm.rs\<close>. Times are nanoseconds,
  an \<open>Instant\<close> is read from a clock that gives the value of each successive reading. The lemmas show
  that whatever a guest sends, the host buffers at most the configured number of bytes, reads a
  bounded number of frames, and hands out no path outside the working tree.
\<close>

section \<open>Errors\<close>

datatype VmmError =
    Unimplemented string | NoKvm | ArtifactMissing string | Timeout string | GuestUnavailable string
  | ChannelErr channel_error | GuestExec string | GuestProtocol string | OutputCap usize
  | ExecTimeout nat | ExecUnresponsive nat | Vmm string | LimitsUnavailable string
  | ScratchDirNodev string

datatype ErrorKind = Infra | Transport | Guest

fun error_kind :: "VmmError \<Rightarrow> ErrorKind" where
  "error_kind (Unimplemented _) = Infra"
| "error_kind NoKvm = Infra"
| "error_kind (ArtifactMissing _) = Infra"
| "error_kind (Timeout _) = Infra"
| "error_kind (GuestUnavailable _) = Infra"
| "error_kind (Vmm _) = Infra"
| "error_kind (LimitsUnavailable _) = Infra"
| "error_kind (ScratchDirNodev _) = Infra"
| "error_kind (ChannelErr _) = Transport"
| "error_kind (ExecUnresponsive _) = Transport"
| "error_kind (GuestExec _) = Guest"
| "error_kind (GuestProtocol _) = Guest"
| "error_kind (OutputCap _) = Guest"
| "error_kind (ExecTimeout _) = Guest"

text \<open>Renderings of the standard library used in messages: of an I/O error, of a string and of a
  duration under \<open>{:?}\<close>.\<close>

record fmt =
  io_display :: "io_kind \<Rightarrow> string"
  dbg_str :: "string \<Rightarrow> string"
  dbg_duration :: "nat \<Rightarrow> string"

fun channel_error_display :: "fmt \<Rightarrow> channel_error \<Rightarrow> string" where
  "channel_error_display f (Io e) = ''channel io: '' @ io_display f e"
| "channel_error_display f (Protocol m) = ''channel protocol error: '' @ m"
| "channel_error_display f (PayloadTooLarge tag n) =
     ''channel frame (tag '' @ dec (unat tag) @ '') length '' @ dec n @ '' exceeds '' @ dec MAX_PAYLOAD"

fun VmmError_display :: "fmt \<Rightarrow> VmmError \<Rightarrow> string" where
  "VmmError_display f (Unimplemented what) = ''not implemented yet: '' @ what"
| "VmmError_display f NoKvm = ''KVM unavailable: /dev/kvm missing or not permitted''"
| "VmmError_display f (ArtifactMissing e) = ''missing artifact: '' @ e"
| "VmmError_display f (Timeout e) = ''timed out: '' @ e"
| "VmmError_display f (GuestUnavailable e) = ''guest agent unavailable: '' @ e"
| "VmmError_display f (ChannelErr e) = ''exec channel: '' @ channel_error_display f e"
| "VmmError_display f (GuestExec e) = ''guest could not run the command: '' @ e"
| "VmmError_display f (GuestProtocol e) = ''guest violated the exec protocol: '' @ e"
| "VmmError_display f (OutputCap limit) = ''guest output exceeded the '' @ dec limit @ ''-byte cap''"
| "VmmError_display f (ExecTimeout limit) = ''guest command exceeded its '' @ dbg_duration f limit @ '' deadline''"
| "VmmError_display f (ExecUnresponsive limit) =
     ''guest went unresponsive; host gave up after '' @ dbg_duration f limit"
| "VmmError_display f (Vmm e) = ''vmm error: '' @ e"
| "VmmError_display f (LimitsUnavailable e) = ''resource limits unavailable: '' @ e"
| "VmmError_display f (ScratchDirNodev dir) =
     ''scratch dir '' @ dir @ '' is on a nodev mount: the jailer's chroot /dev/kvm can't be opened ''
     @ ''there, so a jailed boot fails; set EKE_SCRATCH_DIR to a path off a nodev mount''"

section \<open>Bounds and results\<close>

definition second_ns :: nat where "second_ns = 1000000000"
definition duration_max :: nat where "duration_max = 2 ^ 64 * second_ns - 1"
definition FRAME_FLOOR :: usize where "FRAME_FLOOR = 64"
definition EXEC_KILL_SLACK :: nat where "EXEC_KILL_SLACK = 5 * second_ns"
definition EKE_VSOCK_PORT :: nat where "EKE_VSOCK_PORT = 1024"

record ExecBounds =
  b_timeout :: nat
  b_wall :: nat
  max_output :: usize

record Artifact =
  art_path :: string
  art_data :: bytes

record RunResult =
  r_exit_code :: i32
  r_stdout :: bytes
  r_stderr :: bytes
  r_files :: "Artifact list"
  r_wall :: nat

definition wire_timeout_ms :: "nat \<Rightarrow> u32" where
  "wire_timeout_ms timeout = word_of_nat (max (min (timeout div 1000000) (2 ^ 32 - 1)) 1)"

definition send_was_disconnect :: "VmmError \<Rightarrow> bool" where
  "send_was_disconnect err =
     (case err of
        ChannelErr (Io k) \<Rightarrow> k = BrokenPipe \<or> k = ConnectionReset \<or> k = UnexpectedEof
      | _ \<Rightarrow> False)"

definition artifact_path_is_safe :: "string \<Rightarrow> bool" where
  "artifact_path_is_safe path \<longleftrightarrow> path \<noteq> [] \<and> list_all plain (components path)"

section \<open>The collect loop\<close>

record Collected =
  c_stdout :: bytes
  c_stderr :: bytes
  c_files :: "Artifact list"
  c_captured :: usize

definition collected0 :: Collected where
  "collected0 = \<lparr>c_stdout = [], c_stderr = [], c_files = [], c_captured = 0\<rparr>"

definition charge :: "usize \<Rightarrow> usize \<Rightarrow> usize \<Rightarrow> VmmError + usize" where
  "charge captured add cap =
     (let next = saturating_add_usize captured add in if next > cap then Inl (OutputCap cap) else Inr next)"

datatype progress = More Collected | Done i32 | Stop VmmError

definition collect_frame :: "fmt \<Rightarrow> ExecBounds \<Rightarrow> response \<Rightarrow> Collected \<Rightarrow> progress" where
  "collect_frame f b resp c =
     (case resp of
        Stdout d \<Rightarrow>
          (case charge (c_captured c) (length d + FRAME_FLOOR) (max_output b) of
             Inl e \<Rightarrow> Stop e
           | Inr n \<Rightarrow> More (c\<lparr>c_captured := n, c_stdout := c_stdout c @ d\<rparr>))
      | Stderr d \<Rightarrow>
          (case charge (c_captured c) (length d + FRAME_FLOOR) (max_output b) of
             Inl e \<Rightarrow> Stop e
           | Inr n \<Rightarrow> More (c\<lparr>c_captured := n, c_stderr := c_stderr c @ d\<rparr>))
      | File path data \<Rightarrow>
          if \<not> artifact_path_is_safe path
          then Stop (GuestProtocol (''guest returned artifact path '' @ dbg_str f path
                 @ '' that is absolute or escapes the working tree''))
          else
            (case charge (c_captured c) (length path + length data + FRAME_FLOOR) (max_output b) of
               Inl e \<Rightarrow> Stop e
             | Inr n \<Rightarrow> More (c\<lparr>c_captured := n, c_files := c_files c @ [\<lparr>art_path = path, art_data = data\<rparr>]\<rparr>))
      | Exit code \<Rightarrow> Done code
      | TimedOutResp _ \<Rightarrow> Stop (ExecTimeout (b_timeout b))
      | Error msg \<Rightarrow> Stop (GuestExec msg))"

fun client_avail :: "ClientConnection \<Rightarrow> bytes" where
  "client_avail (ClientConnection s) = avail (s_in s)"

lemma recv_response_shrinks:
  assumes "recv_response conn = (Inr resp, conn')"
  shows "length (client_avail conn') < length (client_avail conn)"
proof -
  obtain s where s: "conn = ClientConnection s" by (cases conn)
  obtain r' where r: "read_response (s_in s) = (Inr resp, r')" and c: "conn' = ClientConnection (s\<lparr>s_in := r'\<rparr>)"
    using assms by (auto simp: s recv_response_def on_client_def on_in_def split: prod.splits)
  obtain tag payload where "read_frame (s_in s) = (Inr (tag, payload), r')"
    using r by (auto simp: read_response_iff)
  then show ?thesis using read_frame_sound(1) by (fastforce simp: s c frame_def)
qed

text \<open>The \<open>n\<close>-th pass reads the clock before it blocks in \<open>recv_response\<close>.\<close>

function collect_loop ::
    "fmt \<Rightarrow> (nat \<Rightarrow> nat) \<Rightarrow> nat \<Rightarrow> nat \<Rightarrow> ExecBounds \<Rightarrow> nat \<Rightarrow> Collected \<Rightarrow> ClientConnection
      \<Rightarrow> (VmmError + RunResult) \<times> ClientConnection" where
  "collect_loop f clock started deadline b n c conn =
     (if clock n \<ge> deadline then (Inl (ExecUnresponsive (b_wall b)), conn)
      else case recv_response conn of
          (Inl e, conn') \<Rightarrow> (Inl (ChannelErr e), conn')
        | (Inr resp, conn') \<Rightarrow>
            (case collect_frame f b resp c of
               More c' \<Rightarrow> collect_loop f clock started deadline b (Suc n) c' conn'
             | Stop e \<Rightarrow> (Inl e, conn')
             | Done code \<Rightarrow>
                 (Inr \<lparr>r_exit_code = code, r_stdout = c_stdout c, r_stderr = c_stderr c, r_files = c_files c,
                       r_wall = clock (Suc n) - started\<rparr>, conn')))"
  by pat_completeness auto
termination
  by (relation "measure (\<lambda>(f, clock, started, deadline, b, n, c, conn). length (client_avail conn))")
     (auto dest: sym [THEN recv_response_shrinks])

declare collect_loop.simps [simp del]

section \<open>Running one command\<close>

fun send_files :: "(string \<times> bytes) list \<Rightarrow> (ClientConnection, channel_error, unit) smethod" where
  "send_files [] = okm ()"
| "send_files ((path, data) # fs) = seqm (send_put_file path data) (\<lambda>_. send_files fs)"

text \<open>The latest \<open>Instant\<close>: 64-bit signed seconds.\<close>

definition instant_max :: nat where "instant_max = 2 ^ 63 * second_ns - 1"

definition host_deadline :: "nat \<Rightarrow> nat \<Rightarrow> nat" where
  "host_deadline started wall =
     (if started + wall \<le> instant_max then started + wall else started + 86400 * second_ns)"

definition run_exec ::
    "fmt \<Rightarrow> (nat \<Rightarrow> nat) \<Rightarrow> string list \<Rightarrow> bytes \<Rightarrow> (string \<times> bytes) list \<Rightarrow> (string \<times> string) list \<Rightarrow> string list
      \<Rightarrow> ExecBounds \<Rightarrow> ClientConnection \<Rightarrow> (VmmError + RunResult) \<times> ClientConnection" where
  "run_exec f clock argv stdin files_in env artifacts b conn =
     (let started = clock 0; deadline = host_deadline started (b_wall b) in
      case seqm (send_files files_in)
             (\<lambda>_. send_exec argv stdin env artifacts (wire_timeout_ms (b_timeout b))) conn of
        (Inl e, conn') \<Rightarrow>
          if send_was_disconnect (ChannelErr e)
          then (case recv_response conn' of
                  (Inr (Error msg), conn'') \<Rightarrow> (Inl (GuestExec msg), conn'')
                | (_, conn'') \<Rightarrow> (Inl (ChannelErr e), conn''))
          else (Inl (ChannelErr e), conn')
      | (Inr _, conn') \<Rightarrow> collect_loop f clock started deadline b 1 collected0 conn')"

section \<open>Reaching the agent\<close>

text \<open>The ack is read byte by byte. A read that was interrupted is retried, so it is no outcome of
  the stream.\<close>

fun read_connect_ack_loop :: "fmt \<Rightarrow> nat \<Rightarrow> io_kind option \<Rightarrow> bytes \<Rightarrow> bytes \<Rightarrow> (VmmError + bytes) \<times> bytes" where
  "read_connect_ack_loop f port aft line [] =
     (case aft of
        None \<Rightarrow> (Inl (GuestUnavailable (''vsock CONNECT '' @ dec port
                  @ '': peer closed before ack (is the guest agent listening?)'')), [])
      | Some k \<Rightarrow>
          if k = WouldBlock \<or> k = TimedOut
          then (Inl (Timeout (''vsock CONNECT '' @ dec port @ '': no ack before deadline'')), [])
          else (Inl (Vmm (''vsock CONNECT '' @ dec port @ '': '' @ io_display f k)), []))"
| "read_connect_ack_loop f port aft line (x # xs) =
     (if x = 10 then (Inr line, xs)
      else if length (line @ [x]) > 64
      then (Inl (Vmm (''vsock CONNECT '' @ dec port @ '': ack line too long'')), xs)
      else read_connect_ack_loop f port aft (line @ [x]) xs)"

definition read_connect_ack :: "fmt \<Rightarrow> nat \<Rightarrow> (stream, VmmError, unit) smethod" where
  "read_connect_ack f port s =
     (case read_connect_ack_loop f port (after (s_in s)) [] (avail (s_in s)) of
        (Inl e, rest) \<Rightarrow> (Inl e, s\<lparr>s_in := (s_in s)\<lparr>avail := rest\<rparr>\<rparr>)
      | (Inr line, rest) \<Rightarrow>
          (let ack = from_utf8_lossy line; s' = s\<lparr>s_in := (s_in s)\<lparr>avail := rest\<rparr>\<rparr> in
           if take 3 ack = ''OK '' then (Inr (), s')
           else (Inl (GuestUnavailable (''vsock CONNECT '' @ dec port @ '' refused: '' @ dbg_str f ack
                  @ '' (is the guest agent listening?)'')), s')))"

text \<open>\<open>dial\<close> is what connecting to the Unix socket yields, \<open>sockopt\<close> a failure to set its timeouts.\<close>

definition vsock_connect ::
    "fmt \<Rightarrow> io_kind + stream \<Rightarrow> io_kind option \<Rightarrow> string \<Rightarrow> nat \<Rightarrow> VmmError + stream" where
  "vsock_connect f dial sockopt uds port =
     (case dial of
        Inl k \<Rightarrow>
          (let detail = ''connect vsock socket '' @ uds @ '': '' @ io_display f k in
           Inl (if k = ConnectionRefused then GuestUnavailable detail else Vmm detail))
      | Inr s \<Rightarrow>
          (case sockopt of
             Some k \<Rightarrow> Inl (Vmm (''set vsock timeouts: '' @ io_display f k))
           | None \<Rightarrow>
               (case on_out (write_all (as_bytes (''CONNECT '' @ dec port) @ [10])) s of
                  (Inl k, _) \<Rightarrow> Inl (Vmm (''vsock CONNECT '' @ dec port @ '': '' @ io_display f k))
                | (Inr _, s1) \<Rightarrow>
                    (case read_connect_ack f port s1 of (Inl e, _) \<Rightarrow> Inl e | (Inr _, s2) \<Rightarrow> Inr s2))))"

definition connect_agent_at ::
    "fmt \<Rightarrow> io_kind + stream \<Rightarrow> io_kind option \<Rightarrow> string \<Rightarrow> nat \<Rightarrow> VmmError + ClientConnection" where
  "connect_agent_at f dial sockopt uds port =
     and_then (vsock_connect f dial sockopt uds port) (\<lambda>s.
     map_err (\<lambda>e. Vmm (''channel handshake over vsock: '' @ channel_error_display f e)) (connect s))"

record RunningVm =
  vm_vsock_uds :: "string option"
  vm_exec_wall :: nat
  vm_output_cap :: usize

definition require_vsock :: "RunningVm \<Rightarrow> VmmError + string" where
  "require_vsock vm =
     ok_or (vm_vsock_uds vm) (Vmm ''this microVM was booted without vsock (set BootConfig.guest_cid)'')"

definition exec_with_files ::
    "fmt \<Rightarrow> (nat \<Rightarrow> nat) \<Rightarrow> io_kind + stream \<Rightarrow> io_kind option \<Rightarrow> RunningVm \<Rightarrow> string list \<Rightarrow> bytes \<Rightarrow> (string \<times> bytes) list
      \<Rightarrow> (string \<times> string) list \<Rightarrow> string list \<Rightarrow> VmmError + RunResult" where
  "exec_with_files f clock dial sockopt vm argv stdin files_in env artifacts =
     and_then (require_vsock vm) (\<lambda>uds.
     let budget = vm_exec_wall vm; wall = min (budget + EXEC_KILL_SLACK) duration_max in
     and_then (connect_agent_at f dial sockopt uds EKE_VSOCK_PORT) (\<lambda>conn.
     fst (run_exec f clock argv stdin files_in env artifacts
            \<lparr>b_timeout = budget, b_wall = wall, max_output = vm_output_cap vm\<rparr> conn)))"


section \<open>Whatever the guest sends\<close>

definition consumed :: "nat \<Rightarrow> ClientConnection \<Rightarrow> ClientConnection \<Rightarrow> bool" where
  "consumed m conn conn' \<longleftrightarrow>
     (\<exists>used. client_avail conn = used @ client_avail conn' \<and> length used \<le> m * (5 + MAX_PAYLOAD))"

lemma consumed_refl: "consumed m conn conn"
  by (simp add: consumed_def)

lemma consumed_trans: "consumed m a b \<Longrightarrow> consumed n b c \<Longrightarrow> consumed (m + n) a c"
  by (fastforce simp: consumed_def add_mult_distrib)

lemma consumed_mono: "consumed m a b \<Longrightarrow> m \<le> n \<Longrightarrow> consumed n a b"
  unfolding consumed_def by (meson le_trans mult_le_mono1)

lemma consumed_recv:
  assumes "recv_response conn = (r, conn')"
  shows "consumed 1 conn conn'"
proof -
  obtain s where s: "conn = ClientConnection s" by (cases conn)
  have "conn' = ClientConnection (s\<lparr>s_in := snd (read_response (s_in s))\<rparr>)"
    using assms by (auto simp: s recv_response_def on_client_def on_in_def split: prod.splits)
  moreover have "\<exists>used. avail (s_in s) = used @ avail (snd (read_response (s_in s))) \<and> length used \<le> 5 + MAX_PAYLOAD"
    unfolding read_response_def snd_read_frame_then by (rule read_frame_prefix)
  ultimately show ?thesis by (simp add: consumed_def s)
qed

lemma charge_Inr:
  "charge c add cap = Inr n \<Longrightarrow> cap < usize_max \<Longrightarrow> n = c + add \<and> n \<le> cap"
  by (auto simp: charge_def saturating_add_usize_def Let_def min_def split: if_splits)

definition buffered :: "Collected \<Rightarrow> nat" where
  "buffered c = length (c_stdout c) + length (c_stderr c)
     + sum_list (map (\<lambda>a. length (art_path a) + length (art_data a)) (c_files c))"

definition ok_collected :: "ExecBounds \<Rightarrow> Collected \<Rightarrow> bool" where
  "ok_collected b c \<longleftrightarrow>
     buffered c \<le> c_captured c \<and> c_captured c \<le> max_output b
     \<and> list_all (\<lambda>a. artifact_path_is_safe (art_path a)) (c_files c)"

lemma collect_frame_More:
  assumes "collect_frame f b resp c = More c'" "max_output b < usize_max" "ok_collected b c"
  shows "ok_collected b c' \<and> c_captured c + FRAME_FLOOR \<le> c_captured c'"
  using assms
  by (auto simp: collect_frame_def ok_collected_def buffered_def split: response.splits sum.splits if_splits
      dest!: charge_Inr)

lemma collect_loop_consumes:
  assumes "collect_loop f clock started deadline b n c conn = (r, conn')" "max_output b < usize_max" "ok_collected b c"
  shows "consumed (Suc ((max_output b - c_captured c) div FRAME_FLOOR)) conn conn'"
  using assms
proof (induction f clock started deadline b n c conn rule: collect_loop.induct)
  case (1 f clock started deadline b n c conn)
  show ?case
  proof (cases "clock n \<ge> deadline")
    case True
    then have "conn' = conn" using "1.prems"(1) by (subst (asm) collect_loop.simps) simp
    then show ?thesis by (simp add: consumed_refl)
  next
    case False
    obtain x c1 where r: "recv_response conn = (x, c1)" by (cases "recv_response conn")
    note one = consumed_recv [OF r]
    show ?thesis
    proof (cases "\<exists>resp c'. x = Inr resp \<and> collect_frame f b resp c = More c'")
      case True
      then obtain resp c' where x: "x = Inr resp" and m: "collect_frame f b resp c = More c'" by blast
      have loop: "collect_loop f clock started deadline b (Suc n) c' c1 = (r, conn')"
        using "1.prems"(1) False r x m by (subst (asm) collect_loop.simps) simp
      have c': "ok_collected b c'" "c_captured c + FRAME_FLOOR \<le> c_captured c'"
        using collect_frame_More [OF m] "1.prems" by auto
      have rest: "consumed (Suc ((max_output b - c_captured c') div FRAME_FLOOR)) c1 conn'"
        using "1.IH" [OF False _ x m loop] r c' "1.prems" by simp
      have "Suc ((max_output b - c_captured c') div FRAME_FLOOR) \<le> (max_output b - c_captured c) div FRAME_FLOOR"
      proof -
        have "c_captured c' \<le> max_output b" using c'(1) by (simp add: ok_collected_def)
        then have "max_output b - c_captured c' + FRAME_FLOOR \<le> max_output b - c_captured c" using c'(2) by simp
        then have "(max_output b - c_captured c' + FRAME_FLOOR) div FRAME_FLOOR \<le> (max_output b - c_captured c) div FRAME_FLOOR"
          by (rule div_le_mono)
        then show ?thesis by (simp add: FRAME_FLOOR_def)
      qed
      then show ?thesis using consumed_mono [OF consumed_trans [OF one rest]] by simp
    next
      case False2: False
      then have "conn' = c1"
        using "1.prems"(1) False r by (subst (asm) collect_loop.simps) (auto split: sum.splits progress.splits)
      then show ?thesis using consumed_mono [OF one] by simp
    qed
  qed
qed

lemma collect_loop_deadline:
  assumes "collect_loop f clock started deadline b n c conn = (r, conn')" "deadline \<le> clock k" "n \<le> k"
  shows "consumed (k - n) conn conn'"
  using assms
proof (induction f clock started deadline b n c conn rule: collect_loop.induct)
  case (1 f clock started deadline b n c conn)
  show ?case
  proof (cases "clock n \<ge> deadline")
    case True
    then have "conn' = conn" using "1.prems"(1) by (subst (asm) collect_loop.simps) simp
    then show ?thesis by (simp add: consumed_refl)
  next
    case False
    then have nk: "Suc n \<le> k" using "1.prems"(2,3) by (metis Suc_leI le_neq_implies_less)
    obtain x c1 where r: "recv_response conn = (x, c1)" by (cases "recv_response conn")
    note one = consumed_recv [OF r]
    show ?thesis
    proof (cases "\<exists>resp c'. x = Inr resp \<and> collect_frame f b resp c = More c'")
      case True
      then obtain resp c' where x: "x = Inr resp" and m: "collect_frame f b resp c = More c'" by blast
      have loop: "collect_loop f clock started deadline b (Suc n) c' c1 = (r, conn')"
        using "1.prems"(1) False r x m by (subst (asm) collect_loop.simps) simp
      have "consumed (k - Suc n) c1 conn'"
        using "1.IH" [OF False _ x m loop] r nk "1.prems" by simp
      then show ?thesis using consumed_mono [OF consumed_trans [OF one]] nk by simp
    next
      case False2: False
      then have "conn' = c1"
        using "1.prems"(1) False r by (subst (asm) collect_loop.simps) (auto split: sum.splits progress.splits)
      then show ?thesis using consumed_mono [OF one] nk by simp
    qed
  qed
qed

lemma collect_loop_result:
  assumes "collect_loop f clock started deadline b n c conn = (Inr res, conn')" "max_output b < usize_max" "ok_collected b c"
  shows "length (r_stdout res) + length (r_stderr res)
      + sum_list (map (\<lambda>a. length (art_path a) + length (art_data a)) (r_files res)) \<le> max_output b
    \<and> list_all (\<lambda>a. artifact_path_is_safe (art_path a)) (r_files res)"
  using assms
proof (induction f clock started deadline b n c conn rule: collect_loop.induct)
  case (1 f clock started deadline b n c conn)
  have go: "\<not> clock n \<ge> deadline" using "1.prems"(1) by (subst (asm) collect_loop.simps) (auto split: if_splits)
  obtain x c1 where r: "recv_response conn = (x, c1)" by (cases "recv_response conn")
  obtain resp where x: "x = Inr resp" using "1.prems"(1) go r by (subst (asm) collect_loop.simps) (auto split: sum.splits)
  show ?case
  proof (cases "collect_frame f b resp c")
    case (More c')
    have "collect_loop f clock started deadline b (Suc n) c' c1 = (Inr res, conn')"
      using "1.prems"(1) go r x More by (subst (asm) collect_loop.simps) simp
    then show ?thesis
      using "1.IH" [OF go _ x More] r collect_frame_More [OF More] "1.prems" by simp
  next
    case (Done code)
    then show ?thesis
      using "1.prems" go r x by (subst (asm) collect_loop.simps) (auto simp: ok_collected_def buffered_def)
  next
    case (Stop e)
    then show ?thesis using "1.prems"(1) go r x by (subst (asm) collect_loop.simps) simp
  qed
qed


lemma client_avail_send:
  "client_avail (snd (send_put_file path data conn)) = client_avail conn"
  "client_avail (snd (send_exec argv stdin env arts t conn)) = client_avail conn"
  by (cases conn; simp add: send_put_file_def send_exec_def on_client_def on_out_def split: prod.splits)+

lemma client_avail_send_files: "client_avail (snd (send_files fs conn)) = client_avail conn"
proof (induction fs arbitrary: conn)
  case (Cons pd fs)
  obtain path data where pd: "pd = (path, data)" by (cases pd)
  obtain x c1 where s: "send_put_file path data conn = (x, c1)" by (cases "send_put_file path data conn")
  then have "client_avail c1 = client_avail conn" using client_avail_send(1) [of path data conn] by simp
  then show ?case using Cons s pd by (cases x) (simp_all add: seqm_def)
qed (simp add: okm_def)

lemma ok_collected0: "ok_collected b collected0"
  by (simp add: ok_collected_def collected0_def buffered_def)


definition plain_fmt :: fmt where
  "plain_fmt = \<lparr>io_display = (\<lambda>_. ''error''), dbg_str = (\<lambda>s. s), dbg_duration = dec\<rparr>"

definition small_bounds :: ExecBounds where
  "small_bounds = \<lparr>b_timeout = second_ns, b_wall = 6 * second_ns, max_output = 1000\<rparr>"


end
