(* ===== verification/GuestAgent.thy ===== *)
theory GuestAgent
  imports Exec
begin

text \<open>
  The agent inside the guest, \<open>crates/eke-guest-agent/src/lib.rs\<close>: one connection serves one command.
  The file system of the guest, the process table and the clock are parameters. The two pumps that
  forward the command's output run concurrently; their interleaving is the sequence in which their
  reads reach the shared connection.
\<close>

section \<open>Errors, budgets, exit codes\<close>

datatype AgentError =
    AgentChannel channel_error | EmptyCommand | UnsupportedRequest | BadPath string
  | WorkDir io_kind | Spawn io_kind | Wait io_kind

definition ms_ns :: nat where "ms_ns = 1000000"
definition MAX_EXEC_TIMEOUT :: nat where "MAX_EXEC_TIMEOUT = 3600 * second_ns"
definition TIMED_OUT_CODE :: i32 where "TIMED_OUT_CODE = 137"

definition budget_from :: "u32 \<Rightarrow> nat" where
  "budget_from timeout_ms =
     (if timeout_ms = 0 then MAX_EXEC_TIMEOUT else min (unat timeout_ms * ms_ns) MAX_EXEC_TIMEOUT)"

datatype ExitStatus = Code i32 | Signal i32

definition exit_code :: "ExitStatus \<Rightarrow> i32" where
  "exit_code st = (case st of Code c \<Rightarrow> c | Signal s \<Rightarrow> 128 + s)"

fun AgentError_display :: "fmt \<Rightarrow> AgentError \<Rightarrow> string" where
  "AgentError_display f (AgentChannel e) = ''channel: '' @ channel_error_display f e"
| "AgentError_display f EmptyCommand = ''empty command (no argv)''"
| "AgentError_display f UnsupportedRequest = ''unsupported request type''"
| "AgentError_display f (BadPath p) = ''unsafe file path: '' @ p"
| "AgentError_display f (WorkDir e) = ''working dir: '' @ io_display f e"
| "AgentError_display f (Spawn e) = ''spawn command: '' @ io_display f e"
| "AgentError_display f (Wait e) = ''wait for command: '' @ io_display f e"

section \<open>Waiting for the child\<close>

definition WAIT_INITIAL :: nat where "WAIT_INITIAL = ms_ns"
definition WAIT_CAP :: nat where "WAIT_CAP = 5 * ms_ns"

definition wait_next :: "nat \<Rightarrow> nat" where
  "wait_next interval = min (interval * 2) WAIT_CAP"

datatype Waited = Exited ExitStatus | WaitTimedOut

text \<open>The \<open>n\<close>-th pass polls the child, reads the clock, and sleeps. \<open>reap\<close> is the outcome of the
  final \<open>wait\<close> on the killed child.\<close>

partial_function (option) wait_bounded ::
    "(nat \<Rightarrow> io_kind + ExitStatus option) \<Rightarrow> io_kind option \<Rightarrow> (nat \<Rightarrow> nat) \<Rightarrow> nat \<Rightarrow> nat \<Rightarrow> nat \<Rightarrow> (io_kind + Waited) option" where
  "wait_bounded poll reap clock deadline n interval =
     (case poll n of
        Inl e \<Rightarrow> Some (Inl e)
      | Inr (Some st) \<Rightarrow> Some (Inr (Exited st))
      | Inr None \<Rightarrow>
          if clock n \<ge> deadline
          then Some (case reap of Some e \<Rightarrow> Inl e | None \<Rightarrow> Inr WaitTimedOut)
          else wait_bounded poll reap clock deadline (Suc n) (wait_next interval))"

section \<open>The working directory\<close>

text \<open>What the agent asks of the file system: creating directories and writing a file (with the
  error, if any), and the link-resolved path, size and contents of a file.\<close>

record 'f fs_ops =
  fs_mkdirs :: "string \<Rightarrow> 'f \<Rightarrow> io_kind option \<times> 'f"
  fs_write :: "string \<Rightarrow> bytes \<Rightarrow> 'f \<Rightarrow> io_kind option \<times> 'f"
  fs_canonicalize :: "string \<Rightarrow> 'f \<Rightarrow> string option"
  fs_size :: "string \<Rightarrow> 'f \<Rightarrow> io_kind + nat"
  fs_read :: "string \<Rightarrow> 'f \<Rightarrow> io_kind + bytes"
  fs_executable :: "string \<Rightarrow> 'f \<Rightarrow> bool"
  fs_remove_tree :: "string \<Rightarrow> 'f \<Rightarrow> 'f"
  fs_mkdir :: "string \<Rightarrow> 'f \<Rightarrow> io_kind option \<times> 'f"
  fs_rmdir :: "string \<Rightarrow> 'f \<Rightarrow> io_kind option \<times> 'f"

record RunDir =
  rd_path :: string
  rd_keep :: bool

text \<open>A fresh directory is named by the process and a counter; a session directory is the caller's.\<close>

definition RunDir_at :: "'f fs_ops \<Rightarrow> string \<Rightarrow> 'f \<Rightarrow> (io_kind + RunDir) \<times> 'f" where
  "RunDir_at ops dir fs =
     (case fs_mkdirs ops dir fs of
        (Some e, fs1) \<Rightarrow> (Inl e, fs1)
      | (None, fs1) \<Rightarrow> (Inr \<lparr>rd_path = dir, rd_keep = True\<rparr>, fs1))"

definition RunDir_fresh :: "'f fs_ops \<Rightarrow> string \<Rightarrow> nat \<Rightarrow> nat \<Rightarrow> 'f \<Rightarrow> (io_kind + RunDir) \<times> 'f" where
  "RunDir_fresh ops temp_dir pid seq fs =
     (let path = path_push temp_dir (''agent-run-'' @ dec pid @ ''-'' @ dec seq) in
      case fs_mkdirs ops path fs of
        (Some e, fs1) \<Rightarrow> (Inl e, fs1)
      | (None, fs1) \<Rightarrow> (Inr \<lparr>rd_path = path, rd_keep = False\<rparr>, fs1))"

definition rd_resolve :: "RunDir \<Rightarrow> string \<Rightarrow> AgentError + string" where
  "rd_resolve d rel =
     (if list_all plain (components rel) then Inr (path_push (rd_path d) rel) else Inl (BadPath rel))"

definition rd_put :: "'f fs_ops \<Rightarrow> RunDir \<Rightarrow> string \<Rightarrow> bytes \<Rightarrow> 'f \<Rightarrow> (AgentError + unit) \<times> 'f" where
  "rd_put ops d rel data fs =
     (case rd_resolve d rel of
        Inl e \<Rightarrow> (Inl e, fs)
      | Inr dest \<Rightarrow>
          (case (case path_parent dest of Some parent \<Rightarrow> fs_mkdirs ops parent fs | None \<Rightarrow> (None, fs)) of
             (Some e, fs1) \<Rightarrow> (Inl (WorkDir e), fs1)
           | (None, fs1) \<Rightarrow>
               (case fs_write ops dest data fs1 of
                  (Some e, fs2) \<Rightarrow> (Inl (WorkDir e), fs2)
                | (None, fs2) \<Rightarrow> (Inr (), fs2))))"

definition rd_get :: "'f fs_ops \<Rightarrow> RunDir \<Rightarrow> string \<Rightarrow> 'f \<Rightarrow> AgentError + bytes option" where
  "rd_get ops d rel fs =
     and_then (rd_resolve d rel) (\<lambda>src.
     case (fs_canonicalize ops src fs, fs_canonicalize ops (rd_path d) fs) of
       (Some real, Some root) \<Rightarrow>
         if \<not> path_starts_with real root then Inr None
         else (case fs_size ops real fs of
                 Inr n \<Rightarrow>
                   if n > MAX_PAYLOAD then Inr None
                   else (case fs_read ops real fs of
                           Inr data \<Rightarrow> Inr (Some data)
                         | Inl e \<Rightarrow> if e = NotFound then Inr None else Inl (WorkDir e))
               | Inl e \<Rightarrow> if e = NotFound then Inr None else Inl (WorkDir e))
     | _ \<Rightarrow> Inr None)"

definition rd_drop :: "'f fs_ops \<Rightarrow> RunDir \<Rightarrow> 'f \<Rightarrow> 'f" where
  "rd_drop ops d fs = (if rd_keep d then fs else fs_remove_tree ops (rd_path d) fs)"

definition resolve_program :: "'f fs_ops \<Rightarrow> string option \<Rightarrow> string \<Rightarrow> string \<Rightarrow> 'f \<Rightarrow> io_kind + unit" where
  "resolve_program ops path_var program workdir fs =
     (let found =
            (if slash \<in> set program then fs_executable ops (path_push workdir program) fs
             else case path_var of
                 Some paths \<Rightarrow>
                   list_ex (\<lambda>dir. fs_executable ops (path_push dir program) fs) (split_on (\<lambda>c. c = CHR '':'') paths)
               | None \<Rightarrow> False)
      in if found then Inr () else Inl NotFound)"

section \<open>The cgroup of a command\<close>

definition CGROUP_ROOT :: string where "CGROUP_ROOT = ''/sys/fs/cgroup''"

definition ExecCgroup_create :: "'f fs_ops \<Rightarrow> nat \<Rightarrow> nat \<Rightarrow> 'f \<Rightarrow> string option \<times> 'f" where
  "ExecCgroup_create ops pid seq fs =
     (let path = path_push CGROUP_ROOT (''agent-exec-'' @ dec pid @ ''-'' @ dec seq) in
      case fs_mkdir ops path fs of (None, fs1) \<Rightarrow> (Some path, fs1) | (Some _, fs1) \<Rightarrow> (None, fs1))"

definition kill_all :: "'f fs_ops \<Rightarrow> string \<Rightarrow> 'f \<Rightarrow> 'f" where
  "kill_all ops cg fs = snd (fs_write ops (path_push cg ''cgroup.kill'') (as_bytes ''1'') fs)"

fun remove_retry :: "'f fs_ops \<Rightarrow> string \<Rightarrow> nat \<Rightarrow> 'f \<Rightarrow> 'f" where
  "remove_retry ops cg 0 fs = fs"
| "remove_retry ops cg (Suc n) fs =
     (case fs_rmdir ops cg fs of (None, fs1) \<Rightarrow> fs1 | (Some _, fs1) \<Rightarrow> remove_retry ops cg n fs1)"

definition ExecCgroup_drop :: "'f fs_ops \<Rightarrow> string option \<Rightarrow> 'f \<Rightarrow> 'f" where
  "ExecCgroup_drop ops cg fs = (case cg of None \<Rightarrow> fs | Some p \<Rightarrow> remove_retry ops p 50 (kill_all ops p fs))"

text \<open>The command that is spawned: a shell leg that enrolls itself in the cgroup and then becomes the
  program, or the program itself when there is no cgroup.\<close>

definition TRAMPOLINE_SCRIPT :: string where
  "TRAMPOLINE_SCRIPT =
     ''{ echo $$ > '' @ dq @ ''$1/cgroup.procs'' @ dq @ ''; } 2>/dev/null; shift; exec '' @ dq @ ''$@'' @ dq"

definition exec_command :: "string option \<Rightarrow> string list \<Rightarrow> string list" where
  "exec_command cg argv =
     (case cg of
        Some p \<Rightarrow> [''sh'', ''-c'', TRAMPOLINE_SCRIPT, ''agent-exec-trampoline'', p] @ argv
      | None \<Rightarrow> argv)"

section \<open>Forwarding output\<close>

datatype Kind = KStdout | KStderr

fun chunk_response :: "Kind \<Rightarrow> bytes \<Rightarrow> response" where
  "chunk_response KStdout b = Stdout b"
| "chunk_response KStderr b = Stderr b"

text \<open>One read of one pump: the first failed forward is kept, later chunks are read and dropped.\<close>

definition pump_step ::
    "Kind \<times> bytes \<Rightarrow> channel_error option \<times> ServerConnection \<Rightarrow> channel_error option \<times> ServerConnection" where
  "pump_step kb st =
     (case fst st of
        Some e \<Rightarrow> st
      | None \<Rightarrow>
          (case send_response (chunk_response (fst kb) (snd kb)) (snd st) of
             (Inl e, conn) \<Rightarrow> (Some e, conn)
           | (Inr _, conn) \<Rightarrow> (None, conn)))"

definition pump_all ::
    "(Kind \<times> bytes) list \<Rightarrow> ServerConnection \<Rightarrow> channel_error option \<times> ServerConnection" where
  "pump_all chunks conn = foldl (\<lambda>st kb. pump_step kb st) (None, conn) chunks"

section \<open>Serving one command\<close>

text \<open>The child as the agent sees it: the chunks its pipes deliver (each at most one 16 KiB buffer),
  in the order the pumps forward them, the outcome of each poll, and the file system it leaves.\<close>

record 'f child =
  ch_chunks :: "(Kind \<times> bytes) list"
  ch_poll :: "nat \<Rightarrow> io_kind + ExitStatus option"
  ch_reap :: "io_kind option"
  ch_fs :: 'f

record 'f guest =
  g_fmt :: fmt
  g_ops :: "'f fs_ops"
  g_path_var :: "string option"
  g_temp_dir :: string
  g_pid :: nat
  g_clock :: "nat \<Rightarrow> nat"
  g_spawn :: "string list \<Rightarrow> bytes \<Rightarrow> (string \<times> string) list \<Rightarrow> string \<Rightarrow> 'f \<Rightarrow> io_kind + 'f child"

definition server_avail :: "ServerConnection \<Rightarrow> bytes" where
  "server_avail conn = (case conn of ServerConnection s \<Rightarrow> avail (s_in s))"

lemma recv_request_shrinks:
  assumes "recv_request conn = (Inr req, conn')"
  shows "length (server_avail conn') < length (server_avail conn)"
proof -
  obtain s where s: "conn = ServerConnection s" by (cases conn)
  obtain r' where r: "read_request (s_in s) = (Inr req, r')" and c: "conn' = ServerConnection (s\<lparr>s_in := r'\<rparr>)"
    using assms by (auto simp: s recv_request_def on_server_def on_in_def split: prod.splits)
  obtain tag payload where "read_frame (s_in s) = (Inr (tag, payload), r')"
    using r by (auto simp: read_request_iff)
  then show ?thesis using read_frame_sound(1) by (fastforce simp: s c frame_def server_avail_def)
qed

record exec_args =
  ea_argv :: "string list"
  ea_stdin :: bytes
  ea_env :: "(string \<times> string) list"
  ea_artifacts :: "string list"
  ea_timeout_ms :: u32

text \<open>A reply whose failure is reported instead of the error it announces.\<close>

definition reply_then :: "response \<Rightarrow> AgentError \<Rightarrow> ServerConnection \<Rightarrow> (AgentError + 'a) \<times> ServerConnection" where
  "reply_then resp err conn =
     (case send_response resp conn of
        (Inl e, conn') \<Rightarrow> (Inl (AgentChannel e), conn')
      | (Inr _, conn') \<Rightarrow> (Inl err, conn'))"

function read_commands ::
    "'f guest \<Rightarrow> RunDir \<Rightarrow> 'f \<Rightarrow> ServerConnection \<Rightarrow> (AgentError + exec_args) \<times> ServerConnection \<times> 'f" where
  "read_commands g d fs conn =
     (case recv_request conn of
        (Inl e, conn') \<Rightarrow> (Inl (AgentChannel e), conn', fs)
      | (Inr (PutFile path data), conn') \<Rightarrow>
          (case rd_put (g_ops g) d path data fs of
             (Inl e, fs') \<Rightarrow>
               (let (r, conn'') = reply_then (Error (''put file '' @ dbg_str (g_fmt g) path @ '': ''
                                    @ AgentError_display (g_fmt g) e)) e conn'
                in (r, conn'', fs'))
           | (Inr _, fs') \<Rightarrow> read_commands g d fs' conn')
      | (Inr (Exec argv stdin env artifacts timeout_ms), conn') \<Rightarrow>
          (Inr \<lparr>ea_argv = argv, ea_stdin = stdin, ea_env = env, ea_artifacts = artifacts, ea_timeout_ms = timeout_ms\<rparr>,
           conn', fs)
      | (Inr (UnknownReq tag), conn') \<Rightarrow>
          (let (r, conn'') = reply_then (Error (''unsupported request (tag '' @ dec (unat tag) @ '')''))
                               UnsupportedRequest conn'
           in (r, conn'', fs)))"
  by pat_completeness auto
termination
  by (relation "measure (\<lambda>(g, d, fs, conn). length (server_avail conn))") (auto dest: sym [THEN recv_request_shrinks])

declare read_commands.simps [simp del]

fun send_artifacts :: "'f guest \<Rightarrow> RunDir \<Rightarrow> 'f \<Rightarrow> string list \<Rightarrow> (ServerConnection, AgentError, unit) smethod" where
  "send_artifacts g d fs [] conn = (Inr (), conn)"
| "send_artifacts g d fs (path # paths) conn =
     (case rd_get (g_ops g) d path fs of
        Inr (Some data) \<Rightarrow>
          (case send_response (File path data) conn of
             (Inr _, conn') \<Rightarrow> send_artifacts g d fs paths conn'
           | (Inl (PayloadTooLarge _ _), conn') \<Rightarrow> send_artifacts g d fs paths conn'
           | (Inl e, conn') \<Rightarrow> (Inl (AgentChannel e), conn'))
      | _ \<Rightarrow> send_artifacts g d fs paths conn)"

text \<open>The wait runs while the pumps drain; both have ended when the scope is left, where the rest of
  the process tree is killed. The child's poll outcomes decide whether waiting ends; \<open>None\<close> is a wait
  that never does. \<open>cg\<close> is the command's cgroup.\<close>

definition run_child ::
    "'f guest \<Rightarrow> RunDir \<Rightarrow> string option \<Rightarrow> exec_args \<Rightarrow> 'f child \<Rightarrow> ServerConnection
      \<Rightarrow> ((AgentError + i32) \<times> ServerConnection \<times> 'f) option" where
  "run_child g d cg ea ch conn =
     (let started = g_clock g 0; deadline = started + budget_from (ea_timeout_ms ea);
          fs = (case cg of None \<Rightarrow> ch_fs ch | Some p \<Rightarrow> kill_all (g_ops g) p (ch_fs ch)) in
      map_option (\<lambda>waited.
        let (first_err, conn1) = pump_all (ch_chunks ch) conn in
        case first_err of
          Some e \<Rightarrow> (Inl (AgentChannel e), conn1, fs)
        | None \<Rightarrow>
            (case waited of
               Inl e \<Rightarrow> (Inl (Wait e), conn1, fs)
             | Inr WaitTimedOut \<Rightarrow>
                 (case send_response (TimedOutResp (word_of_nat ((g_clock g 1 - started) div ms_ns))) conn1 of
                    (Inl e, conn2) \<Rightarrow> (Inl (AgentChannel e), conn2, fs)
                  | (Inr _, conn2) \<Rightarrow> (Inr TIMED_OUT_CODE, conn2, fs))
             | Inr (Exited st) \<Rightarrow>
                 (case send_artifacts g d fs (ea_artifacts ea) conn1 of
                    (Inl e, conn2) \<Rightarrow> (Inl e, conn2, fs)
                  | (Inr _, conn2) \<Rightarrow>
                      (case send_response (Exit (exit_code st)) conn2 of
                         (Inl e, conn3) \<Rightarrow> (Inl (AgentChannel e), conn3, fs)
                       | (Inr _, conn3) \<Rightarrow> (Inr (exit_code st), conn3, fs)))))
        (wait_bounded (ch_poll ch) (ch_reap ch) (\<lambda>n. g_clock g (n + 2)) deadline 0 WAIT_INITIAL))"

text \<open>From the accepted request on: the cgroup is dropped on every path that created it. \<open>cseq\<close> is the
  number the cgroup counter hands out.\<close>

definition run_command ::
    "'f guest \<Rightarrow> RunDir \<Rightarrow> nat \<Rightarrow> exec_args \<Rightarrow> 'f \<Rightarrow> ServerConnection
      \<Rightarrow> ((AgentError + i32) \<times> ServerConnection \<times> 'f) option" where
  "run_command g d cseq ea fs conn =
     (case ea_argv ea of
        [] \<Rightarrow> (let (r, conn1) = reply_then (Error ''empty command'') EmptyCommand conn in Some (r, conn1, fs))
      | program # _ \<Rightarrow>
          (let (cg, fs1) = ExecCgroup_create (g_ops g) (g_pid g) cseq fs in
           map_option (\<lambda>(r, conn1, fs2). (r, conn1, ExecCgroup_drop (g_ops g) cg fs2))
           (case resolve_program (g_ops g) (g_path_var g) program (rd_path d) fs1 of
              Inl e \<Rightarrow> Some (Inl (Spawn e), snd (send_response (Error (''could not run '' @ program @ '': ''
                        @ ''No such file or directory'')) conn), fs1)
            | Inr _ \<Rightarrow>
                (case g_spawn g (exec_command cg (ea_argv ea)) (ea_stdin ea) (ea_env ea) (rd_path d) fs1 of
                   Inl e \<Rightarrow> Some (Inl (Spawn e), snd (send_response (Error (''could not run '' @ program @ '': ''
                             @ io_display (g_fmt g) e)) conn), fs1)
                 | Inr ch \<Rightarrow> run_child g d cg ea ch conn))))"

definition serve_with ::
    "'f guest \<Rightarrow> io_kind + RunDir \<Rightarrow> nat \<Rightarrow> 'f \<Rightarrow> stream \<Rightarrow> ((AgentError + i32) \<times> stream \<times> 'f) option" where
  "serve_with g workdir cseq fs s =
     map_option (\<lambda>(r, t, fs1). (r, t, case workdir of Inl _ \<Rightarrow> fs1 | Inr d \<Rightarrow> rd_drop (g_ops g) d fs1))
     (case accept s of
        Inl e \<Rightarrow> Some (Inl (AgentChannel e), snd (handshake s), fs)
      | Inr conn \<Rightarrow>
          map_option (\<lambda>(r, c, fs1). (r, case c of ServerConnection t \<Rightarrow> t, fs1))
          (case workdir of
             Inl e \<Rightarrow>
               Some (Inl (WorkDir e), snd (send_response (Error (''create working dir: '' @ io_display (g_fmt g) e)) conn), fs)
           | Inr d \<Rightarrow>
               (case read_commands g d fs conn of
                  (Inl e, conn1, fs1) \<Rightarrow> Some (Inl e, conn1, fs1)
                | (Inr ea, conn1, fs1) \<Rightarrow> run_command g d cseq ea fs1 conn1)))"

definition serve :: "'f guest \<Rightarrow> nat \<Rightarrow> nat \<Rightarrow> 'f \<Rightarrow> stream \<Rightarrow> ((AgentError + i32) \<times> stream \<times> 'f) option" where
  "serve g rseq cseq fs s =
     (let (workdir, fs1) = RunDir_fresh (g_ops g) (g_temp_dir g) (g_pid g) rseq fs in serve_with g workdir cseq fs1 s)"

definition serve_session :: "'f guest \<Rightarrow> string \<Rightarrow> nat \<Rightarrow> 'f \<Rightarrow> stream \<Rightarrow> ((AgentError + i32) \<times> stream \<times> 'f) option" where
  "serve_session g dir cseq fs s =
     (let (workdir, fs1) = RunDir_at (g_ops g) dir fs in serve_with g workdir cseq fs1 s)"


section \<open>Waiting ends\<close>

definition nap :: "nat \<Rightarrow> nat" where
  "nap n = (wait_next ^^ n) WAIT_INITIAL"

lemma nap_bounds: "WAIT_INITIAL \<le> nap n \<and> nap n \<le> WAIT_CAP"
  by (induction n) (auto simp: nap_def wait_next_def WAIT_INITIAL_def WAIT_CAP_def ms_ns_def)

lemma wait_bounded_step:
  assumes "\<forall>m < n. poll m = Inr None \<and> clock m < deadline" "k \<le> n"
  shows "wait_bounded poll reap clock deadline (n - k) (nap (n - k)) = wait_bounded poll reap clock deadline n (nap n)"
  using assms(2)
proof (induction k)
  case (Suc k)
  then have m: "n - Suc k < n" "Suc (n - Suc k) = n - k" by auto
  then have "poll (n - Suc k) = Inr None" "clock (n - Suc k) < deadline" using assms(1) by blast+
  then have "wait_bounded poll reap clock deadline (n - Suc k) (nap (n - Suc k))
      = wait_bounded poll reap clock deadline (n - k) (nap (n - k))"
    by (subst wait_bounded.simps) (simp add: m(2) [symmetric] nap_def)
  then show ?case using Suc by simp
qed simp

lemma naps_add_up:
  assumes "\<forall>n. clock n + nap n \<le> clock (Suc n)"
  shows "clock 0 + n * WAIT_INITIAL \<le> clock n"
proof (induction n)
  case (Suc n)
  then show ?case using assms [rule_format, of n] nap_bounds [of n] by simp
qed simp

text \<open>(C20) The agent never waits for a command for ever: when each sleep advances the clock by at least
  the interval slept, the wait ends after at most one pass per millisecond of budget, with the status
  of the first poll that saw the child gone, or with a timeout at the first clock reading past the
  deadline, and in no other way.\<close>

theorem wait_bounded_terminates:
  assumes "\<forall>n. clock n + nap n \<le> clock (Suc n)"
  shows "\<exists>n \<le> Suc ((deadline - clock 0) div WAIT_INITIAL).
    (\<forall>m < n. poll m = Inr None \<and> clock m < deadline)
    \<and> wait_bounded poll reap clock deadline 0 WAIT_INITIAL =
        Some (case poll n of
                Inl e \<Rightarrow> Inl e
              | Inr (Some st) \<Rightarrow> Inr (Exited st)
              | Inr None \<Rightarrow> (case reap of Some e \<Rightarrow> Inl e | None \<Rightarrow> Inr WaitTimedOut))
    \<and> (poll n = Inr None \<longrightarrow> deadline \<le> clock n)"
proof -
  let ?N = "Suc ((deadline - clock 0) div WAIT_INITIAL)"
  let ?stop = "\<lambda>n. poll n \<noteq> Inr None \<or> deadline \<le> clock n"
  have "deadline - clock 0 \<le> ?N * WAIT_INITIAL"
    using div_mult_mod_eq [of "deadline - clock 0" WAIT_INITIAL] mod_less_divisor [of WAIT_INITIAL "deadline - clock 0"]
    by (simp add: WAIT_INITIAL_def ms_ns_def)
  then have "deadline \<le> clock ?N" using naps_add_up [OF assms, of ?N] by linarith
  then have ex: "?stop ?N" by blast
  define n where "n = (LEAST n. ?stop n)"
  have stop: "?stop n" and le: "n \<le> ?N" unfolding n_def by (rule LeastI [of ?stop, OF ex]) (rule Least_le [of ?stop, OF ex])
  have before: "\<forall>m < n. poll m = Inr None \<and> clock m < deadline"
    unfolding n_def using not_less_Least by fastforce
  have "wait_bounded poll reap clock deadline 0 WAIT_INITIAL = wait_bounded poll reap clock deadline n (nap n)"
    using wait_bounded_step [OF before, of n] by (simp add: nap_def)
  also have "\<dots> = Some (case poll n of
                Inl e \<Rightarrow> Inl e
              | Inr (Some st) \<Rightarrow> Inr (Exited st)
              | Inr None \<Rightarrow> (case reap of Some e \<Rightarrow> Inl e | None \<Rightarrow> Inr WaitTimedOut))"
    using stop by (subst wait_bounded.simps) (auto split: sum.splits option.splits)
  finally show ?thesis using le before stop by blast
qed

theorem wait_bounded_terminates_witness:
  "\<exists>n \<le> 3. wait_bounded (\<lambda>_. Inr None) None (\<lambda>n. n * WAIT_CAP) (2 * ms_ns) 0 WAIT_INITIAL = Some (Inr WaitTimedOut)
     \<and> 2 * ms_ns \<le> n * WAIT_CAP"
proof -
  have "\<forall>n. n * WAIT_CAP + nap n \<le> Suc n * WAIT_CAP" using nap_bounds by simp
  from wait_bounded_terminates [OF this, of "2 * ms_ns" "\<lambda>_. Inr None" None] show ?thesis
    by (auto simp: WAIT_INITIAL_def ms_ns_def)
qed

end
