(* ===== verification/EndToEnd.thy ===== *)
theory EndToEnd
  imports GuestAgent
begin

text \<open>
  The two ends of the exec channel put together: the bytes the host's \<open>run_exec\<close> writes are what the
  agent's \<open>serve_with\<close> reads, and the bytes the agent answers are what the host's collect loop reads.
  The host has sent everything before it reads the first reply, so the three phases follow one another.
\<close>

section \<open>Bytes of messages\<close>

definition req_bytes :: "request \<Rightarrow> bytes" where
  "req_bytes req = (case request_frame req of (tag, payload) \<Rightarrow> frame tag payload)"

definition resp_bytes :: "response \<Rightarrow> bytes" where
  "resp_bytes resp = (case response_frame resp of (tag, payload) \<Rightarrow> frame tag payload)"

definition req_fits :: "request \<Rightarrow> bool" where
  "req_fits req \<longleftrightarrow> length (snd (request_frame req)) \<le> MAX_PAYLOAD"

definition resp_fits :: "response \<Rightarrow> bool" where
  "resp_fits resp \<longleftrightarrow> length (snd (response_frame resp)) \<le> MAX_PAYLOAD"

lemma write_frame_room:
  "room w = None \<Longrightarrow> length payload \<le> MAX_PAYLOAD \<Longrightarrow>
   write_frame tag payload w = (Inr (), w\<lparr>written := written w @ frame tag payload\<rparr>)"
  by (simp add: write_frame_def seqm_def io_q_def write_all_def flush_def frame_def okm_def map_err_def)

lemma send_put_file_bytes:
  assumes "room (s_out s) = None" "req_fits (PutFile path data)"
  shows "send_put_file path data (ClientConnection s)
    = (Inr (), ClientConnection (s\<lparr>s_out := (s_out s)\<lparr>written := written (s_out s) @ req_bytes (PutFile path data)\<rparr>\<rparr>))"
  using assms write_frame_room
  by (simp add: send_put_file_def on_client_def on_out_def write_put_file_def req_bytes_def req_fits_def)

lemma send_exec_bytes:
  assumes "room (s_out s) = None" "req_fits (Exec argv stdin env arts t)"
  shows "send_exec argv stdin env arts t (ClientConnection s)
    = (Inr (), ClientConnection (s\<lparr>s_out := (s_out s)\<lparr>written := written (s_out s) @ req_bytes (Exec argv stdin env arts t)\<rparr>\<rparr>))"
  using assms write_frame_room
  by (simp add: send_exec_def on_client_def on_out_def write_exec_def req_bytes_def req_fits_def)

lemma send_response_bytes:
  assumes "room (s_out s) = None"
  shows "send_response resp (ServerConnection s)
    = (if resp_fits resp
       then (Inr (), ServerConnection (s\<lparr>s_out := (s_out s)\<lparr>written := written (s_out s) @ resp_bytes resp\<rparr>\<rparr>))
       else (Inl (PayloadTooLarge (fst (response_frame resp)) (length (snd (response_frame resp)))), ServerConnection s))"
  using assms write_frame_room
  by (cases "response_frame resp")
     (auto simp: send_response_def on_server_def on_out_def write_response_def resp_bytes_def resp_fits_def
        write_frame_def failm_def)

lemma read_frame_bytes:
  assumes "avail r = frame tag payload @ rest" "length payload \<le> MAX_PAYLOAD"
  shows "read_frame r = (Inr (tag, payload), r\<lparr>avail := rest\<rparr>)"
proof -
  have "r = r\<lparr>avail := frame tag payload @ rest\<rparr>" using assms(1) by (cases r) simp
  then show ?thesis using read_frame_frame [OF assms(2), of tag rest r] by metis
qed

lemma recv_request_bytes:
  assumes "str_request req" "req_fits req" "\<And>tag. req \<noteq> UnknownReq tag" "avail (s_in s) = req_bytes req @ rest"
  shows "recv_request (ServerConnection s) = (Inr req, ServerConnection (s\<lparr>s_in := (s_in s)\<lparr>avail := rest\<rparr>\<rparr>))"
proof -
  obtain tag payload where f: "request_frame req = (tag, payload)" by (cases "request_frame req")
  then have l: "length payload \<le> MAX_PAYLOAD" using assms(2) by (simp add: req_fits_def)
  have "ok_request req" by (rule ok_request_fits [OF assms(1) f l assms(3)])
  then have "decode_request tag payload = Inr req" using decode_request_iff [OF l] f by simp
  moreover have "read_frame (s_in s) = (Inr (tag, payload), (s_in s)\<lparr>avail := rest\<rparr>)"
    using read_frame_bytes [OF _ l] assms(4) f by (simp add: req_bytes_def)
  ultimately have "read_request (s_in s) = (Inr req, (s_in s)\<lparr>avail := rest\<rparr>)" by (simp add: read_request_iff)
  then show ?thesis by (simp add: recv_request_def on_server_def on_in_def)
qed

lemma recv_response_bytes:
  assumes "str_response resp" "resp_fits resp" "avail (s_in s) = resp_bytes resp @ rest"
  shows "recv_response (ClientConnection s)
    = (Inr (host_view resp), ClientConnection (s\<lparr>s_in := (s_in s)\<lparr>avail := rest\<rparr>\<rparr>))"
proof -
  obtain tag payload where f: "response_frame resp = (tag, payload)" by (cases "response_frame resp")
  then have l: "length payload \<le> MAX_PAYLOAD" using assms(2) by (simp add: resp_fits_def)
  have "read_frame (s_in s) = (Inr (tag, payload), (s_in s)\<lparr>avail := rest\<rparr>)"
    using read_frame_bytes [OF _ l] assms(3) f by (simp add: resp_bytes_def)
  then have "read_response (s_in s) = (Inr (host_view resp), (s_in s)\<lparr>avail := rest\<rparr>)"
    using decode_response_frame [OF assms(1) f l] by (simp add: read_response_iff)
  then show ?thesis by (simp add: recv_response_def on_client_def on_in_def)
qed

section \<open>What the host sends\<close>

definition put_bytes :: "(string \<times> bytes) list \<Rightarrow> bytes" where
  "put_bytes files = concat (map (\<lambda>(path, data). req_bytes (PutFile path data)) files)"

definition ok_puts :: "(string \<times> bytes) list \<Rightarrow> bool" where
  "ok_puts files \<longleftrightarrow> list_all (\<lambda>(path, data). is_str path \<and> req_fits (PutFile path data)) files"

lemma send_files_bytes:
  assumes "room (s_out s) = None" "ok_puts files"
  shows "send_files files (ClientConnection s)
    = (Inr (), ClientConnection (s\<lparr>s_out := (s_out s)\<lparr>written := written (s_out s) @ put_bytes files\<rparr>\<rparr>))"
  using assms
proof (induction files arbitrary: s)
  case Nil
  then show ?case by (simp add: put_bytes_def okm_def)
next
  case (Cons pd files)
  obtain path data where pd: "pd = (path, data)" by (cases pd)
  let ?s = "s\<lparr>s_out := (s_out s)\<lparr>written := written (s_out s) @ req_bytes (PutFile path data)\<rparr>\<rparr>"
  have "send_put_file path data (ClientConnection s) = (Inr (), ClientConnection ?s)"
    using send_put_file_bytes Cons.prems pd by (simp add: ok_puts_def)
  then show ?case using Cons.IH [of ?s] Cons.prems pd by (simp add: seqm_def put_bytes_def ok_puts_def)
qed

definition sent_bytes ::
    "string list \<Rightarrow> bytes \<Rightarrow> (string \<times> bytes) list \<Rightarrow> (string \<times> string) list \<Rightarrow> string list \<Rightarrow> u32 \<Rightarrow> bytes" where
  "sent_bytes argv stdin files env arts t = put_bytes files @ req_bytes (Exec argv stdin env arts t)"

lemma host_sends:
  assumes "room (s_out s) = None" "ok_puts files" "req_fits (Exec argv stdin env arts t)"
  shows "seqm (send_files files) (\<lambda>_. send_exec argv stdin env arts t) (ClientConnection s)
    = (Inr (), ClientConnection (s\<lparr>s_out := (s_out s)\<lparr>written := written (s_out s) @ sent_bytes argv stdin files env arts t\<rparr>\<rparr>))"
  using assms by (simp add: seqm_def send_files_bytes send_exec_bytes sent_bytes_def)

section \<open>What the agent reads\<close>

fun put_all :: "'f fs_ops \<Rightarrow> RunDir \<Rightarrow> (string \<times> bytes) list \<Rightarrow> 'f \<Rightarrow> 'f option" where
  "put_all ops d [] fs = Some fs"
| "put_all ops d ((path, data) # files) fs =
     (case rd_put ops d path data fs of (Inl _, _) \<Rightarrow> None | (Inr _, fs1) \<Rightarrow> put_all ops d files fs1)"

lemma read_commands_bytes:
  assumes "avail (s_in s) = sent_bytes argv stdin files env arts t @ rest" "ok_puts files"
    and "str_request (Exec argv stdin env arts t)" "req_fits (Exec argv stdin env arts t)"
    and "put_all (g_ops g) d files fs = Some fs1"
  shows "read_commands g d fs (ServerConnection s)
    = (Inr \<lparr>ea_argv = argv, ea_stdin = stdin, ea_env = env, ea_artifacts = arts, ea_timeout_ms = t\<rparr>,
       ServerConnection (s\<lparr>s_in := (s_in s)\<lparr>avail := rest\<rparr>\<rparr>), fs1)"
  using assms
proof (induction files arbitrary: s fs)
  case Nil
  have "recv_request (ServerConnection s)
      = (Inr (Exec argv stdin env arts t), ServerConnection (s\<lparr>s_in := (s_in s)\<lparr>avail := rest\<rparr>\<rparr>))"
    by (rule recv_request_bytes) (use Nil in \<open>simp_all add: sent_bytes_def put_bytes_def\<close>)
  then show ?case using Nil.prems(5) by (subst read_commands.simps) simp
next
  case (Cons pd files)
  obtain path data where pd: "pd = (path, data)" by (cases pd)
  let ?rest = "sent_bytes argv stdin files env arts t @ rest"
  let ?s = "s\<lparr>s_in := (s_in s)\<lparr>avail := ?rest\<rparr>\<rparr>"
  have recv: "recv_request (ServerConnection s) = (Inr (PutFile path data), ServerConnection ?s)"
    by (rule recv_request_bytes) (use Cons.prems pd in \<open>simp_all add: sent_bytes_def put_bytes_def ok_puts_def\<close>)
  obtain fs2 where put: "rd_put (g_ops g) d path data fs = (Inr (), fs2)" "put_all (g_ops g) d files fs2 = Some fs1"
    using Cons.prems(5) pd by (auto split: prod.splits sum.splits)
  have "read_commands g d fs (ServerConnection s) = read_commands g d fs2 (ServerConnection ?s)"
    by (subst read_commands.simps) (simp add: recv put)
  then show ?case using Cons.IH [of ?s fs2] Cons.prems pd put by (simp add: ok_puts_def)
qed

section \<open>What the agent answers\<close>

definition returned :: "'f guest \<Rightarrow> RunDir \<Rightarrow> 'f \<Rightarrow> string list \<Rightarrow> response list" where
  "returned g d fs paths =
     filter resp_fits (List.map_filter (\<lambda>path.
       case rd_get (g_ops g) d path fs of Inr (Some data) \<Rightarrow> Some (File path data) | _ \<Rightarrow> None) paths)"

lemma pump_all_bytes:
  assumes "room (s_out s) = None" "list_all (\<lambda>kb. length (snd kb) \<le> MAX_PAYLOAD) chunks"
  shows "pump_all chunks (ServerConnection s)
    = (None, ServerConnection (s\<lparr>s_out := (s_out s)\<lparr>written := written (s_out s)
        @ concat (map (\<lambda>(k, b). resp_bytes (chunk_response k b)) chunks)\<rparr>\<rparr>))"
  using assms
proof (induction chunks arbitrary: s)
  case (Cons kb chunks)
  obtain k b where kb: "kb = (k, b)" by (cases kb)
  let ?s = "s\<lparr>s_out := (s_out s)\<lparr>written := written (s_out s) @ resp_bytes (chunk_response k b)\<rparr>\<rparr>"
  have "resp_fits (chunk_response k b)" using Cons.prems kb by (cases k) (simp_all add: resp_fits_def)
  then have "pump_step kb (None, ServerConnection s) = (None, ServerConnection ?s)"
    using send_response_bytes Cons.prems(1) by (simp add: pump_step_def kb)
  then show ?case using Cons.IH [of ?s] Cons.prems kb by (simp add: pump_all_def)
qed (simp add: pump_all_def)

lemma send_artifacts_bytes:
  assumes "room (s_out s) = None"
  shows "send_artifacts g d fs paths (ServerConnection s)
    = (Inr (), ServerConnection (s\<lparr>s_out := (s_out s)\<lparr>written := written (s_out s)
        @ concat (map resp_bytes (returned g d fs paths))\<rparr>\<rparr>))"
  using assms
proof (induction paths arbitrary: s)
  case (Cons path paths)
  show ?case
  proof (cases "\<exists>data. rd_get (g_ops g) d path fs = Inr (Some data)")
    case True
    then obtain data where get: "rd_get (g_ops g) d path fs = Inr (Some data)" by blast
    let ?r = "File path data"
    let ?s = "s\<lparr>s_out := (s_out s)\<lparr>written := written (s_out s) @ resp_bytes ?r\<rparr>\<rparr>"
    show ?thesis
      using Cons.IH [of s] Cons.IH [of ?s] Cons.prems send_response_bytes [OF Cons.prems, of ?r] get
      by (simp add: returned_def map_filter_simps)
  next
    case False
    then show ?thesis
      using Cons.IH [of s] Cons.prems by (auto simp: returned_def map_filter_simps split: sum.splits option.splits)
  qed
qed (simp add: returned_def map_filter_simps)

section \<open>What the host collects\<close>

fun stdout_part :: "response \<Rightarrow> bytes" where
  "stdout_part (Stdout b) = b"
| "stdout_part _ = []"

fun stderr_part :: "response \<Rightarrow> bytes" where
  "stderr_part (Stderr b) = b"
| "stderr_part _ = []"

fun file_part :: "response \<Rightarrow> Artifact list" where
  "file_part (File path data) = [\<lparr>art_path = path, art_data = data\<rparr>]"
| "file_part _ = []"

fun cost :: "response \<Rightarrow> nat" where
  "cost (Stdout b) = length b + FRAME_FLOOR"
| "cost (Stderr b) = length b + FRAME_FLOOR"
| "cost (File path data) = length path + length data + FRAME_FLOOR"
| "cost _ = 0"

fun payload_resp :: "response \<Rightarrow> bool" where
  "payload_resp (Stdout b) \<longleftrightarrow> True"
| "payload_resp (Stderr b) \<longleftrightarrow> True"
| "payload_resp (File path data) \<longleftrightarrow> is_str path \<and> artifact_path_is_safe path"
| "payload_resp _ \<longleftrightarrow> False"

lemma collect_frame_payload:
  assumes "payload_resp r" "c_captured c + cost r \<le> max_output b" "max_output b < usize_max"
  shows "collect_frame f b r c = More (c\<lparr>c_captured := c_captured c + cost r, c_stdout := c_stdout c @ stdout_part r,
    c_stderr := c_stderr c @ stderr_part r, c_files := c_files c @ file_part r\<rparr>)"
  using assms by (cases r) (auto simp: collect_frame_def charge_def saturating_add_usize_def Let_def min_def)

lemma payload_resp_view: "payload_resp r \<Longrightarrow> str_response r \<and> host_view r = r"
  by (cases r) auto

lemma collect_loop_bytes:
  assumes "avail (s_in s) = concat (map resp_bytes rs) @ resp_bytes (Exit code)"
    and "list_all payload_resp rs" "list_all resp_fits rs"
    and "c_captured c + sum_list (map cost rs) \<le> max_output b" "max_output b < usize_max"
    and "\<forall>k \<le> length rs. clock (n + k) < deadline"
  shows "collect_loop f clock started deadline b n c (ClientConnection s)
    = (Inr \<lparr>r_exit_code = code, r_stdout = c_stdout c @ concat (map stdout_part rs),
             r_stderr = c_stderr c @ concat (map stderr_part rs), r_files = c_files c @ concat (map file_part rs),
             r_wall = clock (Suc (n + length rs)) - started\<rparr>,
       ClientConnection (s\<lparr>s_in := (s_in s)\<lparr>avail := []\<rparr>\<rparr>))"
  using assms
proof (induction rs arbitrary: s n c)
  case Nil
  have "resp_fits (Exit code)" by (simp add: resp_fits_def MAX_PAYLOAD_def)
  then have "recv_response (ClientConnection s) = (Inr (Exit code), ClientConnection (s\<lparr>s_in := (s_in s)\<lparr>avail := []\<rparr>\<rparr>))"
    using recv_response_bytes [of "Exit code" s "[]"] Nil.prems(1) by simp
  then show ?case using Nil.prems(6) by (subst collect_loop.simps) (simp add: collect_frame_def)
next
  case (Cons r rs)
  let ?rest = "concat (map resp_bytes rs) @ resp_bytes (Exit code)"
  let ?s = "s\<lparr>s_in := (s_in s)\<lparr>avail := ?rest\<rparr>\<rparr>"
  let ?c = "c\<lparr>c_captured := c_captured c + cost r, c_stdout := c_stdout c @ stdout_part r,
    c_stderr := c_stderr c @ stderr_part r, c_files := c_files c @ file_part r\<rparr>"
  have pr: "payload_resp r" "resp_fits r" using Cons.prems by simp_all
  have recv: "recv_response (ClientConnection s) = (Inr r, ClientConnection ?s)"
    using recv_response_bytes [of r s ?rest] payload_resp_view [OF pr(1)] pr(2) Cons.prems(1) by simp
  have frame: "collect_frame f b r c = More ?c"
    by (rule collect_frame_payload) (use pr Cons.prems in simp_all)
  have now: "clock n < deadline" using Cons.prems(6) by force
  have later: "\<forall>k \<le> length rs. clock (Suc n + k) < deadline"
    using Cons.prems(6) by (metis Suc_le_mono add_Suc_shift length_Cons)
  have "collect_loop f clock started deadline b n c (ClientConnection s)
      = collect_loop f clock started deadline b (Suc n) ?c (ClientConnection ?s)"
    using now by (subst collect_loop.simps) (simp add: recv frame)
  then show ?case using Cons.IH [of ?s ?c "Suc n"] Cons.prems later by simp
qed

section \<open>One command, both ends\<close>

definition host_conn :: "bytes \<Rightarrow> ClientConnection" where
  "host_conn replies = ClientConnection \<lparr>s_in = reader_of replies, s_out = idle_writer\<rparr>"

definition agent_stream :: "bytes \<Rightarrow> stream" where
  "agent_stream sent = \<lparr>s_in = reader_of (handshake_bytes @ sent), s_out = idle_writer\<rparr>"

fun client_written :: "ClientConnection \<Rightarrow> bytes" where
  "client_written (ClientConnection s) = written (s_out s)"

definition chunks_of :: "Kind \<Rightarrow> (Kind \<times> bytes) list \<Rightarrow> bytes" where
  "chunks_of k chunks = concat (map snd (filter (\<lambda>kb. fst kb = k) chunks))"

definition left_fs :: "'f guest \<Rightarrow> string option \<Rightarrow> 'f child \<Rightarrow> 'f" where
  "left_fs g cg ch = (case cg of None \<Rightarrow> ch_fs ch | Some p \<Rightarrow> kill_all (g_ops g) p (ch_fs ch))"

definition responses :: "'f guest \<Rightarrow> RunDir \<Rightarrow> string option \<Rightarrow> 'f child \<Rightarrow> string list \<Rightarrow> response list" where
  "responses g d cg ch arts = map (\<lambda>(k, b). chunk_response k b) (ch_chunks ch) @ returned g d (left_fs g cg ch) arts"

lemma accept_agent:
  "accept (agent_stream sent)
     = Inr (ServerConnection \<lparr>s_in = reader_of sent, s_out = idle_writer\<lparr>written := handshake_bytes\<rparr>\<rparr>)"
proof -
  have "length handshake_bytes = 6" by (simp add: handshake_bytes_def MAGIC_def)
  then have "read_exact 6 (reader_of (handshake_bytes @ sent)) = (Inr handshake_bytes, reader_of sent)"
    by (simp add: read_exact_def reader_of_def)
  then have "read_handshake (reader_of (handshake_bytes @ sent)) = (Inr (), reader_of sent)"
    using handshake_split [of handshake_bytes] \<open>length handshake_bytes = 6\<close>
    by (simp add: read_handshake_def seqm_def io_q_def map_err_def Let_def okm_def)
  moreover have "write_handshake idle_writer = (Inr (), idle_writer\<lparr>written := handshake_bytes\<rparr>)"
    by (simp add: write_handshake_def seqm_def io_q_def write_all_def flush_def idle_writer_def okm_def map_err_def)
  ultimately show ?thesis
    by (simp add: accept_def agent_stream_def handshake_def seqm_def on_out_def on_in_def)
qed

lemma run_child_bytes:
  assumes "room (s_out s) = None" "list_all (\<lambda>kb. length (snd kb) \<le> MAX_PAYLOAD) (ch_chunks ch)"
    and "wait_bounded (ch_poll ch) (ch_reap ch) (\<lambda>n. g_clock g (n + 2)) (g_clock g 0 + budget_from (ea_timeout_ms ea)) 0 WAIT_INITIAL
      = Some (Inr (Exited st))"
  shows "run_child g d cg ea ch (ServerConnection s)
    = Some (Inr (exit_code st),
        ServerConnection (s\<lparr>s_out := (s_out s)\<lparr>written := written (s_out s)
          @ concat (map resp_bytes (responses g d cg ch (ea_artifacts ea))) @ resp_bytes (Exit (exit_code st))\<rparr>\<rparr>),
        left_fs g cg ch)"
proof -
  have e: "resp_fits (Exit (exit_code st))" by (simp add: resp_fits_def MAX_PAYLOAD_def)
  have m: "concat (map (\<lambda>(k, b). resp_bytes (chunk_response k b)) cs)
      = concat (map resp_bytes (map (\<lambda>(k, b). chunk_response k b) cs))" for cs
    by (simp add: case_prod_unfold comp_def)
  show ?thesis
    using assms(1,3) pump_all_bytes [OF assms(1,2)] e
    by (simp add: run_child_def Let_def left_fs_def [symmetric] send_artifacts_bytes send_response_bytes responses_def m)
qed

lemma in_map_filter: "y \<in> set (List.map_filter f xs) \<longleftrightarrow> (\<exists>x \<in> set xs. f x = Some y)"
  by (force simp: map_filter_def)

lemma rd_get_plain: "rd_get ops d path fs = Inr (Some data) \<Longrightarrow> list_all plain (components path)"
  by (cases "list_all plain (components path)") (simp_all add: rd_get_def rd_resolve_def and_then_def)

lemma responses_ok:
  assumes "list_all is_str arts" "[] \<notin> set arts" "list_all (\<lambda>kb. length (snd kb) \<le> MAX_PAYLOAD) (ch_chunks ch)"
  shows "list_all payload_resp (responses g d cg ch arts)" "list_all resp_fits (responses g d cg ch arts)"
    and "length (responses g d cg ch arts) \<le> length (ch_chunks ch) + length arts"
proof -
  have c: "payload_resp (chunk_response k b) \<and> resp_fits (chunk_response k b)" if "(k, b) \<in> set (ch_chunks ch)" for k b
    using that assms(3) by (cases k) (auto simp: resp_fits_def list_all_iff)
  have f: "payload_resp r" if m: "r \<in> set (returned g d fs arts)" for r fs
  proof -
    obtain path where p: "path \<in> set arts"
      "(case rd_get (g_ops g) d path fs of Inr (Some data) \<Rightarrow> Some (File path data) | _ \<Rightarrow> None) = Some r"
      using m by (auto simp: returned_def in_map_filter)
    then obtain data where r: "r = File path data" "path \<in> set arts" "rd_get (g_ops g) d path fs = Inr (Some data)"
      by (cases "rd_get (g_ops g) d path fs") (auto split: option.split_asm)
    then show ?thesis
      using assms(1,2) rd_get_plain [OF r(3)] by (auto simp: list_all_iff artifact_path_is_safe_def)
  qed
  show "list_all payload_resp (responses g d cg ch arts)" using c f by (auto simp: responses_def list_all_iff)
  show "list_all resp_fits (responses g d cg ch arts)" using c by (auto simp: responses_def list_all_iff returned_def)
  have "length (returned g d fs arts) \<le> length arts" for fs
    using length_filter_le order_trans by (fastforce simp: returned_def map_filter_def)
  then show "length (responses g d cg ch arts) \<le> length (ch_chunks ch) + length arts" by (simp add: responses_def)
qed

lemma chunk_parts:
  "stdout_part (chunk_response k b) = (if k = KStdout then b else [])"
  "stderr_part (chunk_response k b) = (if k = KStderr then b else [])"
  "file_part (chunk_response k b) = []"
  by (cases k; simp)+

lemma responses_parts:
  "concat (map stdout_part (responses g d cg ch arts)) = chunks_of KStdout (ch_chunks ch)"
  "concat (map stderr_part (responses g d cg ch arts)) = chunks_of KStderr (ch_chunks ch)"
  "concat (map file_part (responses g d cg ch arts)) = concat (map file_part (returned g d (left_fs g cg ch) arts))"
proof -
  have k: "concat (map stdout_part (map (\<lambda>(k, b). chunk_response k b) cs)) = chunks_of KStdout cs"
    "concat (map stderr_part (map (\<lambda>(k, b). chunk_response k b) cs)) = chunks_of KStderr cs"
    "concat (map file_part (map (\<lambda>(k, b). chunk_response k b) cs)) = []" for cs
    by (induction cs) (simp_all add: chunks_of_def chunk_parts case_prod_unfold)
  have r: "concat (map stdout_part (returned g d fs ps)) = []" "concat (map stderr_part (returned g d fs ps)) = []" for fs ps
    by (auto simp: returned_def map_filter_def split: sum.splits option.splits)
  show "concat (map stdout_part (responses g d cg ch arts)) = chunks_of KStdout (ch_chunks ch)"
    "concat (map stderr_part (responses g d cg ch arts)) = chunks_of KStderr (ch_chunks ch)"
    "concat (map file_part (responses g d cg ch arts)) = concat (map file_part (returned g d (left_fs g cg ch) arts))"
    using k [of "ch_chunks ch"] r by (simp_all add: responses_def)
qed

text \<open>(C21) One command, end to end: when the agent serves exactly the bytes the host wrote and the host
  reads exactly the bytes the agent answered, the host's result is the command's own: its exit code,
  its output and error output byte for byte in order, and the requested artifacts the agent found, and
  the agent reports the same code. Hypotheses: every message fits a frame, the files can be written,
  the program resolves and starts, it exits within its budget, and its output fits the host's cap and
  deadline.\<close>

theorem exec_end_to_end:
  assumes "ok_puts files" "str_request (Exec argv stdin env arts (wire_timeout_ms (b_timeout b)))"
    and "req_fits (Exec argv stdin env arts (wire_timeout_ms (b_timeout b)))"
    and "put_all (g_ops g) d files fs = Some fs1" "argv = program # args"
    and "ExecCgroup_create (g_ops g) (g_pid g) cseq fs1 = (cg, fs2)"
    and "resolve_program (g_ops g) (g_path_var g) program (rd_path d) fs2 = Inr ()"
    and "g_spawn g (exec_command cg argv) stdin env (rd_path d) fs2 = Inr ch"
    and "wait_bounded (ch_poll ch) (ch_reap ch) (\<lambda>n. g_clock g (n + 2))
        (g_clock g 0 + budget_from (wire_timeout_ms (b_timeout b))) 0 WAIT_INITIAL = Some (Inr (Exited st))"
    and "list_all (\<lambda>kb. length (snd kb) \<le> 16384) (ch_chunks ch)" "[] \<notin> set arts"
    and "sum_list (map cost (responses g d cg ch arts)) \<le> max_output b" "max_output b < usize_max"
    and "\<forall>n \<le> Suc (length (ch_chunks ch) + length arts). clock n < host_deadline (clock 0) (b_wall b)"
  shows "\<exists>replies agent_end fs3 res host_end.
    run_exec f clock argv stdin files env arts b (host_conn replies) = (Inr res, host_end)
    \<and> serve_with g (Inr d) cseq fs (agent_stream (client_written host_end)) = Some (Inr (exit_code st), agent_end, fs3)
    \<and> written (s_out agent_end) = handshake_bytes @ replies
    \<and> r_exit_code res = exit_code st
    \<and> r_stdout res = chunks_of KStdout (ch_chunks ch)
    \<and> r_stderr res = chunks_of KStderr (ch_chunks ch)
    \<and> r_files res = concat (map file_part (returned g d (left_fs g cg ch) arts))"
proof -
  let ?t = "wire_timeout_ms (b_timeout b)"
  let ?rs = "responses g d cg ch arts"
  let ?sent = "sent_bytes argv stdin files env arts ?t"
  let ?replies = "concat (map resp_bytes ?rs) @ resp_bytes (Exit (exit_code st))"
  let ?ea = "\<lparr>ea_argv = argv, ea_stdin = stdin, ea_env = env, ea_artifacts = arts, ea_timeout_ms = ?t\<rparr>"
  let ?host = "\<lparr>s_in = reader_of ?replies, s_out = idle_writer\<rparr>\<lparr>s_out := idle_writer\<lparr>written := ?sent\<rparr>\<rparr>"
  have idle: "room idle_writer = None" "written idle_writer = []" by (simp_all add: idle_writer_def)
  have chunks: "list_all (\<lambda>kb. length (snd kb) \<le> MAX_PAYLOAD) (ch_chunks ch)"
    using assms(10) by (auto simp: list_all_iff MAX_PAYLOAD_def)
  have strs: "list_all is_str arts" using assms(2) by simp
  note ok = responses_ok [OF strs assms(11) chunks, of g d cg]
  have "collect_loop f clock (clock 0) (host_deadline (clock 0) (b_wall b)) b 1 collected0 (ClientConnection ?host)
      = (Inr \<lparr>r_exit_code = exit_code st, r_stdout = chunks_of KStdout (ch_chunks ch),
           r_stderr = chunks_of KStderr (ch_chunks ch),
           r_files = concat (map file_part (returned g d (left_fs g cg ch) arts)),
           r_wall = clock (Suc (1 + length ?rs)) - clock 0\<rparr>,
         ClientConnection (?host\<lparr>s_in := reader_of []\<rparr>))"
    by (subst collect_loop_bytes [where rs = ?rs and code = "exit_code st"])
       (use ok assms(12-14) in \<open>auto simp: collected0_def responses_parts reader_of_def\<close>)
  moreover have "seqm (send_files files) (\<lambda>_. send_exec argv stdin env arts ?t) (host_conn ?replies)
      = (Inr (), ClientConnection ?host)"
    using host_sends [of "\<lparr>s_in = reader_of ?replies, s_out = idle_writer\<rparr>"] idle assms(1,3) by (simp add: host_conn_def)
  ultimately have host: "run_exec f clock argv stdin files env arts b (host_conn ?replies)
      = (Inr \<lparr>r_exit_code = exit_code st, r_stdout = chunks_of KStdout (ch_chunks ch),
           r_stderr = chunks_of KStderr (ch_chunks ch),
           r_files = concat (map file_part (returned g d (left_fs g cg ch) arts)),
           r_wall = clock (Suc (1 + length ?rs)) - clock 0\<rparr>,
         ClientConnection (?host\<lparr>s_in := reader_of []\<rparr>))"
    by (simp add: run_exec_def Let_def)
  let ?a = "\<lparr>s_in = reader_of ?sent, s_out = idle_writer\<lparr>written := handshake_bytes\<rparr>\<rparr>"
  let ?a1 = "?a\<lparr>s_in := reader_of []\<rparr>"
  let ?fin = "?a1\<lparr>s_out := idle_writer\<lparr>written := handshake_bytes @ ?replies\<rparr>\<rparr>"
  have read: "read_commands g d fs (ServerConnection ?a) = (Inr ?ea, ServerConnection ?a1, fs1)"
    using read_commands_bytes [of ?a argv stdin files env arts ?t "[]"] assms(1-4) by (simp add: reader_of_def)
  have child: "run_child g d cg ?ea ch (ServerConnection ?a1)
      = Some (Inr (exit_code st), ServerConnection ?fin, left_fs g cg ch)"
    using run_child_bytes [of ?a1 ch g ?ea st d cg] idle chunks assms(9) by simp
  have cmd: "run_command g d cseq ?ea fs1 (ServerConnection ?a1)
      = Some (Inr (exit_code st), ServerConnection ?fin, ExecCgroup_drop (g_ops g) cg (left_fs g cg ch))"
    using child assms(5-8) by (simp add: run_command_def)
  have "serve_with g (Inr d) cseq fs (agent_stream ?sent)
      = Some (Inr (exit_code st), ?fin, rd_drop (g_ops g) d (ExecCgroup_drop (g_ops g) cg (left_fs g cg ch)))"
    using cmd by (simp add: serve_with_def accept_agent read)
  then show ?thesis using host
    by (intro exI [of _ ?replies] exI [of _ ?fin] exI conjI) (simp_all, simp_all)
qed

definition unit_ops :: "unit fs_ops" where
  "unit_ops = \<lparr>fs_mkdirs = (\<lambda>_ _. (None, ())), fs_write = (\<lambda>_ _ _. (None, ())), fs_canonicalize = (\<lambda>p _. Some p),
     fs_size = (\<lambda>_ _. Inr 1), fs_read = (\<lambda>_ _. Inr [9]), fs_executable = (\<lambda>_ _. True), fs_remove_tree = (\<lambda>_ _. ()),
     fs_mkdir = (\<lambda>_ _. (None, ())), fs_rmdir = (\<lambda>_ _. (None, ()))\<rparr>"

definition one_child :: "unit child" where
  "one_child = \<lparr>ch_chunks = [(KStdout, [1, 2]), (KStderr, [3]), (KStdout, [4])], ch_poll = (\<lambda>_. Inr (Some (Code 7))),
     ch_reap = None, ch_fs = ()\<rparr>"

definition one_guest :: "unit guest" where
  "one_guest = \<lparr>g_fmt = plain_fmt, g_ops = unit_ops, g_path_var = Some ''/bin'', g_temp_dir = ''/tmp'', g_pid = 1,
     g_clock = (\<lambda>n. n), g_spawn = (\<lambda>_ _ _ _ _. Inr one_child)\<rparr>"

definition one_dir :: RunDir where
  "one_dir = \<lparr>rd_path = ''/w'', rd_keep = True\<rparr>"

lemma one_guest_get: "rd_get unit_ops one_dir ''o'' () = Inr (Some [9])"
  by (simp add: rd_get_def unit_ops_def one_dir_def rd_resolve_def and_then_def components_def path_push_def slash_def
      map_filter_def path_starts_with_def MAX_PAYLOAD_def plain_def)

lemma one_guest_responses:
  "responses one_guest one_dir cg one_child [''o''] = [Stdout [1, 2], Stderr [3], Stdout [4], File ''o'' [9]]"
  by (simp add: responses_def one_guest_def one_child_def returned_def map_filter_simps one_guest_get resp_fits_def
      put_file_payload_def put_blob_def put_u32_def MAX_PAYLOAD_def as_bytes_def)

theorem exec_end_to_end_witness:
  "\<exists>replies agent_end fs3 res host_end.
    run_exec plain_fmt (\<lambda>n. n) [''p''] [5] [(''a'', [6])] [] [''o''] small_bounds (host_conn replies) = (Inr res, host_end)
    \<and> serve_with one_guest (Inr one_dir) 0 () (agent_stream (client_written host_end)) = Some (Inr 7, agent_end, fs3)
    \<and> written (s_out agent_end) = handshake_bytes @ replies
    \<and> r_exit_code res = 7 \<and> r_stdout res = [1, 2, 4] \<and> r_stderr res = [3]
    \<and> r_files res = [\<lparr>art_path = ''o'', art_data = [9]\<rparr>]"
proof -
  let ?t = "wire_timeout_ms (b_timeout small_bounds)"
  let ?cg = "Some (path_push CGROUP_ROOT (''agent-exec-'' @ dec 1 @ ''-'' @ dec 0))"
  have "is_ascii ''p''" "is_ascii ''a''" "is_ascii ''o''" by (simp_all add: is_ascii_def)
  then have str: "is_str ''p''" "is_str ''a''" "is_str ''o''" by (simp_all add: is_ascii_is_str)
  have puts: "ok_puts [(''a'', [6])]"
    using str by (simp add: ok_puts_def req_fits_def put_file_payload_def put_blob_def put_u32_def MAX_PAYLOAD_def as_bytes_def)
  have fits: "req_fits (Exec [''p''] [5] [] [''o''] ?t)"
    by (simp add: req_fits_def exec_payload_def put_blob_def put_u32_def MAX_PAYLOAD_def as_bytes_def Let_def)
  have put: "put_all (g_ops one_guest) one_dir [(''a'', [6])] () = Some ()"
    by (simp add: rd_put_def rd_resolve_def one_guest_def unit_ops_def one_dir_def components_def slash_def map_filter_def
        plain_def split: option.splits)
  have cg: "ExecCgroup_create (g_ops one_guest) (g_pid one_guest) 0 () = (?cg, ())"
    by (simp add: ExecCgroup_create_def one_guest_def unit_ops_def)
  have res: "resolve_program (g_ops one_guest) (g_path_var one_guest) ''p'' (rd_path one_dir) () = Inr ()"
    by (simp add: resolve_program_def one_guest_def unit_ops_def slash_def)
  have spawn: "g_spawn one_guest (exec_command ?cg [''p'']) [5] [] (rd_path one_dir) () = Inr one_child"
    by (simp add: one_guest_def)
  have wait: "wait_bounded (ch_poll one_child) (ch_reap one_child) (\<lambda>n. g_clock one_guest (n + 2))
      (g_clock one_guest 0 + budget_from ?t) 0 WAIT_INITIAL = Some (Inr (Exited (Code 7)))"
    by (subst wait_bounded.simps) (simp add: one_child_def)
  have time: "\<forall>n \<le> Suc (length (ch_chunks one_child) + length [''o'']). n < host_deadline 0 (b_wall small_bounds)"
    by (simp add: one_child_def small_bounds_def host_deadline_def second_ns_def instant_max_def)
  have got: "returned one_guest one_dir (left_fs one_guest ?cg one_child) [''o''] = [File ''o'' [9]]"
    using one_guest_responses [of ?cg] by (simp add: responses_def one_child_def)
  have chunks: "list_all (\<lambda>kb. length (snd kb) \<le> 16384) (ch_chunks one_child)" by (simp add: one_child_def)
  have cost: "sum_list (map cost (responses one_guest one_dir ?cg one_child [''o''])) \<le> max_output small_bounds"
    "max_output small_bounds < usize_max"
    by (simp_all add: one_guest_responses FRAME_FLOOR_def small_bounds_def usize_max_def)
  from exec_end_to_end [OF puts _ fits put refl cg res spawn wait chunks _ cost time, of plain_fmt] str got
  show ?thesis by (simp add: exit_code_def chunks_of_def one_child_def)
qed

end
