(* ===== verification/Pool.thy ===== *)
theory Pool
  imports Exec
begin

text \<open>
  The pool of prewarmed clones, \<open>crates/vmm/src/pool.rs\<close>. A microVM is the number of its start; the
  host keeps the set of the VMs that are live, and says for each start, probe and liveness check how
  it turns out. A start that fails leaves nothing behind, and dropping a VM tears it down. The lemmas
  account for every VM: nothing is lost, nothing is handed out twice, and a dead clone never leaves
  the pool through \<open>take\<close>.
\<close>

section \<open>VMs of the host\<close>

type_synonym vm_id = nat

record vm_host =
  h_live :: "vm_id set"
  h_next :: vm_id
  h_start :: "nat \<Rightarrow> VmmError option"
  h_probe :: "vm_id \<Rightarrow> nat \<Rightarrow> VmmError option"
  h_alive :: "vm_id \<Rightarrow> nat \<Rightarrow> bool"
  h_checks :: nat

text \<open>\<open>Vm::restore\<close> and \<open>Vm::boot\<close>.\<close>

definition start_vm :: "vm_host \<Rightarrow> (VmmError + vm_id) \<times> vm_host" where
  "start_vm h =
     (let n = h_next h; h1 = h\<lparr>h_next := Suc n\<rparr> in
      case h_start h n of
        Some e \<Rightarrow> (Inl e, h1)
      | None \<Rightarrow> (Inr n, h1\<lparr>h_live := insert n (h_live h)\<rparr>))"

definition probe_agent :: "vm_id \<Rightarrow> vm_host \<Rightarrow> VmmError option \<times> vm_host" where
  "probe_agent v h = (h_probe h v (h_checks h), h\<lparr>h_checks := Suc (h_checks h)\<rparr>)"

definition vmm_alive :: "vm_id \<Rightarrow> vm_host \<Rightarrow> bool \<times> vm_host" where
  "vmm_alive v h = (h_alive h v (h_checks h), h\<lparr>h_checks := Suc (h_checks h)\<rparr>)"

definition drop_vm :: "vm_id \<Rightarrow> vm_host \<Rightarrow> vm_host" where
  "drop_vm v h = h\<lparr>h_live := h_live h - {v}\<rparr>"

section \<open>The pool\<close>

record Pool =
  pool_has_vsock :: bool
  pool_target :: usize
  pool_ready :: "vm_id list" \<comment> \<open>taken from the end\<close>

function Pool_take :: "Pool \<Rightarrow> vm_host \<Rightarrow> (VmmError + vm_id) \<times> Pool \<times> vm_host" where
  "Pool_take p h =
     (if pool_ready p = [] then (case start_vm h of (r, h1) \<Rightarrow> (r, p, h1))
      else
        (let v = last (pool_ready p); p1 = p\<lparr>pool_ready := butlast (pool_ready p)\<rparr> in
         if \<not> pool_has_vsock p
         then (case vmm_alive v h of
                 (True, h1) \<Rightarrow> (Inr v, p1, h1)
               | (False, h1) \<Rightarrow> Pool_take p1 (drop_vm v h1))
         else (case probe_agent v h of
                 (None, h1) \<Rightarrow> (Inr v, p1, h1)
               | (Some e, h1) \<Rightarrow> Pool_take p1 (drop_vm v h1))))"
  by pat_completeness auto
termination
  by (relation "measure (\<lambda>(p, h). length (pool_ready p))") auto

declare Pool_take.simps [simp del]

function refill_loop :: "nat \<Rightarrow> Pool \<Rightarrow> vm_host \<Rightarrow> (VmmError + nat) \<times> Pool \<times> vm_host" where
  "refill_loop restored p h =
     (if length (pool_ready p) < pool_target p
      then (case start_vm h of
              (Inl e, h1) \<Rightarrow> (Inl e, p, h1)
            | (Inr v, h1) \<Rightarrow> refill_loop (restored + 1) (p\<lparr>pool_ready := pool_ready p @ [v]\<rparr>) h1)
      else (Inr restored, p, h))"
  by pat_completeness auto
termination
  by (relation "measure (\<lambda>(n, p, h). pool_target p - length (pool_ready p))") auto

declare refill_loop.simps [simp del]

definition Pool_refill :: "Pool \<Rightarrow> vm_host \<Rightarrow> (VmmError + nat) \<times> Pool \<times> vm_host" where
  "Pool_refill p h = refill_loop 0 p h"

definition Pool_drop :: "Pool \<Rightarrow> vm_host \<Rightarrow> vm_host" where
  "Pool_drop p h = fold drop_vm (pool_ready p) h"

definition Pool_new :: "bool \<Rightarrow> usize \<Rightarrow> vm_host \<Rightarrow> (VmmError + Pool) \<times> vm_host" where
  "Pool_new has_vsock target h =
     (case Pool_refill \<lparr>pool_has_vsock = has_vsock, pool_target = target, pool_ready = []\<rparr> h of
        (Inl e, p, h1) \<Rightarrow> (Inl e, Pool_drop p h1)
      | (Inr _, p, h1) \<Rightarrow> (Inr p, h1))"

text \<open>\<open>shutdown\<close> asks every guest to power off, polls them all until none is alive or the one grace
  window is over, and drops them.\<close>

fun any_alive :: "vm_id list \<Rightarrow> vm_host \<Rightarrow> bool \<times> vm_host" where
  "any_alive [] h = (False, h)"
| "any_alive (v # vs) h = (case vmm_alive v h of (True, h1) \<Rightarrow> (True, h1) | (False, h1) \<Rightarrow> any_alive vs h1)"

partial_function (option) shutdown_wait :: "(nat \<Rightarrow> nat) \<Rightarrow> nat \<Rightarrow> nat \<Rightarrow> vm_id list \<Rightarrow> vm_host \<Rightarrow> vm_host option" where
  "shutdown_wait clock deadline n vs h =
     (if clock n < deadline
      then (case any_alive vs h of
              (alive, h1) \<Rightarrow> if alive then shutdown_wait clock deadline (Suc n) vs h1 else Some h1)
      else Some h)"

definition POWER_OFF_TIMEOUT :: nat where "POWER_OFF_TIMEOUT = 3 * second_ns"
definition POWER_OFF_POLL :: nat where "POWER_OFF_POLL = 50000000"

definition Pool_shutdown :: "(nat \<Rightarrow> nat) \<Rightarrow> Pool \<Rightarrow> vm_host \<Rightarrow> vm_host option" where
  "Pool_shutdown clock p h =
     map_option (Pool_drop p) (shutdown_wait clock (clock 0 + POWER_OFF_TIMEOUT) 1 (pool_ready p) h)"

section \<open>The descriptor budget\<close>

definition FDS_PER_VM :: usize where "FDS_PER_VM = 8"
definition POOL_FD_HEADROOM :: usize where "POOL_FD_HEADROOM = 64"

definition fd_budget_excess :: "usize \<Rightarrow> nat \<Rightarrow> (usize \<times> nat) option" where
  "fd_budget_excess target soft =
     (let need = saturating_add_usize (saturating_mul_usize target FDS_PER_VM) POOL_FD_HEADROOM in
      if need > soft then Some (need, soft) else None)"

function trim_start_matches :: "string \<Rightarrow> string \<Rightarrow> string" where
  "trim_start_matches pat s =
     (if pat \<noteq> [] \<and> take (length pat) s = pat then trim_start_matches pat (drop (length pat) s) else s)"
  by pat_completeness auto
termination
  by (relation "measure (\<lambda>(pat, s). length s)")
     (auto, metis length_greater_0_conv take_eq_Nil not_gr_zero diff_less)

declare trim_start_matches.simps [simp del]

definition parse_nofile_soft :: "string \<Rightarrow> nat option" where
  "parse_nofile_soft limits =
     (case find (\<lambda>l. strip_prefix ''Max open files'' l \<noteq> None) (str_lines limits) of
        None \<Rightarrow> None
      | Some line \<Rightarrow>
          (case split_whitespace (trim_start_matches ''Max open files'' line) of
             [] \<Rightarrow> None
           | w # _ \<Rightarrow> from_str_radix 10 u64_max w))"

section \<open>Every VM is accounted for\<close>

lemma start_vm_cases:
  "start_vm h = (r, h1) \<Longrightarrow>
     (\<exists>e. r = Inl e \<and> h_live h1 = h_live h) \<or> (r = Inr (h_next h) \<and> h_live h1 = insert (h_next h) (h_live h))"
  "start_vm h = (r, h1) \<Longrightarrow> h_next h1 = Suc (h_next h)"
  by (auto simp: start_vm_def Let_def split: option.splits)

lemma host_frame [simp]:
  "h_live (snd (probe_agent v h)) = h_live h" "h_next (snd (probe_agent v h)) = h_next h"
  "h_live (snd (vmm_alive v h)) = h_live h" "h_next (snd (vmm_alive v h)) = h_next h"
  "h_live (drop_vm v h) = h_live h - {v}" "h_next (drop_vm v h) = h_next h"
  by (simp_all add: probe_agent_def vmm_alive_def drop_vm_def)

lemma fold_drop_vm: "h_live (fold drop_vm vs h) = h_live h - set vs" "h_next (fold drop_vm vs h) = h_next h"
  by (induction vs arbitrary: h) auto

text \<open>The VMs a pool and its clients hold between them: \<open>base\<close> are the ones that are not the pool's.\<close>

definition holds :: "vm_id set \<Rightarrow> Pool \<Rightarrow> vm_id set \<Rightarrow> vm_host \<Rightarrow> bool" where
  "holds base p out h \<longleftrightarrow>
     h_live h = base \<union> set (pool_ready p) \<union> out \<and> base \<inter> set (pool_ready p) = {} \<and> base \<inter> out = {}
     \<and> set (pool_ready p) \<inter> out = {} \<and> distinct (pool_ready p) \<and> length (pool_ready p) \<le> pool_target p
     \<and> (\<forall>v \<in> h_live h. v < h_next h)"

definition checked :: "Pool \<Rightarrow> vm_id \<Rightarrow> vm_host \<Rightarrow> bool" where
  "checked p v h \<longleftrightarrow>
     (\<exists>n. if pool_has_vsock p then h_probe h v n = None else h_alive h v n)"

lemma last_butlast_distinct:
  assumes "xs \<noteq> []" "distinct xs"
  shows "last xs \<notin> set (butlast xs)" "set xs = insert (last xs) (set (butlast xs))" "distinct (butlast xs)"
proof -
  have d: "distinct (butlast xs @ [last xs])" and s: "set (butlast xs @ [last xs]) = set xs"
    using assms by simp_all
  then show "last xs \<notin> set (butlast xs)" "distinct (butlast xs)" by auto
  show "set xs = insert (last xs) (set (butlast xs))" using s by auto
qed

lemma holds_drop:
  assumes "holds base p out h" "pool_ready p \<noteq> []"
  shows "holds base (p\<lparr>pool_ready := butlast (pool_ready p)\<rparr>) out (drop_vm (last (pool_ready p)) h)"
    and "holds base (p\<lparr>pool_ready := butlast (pool_ready p)\<rparr>) (insert (last (pool_ready p)) out) h"
proof -
  have d: "distinct (pool_ready p)" using assms(1) by (simp add: holds_def)
  note l = last_butlast_distinct [OF assms(2) d]
  have v: "last (pool_ready p) \<notin> base" "last (pool_ready p) \<notin> out"
    using assms(1) last_in_set [OF assms(2)] by (auto simp: holds_def)
  show "holds base (p\<lparr>pool_ready := butlast (pool_ready p)\<rparr>) out (drop_vm (last (pool_ready p)) h)"
    using assms(1) l v by (auto simp: holds_def)
  show "holds base (p\<lparr>pool_ready := butlast (pool_ready p)\<rparr>) (insert (last (pool_ready p)) out) h"
    using assms(1) l v by (auto simp: holds_def)
qed

lemma holds_host:
  assumes "holds base p out h" "h_live h1 = h_live h" "h_next h1 \<ge> h_next h"
  shows "holds base p out h1"
  using assms by (auto simp: holds_def dest: less_le_trans)

lemma holds_start:
  assumes "holds base p out h" "start_vm h = (r, h1)"
  shows "case r of Inl _ \<Rightarrow> holds base p out h1
    | Inr v \<Rightarrow> holds base p (insert v out) h1 \<and> v \<notin> out
        \<and> (length (pool_ready p) < pool_target p \<longrightarrow> holds base (p\<lparr>pool_ready := pool_ready p @ [v]\<rparr>) out h1)"
proof (cases r)
  case (Inl e)
  then show ?thesis using holds_host [OF assms(1)] start_vm_cases [OF assms(2)] by simp
next
  case (Inr v)
  then have v: "v = h_next h" and l: "h_live h1 = insert v (h_live h)" and n: "h_next h1 = Suc (h_next h)"
    using start_vm_cases [OF assms(2)] by auto
  have "v \<notin> h_live h" using assms(1) v by (auto simp: holds_def)
  then show ?thesis using assms(1) Inr v l n by (auto simp: holds_def less_Suc_eq)
qed

lemma checked_upd: "checked (p\<lparr>pool_ready := vs\<rparr>) v (drop_vm w h) = checked p v h"
  by (simp add: checked_def drop_vm_def)

text \<open>Both kinds of health check in one.\<close>

definition pool_check :: "Pool \<Rightarrow> vm_id \<Rightarrow> vm_host \<Rightarrow> bool \<times> vm_host" where
  "pool_check p v h =
     (if pool_has_vsock p then map_prod (\<lambda>e. e = None) id (probe_agent v h) else vmm_alive v h)"

lemma pool_check_frame:
  assumes "pool_check p v h = (good, h1)"
  shows "h_live h1 = h_live h" "h_next h1 = h_next h" "checked q w h1 = checked q w h" "good \<Longrightarrow> checked p v h"
  using assms
  by (auto simp: pool_check_def checked_def probe_agent_def vmm_alive_def split: if_splits)

lemma Pool_take_step:
  assumes "pool_ready p \<noteq> []" "pool_check p (last (pool_ready p)) h = (good, h1)"
  shows "Pool_take p h =
    (if good then (Inr (last (pool_ready p)), p\<lparr>pool_ready := butlast (pool_ready p)\<rparr>, h1)
     else Pool_take (p\<lparr>pool_ready := butlast (pool_ready p)\<rparr>) (drop_vm (last (pool_ready p)) h1))"
  using assms
  by (subst Pool_take.simps)
     (auto simp: Let_def pool_check_def split: prod.splits option.splits bool.splits if_splits)

lemma Pool_take_holds:
  "Pool_take p h = (r, p1, h1) \<Longrightarrow> holds base p out h \<Longrightarrow>
   (case r of Inl _ \<Rightarrow> pool_ready p1 = [] \<and> holds base p1 out h1
    | Inr v \<Rightarrow> holds base p1 (insert v out) h1 \<and> v \<notin> out
        \<and> (if v \<in> set (pool_ready p) then checked p v h else pool_ready p1 = [] \<and> v = h_next h))"
proof (induction "length (pool_ready p)" arbitrary: p h)
  case 0
  then obtain "p1 = p" and s: "start_vm h = (r, h1)"
    by (subst (asm) Pool_take.simps) (auto split: prod.splits)
  then show ?case
    using holds_start [OF "0.prems"(2) s] start_vm_cases(1) [OF s] "0.hyps" by (auto split: sum.splits)
next
  case (Suc k)
  let ?v = "last (pool_ready p)"
  let ?p1 = "p\<lparr>pool_ready := butlast (pool_ready p)\<rparr>"
  have ne: "pool_ready p \<noteq> []" using Suc.hyps(2) by auto
  obtain good h2 where c: "pool_check p ?v h = (good, h2)" by (cases "pool_check p ?v h")
  note fr = pool_check_frame [OF c]
  have host: "holds base p out h2" by (rule holds_host [OF Suc.prems(2)]) (simp_all add: fr)
  have in1: "?v \<in> set (pool_ready p)" using ne by simp
  show ?case
  proof (cases good)
    case True
    have "?v \<notin> out" using Suc.prems(2) in1 by (auto simp: holds_def)
    then show ?thesis
      using Pool_take_step [OF ne c] True Suc.prems(1) holds_drop(2) [OF host ne] fr(4) in1 by auto
  next
    case False
    have "k = length (pool_ready ?p1)" using Suc.hyps(2) by simp
    moreover have "Pool_take ?p1 (drop_vm ?v h2) = (r, p1, h1)" using Pool_take_step [OF ne c] False Suc.prems(1) by simp
    ultimately have ih: "case r of Inl _ \<Rightarrow> pool_ready p1 = [] \<and> holds base p1 out h1
        | Inr v \<Rightarrow> holds base p1 (insert v out) h1 \<and> v \<notin> out
            \<and> (if v \<in> set (pool_ready ?p1) then checked ?p1 v (drop_vm ?v h2) else pool_ready p1 = [] \<and> v = h_next (drop_vm ?v h2))"
      using Suc.hyps(1) holds_drop(1) [OF host ne] by blast
    have same: "checked ?p1 v (drop_vm ?v h2) = checked p v h" for v
      by (simp add: checked_upd fr(3))
    have "v \<noteq> h_next h" if "v \<in> set (pool_ready p)" for v
      using Suc.prems(2) that by (auto simp: holds_def)
    then show ?thesis using ih same fr(2) last_butlast_distinct(2) [OF ne] Suc.prems(2)
      by (cases r) (auto simp: holds_def split: if_splits)
  qed
qed

lemma refill_holds:
  "refill_loop n p h = (r, p1, h1) \<Longrightarrow> holds base p out h \<Longrightarrow>
   holds base p1 out h1 \<and> pool_target p1 = pool_target p
   \<and> (\<exists>vs. pool_ready p1 = pool_ready p @ vs)
   \<and> (\<forall>m. r = Inr m \<longrightarrow> length (pool_ready p1) = pool_target p \<and> m + length (pool_ready p) = n + pool_target p)"
proof (induction n p h rule: refill_loop.induct)
  case (1 n p h)
  show ?case
  proof (cases "length (pool_ready p) < pool_target p")
    case True
    obtain x h2 where s: "start_vm h = (x, h2)" by (cases "start_vm h")
    note st = holds_start [OF "1.prems"(2) s]
    show ?thesis
    proof (cases x)
      case (Inl e)
      then have "r = Inl e \<and> p1 = p \<and> h1 = h2" using "1.prems"(1) True s by (subst (asm) refill_loop.simps) simp
      then show ?thesis using st Inl by simp
    next
      case (Inr v)
      let ?p = "p\<lparr>pool_ready := pool_ready p @ [v]\<rparr>"
      have "refill_loop (n + 1) ?p h2 = (r, p1, h1)"
        using "1.prems"(1) True s Inr by (subst (asm) refill_loop.simps) simp
      moreover have "holds base ?p out h2" using st Inr True by simp
      ultimately show ?thesis using "1.IH" [OF True s [symmetric] Inr] by fastforce
    qed
  next
    case False
    then show ?thesis
      using "1.prems" by (subst (asm) refill_loop.simps) (auto simp: holds_def)
  qed
qed

section \<open>Shutdown ends\<close>

lemma any_alive_frame: "h_live (snd (any_alive vs h)) = h_live h"
  by (induction vs arbitrary: h) (auto simp: vmm_alive_def split: bool.splits)

lemma shutdown_wait_ends:
  assumes "\<forall>n. clock n + POWER_OFF_POLL \<le> clock (Suc n)"
  shows "\<exists>h1. shutdown_wait clock deadline n vs h = Some h1 \<and> h_live h1 = h_live h"
proof (induction "deadline - clock n" arbitrary: n h rule: less_induct)
  case less
  obtain alive h1 where a: "any_alive vs h = (alive, h1)" by (cases "any_alive vs h")
  then have l: "h_live h1 = h_live h" using any_alive_frame [of vs h] by simp
  show ?case
  proof (cases "clock n < deadline \<and> alive")
    case True
    have "clock n < clock (Suc n)" using assms [rule_format, of n] by (simp add: POWER_OFF_POLL_def)
    then have "deadline - clock (Suc n) < deadline - clock n" using True by linarith
    then obtain h2 where "shutdown_wait clock deadline (Suc n) vs h1 = Some h2" "h_live h2 = h_live h1"
      using less by blast
    then show ?thesis using True a l by (subst shutdown_wait.simps) simp
  next
    case False
    then show ?thesis using a l by (subst shutdown_wait.simps) auto
  qed
qed

lemma Pool_shutdown_drops:
  assumes "\<forall>n. clock n + POWER_OFF_POLL \<le> clock (Suc n)"
  shows "\<exists>h1. Pool_shutdown clock p h = Some h1 \<and> h_live h1 = h_live h - set (pool_ready p)"
  using shutdown_wait_ends [OF assms, of "clock 0 + POWER_OFF_TIMEOUT" 1 "pool_ready p" h]
  by (auto simp: Pool_shutdown_def Pool_drop_def fold_drop_vm)

section \<open>Any use of a pool\<close>

text \<open>A state is the pool, the VMs its clients hold, and the host.\<close>

inductive pool_reach :: "bool \<Rightarrow> usize \<Rightarrow> vm_host \<Rightarrow> Pool \<times> vm_id set \<times> vm_host \<Rightarrow> bool"
  for has_vsock target h0 where
  new: "Pool_new has_vsock target h0 = (Inr p, h) \<Longrightarrow> pool_reach has_vsock target h0 (p, {}, h)"
| take: "pool_reach has_vsock target h0 (p, out, h) \<Longrightarrow> Pool_take p h = (Inr v, p1, h1) \<Longrightarrow>
    pool_reach has_vsock target h0 (p1, insert v out, h1)"
| take_fails: "pool_reach has_vsock target h0 (p, out, h) \<Longrightarrow> Pool_take p h = (Inl e, p1, h1) \<Longrightarrow>
    pool_reach has_vsock target h0 (p1, out, h1)"
| refill: "pool_reach has_vsock target h0 (p, out, h) \<Longrightarrow> Pool_refill p h = (r, p1, h1) \<Longrightarrow>
    pool_reach has_vsock target h0 (p1, out, h1)"
| release: "pool_reach has_vsock target h0 (p, out, h) \<Longrightarrow> v \<in> out \<Longrightarrow>
    pool_reach has_vsock target h0 (p, out - {v}, drop_vm v h)"

lemma holds_empty:
  assumes "\<forall>v \<in> h_live h. v < h_next h"
  shows "holds (h_live h) \<lparr>pool_has_vsock = vs, pool_target = t, pool_ready = []\<rparr> {} h"
  using assms by (simp add: holds_def)

lemma pool_reach_holds:
  assumes "pool_reach has_vsock target h0 s" "\<forall>v \<in> h_live h0. v < h_next h0"
  shows "case s of (p, out, h) \<Rightarrow> holds (h_live h0) p out h"
  using assms
proof (induction rule: pool_reach.induct)
  case (new p h)
  obtain r q h1 where q: "Pool_refill \<lparr>pool_has_vsock = has_vsock, pool_target = target, pool_ready = []\<rparr> h0 = (r, q, h1)"
    by (cases "Pool_refill \<lparr>pool_has_vsock = has_vsock, pool_target = target, pool_ready = []\<rparr> h0")
  then have "q = p" "h1 = h" using new.hyps by (auto simp: Pool_new_def split: sum.splits)
  then show ?case using refill_holds [OF q [unfolded Pool_refill_def] holds_empty [OF new.prems]] by simp
next
  case (take p out h v p1 h1)
  then show ?case using Pool_take_holds [of p h "Inr v" p1 h1] by simp
next
  case (take_fails p out h e p1 h1)
  then show ?case using Pool_take_holds [of p h "Inl e" p1 h1] by simp
next
  case (refill p out h r p1 h1)
  then show ?case using refill_holds [of 0 p h r p1 h1] by (simp add: Pool_refill_def)
next
  case (release p out h v)
  then show ?case by (auto simp: holds_def)
qed

text \<open>(C22) However a pool is used (taking, refilling, releasing, in any order, with any starts and
  health checks failing), the live VMs are exactly the ones that were there before, the pooled ones
  and the ones handed out and not yet released; no VM is in two places, the pool never exceeds its
  target, and shutting it down tears down exactly the pooled ones. A VM that is handed out was either
  pooled and passed its health check or was started for this call because the pool had run dry; and a
  prefill that fails leaves no VM behind.\<close>

theorem pool_accounts_for_every_vm:
  assumes "\<forall>v \<in> h_live h0. v < h_next h0" and "\<forall>n. clock n + POWER_OFF_POLL \<le> clock (Suc n)"
  shows "(pool_reach has_vsock target h0 (p, out, h) \<longrightarrow>
      h_live h = h_live h0 \<union> set (pool_ready p) \<union> out
      \<and> distinct (pool_ready p) \<and> set (pool_ready p) \<inter> out = {} \<and> h_live h0 \<inter> (set (pool_ready p) \<union> out) = {}
      \<and> length (pool_ready p) \<le> pool_target p
      \<and> (\<exists>h1. Pool_shutdown clock p h = Some h1 \<and> h_live h1 = h_live h0 \<union> out)
      \<and> (\<forall>r p1 h1. Pool_take p h = (r, p1, h1) \<longrightarrow>
           (case r of
              Inr v \<Rightarrow> v \<notin> out \<and> (if v \<in> set (pool_ready p) then checked p v h else pool_ready p1 = [] \<and> v = h_next h)
            | Inl e \<Rightarrow> pool_ready p1 = [] \<and> h_live h1 = h_live h0 \<union> out)))
    \<and> (Pool_new has_vsock target h0 = (Inl e, h) \<longrightarrow> h_live h = h_live h0)"
proof (intro conjI impI)
  assume r: "pool_reach has_vsock target h0 (p, out, h)"
  have inv: "holds (h_live h0) p out h" using pool_reach_holds [OF r assms(1)] by simp
  then show "h_live h = h_live h0 \<union> set (pool_ready p) \<union> out" "distinct (pool_ready p)"
    "set (pool_ready p) \<inter> out = {}" "h_live h0 \<inter> (set (pool_ready p) \<union> out) = {}"
    "length (pool_ready p) \<le> pool_target p"
    by (auto simp: holds_def)
  show "\<exists>h1. Pool_shutdown clock p h = Some h1 \<and> h_live h1 = h_live h0 \<union> out"
    using Pool_shutdown_drops [OF assms(2), of p h] inv by (auto simp: holds_def)
  show "\<forall>r p1 h1. Pool_take p h = (r, p1, h1) \<longrightarrow>
           (case r of
              Inr v \<Rightarrow> v \<notin> out \<and> (if v \<in> set (pool_ready p) then checked p v h else pool_ready p1 = [] \<and> v = h_next h)
            | Inl e \<Rightarrow> pool_ready p1 = [] \<and> h_live h1 = h_live h0 \<union> out)"
    using Pool_take_holds [of p h _ _ _ "h_live h0" out] inv by (fastforce simp: holds_def split: sum.splits)
next
  assume n: "Pool_new has_vsock target h0 = (Inl e, h)"
  let ?p = "\<lparr>pool_has_vsock = has_vsock, pool_target = target, pool_ready = []\<rparr>"
  obtain r q h1 where q: "Pool_refill ?p h0 = (r, q, h1)" by (cases "Pool_refill ?p h0")
  then have "h = Pool_drop q h1" using n by (auto simp: Pool_new_def split: sum.splits)
  moreover have "holds (h_live h0) q {} h1"
    using refill_holds [OF q [unfolded Pool_refill_def] holds_empty [OF assms(1)]] by simp
  ultimately show "h_live h = h_live h0" by (auto simp: Pool_drop_def fold_drop_vm holds_def)
qed

definition flaky_host :: vm_host where
  "flaky_host = \<lparr>h_live = {}, h_next = 0, h_start = (\<lambda>n. if n = 2 then Some NoKvm else None),
     h_probe = (\<lambda>v n. if v = 1 then Some NoKvm else None), h_alive = (\<lambda>_ _. True), h_checks = 0\<rparr>"

lemma flaky_new:
  "Pool_new True 2 flaky_host
     = (Inr \<lparr>pool_has_vsock = True, pool_target = 2, pool_ready = [0, 1]\<rparr>, flaky_host\<lparr>h_live := {0, 1}, h_next := 2\<rparr>)"
  by (simp add: Pool_new_def Pool_refill_def refill_loop.simps start_vm_def flaky_host_def Let_def insert_commute)

theorem pool_accounts_for_every_vm_witness:
  "\<exists>p h. pool_reach True 2 flaky_host (p, {}, h) \<and> h_live h = {0, 1} \<and> pool_ready p = [0, 1]
     \<and> (\<exists>h1. Pool_shutdown (\<lambda>n. n * POWER_OFF_POLL) p h = Some h1 \<and> h_live h1 = {})"
proof -
  let ?p = "\<lparr>pool_has_vsock = True, pool_target = 2, pool_ready = [0, 1]\<rparr>"
  let ?h = "flaky_host\<lparr>h_live := {0, 1}, h_next := 2\<rparr>"
  have r: "pool_reach True 2 flaky_host (?p, {}, ?h)" by (rule pool_reach.new [OF flaky_new])
  have "\<forall>v \<in> h_live flaky_host. v < h_next flaky_host" by (simp add: flaky_host_def)
  moreover have "\<forall>n. n * POWER_OFF_POLL + POWER_OFF_POLL \<le> Suc n * POWER_OFF_POLL" by simp
  ultimately have "\<exists>h1. Pool_shutdown (\<lambda>n. n * POWER_OFF_POLL) ?p ?h = Some h1 \<and> h_live h1 = h_live flaky_host \<union> {}"
    using pool_accounts_for_every_vm [of flaky_host "\<lambda>n. n * POWER_OFF_POLL" True 2 ?p "{}" ?h NoKvm] r by blast
  then show ?thesis using r by (intro exI [of _ ?p] exI [of _ ?h]) (simp add: flaky_host_def)
qed

end
