(* ===== verification/Protocol.thy ===== *)
theory Protocol
  imports StrLib
begin

text \<open>
  The daemon's line protocol, \<open>crates/eke-protocol/src/lib.rs\<close>: the messages, the capped line
  reader with its resynchronisation, the schema gate and the writer. \<open>serde_json\<close> is a parameter,
  the three functions the source calls; a buffered reader is the sequence of answers \<open>fill_buf\<close>
  gives. The lemmas show that framing depends on the bytes alone, however they are cut into chunks,
  never buffers more than the cap, and stays on line boundaries after a refusal.
\<close>

section \<open>Messages\<close>

definition WIRE_SCHEMA :: nat where "WIRE_SCHEMA = 1"
definition MAX_MESSAGE_BYTES :: usize where "MAX_MESSAGE_BYTES = 4 * 1024 * 1024"

record 'a Envelope =
  schema :: nat
  env_body :: 'a

datatype Request =
    Open "u8 option" "u32 option" "u64 option" "usize option"
  | ReqExec "string list" "string option"
  | ReqPut string string
  | ReqGet string
  | ReqSnapshot | ReqTrace | ReqTraceSummary | ReqClose

datatype 'v Response =
    Opened u64 bool
  | Result "32 word" string string u64
  | RespPut string
  | Got string string bool
  | Snapshotted string
  | RespTrace 'v
  | RespTraceSummary 'v
  | Closed
  | ErrorReply string bool

datatype ProtocolError = IoErr io_kind | SchemaErr nat | Malformed string | TooLarge

section \<open>Reading a line\<close>

text \<open>What successive \<open>fill_buf\<close> calls see. A partly consumed buffer is offered again; an empty
  buffer is the end of the stream, and so is the end of the sequence.\<close>

datatype fill = Chunk bytes | Intr | Fail io_kind

type_synonym buf_read = "fill list"

definition newline :: u8 where "newline = 10"

definition position_newline :: "bytes \<Rightarrow> nat option" where
  "position_newline b = (if newline \<in> set b then Some (length (takeWhile (\<lambda>x. x \<noteq> newline) b)) else None)"

definition unconsumed :: "bytes \<Rightarrow> buf_read \<Rightarrow> buf_read" where
  "unconsumed b r = (if b = [] then r else Chunk b # r)"

fun discard_to_newline :: "buf_read \<Rightarrow> (ProtocolError + unit) \<times> buf_read" where
  "discard_to_newline [] = (Inr (), [])"
| "discard_to_newline (Intr # r) = discard_to_newline r"
| "discard_to_newline (Fail e # r) = (Inl (IoErr e), r)"
| "discard_to_newline (Chunk b # r) =
     (if b = [] then (Inr (), r)
      else case position_newline b of
          Some i \<Rightarrow> (Inr (), unconsumed (drop (i + 1) b) r)
        | None \<Rightarrow> discard_to_newline r)"

text \<open>The result, the line buffer as it is left, and the rest of the stream.\<close>

fun read_line_capped :: "buf_read \<Rightarrow> usize \<Rightarrow> bytes \<Rightarrow> (ProtocolError + bool) \<times> bytes \<times> buf_read" where
  "read_line_capped [] cap out = (Inr True, out, [])"
| "read_line_capped (Intr # r) cap out = read_line_capped r cap out"
| "read_line_capped (Fail e # r) cap out = (Inl (IoErr e), out, r)"
| "read_line_capped (Chunk b # r) cap out =
     (if b = [] then (Inr True, out, r)
      else case position_newline b of
          Some i \<Rightarrow>
            if length out + i > cap
            then (Inl TooLarge, out, unconsumed (drop (i + 1) b) r)
            else (Inr False, out @ take i b, unconsumed (drop (i + 1) b) r)
        | None \<Rightarrow>
            if length out + length b > cap
            then (case discard_to_newline r of
                    (Inl e, r') \<Rightarrow> (Inl e, out, r')
                  | (Inr _, r') \<Rightarrow> (Inl TooLarge, out, r'))
            else read_line_capped r cap (out @ b))"

section \<open>Reading a message\<close>

record ('v, 't) serde =
  from_str :: "string \<Rightarrow> string + 'v"
  get_schema :: "'v \<Rightarrow> nat option"
  from_value :: "'v \<Rightarrow> string + 't"

definition decode_message :: "('v, 't) serde \<Rightarrow> string \<Rightarrow> ProtocolError + 't" where
  "decode_message sd line =
     and_then (map_err Malformed (from_str sd line)) (\<lambda>v.
     case get_schema sd v of
       Some s \<Rightarrow>
         if s = WIRE_SCHEMA then map_err Malformed (from_value sd v) else Inl (SchemaErr s)
     | None \<Rightarrow> Inl (Malformed ''missing `schema` field''))"

text \<open>The text of a \<open>Utf8Error\<close>: where the first ill-formed sequence starts, and its length, unless
  the input merely ends inside a sequence.\<close>

function utf8_error_at :: "nat \<Rightarrow> bytes \<Rightarrow> nat \<times> bytes" where
  "utf8_error_at n bs =
     (if bs = [] then (n, [])
      else case utf8_next bs of
          Some (_, r) \<Rightarrow> utf8_error_at (n + (length bs - length r)) r
        | None \<Rightarrow> (n, bs))"
  by pat_completeness auto
termination
  by (relation "measure (\<lambda>(n, bs). length bs)") (auto dest: utf8_next_shorter)

declare utf8_error_at.simps [simp del]

definition utf8_width :: "u8 \<Rightarrow> nat" where
  "utf8_width b0 = (let x = unat b0 in if x < 0xC2 \<or> x > 0xF4 then 1 else if x < 0xE0 then 2 else if x < 0xF0 then 3 else 4)"

definition utf8_incomplete :: "bytes \<Rightarrow> bool" where
  "utf8_incomplete bs \<longleftrightarrow>
     bs \<noteq> [] \<and> length bs < utf8_width (hd bs) \<and> bad_len bs = length bs"

definition utf8_error_display :: "bytes \<Rightarrow> string" where
  "utf8_error_display bs =
     (let (i, rest) = utf8_error_at 0 bs in
      if utf8_incomplete rest then ''incomplete utf-8 byte sequence from index '' @ dec i
      else ''invalid utf-8 sequence of '' @ dec (bad_len rest) @ '' bytes from index '' @ dec i)"

text \<open>The bytes a stream still holds, and a measure: every line takes at least its newline.\<close>

definition fill_size :: "fill \<Rightarrow> nat" where
  "fill_size f = (case f of Chunk b \<Rightarrow> Suc (length b) | _ \<Rightarrow> 1)"

definition stream_size :: "buf_read \<Rightarrow> nat" where
  "stream_size r = sum_list (map fill_size r)"

lemma stream_size_simps [simp]:
  "stream_size [] = 0" "stream_size (f # r) = fill_size f + stream_size r"
  by (simp_all add: stream_size_def)

lemma fill_size_simps [simp]:
  "fill_size (Chunk b) = Suc (length b)" "fill_size Intr = 1" "fill_size (Fail e) = 1"
  by (simp_all add: fill_size_def)

lemma unconsumed_size: "b \<noteq> [] \<Longrightarrow> stream_size (unconsumed (drop (i + 1) b) r) < Suc (length b) + stream_size r"
  by (auto simp: unconsumed_def)

lemma read_line_capped_shrinks:
  "read_line_capped r cap out = (Inr False, out', r') \<Longrightarrow> stream_size r' < stream_size r"
proof (induction r cap out rule: read_line_capped.induct)
  case (4 b r cap out)
  then show ?case
    using unconsumed_size [of b _ r] by (auto split: if_splits option.splits prod.splits sum.splits)
qed auto

function read_message :: "('v, 't) serde \<Rightarrow> buf_read \<Rightarrow> (ProtocolError + 't option) \<times> buf_read" where
  "read_message sd r =
     (case read_line_capped r MAX_MESSAGE_BYTES [] of
        (Inl e, _, r') \<Rightarrow> (Inl e, r')
      | (Inr eof, buf, r') \<Rightarrow>
          if eof \<and> buf = [] then (Inr None, r')
          else case from_utf8 buf of
              None \<Rightarrow> (Inl (Malformed (''not UTF-8: '' @ utf8_error_display buf)), r')
            | Some s \<Rightarrow>
                (let line = trim s in
                 if line = [] then (if eof then (Inr None, r') else read_message sd r')
                 else (map_sum id Some (decode_message sd line), r')))"
  by pat_completeness auto
termination
  by (relation "measure (\<lambda>(sd, r). stream_size r)") (auto dest: sym [THEN read_line_capped_shrinks])

declare read_message.simps [simp del]


section \<open>Writing a message\<close>

text \<open>The envelope is rendered by \<open>serde_json::to_string\<close>, the parameter \<open>render\<close>.\<close>

definition write_message :: "('t Envelope \<Rightarrow> string + string) \<Rightarrow> 't \<Rightarrow> (writer, ProtocolError, unit) smethod" where
  "write_message render body w =
     (case render \<lparr>schema = WIRE_SCHEMA, env_body = body\<rparr> of
        Inl _ \<Rightarrow> (Inl (IoErr InvalidData), w)
      | Inr text \<Rightarrow>
          (let line = as_bytes text @ [newline] in
           if length line > MAX_MESSAGE_BYTES then (Inl TooLarge, w)
           else case write_all line w of (Inl e, w') \<Rightarrow> (Inl (IoErr e), w') | (Inr _, w') \<Rightarrow> (Inr (), w')))"

section \<open>The reference: framing on the bytes alone\<close>

definition flat :: "buf_read \<Rightarrow> bytes" where
  "flat r = concat (map (\<lambda>f. case f of Chunk b \<Rightarrow> b | _ \<Rightarrow> []) r)"

fun steady_fill :: "fill \<Rightarrow> bool" where
  "steady_fill (Chunk b) = (b \<noteq> [])"
| "steady_fill Intr = True"
| "steady_fill (Fail _) = False"

definition steady :: "buf_read \<Rightarrow> bool" where
  "steady r = list_all steady_fill r"

definition first_line :: "bytes \<Rightarrow> bytes" where "first_line bs = takeWhile (\<lambda>x. x \<noteq> newline) bs"
definition after_line :: "bytes \<Rightarrow> bytes" where "after_line bs = tl (dropWhile (\<lambda>x. x \<noteq> newline) bs)"

definition line_spec :: "usize \<Rightarrow> bytes \<Rightarrow> (ProtocolError + bool \<times> bytes) \<times> bytes" where
  "line_spec cap bs =
     (if length (first_line bs) > cap then Inl TooLarge else Inr (newline \<notin> set bs, first_line bs), after_line bs)"

function message_spec :: "('v, 't) serde \<Rightarrow> bytes \<Rightarrow> (ProtocolError + 't option) \<times> bytes" where
  "message_spec sd bs =
     (case line_spec MAX_MESSAGE_BYTES bs of
        (Inl e, rest) \<Rightarrow> (Inl e, rest)
      | (Inr (eof, l), rest) \<Rightarrow>
          if eof \<and> l = [] then (Inr None, rest)
          else case from_utf8 l of
              None \<Rightarrow> (Inl (Malformed (''not UTF-8: '' @ utf8_error_display l)), rest)
            | Some s \<Rightarrow>
                if trim s \<noteq> [] then (map_sum id Some (decode_message sd (trim s)), rest)
                else if eof then (Inr None, rest) else message_spec sd rest)"
  by pat_completeness auto

lemma after_line_shorter: "newline \<in> set bs \<Longrightarrow> length (after_line bs) < length bs"
proof -
  assume "newline \<in> set bs"
  then have "dropWhile (\<lambda>x. x \<noteq> newline) bs \<noteq> []" by (auto simp: dropWhile_eq_Nil_conv)
  then have "length (after_line bs) < length (dropWhile (\<lambda>x. x \<noteq> newline) bs)" by (simp add: after_line_def)
  also have "\<dots> \<le> length bs" by (rule length_dropWhile_le)
  finally show ?thesis .
qed

termination message_spec
  by (relation "measure (\<lambda>(sd, bs). length bs)") (auto simp: line_spec_def after_line_shorter split: if_splits)

declare message_spec.simps [simp del]

lemma flat_simps [simp]:
  "flat [] = []" "flat (Chunk b # r) = b @ flat r" "flat (Intr # r) = flat r" "flat (unconsumed b r) = b @ flat r"
  by (simp_all add: flat_def unconsumed_def)

lemma steady_simps [simp]:
  "steady []" "steady (f # r) \<longleftrightarrow> steady_fill f \<and> steady r" "steady r \<Longrightarrow> steady (unconsumed b r)"
  by (simp_all add: steady_def unconsumed_def)

lemma position_newline_None: "position_newline b = None \<longleftrightarrow> newline \<notin> set b"
  by (simp add: position_newline_def)

lemma position_newline_Some:
  assumes "position_newline b = Some i" "newline \<notin> set out"
  shows "newline \<in> set b" "first_line (out @ b @ x) = out @ take i b" "after_line (out @ b @ x) = drop (i + 1) b @ x"
proof -
  have n: "newline \<in> set b" and i: "i = length (takeWhile (\<lambda>x. x \<noteq> newline) b)"
    using assms(1) by (auto simp: position_newline_def split: if_splits)
  have tk: "take i b = takeWhile (\<lambda>x. x \<noteq> newline) b"
    unfolding i by (metis takeWhile_eq_take)
  have dr: "drop i b = dropWhile (\<lambda>x. x \<noteq> newline) b"
    unfolding i by (metis dropWhile_eq_drop)
  have "dropWhile (\<lambda>x. x \<noteq> newline) b \<noteq> []" using n by (auto simp: dropWhile_eq_Nil_conv)
  moreover have "drop (i + 1) b = tl (dropWhile (\<lambda>x. x \<noteq> newline) b)" by (simp add: dr [symmetric] drop_Suc tl_drop)
  ultimately show "first_line (out @ b @ x) = out @ take i b" "after_line (out @ b @ x) = drop (i + 1) b @ x" "newline \<in> set b"
    using n assms(2) tk
    by (auto simp: first_line_def after_line_def takeWhile_append dropWhile_append)
qed

lemma no_newline:
  assumes "newline \<notin> set bs"
  shows "first_line bs = bs" "after_line bs = []"
proof -
  from assms have "\<forall>x \<in> set bs. x \<noteq> newline" by blast
  then show "first_line bs = bs" "after_line bs = []"
    by (simp_all only: first_line_def after_line_def takeWhile_eq_all_conv dropWhile_eq_Nil_conv [THEN iffD2] list.sel)
qed

lemma first_line_skip: "newline \<notin> set out \<Longrightarrow> first_line (out @ bs) = out @ first_line bs"
  "newline \<notin> set out \<Longrightarrow> after_line (out @ bs) = after_line bs"
  by (auto simp: first_line_def after_line_def takeWhile_append dropWhile_append)

lemma discard_spec:
  "steady r \<Longrightarrow> \<exists>r'. discard_to_newline r = (Inr (), r') \<and> flat r' = after_line (flat r) \<and> steady r'"
proof (induction r rule: discard_to_newline.induct)
  case (4 b r)
  show ?case
  proof (cases "position_newline b")
    case None
    then have "newline \<notin> set b" by (simp add: position_newline_None)
    then show ?thesis using 4 None by (auto simp: first_line_skip)
  next
    case (Some i)
    then show ?thesis using 4 position_newline_Some [OF Some, of "[]"] by auto
  qed
qed (auto simp: after_line_def)

lemma read_line_capped_spec:
  assumes "steady r" "newline \<notin> set out" "length out \<le> cap"
  shows "\<exists>res out' r'. read_line_capped r cap out = (res, out', r') \<and> steady r'
    \<and> line_spec cap (out @ flat r) = (map_sum id (\<lambda>eof. (eof, out')) res, flat r')"
  using assms
proof (induction r cap out rule: read_line_capped.induct)
  case (1 cap out)
  then show ?case by (simp add: line_spec_def no_newline)
next
  case (4 b r cap out)
  show ?case
  proof (cases "position_newline b")
    case None
    then have nb: "newline \<notin> set (out @ b)" using 4 by (simp add: position_newline_None)
    obtain r' where d: "discard_to_newline r = (Inr (), r')" "flat r' = after_line (flat r)" "steady r'"
      using discard_spec [of r] 4 by auto
    show ?thesis
    proof (cases "length out + length b > cap")
      case True
      then have "length (first_line ((out @ b) @ flat r)) > cap" unfolding first_line_skip(1) [OF nb] by simp
      then show ?thesis
        using True None d 4 first_line_skip(2) [OF nb, of "flat r"] by (simp add: line_spec_def)
    next
      case False
      then show ?thesis using 4 None nb by simp
    qed
  next
    case (Some i)
    note l = position_newline_Some(2,3) [OF Some \<open>newline \<notin> set out\<close>, of "flat r"]
      position_newline_Some(1) [OF Some \<open>newline \<notin> set out\<close>]
    have "i \<le> length b" using Some by (auto simp: position_newline_def length_takeWhile_le split: if_splits)
    then show ?thesis using 4 Some l by (auto simp: line_spec_def)
  qed
qed simp_all


section \<open>Properties\<close>

lemma read_line_capped_bounded:
  "read_line_capped r cap out = (res, out', r') \<Longrightarrow> length out \<le> cap \<Longrightarrow> length out' \<le> cap"
proof (induction r cap out rule: read_line_capped.induct)
  case (4 b r cap out)
  have i: "i \<le> length b" if "position_newline b = Some i" for i
    using that by (auto simp: position_newline_def length_takeWhile_le split: if_splits)
  show ?case
    using 4 i by (auto split: if_splits option.splits prod.splits sum.splits)
qed auto

lemma read_message_flat:
  "steady r \<Longrightarrow> (fst (read_message sd r), flat (snd (read_message sd r))) = message_spec sd (flat r)
    \<and> steady (snd (read_message sd r))"
proof (induction sd r rule: read_message.induct)
  case (1 sd r)
  obtain res out' r' where l: "read_line_capped r MAX_MESSAGE_BYTES [] = (res, out', r')" "steady r'"
    "line_spec MAX_MESSAGE_BYTES (flat r) = (map_sum id (\<lambda>eof. (eof, out')) res, flat r')"
    using read_line_capped_spec [of r "[]" MAX_MESSAGE_BYTES] "1.prems" by auto
  have IH: "(fst (read_message sd r'), flat (snd (read_message sd r'))) = message_spec sd (flat r') \<and> steady (snd (read_message sd r'))"
    if "res = Inr False" "from_utf8 out' = Some s" "trim s = []" for s
    using "1.IH" [OF l(1) [symmetric] that(1) refl _ that(2) refl that(3)] that l(2) by simp
  show ?case
    using l IH
    by (subst (1 2 3) read_message.simps, subst message_spec.simps)
       (auto simp: Let_def split: sum.splits option.splits)
qed

text \<open>(C18) Framing depends on the bytes alone: however a steady stream is cut into chunks, and with
  any number of interrupted reads between them, \<open>read_message\<close> returns what the reference returns
  on the concatenated bytes and leaves the stream exactly behind the line it consumed, also when it
  refuses a line over the cap, so that the next message is read from its first byte. The line
  buffer never exceeds the cap, whatever the stream does.\<close>

theorem read_message_refines:
  assumes "steady r"
  shows "(fst (read_message sd r), flat (snd (read_message sd r))) = message_spec sd (flat r)
    \<and> steady (snd (read_message sd r))
    \<and> (\<forall>r' res out' rest. read_line_capped r' MAX_MESSAGE_BYTES [] = (res, out', rest) \<longrightarrow> length out' \<le> MAX_MESSAGE_BYTES)"
  using read_message_flat [OF assms] by (auto elim: read_line_capped_bounded)

definition echo_serde :: "(string, string) serde" where
  "echo_serde = \<lparr>from_str = Inr, get_schema = (\<lambda>_. Some 1), from_value = Inr\<rparr>"

theorem read_message_refines_witness:
  "fst (read_message echo_serde [Chunk [10, 104], Intr, Chunk [105, 10, 111]]) = Inr (Some ''hi'')
   \<and> flat (snd (read_message echo_serde [Chunk [10, 104], Intr, Chunk [105, 10, 111]])) = [111]"
proof -
  let ?r = "[Chunk [10, 104], Intr, Chunk [105, 10, 111]]"
  have a: "is_ascii ''hi''" "is_ascii []" by (simp_all add: is_ascii_def)
  have u: "from_utf8 [] = Some []" "from_utf8 [104, 105] = Some ''hi''" "trim ''hi'' = ''hi''"
    using a [THEN is_ascii_is_str] by (simp_all add: as_bytes_def trim_ascii a(1) is_whitespace_def)
  have l1: "line_spec MAX_MESSAGE_BYTES [10, 104, 105, 10, 111] = (Inr (False, []), [104, 105, 10, 111])"
    and l2: "line_spec MAX_MESSAGE_BYTES [104, 105, 10, 111] = (Inr (False, [104, 105]), [111])"
    by (simp_all add: line_spec_def first_line_def after_line_def newline_def MAX_MESSAGE_BYTES_def)
  have "message_spec echo_serde (flat ?r) = (Inr (Some ''hi''), [111])"
    by (simp add: message_spec.simps [of _ "[10, 104, 105, 10, 111]"] message_spec.simps [of _ "[104, 105, 10, 111]"]
        l1 l2 u echo_serde_def decode_message_def WIRE_SCHEMA_def)
  then show ?thesis using read_message_refines [of ?r echo_serde] by simp
qed

text \<open>What the protocol relies on in \<open>serde_json\<close>: compact rendering produces one non-blank line that
  parses back to the rendered envelope.\<close>

definition json_codec :: "('t Envelope \<Rightarrow> string + string) \<Rightarrow> ('v, 't) serde \<Rightarrow> bool" where
  "json_codec render sd \<longleftrightarrow>
     (\<forall>e js. render e = Inr js \<longrightarrow>
        is_str js \<and> newline \<notin> set (as_bytes js) \<and> js \<noteq> [] \<and> trim js = js
        \<and> (\<exists>v. from_str sd js = Inr v \<and> get_schema sd v = Some (schema e) \<and> from_value sd v = Inr (env_body e)))"

lemma after_line_newline: "newline \<notin> set l \<Longrightarrow> first_line (l @ newline # rest) = l" "newline \<notin> set l \<Longrightarrow> after_line (l @ newline # rest) = rest"
  by (simp_all add: first_line_skip) (simp_all add: first_line_def after_line_def)

lemma message_spec_line:
  assumes "json_codec render sd" "render \<lparr>schema = WIRE_SCHEMA, env_body = body\<rparr> = Inr js"
    and len: "length (as_bytes js @ [newline]) \<le> MAX_MESSAGE_BYTES"
  shows "message_spec sd (as_bytes js @ newline # rest) = (Inr (Some body), rest)"
proof -
  obtain v where c: "is_str js" "newline \<notin> set (as_bytes js)" "js \<noteq> []" "trim js = js"
    "from_str sd js = Inr v" "get_schema sd v = Some WIRE_SCHEMA" "from_value sd v = Inr body"
    using assms(1,2) by (fastforce simp: json_codec_def)
  then show ?thesis
    using len by (subst message_spec.simps) (simp add: line_spec_def after_line_newline from_utf8_as_bytes decode_message_def)
qed

text \<open>What one end writes the other reads: a message the writer accepted is decoded to the same
  message by a reader that gets those bytes in any chunks, and the bytes behind it are untouched; a
  message too long for the reader is refused before a byte is sent.\<close>

theorem message_roundtrip:
  assumes "json_codec render sd" and "write_message render body w = (res, w')"
  shows "(res = Inr () \<longrightarrow>
       (\<exists>line. written w' = written w @ line \<and>
          (\<forall>r rest. steady r \<and> flat r = line @ rest \<longrightarrow>
             fst (read_message sd r) = Inr (Some body) \<and> flat (snd (read_message sd r)) = rest)))
    \<and> (res = Inl TooLarge \<longrightarrow> w' = w)"
proof (intro conjI impI)
  assume ok: "res = Inr ()"
  obtain js where js: "render \<lparr>schema = WIRE_SCHEMA, env_body = body\<rparr> = Inr js"
    using assms(2) ok by (auto simp: write_message_def split: sum.splits)
  let ?line = "as_bytes js @ [newline]"
  have len: "length ?line \<le> MAX_MESSAGE_BYTES" and wr: "write_all ?line w = (Inr (), w')"
    using assms(2) ok js by (auto simp: write_message_def Let_def split: if_splits sum.splits prod.splits)
  have w': "written w' = written w @ ?line" using write_all_ok [of ?line w] wr by simp
  note spec = message_spec_line [OF assms(1) js len]
  show "\<exists>line. written w' = written w @ line \<and>
          (\<forall>r rest. steady r \<and> flat r = line @ rest \<longrightarrow>
             fst (read_message sd r) = Inr (Some body) \<and> flat (snd (read_message sd r)) = rest)"
  proof (intro exI [of _ ?line] conjI allI impI)
    fix r rest
    assume r: "steady r \<and> flat r = ?line @ rest"
    then have "(fst (read_message sd r), flat (snd (read_message sd r))) = (Inr (Some body), rest)"
      using read_message_flat [of r sd] spec [of rest] by simp
    then show "fst (read_message sd r) = Inr (Some body)" "flat (snd (read_message sd r)) = rest" by simp_all
  qed (rule w')
next
  assume "res = Inl TooLarge"
  then show "w' = w" using assms(2) by (auto simp: write_message_def Let_def split: if_splits sum.splits prod.splits)
qed

definition flag_render :: "bool Envelope \<Rightarrow> string + string" where
  "flag_render e = (if schema e = 1 then Inr (if env_body e then ''{t}'' else ''{f}'') else Inl ''schema'')"

definition flag_serde :: "(bool, bool) serde" where
  "flag_serde = \<lparr>from_str = (\<lambda>s. if s = ''{t}'' then Inr True else if s = ''{f}'' then Inr False else Inl ''bad''),
     get_schema = (\<lambda>_. Some 1), from_value = Inr\<rparr>"

theorem message_roundtrip_witness:
  "\<exists>w' line. write_message flag_render True \<lparr>written = [], room = None, wfail = BrokenPipe\<rparr> = (Inr (), w') \<and> written w' = line
     \<and> fst (read_message flag_serde [Chunk (take 1 line), Chunk (drop 1 line)]) = Inr (Some True)"
proof -
  let ?w = "\<lparr>written = [], room = None, wfail = BrokenPipe\<rparr>"
  have a: "is_ascii ''{t}''" "is_ascii ''{f}''" by (simp_all add: is_ascii_def)
  have t: "trim ''{t}'' = ''{t}''" "trim ''{f}'' = ''{f}''" by (simp_all add: trim_ascii a is_whitespace_def)
  note i = a [THEN is_ascii_is_str]
  have n: "newline \<notin> set (as_bytes ''{t}'')" "newline \<notin> set (as_bytes ''{f}'')" by (simp_all add: newline_def as_bytes_def)
  have c: "json_codec flag_render flag_serde"
    using t n i by (auto simp: json_codec_def flag_render_def flag_serde_def split: if_splits)
  have w: "write_message flag_render True ?w = (Inr (), ?w\<lparr>written := as_bytes ''{t}'' @ [newline]\<rparr>)"
    by (simp add: write_message_def flag_render_def WIRE_SCHEMA_def write_all_def MAX_MESSAGE_BYTES_def as_bytes_def)
  let ?l = "as_bytes ''{t}'' @ [newline]"
  obtain line where line: "written (?w\<lparr>written := ?l\<rparr>) = written ?w @ line"
    and rd: "\<And>r rest. steady r \<and> flat r = line @ rest \<Longrightarrow> fst (read_message flag_serde r) = Inr (Some True)"
    using message_roundtrip [OF c w] by blast
  have "line = ?l" using line by simp
  moreover have "steady [Chunk (take 1 ?l), Chunk (drop 1 ?l)]" "flat [Chunk (take 1 ?l), Chunk (drop 1 ?l)] = ?l @ []"
    by (simp_all add: as_bytes_def)
  ultimately have "fst (read_message flag_serde [Chunk (take 1 ?l), Chunk (drop 1 ?l)]) = Inr (Some True)"
    using rd by blast
  moreover have "written (?w\<lparr>written := ?l\<rparr>) = ?l" by simp
  ultimately show ?thesis using w by blast
qed

end
