(* ===== verification/Metrics.thy ===== *)
theory Metrics
  imports StrLib
begin

text \<open>
  The daemon's metrics, \<open>crates/cli/src/metrics.rs\<close>: the registry of 64-bit counters, its rendering in
  the Prometheus text format, and the endpoint that answers a scrape. A duration is its nanoseconds.
  The bucket bounds are compared exactly: a duration of whole nanoseconds and a bound of whole
  milliseconds are in the same order as the doubles the code compares. How a double is printed with
  six decimals is a parameter, and so is the version the package was built with.
\<close>

section \<open>Histograms\<close>

definition MAX_REQUEST_BYTES :: usize where "MAX_REQUEST_BYTES = 8 * 1024"
definition SCRAPE_TIMEOUT :: nat where "SCRAPE_TIMEOUT = 5 * 1000000000"

definition BUCKET_BOUNDS :: "(nat \<times> string) list" where
  "BUCKET_BOUNDS =
     [(5000000, ''0.005''), (10000000, ''0.01''), (25000000, ''0.025''), (50000000, ''0.05''), (100000000, ''0.1''),
      (250000000, ''0.25''), (500000000, ''0.5''), (1000000000, ''1''), (2500000000, ''2.5''), (5000000000, ''5''),
      (10000000000, ''10'')]"

record Histogram =
  buckets :: "u64 list"
  sum_micros :: u64
  hist_count :: u64

definition Histogram_default :: Histogram where
  "Histogram_default = \<lparr>buckets = replicate (length BUCKET_BOUNDS) 0, sum_micros = 0, hist_count = 0\<rparr>"

fun position :: "('a \<Rightarrow> bool) \<Rightarrow> 'a list \<Rightarrow> nat option" where
  "position P [] = None"
| "position P (x # xs) = (if P x then Some 0 else map_option Suc (position P xs))"

definition slot_add :: "nat \<Rightarrow> u64 list \<Rightarrow> u64 list" where
  "slot_add i xs = xs[i := xs ! i + 1]"

definition observe :: "nat \<Rightarrow> Histogram \<Rightarrow> Histogram" where
  "observe d h =
     (let h1 = h\<lparr>hist_count := hist_count h + 1\<rparr>;
          h2 = (case position (\<lambda>b. d \<le> fst b) BUCKET_BOUNDS of
                  Some i \<Rightarrow> h1\<lparr>buckets := slot_add i (buckets h1)\<rparr>
                | None \<Rightarrow> h1)
      in h2\<lparr>sum_micros := sum_micros h2 + word_of_nat (min (d div 1000) u64_max)\<rparr>)"

section \<open>The registry\<close>

datatype Verb = VExec | VPut | VGet | VSnapshot | VTrace | VTraceSummary

definition Verb_ALL :: "Verb list" where
  "Verb_ALL = [VExec, VPut, VGet, VSnapshot, VTrace, VTraceSummary]"

fun Verb_name :: "Verb \<Rightarrow> string" where
  "Verb_name VExec = ''exec''"
| "Verb_name VPut = ''put''"
| "Verb_name VGet = ''get''"
| "Verb_name VSnapshot = ''snapshot''"
| "Verb_name VTrace = ''trace''"
| "Verb_name VTraceSummary = ''trace_summary''"

fun Verb_index :: "Verb \<Rightarrow> nat" where
  "Verb_index VExec = 0"
| "Verb_index VPut = 1"
| "Verb_index VGet = 2"
| "Verb_index VSnapshot = 3"
| "Verb_index VTrace = 4"
| "Verb_index VTraceSummary = 5"

record Metrics =
  opened_pooled :: u64
  opened_cold :: u64
  open_failures :: u64
  m_active :: u64
  m_requests :: "u64 list"
  errors_guest :: u64
  errors_infra :: u64
  protocol_errors :: u64
  boot_seconds :: Histogram
  guest_command_seconds :: Histogram

definition Metrics_default :: Metrics where
  "Metrics_default =
     \<lparr>opened_pooled = 0, opened_cold = 0, open_failures = 0, m_active = 0, m_requests = replicate (length Verb_ALL) 0,
      errors_guest = 0, errors_infra = 0, protocol_errors = 0, boot_seconds = Histogram_default,
      guest_command_seconds = Histogram_default\<rparr>"

definition session_opened :: "bool \<Rightarrow> nat \<Rightarrow> Metrics \<Rightarrow> Metrics" where
  "session_opened pooled boot m =
     (let m1 = (if pooled then m\<lparr>opened_pooled := opened_pooled m + 1\<rparr> else m\<lparr>opened_cold := opened_cold m + 1\<rparr>);
          m2 = m1\<lparr>m_active := m_active m1 + 1\<rparr>
      in m2\<lparr>boot_seconds := observe boot (boot_seconds m2)\<rparr>)"

definition open_failed :: "Metrics \<Rightarrow> Metrics" where
  "open_failed m = m\<lparr>open_failures := open_failures m + 1\<rparr>"

definition session_closed :: "Metrics \<Rightarrow> Metrics" where
  "session_closed m = (if m_active m = 0 then m else m\<lparr>m_active := m_active m - 1\<rparr>)"

definition metrics_request :: "Verb \<Rightarrow> Metrics \<Rightarrow> Metrics" where
  "metrics_request verb m = m\<lparr>m_requests := slot_add (Verb_index verb) (m_requests m)\<rparr>"

definition request_failed :: "bool \<Rightarrow> Metrics \<Rightarrow> Metrics" where
  "request_failed guest_fault m =
     (if guest_fault then m\<lparr>errors_guest := errors_guest m + 1\<rparr> else m\<lparr>errors_infra := errors_infra m + 1\<rparr>)"

definition protocol_error :: "Metrics \<Rightarrow> Metrics" where
  "protocol_error m = m\<lparr>protocol_errors := protocol_errors m + 1\<rparr>"

definition guest_command :: "nat \<Rightarrow> Metrics \<Rightarrow> Metrics" where
  "guest_command wall m = m\<lparr>guest_command_seconds := observe wall (guest_command_seconds m)\<rparr>"

section \<open>Rendering\<close>

definition family :: "string \<Rightarrow> string \<Rightarrow> string \<Rightarrow> string \<Rightarrow> string" where
  "family out name help kind =
     out @ ''# HELP '' @ name @ '' '' @ help @ nl @ ''# TYPE '' @ name @ '' '' @ kind @ nl"

definition sample :: "string \<Rightarrow> string \<Rightarrow> string \<Rightarrow> string \<Rightarrow> string" where
  "sample out name labels value = out @ name @ labels @ '' '' @ value @ nl"

definition udec :: "u64 \<Rightarrow> string" where "udec n = dec (unat n)"

definition label :: "string \<Rightarrow> string \<Rightarrow> string" where
  "label key value = ''{'' @ key @ ''='' @ dq @ value @ dq @ ''}''"

fun render_buckets :: "string \<Rightarrow> string \<Rightarrow> u64 \<Rightarrow> (u64 \<times> string) list \<Rightarrow> string \<times> u64" where
  "render_buckets out name cumulative [] = (out, cumulative)"
| "render_buckets out name cumulative ((n, lab) # bs) =
     (let c = cumulative + n in render_buckets (sample out name (''_bucket'' @ label ''le'' lab) (udec c)) name c bs)"

definition Histogram_render :: "(u64 \<Rightarrow> string) \<Rightarrow> Histogram \<Rightarrow> string \<Rightarrow> string \<Rightarrow> string" where
  "Histogram_render fmt_secs h out name =
     (let (out1, cumulative) = render_buckets out name 0 (zip (buckets h) (map snd BUCKET_BOUNDS));
          count = max (hist_count h) cumulative;
          out2 = sample out1 name (''_bucket'' @ label ''le'' ''+Inf'') (udec count);
          out3 = sample out2 name ''_sum'' (fmt_secs (sum_micros h))
      in sample out3 name ''_count'' (udec count))"

definition render_verbs :: "string \<Rightarrow> Metrics \<Rightarrow> string" where
  "render_verbs out m =
     foldl (\<lambda>out verb. sample out ''eke_requests_total'' (label ''verb'' (Verb_name verb))
                         (udec (m_requests m ! Verb_index verb))) out Verb_ALL"

definition Metrics_render :: "string \<Rightarrow> (u64 \<Rightarrow> string) \<Rightarrow> Metrics \<Rightarrow> u64 option \<Rightarrow> string" where
  "Metrics_render version fmt_secs m pool_ready =
     (let o1 = family [] ''eke_build_info'' ''Build metadata; the value is always 1.'' ''gauge'';
          o2 = sample o1 ''eke_build_info'' (label ''version'' version) ''1'';
          o3 = family o2 ''eke_sessions_opened_total'' ''Sessions opened, by whether the warm pool served the boot.'' ''counter'';
          o4 = sample o3 ''eke_sessions_opened_total'' (label ''pooled'' ''true'') (udec (opened_pooled m));
          o5 = sample o4 ''eke_sessions_opened_total'' (label ''pooled'' ''false'') (udec (opened_cold m));
          o6 = family o5 ''eke_session_open_failures_total'' ''Session opens that failed to produce a sandbox.'' ''counter'';
          o7 = sample o6 ''eke_session_open_failures_total'' [] (udec (open_failures m));
          o8 = family o7 ''eke_sessions_active'' ''Sessions currently open (one live microVM each).'' ''gauge'';
          o9 = sample o8 ''eke_sessions_active'' [] (udec (m_active m));
          o10 = family o9 ''eke_requests_total'' ''Requests served after open, by wire verb.'' ''counter'';
          o11 = render_verbs o10 m;
          o12 = family o11 ''eke_request_errors_total''
                  (''Requests answered with an error, by fault kind (guest faults are per-request; infra ''
                   @ ''faults end the session).'') ''counter'';
          o13 = sample o12 ''eke_request_errors_total'' (label ''kind'' ''guest'') (udec (errors_guest m));
          o14 = sample o13 ''eke_request_errors_total'' (label ''kind'' ''infra'') (udec (errors_infra m));
          o15 = family o14 ''eke_protocol_errors_total''
                  ''Wire lines that failed to decode (malformed, oversize, wrong schema).'' ''counter'';
          o16 = sample o15 ''eke_protocol_errors_total'' [] (udec (protocol_errors m));
          o17 = family o16 ''eke_boot_seconds''
                  (''Boot-to-serving latency of session sandboxes (warm pops and cold boots alike; split ''
                   @ ''them via eke_sessions_opened_total's pooled label).'') ''histogram'';
          o18 = Histogram_render fmt_secs (boot_seconds m) o17 ''eke_boot_seconds'';
          o19 = family o18 ''eke_guest_command_seconds''
                  ''Host-observed wall time of guest commands (exec, and the no-op runs carrying put/get).'' ''histogram'';
          o20 = Histogram_render fmt_secs (guest_command_seconds m) o19 ''eke_guest_command_seconds''
      in case pool_ready of
           None \<Rightarrow> o20
         | Some ready \<Rightarrow>
             sample (family o20 ''eke_pool_ready''
               ''Warm clones currently ready in the pre-warmed pool (absent when no pool).'' ''gauge'')
               ''eke_pool_ready'' [] (udec ready))"

section \<open>The endpoint\<close>

definition has_head_end :: "bytes \<Rightarrow> bool" where
  "has_head_end head = list_ex (\<lambda>i. take 4 (drop i head) = [13, 10, 13, 10]) [0..<length head]"

text \<open>What each read of at most 512 bytes yields; an empty one is the end of the stream.\<close>

fun read_request_head :: "(nat \<Rightarrow> nat) \<Rightarrow> nat \<Rightarrow> nat \<Rightarrow> bytes \<Rightarrow> (io_kind + bytes) list \<Rightarrow> io_kind + bytes" where
  "read_request_head clock deadline n head reads =
     (if deadline \<le> clock n then Inl TimedOut
      else case reads of
          [] \<Rightarrow> Inr head
        | Inl e # _ \<Rightarrow> Inl e
        | Inr chunk # reads' \<Rightarrow>
            if chunk = [] then Inr head
            else
              (let head' = head @ chunk in
               if has_head_end head' then Inr head'
               else if length head' > MAX_REQUEST_BYTES then Inl InvalidData
               else read_request_head clock deadline (Suc n) head' reads'))"

declare read_request_head.simps [simp del]

definition is_get_metrics :: "bytes \<Rightarrow> bool" where
  "is_get_metrics head =
     (case from_utf8 head of
        None \<Rightarrow> False
      | Some s \<Rightarrow>
          (case str_lines s of
             [] \<Rightarrow> False
           | line # _ \<Rightarrow>
               (let parts = split_whitespace line;
                    meth = (case parts of p # _ \<Rightarrow> p | [] \<Rightarrow> []);
                    target = (case parts of _ # p # _ \<Rightarrow> p | _ \<Rightarrow> [])
                in meth = ''GET'' \<and> (target = ''/metrics'' \<or> strip_prefix ''/metrics?'' target \<noteq> None))))"

definition scrape_response :: "string \<Rightarrow> (u64 \<Rightarrow> string) \<Rightarrow> Metrics \<Rightarrow> u64 option \<Rightarrow> bytes \<Rightarrow> string" where
  "scrape_response version fmt_secs m pool_ready head =
     (let (status, content_type, body) =
            (if is_get_metrics head
             then (''200 OK'', ''text/plain; version=0.0.4; charset=utf-8'', Metrics_render version fmt_secs m pool_ready)
             else (''404 Not Found'', ''text/plain; charset=utf-8'', ''not found'' @ nl))
      in ''HTTP/1.1 '' @ status @ crlf @ ''Content-Type: '' @ content_type @ crlf @ ''Content-Length: ''
         @ dec (length body) @ crlf @ ''Connection: close'' @ crlf @ crlf @ body)"

definition answer_scrape ::
    "string \<Rightarrow> (u64 \<Rightarrow> string) \<Rightarrow> (nat \<Rightarrow> nat) \<Rightarrow> Metrics \<Rightarrow> u64 option \<Rightarrow> (io_kind + bytes) list \<Rightarrow> (writer, io_kind, unit) smethod" where
  "answer_scrape version fmt_secs clock m pool_ready reads w =
     (case read_request_head clock (clock 0 + SCRAPE_TIMEOUT) 1 [] reads of
        Inl e \<Rightarrow> (Inl e, w)
      | Inr head \<Rightarrow> write_all (as_bytes (scrape_response version fmt_secs m pool_ready head)) w)"

section \<open>What a histogram states\<close>

definition at_most :: "nat \<Rightarrow> nat list \<Rightarrow> nat" where
  "at_most bound ds = length (filter (\<lambda>d. d \<le> bound) ds)"

definition slot_of :: "nat \<Rightarrow> nat option" where
  "slot_of d = position (\<lambda>b. d \<le> fst b) BUCKET_BOUNDS"

lemma position_Some:
  "position P xs = Some i \<longleftrightarrow> i < length xs \<and> P (xs ! i) \<and> (\<forall>j < i. \<not> P (xs ! j))"
proof (induction xs arbitrary: i)
  case (Cons x xs)
  then show ?case by (cases i) (auto simp: less_Suc_eq_0_disj)
qed simp

lemma position_None: "position P xs = None \<longleftrightarrow> (\<forall>x \<in> set xs. \<not> P x)"
  by (induction xs) auto

lemma length_bounds [simp]: "length BUCKET_BOUNDS = 11"
  by (simp add: BUCKET_BOUNDS_def)

lemma bounds_sorted: "i \<le> j \<Longrightarrow> j < 11 \<Longrightarrow> fst (BUCKET_BOUNDS ! i) \<le> fst (BUCKET_BOUNDS ! j)"
proof -
  have "sorted (map fst BUCKET_BOUNDS)" by (simp add: BUCKET_BOUNDS_def)
  then show "i \<le> j \<Longrightarrow> j < 11 \<Longrightarrow> fst (BUCKET_BOUNDS ! i) \<le> fst (BUCKET_BOUNDS ! j)"
    using sorted_nth_mono [of "map fst BUCKET_BOUNDS" i j] by simp
qed

lemma slot_of_le: "i < 11 \<Longrightarrow> d \<le> fst (BUCKET_BOUNDS ! i) \<longleftrightarrow> (\<exists>j \<le> i. slot_of d = Some j)"
proof
  assume i: "i < 11" and d: "d \<le> fst (BUCKET_BOUNDS ! i)"
  define j where "j = (LEAST j. d \<le> fst (BUCKET_BOUNDS ! j))"
  have "d \<le> fst (BUCKET_BOUNDS ! j)" "j \<le> i" unfolding j_def using d by (auto intro: LeastI Least_le)
  moreover have "\<forall>k < j. \<not> d \<le> fst (BUCKET_BOUNDS ! k)" unfolding j_def using not_less_Least by blast
  ultimately show "\<exists>j \<le> i. slot_of d = Some j" using i by (auto simp: slot_of_def position_Some intro!: exI [of _ j])
next
  assume i: "i < 11" and "\<exists>j \<le> i. slot_of d = Some j"
  then obtain j where "j \<le> i" "d \<le> fst (BUCKET_BOUNDS ! j)" by (auto simp: slot_of_def position_Some)
  then show "d \<le> fst (BUCKET_BOUNDS ! i)" using bounds_sorted [of j i] i by linarith
qed

lemma observe_parts:
  "hist_count (observe d h) = hist_count h + 1"
  "sum_micros (observe d h) = sum_micros h + word_of_nat (min (d div 1000) u64_max)"
  "buckets (observe d h) = (case slot_of d of Some i \<Rightarrow> slot_add i (buckets h) | None \<Rightarrow> buckets h)"
  by (simp_all add: observe_def slot_of_def Let_def split: option.splits)

lemma slot_add_sum:
  "i < length xs \<Longrightarrow> sum_list (take n (slot_add i xs)) = sum_list (take n xs) + (if i < n then 1 else 0)"
proof (induction xs arbitrary: i n)
  case (Cons x xs)
  then show ?case by (cases n; cases i) (auto simp: slot_add_def)
qed simp

lemma fold_observe:
  "length (buckets h) = 11 \<Longrightarrow>
   length (buckets (fold observe ds h)) = 11
   \<and> hist_count (fold observe ds h) = hist_count h + of_nat (length ds)
   \<and> sum_micros (fold observe ds h) = sum_micros h + of_nat (sum_list (map (\<lambda>d. min (d div 1000) u64_max) ds))
   \<and> (\<forall>i < 11. sum_list (take (Suc i) (buckets (fold observe ds h)))
        = sum_list (take (Suc i) (buckets h)) + of_nat (at_most (fst (BUCKET_BOUNDS ! i)) ds))"
proof (induction ds arbitrary: h)
  case (Cons d ds)
  have len: "length (buckets (observe d h)) = 11"
    using Cons.prems by (simp add: observe_parts slot_add_def split: option.splits)
  have one: "sum_list (take (Suc i) (buckets (observe d h)))
      = sum_list (take (Suc i) (buckets h)) + (if d \<le> fst (BUCKET_BOUNDS ! i) then 1 else 0)" if i: "i < 11" for i
  proof (cases "slot_of d")
    case None
    then show ?thesis using slot_of_le [OF i] by (simp add: observe_parts)
  next
    case (Some j)
    then have "j < length (buckets h)" using Cons.prems by (simp add: slot_of_def position_Some)
    then show ?thesis using Some slot_of_le [OF i, of d] by (simp add: observe_parts slot_add_sum less_Suc_eq_le)
  qed
  show ?case using Cons.IH [OF len] one by (simp add: observe_parts at_most_def algebra_simps)
qed (simp add: at_most_def)

definition bucket_line :: "string \<Rightarrow> string \<Rightarrow> string \<Rightarrow> string" where
  "bucket_line name lab value = name @ ''_bucket'' @ label ''le'' lab @ '' '' @ value @ nl"

lemma sample_bucket: "sample out name (''_bucket'' @ label ''le'' lab) v = out @ bucket_line name lab v"
  by (simp add: sample_def bucket_line_def)

lemma render_buckets_lines:
  "length ns = length labs \<Longrightarrow>
   render_buckets out name c (zip ns labs)
     = (out @ concat (map (\<lambda>i. bucket_line name (labs ! i) (udec (c + sum_list (take (Suc i) ns)))) [0..<length ns]), c + sum_list ns)"
proof (induction ns arbitrary: labs out c)
  case (Cons n ns)
  then obtain lab labs' where l: "labs = lab # labs'" by (cases labs) auto
  have m: "map f [0..<Suc k] = f 0 # map (\<lambda>i. f (Suc i)) [0..<k]" for f :: "nat \<Rightarrow> string" and k
    by (simp only: map_upt_Suc)
  show ?case using Cons l
    by (simp del: upt_Suc add: m sample_def bucket_line_def Let_def add.assoc)
qed simp

text \<open>(C23) A histogram says what it means: after any sequence of fewer than 2 to the 64 observations, the
  rendered text has for every bound a line with exactly the number of observations at or under that
  bound, \<open>+Inf\<close> and \<open>_count\<close> lines with their total number, and a sum of their microseconds; in
  particular the lines are cumulative and the order of the observations does not matter.\<close>

theorem histogram_rendered_exactly:
  assumes "length ds < 2 ^ 64"
  shows "Histogram_render fmt_secs (fold observe ds Histogram_default) out name =
    out @ concat (map (\<lambda>(bound, lab). bucket_line name lab (dec (at_most bound ds))) BUCKET_BOUNDS)
    @ bucket_line name ''+Inf'' (dec (length ds))
    @ name @ ''_sum'' @ '' '' @ fmt_secs (of_nat (sum_list (map (\<lambda>d. min (d div 1000) u64_max) ds))) @ nl
    @ name @ ''_count'' @ '' '' @ dec (length ds) @ nl"
proof -
  let ?h = "fold observe ds Histogram_default"
  have h: "length (buckets ?h) = 11" "hist_count ?h = of_nat (length ds)"
    "sum_micros ?h = of_nat (sum_list (map (\<lambda>d. min (d div 1000) u64_max) ds))"
    and c: "\<And>i. i < 11 \<Longrightarrow> sum_list (take (Suc i) (buckets ?h)) = of_nat (at_most (fst (BUCKET_BOUNDS ! i)) ds)"
    using fold_observe [of Histogram_default ds] by (simp_all add: Histogram_default_def take_replicate sum_list_replicate)
  have le: "at_most b ds \<le> length ds" for b by (simp add: at_most_def)
  then have u: "udec (of_nat (at_most b ds)) = dec (at_most b ds)" for b
    using assms le_less_trans [OF le [of b]] by (simp add: udec_def unat_of_nat)
  have total: "sum_list (buckets ?h) = of_nat (at_most (fst (BUCKET_BOUNDS ! 10)) ds)"
    using c [of 10] h(1) by simp
  have "unat (of_nat (at_most (fst (BUCKET_BOUNDS ! 10)) ds) :: u64) \<le> unat (of_nat (length ds) :: u64)"
    using assms by (simp add: unat_of_nat) (metis le mod_less_eq_dividend order_trans)
  then have mx: "max (hist_count ?h) (sum_list (buckets ?h)) = of_nat (length ds)"
    by (simp add: h(2) total max.absorb1 word_le_nat_alt)
  have lines: "concat (map (\<lambda>i. bucket_line name (map snd BUCKET_BOUNDS ! i) (udec (sum_list (take (Suc i) (buckets ?h))))) [0..<11])
      = concat (map (\<lambda>(bound, lab). bucket_line name lab (dec (at_most bound ds))) BUCKET_BOUNDS)"
  proof -
    have "map (\<lambda>i. bucket_line name (map snd BUCKET_BOUNDS ! i) (udec (sum_list (take (Suc i) (buckets ?h))))) [0..<11]
        = map (\<lambda>i. (\<lambda>(bound, lab). bucket_line name lab (dec (at_most bound ds))) (BUCKET_BOUNDS ! i)) [0..<length BUCKET_BOUNDS]"
      by (rule map_cong) (simp_all add: c u case_prod_unfold)
    also have "\<dots> = map (\<lambda>(bound, lab). bucket_line name lab (dec (at_most bound ds))) BUCKET_BOUNDS"
      by (rule nth_equalityI) simp_all
    finally show ?thesis by simp
  qed
  have "udec (of_nat (length ds)) = dec (length ds)" using assms by (simp add: udec_def unat_of_nat)
  then show ?thesis
    using render_buckets_lines [of "buckets ?h" "map snd BUCKET_BOUNDS" out name 0] h(1)
    unfolding Histogram_render_def sample_bucket by (simp add: Let_def mx lines sample_def h(3))
qed

theorem histogram_rendered_exactly_witness:
  "\<exists>rest. Histogram_render udec (fold observe [3000000, 7000000000, 3000001] Histogram_default) [] ''t''
     = bucket_line ''t'' ''0.005'' (dec 2) @ rest"
proof -
  have "length [3000000, 7000000000, 3000001 :: nat] < 2 ^ 64" by simp
  note r = histogram_rendered_exactly [OF this, of udec "[]" "''t''"]
  have first: "concat (map f BUCKET_BOUNDS) = f (5000000, ''0.005'') @ concat (map f (tl BUCKET_BOUNDS))" for f :: "nat \<times> string \<Rightarrow> string"
    by (simp add: BUCKET_BOUNDS_def)
  have two: "at_most 5000000 [3000000, 7000000000, 3000001] = 2" by (simp add: at_most_def)
  show ?thesis unfolding r first by (simp only: append_Nil append_assoc case_prod_conv two) (rule exI, rule refl)
qed

end
