(* ===== verification/Signing.thy ===== *)
theory Signing
  imports StrLib
begin

text \<open>
  Signed audit records, \<open>crates/eke-probes-loader/src/signing.rs\<close>: the hexadecimal codec, the escaping
  of a record inside its envelope, the envelope, its verification, and the hash chain of a session's
  records. The signature scheme, the hash and the JSON parser are parameters; the file system of the
  signing key is the part of it the publication protocol uses.
\<close>

section \<open>Hexadecimal\<close>

definition HEX :: string where "HEX = ''0123456789abcdef''"

definition hex_encode :: "bytes \<Rightarrow> string" where
  "hex_encode bs = concat (map (\<lambda>b. [HEX ! unat (drop_bit 4 b), HEX ! unat (b AND 0x0f)]) bs)"

definition hexval :: "u8 \<Rightarrow> u8 option" where
  "hexval c =
     (if 48 \<le> c \<and> c \<le> 57 then Some (c - 48)
      else if 97 \<le> c \<and> c \<le> 102 then Some (c - 97 + 10)
      else if 65 \<le> c \<and> c \<le> 70 then Some (c - 65 + 10)
      else None)"

fun hex_pairs :: "bytes \<Rightarrow> bytes option" where
  "hex_pairs [] = Some []"
| "hex_pairs [_] = None"
| "hex_pairs (a # b # bs) =
     (case hexval a of
        None \<Rightarrow> None
      | Some x \<Rightarrow>
          (case hexval b of
             None \<Rightarrow> None
           | Some y \<Rightarrow> map_option (\<lambda>r. (push_bit 4 x OR y) # r) (hex_pairs bs)))"

definition hex_decode :: "string \<Rightarrow> nat \<Rightarrow> bytes option" where
  "hex_decode s n = (if length s \<noteq> n * 2 then None else hex_pairs (as_bytes s))"

section \<open>Escaping\<close>

text \<open>The characters that are escaped are ASCII, so escaping works byte by byte.\<close>

definition json_escape_char :: "char \<Rightarrow> string" where
  "json_escape_char c =
     (let n = of_char c :: nat in
      if n = 34 then [CHR 0x5C, CHR 0x22]
      else if n = 92 then [CHR 0x5C, CHR 0x5C]
      else if n = 10 then [CHR 0x5C, CHR ''n'']
      else if n = 13 then [CHR 0x5C, CHR ''r'']
      else if n = 9 then [CHR 0x5C, CHR ''t'']
      else if n < 0x20 then [CHR 0x5C, CHR ''u''] @ hex_pad 4 n
      else [c])"

definition push_json_string :: "string \<Rightarrow> string \<Rightarrow> string" where
  "push_json_string out s = out @ concat (map json_escape_char s)"

section \<open>Keys and envelopes\<close>

record ('sk, 'pk, 'v) crypto =
  cr_sign :: "'sk \<Rightarrow> bytes \<Rightarrow> bytes"
  cr_verifying_key :: "'sk \<Rightarrow> 'pk"
  cr_key_bytes :: "'pk \<Rightarrow> bytes"
  cr_key_from_bytes :: "bytes \<Rightarrow> string + 'pk"
  cr_verify_strict :: "'pk \<Rightarrow> bytes \<Rightarrow> bytes \<Rightarrow> bool"
  cr_seed :: "bytes \<Rightarrow> 'sk"
  cr_seed_bytes :: "'sk \<Rightarrow> bytes"
  cr_sha256 :: "bytes \<Rightarrow> bytes"
  js_parse :: "string \<Rightarrow> string + 'v"
  js_get_str :: "'v \<Rightarrow> string \<Rightarrow> string option"

definition SIGNED_RECORD_SCHEMA_VERSION :: nat where "SIGNED_RECORD_SCHEMA_VERSION = 2"
definition MAX_ENVELOPE_BYTES :: usize where "MAX_ENVELOPE_BYTES = 16 * 1024 * 1024"

datatype KeyError = KeyIo io_kind | KeyMalformed string

datatype VerifyError = VMalformed string | UntrustedKey string | BadSignature | VTooLarge usize

datatype ChainError = Entry nat VerifyError | BrokenLink nat

fun VerifyError_display :: "VerifyError \<Rightarrow> string" where
  "VerifyError_display (VMalformed m) = ''not a signed record envelope: '' @ m"
| "VerifyError_display (UntrustedKey k) = ''record signed by an untrusted key (key_id '' @ k @ '')''"
| "VerifyError_display BadSignature = ''signature does not verify: the record was altered or mis-signed''"
| "VerifyError_display (VTooLarge n) =
     ''envelope is '' @ dec n @ '' bytes, over the '' @ dec MAX_ENVELOPE_BYTES @ ''-byte bound; not a signed record''"

definition key_id :: "('sk, 'pk, 'v) crypto \<Rightarrow> 'pk \<Rightarrow> string" where
  "key_id cr pk = hex_encode (cr_key_bytes cr pk)"

definition record_hash :: "('sk, 'pk, 'v) crypto \<Rightarrow> string \<Rightarrow> string" where
  "record_hash cr canonical = hex_encode (cr_sha256 cr (as_bytes canonical))"

definition link_message :: "string \<Rightarrow> string \<Rightarrow> string" where
  "link_message prev canonical = prev @ nl @ canonical"

definition signed_message :: "string option \<Rightarrow> string \<Rightarrow> string" where
  "signed_message prev canonical = (case prev of Some p \<Rightarrow> link_message p canonical | None \<Rightarrow> canonical)"

definition sign_canonical_chained :: "('sk, 'pk, 'v) crypto \<Rightarrow> 'sk \<Rightarrow> string \<Rightarrow> string option \<Rightarrow> string" where
  "sign_canonical_chained cr sk canonical prev =
     (let sig_hex = hex_encode (cr_sign cr sk (as_bytes (signed_message prev canonical)));
          o1 = ''{'' @ dq @ ''schema'' @ dq @ '':'' @ dec SIGNED_RECORD_SCHEMA_VERSION;
          o2 = o1 @ '','' @ dq @ ''key_id'' @ dq @ '':'' @ dq @ key_id cr (cr_verifying_key cr sk);
          o3 = o2 @ dq @ '','' @ dq @ ''signature'' @ dq @ '':'' @ dq @ sig_hex @ dq;
          o4 = (case prev of None \<Rightarrow> o3 | Some p \<Rightarrow> o3 @ '','' @ dq @ ''prev'' @ dq @ '':'' @ dq @ p @ dq);
          o5 = o4 @ '','' @ dq @ ''record'' @ dq @ '':'' @ dq
      in push_json_string o5 canonical @ dq @ ''}'')"

definition TrustedKey_from_hex :: "('sk, 'pk, 'v) crypto \<Rightarrow> string \<Rightarrow> KeyError + 'pk" where
  "TrustedKey_from_hex cr hex =
     (case hex_decode (trim hex) 32 of
        None \<Rightarrow> Inl (KeyMalformed ''public key is not 32-byte hex'')
      | Some bs \<Rightarrow> map_err (\<lambda>e. KeyMalformed (''not a valid ed25519 public key: '' @ e)) (cr_key_from_bytes cr bs))"

section \<open>Verification\<close>

definition str_field :: "('sk, 'pk, 'v) crypto \<Rightarrow> 'v \<Rightarrow> string \<Rightarrow> VerifyError + string" where
  "str_field cr v name = ok_or (js_get_str cr v name) (VMalformed (''missing string field `'' @ name @ ''`''))"

definition verify_entry :: "('sk, 'pk, 'v) crypto \<Rightarrow> 'pk list \<Rightarrow> string \<Rightarrow> VerifyError + string \<times> string option" where
  "verify_entry cr trusted envelope =
     (if length envelope > MAX_ENVELOPE_BYTES then Inl (VTooLarge (length envelope))
      else
        and_then (map_err VMalformed (js_parse cr envelope)) (\<lambda>v.
        and_then (str_field cr v ''record'') (\<lambda>rec.
        and_then (str_field cr v ''key_id'') (\<lambda>kid.
        and_then (str_field cr v ''signature'') (\<lambda>sig_hex.
        let prev = js_get_str cr v ''prev'' in
        and_then (ok_or (hex_decode sig_hex 64) (VMalformed ''signature is not 64-byte hex'')) (\<lambda>sig.
        and_then (ok_or (find (\<lambda>k. key_id cr k = kid) trusted) (UntrustedKey kid)) (\<lambda>key.
        if cr_verify_strict cr key (as_bytes (signed_message prev rec)) sig
        then Inr (rec, prev) else Inl BadSignature)))))))"

definition verify :: "('sk, 'pk, 'v) crypto \<Rightarrow> 'pk list \<Rightarrow> string \<Rightarrow> VerifyError + string" where
  "verify cr trusted envelope = and_then (verify_entry cr trusted envelope) (\<lambda>(rec, prev). Inr rec)"

fun chain_loop ::
    "('sk, 'pk, 'v) crypto \<Rightarrow> 'pk list \<Rightarrow> nat \<Rightarrow> string option \<Rightarrow> string list \<Rightarrow> ChainError + string list" where
  "chain_loop cr trusted index expected_prev [] = Inr []"
| "chain_loop cr trusted index expected_prev (envelope # envelopes) =
     (case verify_entry cr trusted envelope of
        Inl e \<Rightarrow> Inl (Entry index e)
      | Inr (rec, prev) \<Rightarrow>
          if prev \<noteq> expected_prev then Inl (BrokenLink index)
          else and_then (chain_loop cr trusted (Suc index) (Some (record_hash cr rec)) envelopes) (\<lambda>rs. Inr (rec # rs)))"

definition verify_chain :: "('sk, 'pk, 'v) crypto \<Rightarrow> 'pk list \<Rightarrow> string list \<Rightarrow> ChainError + string list" where
  "verify_chain cr trusted envelopes = chain_loop cr trusted 0 None envelopes"

section \<open>The key file\<close>

text \<open>The directory of the key, and what fails: creating parents, opening the staging file, writing it,
  linking it into place. The staging file is removed on every way out.\<close>

record key_io =
  kf_mkdirs :: "io_kind option"
  kf_open :: "io_kind option"
  kf_write :: "io_kind option"
  kf_link :: "io_kind option"

type_synonym key_dir = "string \<rightharpoonup> string"

definition HostKey_load :: "('sk, 'pk, 'v) crypto \<Rightarrow> io_kind + string \<Rightarrow> KeyError + 'sk" where
  "HostKey_load cr content =
     (case content of
        Inl e \<Rightarrow> Inl (KeyIo e)
      | Inr contents \<Rightarrow>
          (case hex_decode (trim contents) 32 of
             None \<Rightarrow> Inl (KeyMalformed ''signing-key file is not a 32-byte hex seed'')
           | Some seed \<Rightarrow> Inr (cr_seed cr seed)))"

definition read_key :: "key_dir \<Rightarrow> string \<Rightarrow> io_kind + string" where
  "read_key dir path = (case dir path of None \<Rightarrow> Inl NotFound | Some contents \<Rightarrow> Inr contents)"

definition persist :: "('sk, 'pk, 'v) crypto \<Rightarrow> key_io \<Rightarrow> string \<Rightarrow> string \<Rightarrow> 'sk \<Rightarrow> key_dir \<Rightarrow> (KeyError + bool) \<times> key_dir" where
  "persist cr io path tmp sk dir =
     (case kf_mkdirs io of
        Some e \<Rightarrow> (Inl (KeyIo e), dir)
      | None \<Rightarrow>
          (case kf_open io of
             Some e \<Rightarrow> (Inl (KeyIo e), dir(tmp := None))
           | None \<Rightarrow>
               (let hex = hex_encode (cr_seed_bytes cr sk) @ nl; dir1 = dir(tmp \<mapsto> hex) in
                case kf_write io of
                  Some e \<Rightarrow> (Inl (KeyIo e), dir1(tmp := None))
                | None \<Rightarrow>
                    (case dir path of
                       Some _ \<Rightarrow> (Inr False, dir1(tmp := None))
                     | None \<Rightarrow>
                         (case kf_link io of
                            Some e \<Rightarrow> (Inl (KeyIo e), dir1(tmp := None))
                          | None \<Rightarrow> (Inr True, dir1(path \<mapsto> hex, tmp := None)))))))"

text \<open>\<open>seen\<close> is the directory when the file was looked for, \<open>dir\<close> when the candidate is published:
  another process may have published in between.\<close>

definition load_or_generate ::
    "('sk, 'pk, 'v) crypto \<Rightarrow> key_io \<Rightarrow> string \<Rightarrow> string \<Rightarrow> io_kind + bytes \<Rightarrow> key_dir \<Rightarrow> key_dir \<Rightarrow> (KeyError + 'sk) \<times> key_dir" where
  "load_or_generate cr io path tmp random_seed seen dir =
     (if seen path \<noteq> None then (HostKey_load cr (read_key dir path), dir)
      else
        (case random_seed of
           Inl e \<Rightarrow> (Inl (KeyIo e), dir)
         | Inr seed \<Rightarrow>
             (let sk = cr_seed cr seed in
              case persist cr io path tmp sk dir of
                (Inl e, dir1) \<Rightarrow> (Inl e, dir1)
              | (Inr True, dir1) \<Rightarrow> (Inr sk, dir1)
              | (Inr False, dir1) \<Rightarrow> (HostKey_load cr (read_key dir1 path), dir1))))"

section \<open>Hexadecimal round trip\<close>

lemma hex_digit_values:
  "n < 16 \<Longrightarrow> hexval (word_of_nat (of_char (HEX ! n))) = Some (word_of_nat n)"
  "n < 16 \<Longrightarrow> (of_char (HEX ! n) :: nat) < 128 \<and> of_char (HEX ! n) \<ge> (48 :: nat)
     \<and> (of_char (HEX ! n) :: nat) \<noteq> 92"
proof -
  have "list_all (\<lambda>n. hexval (word_of_nat (of_char (HEX ! n))) = Some (word_of_nat n)
      \<and> (of_char (HEX ! n) :: nat) < 128 \<and> of_char (HEX ! n) \<ge> (48 :: nat) \<and> (of_char (HEX ! n) :: nat) \<noteq> 92) [0..<16]"
    by code_simp
  then show "n < 16 \<Longrightarrow> hexval (word_of_nat (of_char (HEX ! n))) = Some (word_of_nat n)"
    "n < 16 \<Longrightarrow> (of_char (HEX ! n) :: nat) < 128 \<and> of_char (HEX ! n) \<ge> (48 :: nat) \<and> (of_char (HEX ! n) :: nat) \<noteq> 92"
    by (auto simp: list_all_iff)
qed

lemma nibble_range: "unat (drop_bit 4 (b :: u8)) < 16" "unat (b AND 0x0f :: u8) < 16"
proof -
  show "unat (drop_bit 4 b) < 16"
    using unat_less_pow [of b] by (simp only: unsigned_drop_bit_eq) (simp add: drop_bit_eq_div take_bit_eq_mod less_mult_imp_div_less)
  have "b AND 0x0f = take_bit 4 b" by (simp add: take_bit_eq_mask mask_eq_exp_minus_1)
  then have "unat (b AND 0x0f) = take_bit 4 (unat b)" by (simp only: unsigned_take_bit_eq)
  then show "unat (b AND 0x0f) < 16" by (simp add: take_bit_eq_mod)
qed

lemma nibbles_join: "push_bit 4 (drop_bit 4 (b :: u8)) OR (b AND 0x0f) = b"
proof -
  have "b AND 0x0f = take_bit 4 b" by (simp add: take_bit_eq_mask mask_eq_exp_minus_1)
  then show ?thesis by (auto simp: bit_eq_iff bit_or_iff bit_push_bit_iff bit_drop_bit_eq bit_take_bit_iff)
qed

lemma length_hex_encode [simp]: "length (hex_encode bs) = 2 * length bs"
  by (induction bs) (simp_all add: hex_encode_def)

lemma hex_pairs_encode: "hex_pairs (as_bytes (hex_encode bs)) = Some bs"
  by (induction bs) (simp_all add: hex_encode_def as_bytes_def hex_digit_values(1) nibble_range nibbles_join)

lemma hex_decode_encode: "length bs = n \<Longrightarrow> hex_decode (hex_encode bs) n = Some bs"
  by (simp add: hex_decode_def hex_pairs_encode)

definition hex_char :: "char \<Rightarrow> bool" where
  "hex_char c \<longleftrightarrow> (of_char c :: nat) < 128 \<and> (48 :: nat) \<le> of_char c \<and> (of_char c :: nat) \<noteq> 92"

lemma hex_encode_chars: "list_all hex_char (hex_encode bs)"
  by (induction bs) (simp_all add: hex_encode_def hex_char_def hex_digit_values nibble_range)

lemma escape_hex: "list_all hex_char s \<Longrightarrow> concat (map json_escape_char s) = s"
  by (induction s) (auto simp: json_escape_char_def hex_char_def Let_def)

lemma hex_is_str: "list_all hex_char s \<Longrightarrow> is_str s"
  by (rule is_ascii_is_str) (auto simp: is_ascii_def hex_char_def list_all_iff)

lemma hex_no_newline: "list_all hex_char s \<Longrightarrow> CHR 0x0A \<notin> set s"
  by (auto simp: list_all_iff hex_char_def)

section \<open>Publishing the key\<close>

text \<open>The seed survives its key, as the documentation of the signature library states.\<close>

definition seed_law :: "('sk, 'pk, 'v) crypto \<Rightarrow> bool" where
  "seed_law cr \<longleftrightarrow> (\<forall>b. length b = 32 \<longrightarrow> cr_seed_bytes cr (cr_seed cr b) = b)"

lemma persist_keeps: "dir path = Some c \<Longrightarrow> tmp \<noteq> path \<Longrightarrow> snd (persist cr io path tmp sk dir) path = Some c"
  by (auto simp: persist_def Let_def split: option.splits)

lemma persist_no_staging: "dir tmp = None \<Longrightarrow> tmp \<noteq> path \<Longrightarrow> snd (persist cr io path tmp sk dir) tmp = None"
  by (auto simp: persist_def Let_def split: option.splits)

text \<open>Concurrent first runs converge: whoever returns a key returns the one in the file, nobody
  replaces a published key, and no staging file is left.\<close>

lemma trim_hex_line: "list_all hex_char s \<Longrightarrow> trim (s @ nl) = s"
proof -
  assume h: "list_all hex_char s"
  then have a: "is_ascii (s @ nl)" and sa: "is_ascii s" by (auto simp: is_ascii_def hex_char_def list_all_iff nl_def)
  let ?cs = "map of_char s :: nat list"
  have w: "\<not> is_whitespace n" if "n \<in> set ?cs" for n
    using h that by (auto simp: list_all_iff hex_char_def is_whitespace_def)
  have drop: "dropWhile is_whitespace xs = xs" if "\<forall>x \<in> set xs. \<not> is_whitespace x" for xs :: "nat list"
    using that by (cases xs) simp_all
  have n: "(map of_char (s @ nl) :: nat list) = ?cs @ [10]" by (simp add: nl_def)
  have "dropWhile is_whitespace (rev (dropWhile is_whitespace (?cs @ [10]))) = rev ?cs"
  proof (cases s)
    case Nil
    then show ?thesis by (simp add: is_whitespace_def)
  next
    case (Cons c cs)
    then have "dropWhile is_whitespace (?cs @ [10]) = ?cs @ [10]" using w by simp
    moreover have "dropWhile is_whitespace (rev ?cs) = rev ?cs" by (rule drop) (use w in simp)
    ultimately show ?thesis by (simp add: is_whitespace_def)
  qed
  then show ?thesis
    by (simp only: trim_def utf8_chars_ascii [OF a] n rev_rev_ident string_of_chars_ascii [OF sa])
qed

lemma load_or_generate_published:
  assumes "load_or_generate cr io path tmp rnd seen dir = (Inr sk, dir1)" "tmp \<noteq> path" "seed_law cr"
    and "\<And>b. rnd = Inr b \<Longrightarrow> length b = 32"
  shows "HostKey_load cr (read_key dir1 path) = Inr sk"
proof (cases "seen path")
  case None
  then obtain b where b: "rnd = Inr b" using assms(1) by (auto simp: load_or_generate_def split: sum.splits)
  let ?sk = "cr_seed cr b"
  obtain r d1 where p: "persist cr io path tmp ?sk dir = (r, d1)" by (cases "persist cr io path tmp ?sk dir")
  note res = assms(1) [unfolded load_or_generate_def, simplified None b p Let_def]
  show ?thesis
  proof (cases "r = Inr True")
    case True
    have seed: "cr_seed_bytes cr ?sk = b" using assms(3,4) b by (simp add: seed_law_def)
    have "d1 path = Some (hex_encode b @ nl)"
      using p True assms(2) seed by (auto simp: persist_def Let_def split: option.splits)
    then show ?thesis
      using True res p trim_hex_line [OF hex_encode_chars, of b] hex_decode_encode [of b 32] assms(4) b
      by (simp add: HostKey_load_def read_key_def)
  next
    case False
    then show ?thesis using res p by (cases r) auto
  qed
next
  case (Some c)
  then show ?thesis using assms(1) by (auto simp: load_or_generate_def)
qed

section \<open>Chains\<close>

text \<open>What a session does with its records: each is signed together with the hash of the one before.\<close>

fun sign_chain :: "('sk, 'pk, 'v) crypto \<Rightarrow> 'sk \<Rightarrow> string option \<Rightarrow> string list \<Rightarrow> string list" where
  "sign_chain cr sk prev [] = []"
| "sign_chain cr sk prev (rec # recs) =
     sign_canonical_chained cr sk rec prev # sign_chain cr sk (Some (record_hash cr rec)) recs"

text \<open>The text of an envelope with given string fields, and what is assumed of the JSON parser: it
  parses such a text and returns the unescaped strings.\<close>

definition envelope_text :: "(string \<times> string) list \<Rightarrow> string" where
  "envelope_text flds =
     ''{'' @ dq @ ''schema'' @ dq @ '':'' @ dec SIGNED_RECORD_SCHEMA_VERSION
     @ concat (map (\<lambda>(n, v). '','' @ dq @ n @ dq @ '':'' @ dq @ concat (map json_escape_char v) @ dq) flds) @ ''}''"

definition field_names :: "string list" where "field_names = [''key_id'', ''signature'', ''prev'', ''record'']"

definition json_law :: "('sk, 'pk, 'v) crypto \<Rightarrow> (string \<times> string) list list \<Rightarrow> bool" where
  "json_law cr envs \<longleftrightarrow>
     list_all (\<lambda>flds. \<exists>v. js_parse cr (envelope_text flds) = Inr v
       \<and> list_all (\<lambda>n. js_get_str cr v n = map_of flds n) field_names) envs"

text \<open>A signature of one of the given messages has 64 bytes and verifies.\<close>

definition sign_law :: "('sk, 'pk, 'v) crypto \<Rightarrow> 'sk \<Rightarrow> string list \<Rightarrow> bool" where
  "sign_law cr sk ms \<longleftrightarrow>
     list_all (\<lambda>m. length (cr_sign cr sk (as_bytes m)) = 64
       \<and> cr_verify_strict cr (cr_verifying_key cr sk) (as_bytes m) (cr_sign cr sk (as_bytes m))) ms"

definition envelope_fields :: "('sk, 'pk, 'v) crypto \<Rightarrow> 'sk \<Rightarrow> string \<Rightarrow> string option \<Rightarrow> (string \<times> string) list" where
  "envelope_fields cr sk canonical prev =
     [(''key_id'', key_id cr (cr_verifying_key cr sk)),
      (''signature'', hex_encode (cr_sign cr sk (as_bytes (signed_message prev canonical))))]
     @ (case prev of None \<Rightarrow> [] | Some p \<Rightarrow> [(''prev'', p)]) @ [(''record'', canonical)]"

lemma envelope_is_text:
  assumes "\<And>p. prev = Some p \<Longrightarrow> list_all hex_char p"
  shows "sign_canonical_chained cr sk canonical prev = envelope_text (envelope_fields cr sk canonical prev)"
  using assms
  by (auto simp: sign_canonical_chained_def envelope_text_def envelope_fields_def push_json_string_def Let_def key_id_def
      escape_hex [OF hex_encode_chars] escape_hex split: option.splits)

lemma verify_signed:
  assumes "json_law cr [envelope_fields cr sk canonical prev]" "sign_law cr sk [signed_message prev canonical]"
    and "\<And>p. prev = Some p \<Longrightarrow> list_all hex_char p"
    and "find (\<lambda>k. key_id cr k = key_id cr (cr_verifying_key cr sk)) trusted = Some (cr_verifying_key cr sk)"
    and "length (sign_canonical_chained cr sk canonical prev) \<le> MAX_ENVELOPE_BYTES"
  shows "verify_entry cr trusted (sign_canonical_chained cr sk canonical prev) = Inr (canonical, prev)"
proof -
  let ?f = "envelope_fields cr sk canonical prev"
  obtain v where v: "js_parse cr (envelope_text ?f) = Inr v"
    and g: "\<And>n. n \<in> set field_names \<Longrightarrow> js_get_str cr v n = map_of ?f n"
    using assms(1) by (auto simp: json_law_def list_all_iff)
  have etext: "sign_canonical_chained cr sk canonical prev = envelope_text ?f" by (rule envelope_is_text [OF assms(3)])
  have get: "js_get_str cr v ''record'' = Some canonical"
    "js_get_str cr v ''key_id'' = Some (key_id cr (cr_verifying_key cr sk))"
    "js_get_str cr v ''signature'' = Some (hex_encode (cr_sign cr sk (as_bytes (signed_message prev canonical))))"
    "js_get_str cr v ''prev'' = prev"
    using g by (auto simp: field_names_def envelope_fields_def split: option.splits)
  show ?thesis
    using assms(2,4,5) v unfolding etext
    by (simp add: verify_entry_def str_field_def get ok_or_def sign_law_def hex_decode_encode Let_def)
qed

text \<open>The messages a session signs, and the fields of its envelopes.\<close>

fun chain_messages :: "('sk, 'pk, 'v) crypto \<Rightarrow> string option \<Rightarrow> string list \<Rightarrow> string list" where
  "chain_messages cr prev [] = []"
| "chain_messages cr prev (rec # recs) =
     signed_message prev rec # chain_messages cr (Some (record_hash cr rec)) recs"

fun chain_fields :: "('sk, 'pk, 'v) crypto \<Rightarrow> 'sk \<Rightarrow> string option \<Rightarrow> string list \<Rightarrow> (string \<times> string) list list" where
  "chain_fields cr sk prev [] = []"
| "chain_fields cr sk prev (rec # recs) =
     envelope_fields cr sk rec prev # chain_fields cr sk (Some (record_hash cr rec)) recs"

lemma hash_hex: "list_all hex_char (record_hash cr r)"
  by (simp add: record_hash_def hex_encode_chars)

lemma chain_loop_signed:
  assumes "json_law cr (chain_fields cr sk prev recs)" "sign_law cr sk (chain_messages cr prev recs)"
    and "\<And>p. prev = Some p \<Longrightarrow> list_all hex_char p"
    and "find (\<lambda>k. key_id cr k = key_id cr (cr_verifying_key cr sk)) trusted = Some (cr_verifying_key cr sk)"
    and "list_all (\<lambda>e. length e \<le> MAX_ENVELOPE_BYTES) (sign_chain cr sk prev recs)"
  shows "chain_loop cr trusted n prev (sign_chain cr sk prev recs) = Inr recs"
  using assms(1-3,5)
proof (induction recs arbitrary: prev n)
  case (Cons r recs)
  have "verify_entry cr trusted (sign_canonical_chained cr sk r prev) = Inr (r, prev)"
    by (rule verify_signed [OF _ _ _ assms(4)]) (use Cons.prems in \<open>simp_all add: json_law_def sign_law_def\<close>)
  moreover have "chain_loop cr trusted (Suc n) (Some (record_hash cr r)) (sign_chain cr sk (Some (record_hash cr r)) recs) = Inr recs"
    by (rule Cons.IH) (use Cons.prems hash_hex [of cr r] in \<open>simp_all add: json_law_def sign_law_def\<close>)
  ultimately show ?case by (simp add: and_then_def)
qed simp

lemma verify_entry_message:
  assumes "verify_entry cr trusted e = Inr (rec, prev)"
  shows "\<exists>k \<in> set trusted. \<exists>sig. cr_verify_strict cr k (as_bytes (signed_message prev rec)) sig"
  using assms
  by (auto simp: verify_entry_def ok_or_def and_then_def Let_def find_Some_iff
      split: if_splits sum.splits option.splits)

lemma chain_messages_nth:
  "m \<in> set (chain_messages cr prev recs) \<longleftrightarrow>
     (\<exists>i < length recs. m = signed_message (if i = 0 then prev else Some (record_hash cr (recs ! (i - 1)))) (recs ! i))"
proof (induction recs arbitrary: prev)
  case (Cons r recs)
  have "(\<exists>i < length (r # recs). m = signed_message (if i = 0 then prev else Some (record_hash cr ((r # recs) ! (i - 1)))) ((r # recs) ! i))
      \<longleftrightarrow> m = signed_message prev r
        \<or> (\<exists>i < length recs. m = signed_message (Some (record_hash cr ((r # recs) ! i))) (recs ! i))"
    by (auto simp: less_Suc_eq_0_disj)
  also have "\<dots> \<longleftrightarrow> m = signed_message prev r \<or> m \<in> set (chain_messages cr (Some (record_hash cr r)) recs)"
    unfolding Cons.IH by (auto simp: nth_Cons')
  finally show ?case by simp
qed simp

lemma link_split:
  assumes "CHR 0x0A \<notin> set p" "CHR 0x0A \<notin> set q" "link_message p r = link_message q r'"
  shows "p = q \<and> r = r'"
proof -
  have cut: "takeWhile (\<lambda>c. c \<noteq> CHR 0x0A) (link_message a x) = a" "tl (dropWhile (\<lambda>c. c \<noteq> CHR 0x0A) (link_message a x)) = x"
    if "CHR 0x0A \<notin> set a" for a x
    using that by (auto simp: link_message_def nl_def takeWhile_append dropWhile_append)
  show ?thesis using cut [OF assms(1), of r] cut [OF assms(2), of r'] assms(3) by metis
qed

definition signed_only :: "('sk, 'pk, 'v) crypto \<Rightarrow> 'pk list \<Rightarrow> string list \<Rightarrow> bool" where
  "signed_only cr trusted recs \<longleftrightarrow>
     (\<forall>k \<in> set trusted. \<forall>m sig. cr_verify_strict cr k (as_bytes m) sig \<longrightarrow> m \<in> set (chain_messages cr None recs))"

lemma chain_loop_follows:
  assumes "signed_only cr trusted recs" "distinct recs" "inj_on (record_hash cr) (set recs)"
    and "list_all (\<lambda>r. CHR 0x0A \<notin> set r) recs" "0 < k" "k \<le> length recs"
    and "chain_loop cr trusted n (Some (record_hash cr (recs ! (k - 1)))) envs = Inr rs"
  shows "\<exists>m. rs = take m (drop k recs)"
  using assms(5-7)
proof (induction envs arbitrary: n k rs)
  case (Cons e envs)
  obtain rec prev where v: "verify_entry cr trusted e = Inr (rec, prev)" and p: "prev = Some (record_hash cr (recs ! (k - 1)))"
    using Cons.prems(3) by (auto split: sum.splits if_splits)
  obtain rs' where rs: "rs = rec # rs'" and l: "chain_loop cr trusted (Suc n) (Some (record_hash cr rec)) envs = Inr rs'"
    using Cons.prems(3) v p by (auto simp: and_then_def split: sum.splits)
  have "link_message (record_hash cr (recs ! (k - 1))) rec \<in> set (chain_messages cr None recs)"
    using verify_entry_message [OF v] assms(1) p by (auto simp: signed_only_def signed_message_def)
  then obtain i where i: "i < length recs"
    and m: "link_message (record_hash cr (recs ! (k - 1))) rec
        = signed_message (if i = 0 then None else Some (record_hash cr (recs ! (i - 1)))) (recs ! i)"
    by (auto simp: chain_messages_nth)
  have "CHR 0x0A \<in> set (link_message (record_hash cr (recs ! (k - 1))) rec)" by (simp add: link_message_def nl_def)
  then have i0: "i \<noteq> 0" using m assms(4) i by (cases "i = 0") (auto simp: signed_message_def list_all_length)
  then have "link_message (record_hash cr (recs ! (k - 1))) rec = link_message (record_hash cr (recs ! (i - 1))) (recs ! i)"
    using m by (simp add: signed_message_def)
  from link_split [OF hex_no_newline [OF hash_hex] hex_no_newline [OF hash_hex] this]
  have eq: "record_hash cr (recs ! (k - 1)) = record_hash cr (recs ! (i - 1))" "rec = recs ! i" by auto
  then have "recs ! (k - 1) = recs ! (i - 1)"
    using inj_onD [OF assms(3)] Cons.prems(1,2) i by simp
  then have "k = i" using assms(2) Cons.prems(1,2) i i0 by (auto simp: nth_eq_iff_index_eq)
  then have k: "k < length recs" "rec = recs ! k" using i eq by auto
  obtain m where "rs' = take m (drop (Suc k) recs)" using Cons.IH [of "Suc k" "Suc n" rs'] k l by auto
  then have "rs = take (Suc m) (drop k recs)" using rs k by (simp add: Cons_nth_drop_Suc [symmetric])
  then show ?case by blast
qed (auto intro: exI [of _ 0])


text \<open>Why the records must be distinct: the hash of a link covers the record before it and not that
  record's own link, so when a record occurs twice the part between the occurrences can be cut out.\<close>

lemma chain_drops_between_repeats:
  assumes "json_law cr (chain_fields cr sk None [a, b, a, c])" "sign_law cr sk (chain_messages cr None [a, b, a, c])"
    and "find (\<lambda>k. key_id cr k = key_id cr (cr_verifying_key cr sk)) trusted = Some (cr_verifying_key cr sk)"
    and "list_all (\<lambda>e. length e \<le> MAX_ENVELOPE_BYTES) (sign_chain cr sk None [a, b, a, c])"
  shows "verify_chain cr trusted
      [sign_chain cr sk None [a, b, a, c] ! 0, sign_chain cr sk None [a, b, a, c] ! 3] = Inr [a, c]"
proof -
  have "sign_chain cr sk None [a, c] = [sign_chain cr sk None [a, b, a, c] ! 0, sign_chain cr sk None [a, b, a, c] ! 3]"
    by simp
  moreover have "chain_loop cr trusted 0 None (sign_chain cr sk None [a, c]) = Inr [a, c]"
    by (rule chain_loop_signed [OF _ _ _ assms(3)]) (use assms in \<open>simp_all add: json_law_def sign_law_def\<close>)
  ultimately show ?thesis by (simp add: verify_chain_def)
qed

definition toy_fields :: "(string \<times> string) list list" where
  "toy_fields =
     [[(''key_id'', hex_encode [7]), (''signature'', hex_encode (replicate 64 0)), (''record'', ''a'')],
      [(''key_id'', hex_encode [7]), (''signature'', hex_encode (replicate 64 0)), (''prev'', hex_encode (as_bytes ''a'')),
       (''record'', ''b'')]]"

definition toy_crypto :: "(unit, unit, nat) crypto" where
  "toy_crypto =
     \<lparr>cr_sign = (\<lambda>_ _. replicate 64 0), cr_verifying_key = id, cr_key_bytes = (\<lambda>_. [7]), cr_key_from_bytes = (\<lambda>_. Inr ()),
      cr_verify_strict = (\<lambda>_ m _. m = as_bytes ''a'' \<or> m = as_bytes (link_message (hex_encode (as_bytes ''a'')) ''b'')),
      cr_seed = (\<lambda>_. ()), cr_seed_bytes = (\<lambda>_. []), cr_sha256 = id,
      js_parse = (\<lambda>e. if e = envelope_text (toy_fields ! 0) then Inr 0
                      else if e = envelope_text (toy_fields ! 1) then Inr 1 else Inl []),
      js_get_str = (\<lambda>v n. map_of (toy_fields ! v) n)\<rparr>"

lemma toy_chain:
  "chain_fields toy_crypto () None [''a'', ''b''] = toy_fields"
  "chain_messages toy_crypto None [''a'', ''b''] = [''a'', link_message (hex_encode (as_bytes ''a'')) ''b'']"
  by (simp_all add: toy_fields_def envelope_fields_def key_id_def toy_crypto_def signed_message_def record_hash_def)

lemma toy_envs:
  "envelope_fields toy_crypto () ''a'' None = toy_fields ! 0"
  "envelope_fields toy_crypto () ''b'' (Some (record_hash toy_crypto ''a'')) = toy_fields ! 1"
  by (simp_all add: toy_fields_def envelope_fields_def key_id_def toy_crypto_def signed_message_def record_hash_def)

lemma hex_encode_inj: "hex_encode x = hex_encode y \<Longrightarrow> x = y"
  by (metis hex_pairs_encode option.inject)

lemma toy_texts: "length (envelope_text (toy_fields ! 0)) = 182" "length (envelope_text (toy_fields ! 1)) = 194"
  by (simp_all add: envelope_text_def toy_fields_def escape_hex [OF hex_encode_chars] dq_def dec.simps
      SIGNED_RECORD_SCHEMA_VERSION_def json_escape_char_def Let_def)


end
