(* ===== verification/Session.thy ===== *)
theory Session
  imports Pool Protocol Metrics Signing
begin

text \<open>
  One client connection of the daemon, \<open>crates/cli/src/session.rs\<close>: open, boot, the command loop with
  its fault taxonomy, and the teardown. The state shared between sessions is the record \<open>server\<close>;
  a session runs on it from accept to close. What the outside does is the record \<open>session_env\<close>: the
  JSON library, the clock readings, the sockets each command connects to, which locks are contended,
  which snapshots fail, and what the probes observe.
\<close>

section \<open>The daemon's shared state\<close>

record BootConfig =
  bc_limits :: Limits
  bc_jail :: "string option" \<comment> \<open>the jail's settings\<close>
  bc_guest_cid :: "nat option"

definition DEFAULT_GUEST_CID :: nat where "DEFAULT_GUEST_CID = 3"
definition MAX_VCPUS :: nat where "MAX_VCPUS = 32"
definition NOOP_ARGV :: string where "NOOP_ARGV = ''true''"

record server =
  sv_metrics :: Metrics
  sv_pool :: "Pool option"
  sv_host :: vm_host
  sv_snapshot_seq :: nat
  sv_booted :: "BootConfig list" \<comment> \<open>the cold boots asked for so far\<close>
  sv_calls :: nat
  sv_locks :: nat

record launch =
  la_base :: BootConfig
  la_jailed :: bool
  la_policy :: Policy
  la_snapshot_base :: string

datatype lock = Free | Busy | Poisoned

text \<open>One command on a VM: its clock, what dialing the agent yields, and the time it took.\<close>

record vm_call =
  vc_clock :: "nat \<Rightarrow> nat"
  vc_dial :: "io_kind + stream"
  vc_sockopt :: "io_kind option"
  vc_elapsed :: nat

record ('v, 'sk, 'pk, 'j) session_env =
  e_fmt :: fmt
  e_serde :: "('j, Request) serde"
  e_render :: "'v Response Envelope \<Rightarrow> string + string"
  e_vm :: "vm_id \<Rightarrow> RunningVm"
  e_boot_latency :: "vm_id \<Rightarrow> nat"
  e_attach :: "vm_id \<Rightarrow> bool"
  e_lock :: "nat \<Rightarrow> lock"
  e_call :: "nat \<Rightarrow> vm_call"
  e_snapshot :: "vm_id \<Rightarrow> string \<Rightarrow> VmmError option"
  e_live_record :: "vm_id \<Rightarrow> nat \<Rightarrow> nat \<Rightarrow> nat \<Rightarrow> string" \<comment> \<open>boot, exec wall, commands so far\<close>
  e_live_summary :: "vm_id \<Rightarrow> nat \<Rightarrow> nat \<Rightarrow> nat \<Rightarrow> string"
  e_crypto :: "('sk, 'pk, 'v) crypto"
  e_key :: 'sk
  e_no_record :: 'v \<comment> \<open>the fallback value when a record does not parse\<close>

section \<open>Opening\<close>

fun ProtocolError_display :: "fmt \<Rightarrow> ProtocolError \<Rightarrow> string" where
  "ProtocolError_display f (IoErr e) = ''protocol io: '' @ io_display f e"
| "ProtocolError_display f (SchemaErr got) =
     ''unsupported wire schema '' @ dec got @ '' (this daemon speaks '' @ dec WIRE_SCHEMA @ '')''"
| "ProtocolError_display f (Malformed m) = ''malformed message: '' @ m"
| "ProtocolError_display f TooLarge = ''message line exceeds the '' @ dec MAX_MESSAGE_BYTES @ ''-byte cap''"

definition fatal :: "string \<Rightarrow> 'v Response" where "fatal message = ErrorReply message True"
definition nonfatal :: "string \<Rightarrow> 'v Response" where "nonfatal message = ErrorReply message False"

definition open_limits :: "Request \<Rightarrow> Policy \<Rightarrow> string + Limits \<times> bool" where
  "open_limits req policy =
     (case req of
        Open vc mem wall ocap \<Rightarrow>
          (let bare = (vc = None \<and> mem = None \<and> wall = None \<and> ocap = None) in
           if opt_ok (\<lambda>v. v \<noteq> 0 \<and> unat v \<le> MAX_VCPUS) vc then
             if opt_ok (\<lambda>m. m \<noteq> 0) mem then
               if opt_ok (\<lambda>s. s \<noteq> 0) wall then
                 and_then (map_err RunPolicyError_display (resolve policy
                   \<lparr>rq_vcpus = map_option unat vc, rq_mem_mib = map_option unat mem,
                    rq_wall_secs = map_option unat wall, rq_output_cap = ocap\<rparr>))
                   (\<lambda>limits. Inr (limits, bare))
               else Inl ''wall_secs must be at least 1''
             else Inl ''mem_mib must be at least 1''
           else Inl (''vcpus must be in 1..='' @ dec MAX_VCPUS @ '', got '' @ dec (case vc of Some v \<Rightarrow> unat v | None \<Rightarrow> 0)))
      | _ \<Rightarrow> Inl ''first message must be `open`'')"

definition cold_boot_config :: "BootConfig \<Rightarrow> bool \<Rightarrow> BootConfig" where
  "cold_boot_config config jailed =
     (let c1 = config\<lparr>bc_jail := if jailed then Some (case bc_jail config of Some j \<Rightarrow> j | None \<Rightarrow> []) else None\<rparr>
      in if bc_guest_cid c1 = None then c1\<lparr>bc_guest_cid := Some DEFAULT_GUEST_CID\<rparr> else c1)"

definition cold_boot :: "BootConfig \<Rightarrow> bool \<Rightarrow> server \<Rightarrow> (VmmError + vm_id) \<times> server" where
  "cold_boot config jailed sv =
     (let c = cold_boot_config config jailed; sv1 = sv\<lparr>sv_booted := sv_booted sv @ [c]\<rparr> in
      case start_vm (sv_host sv1) of (r, h) \<Rightarrow> (r, sv1\<lparr>sv_host := h\<rparr>))"

definition try_lock :: "('v, 'sk, 'pk, 'j) session_env \<Rightarrow> server \<Rightarrow> lock \<times> server" where
  "try_lock env sv = (e_lock env (sv_locks sv), sv\<lparr>sv_locks := Suc (sv_locks sv)\<rparr>)"

text \<open>The warm clone, if this open may have one and there is one to be had.\<close>

definition pool_pop :: "('v, 'sk, 'pk, 'j) session_env \<Rightarrow> bool \<Rightarrow> server \<Rightarrow> vm_id option \<times> server" where
  "pool_pop env bare sv =
     (case (bare, sv_pool sv) of
        (True, Some p) \<Rightarrow>
          (case try_lock env sv of
             (Free, sv1) \<Rightarrow>
               if length (pool_ready p) > 0
               then (case Pool_take p (sv_host sv1) of
                       (Inr v, p1, h) \<Rightarrow> (Some v, sv1\<lparr>sv_pool := Some p1, sv_host := h\<rparr>)
                     | (Inl e, p1, h) \<Rightarrow> (None, sv1\<lparr>sv_pool := Some p1, sv_host := h\<rparr>))
               else (None, sv1)
           | (_, sv1) \<Rightarrow> (None, sv1))
      | _ \<Rightarrow> (None, sv))"

definition boot_session_vm ::
    "('v, 'sk, 'pk, 'j) session_env \<Rightarrow> launch \<Rightarrow> Limits \<Rightarrow> bool \<Rightarrow> server \<Rightarrow> (VmmError + vm_id \<times> bool) \<times> server" where
  "boot_session_vm env la limits bare sv =
     (case pool_pop env bare sv of
        (Some v, sv1) \<Rightarrow> (Inr (v, True), sv1)
      | (None, sv1) \<Rightarrow>
          (case cold_boot ((la_base la)\<lparr>bc_limits := limits\<rparr>) (la_jailed la) sv1 of
             (Inl e, sv2) \<Rightarrow> (Inl e, sv2)
           | (Inr v, sv2) \<Rightarrow> (Inr (v, False), sv2)))"

section \<open>Serving\<close>

definition on_metrics :: "(Metrics \<Rightarrow> Metrics) \<Rightarrow> server \<Rightarrow> server" where
  "on_metrics f sv = sv\<lparr>sv_metrics := f (sv_metrics sv)\<rparr>"

definition send :: "('v, 'sk, 'pk, 'j) session_env \<Rightarrow> 'v Response \<Rightarrow> writer \<Rightarrow> bool \<times> writer" where
  "send env resp w = (case write_message (e_render env) resp w of (Inl _, w1) \<Rightarrow> (False, w1) | (Inr _, w1) \<Rightarrow> (True, w1))"

text \<open>\<open>vm.exec\<close> and \<open>vm.exec_with_files\<close>, with the time from just before to just after.\<close>

definition vm_exec ::
    "('v, 'sk, 'pk, 'j) session_env \<Rightarrow> vm_id \<Rightarrow> string list \<Rightarrow> bytes \<Rightarrow> (string \<times> bytes) list \<Rightarrow> string list \<Rightarrow> server
      \<Rightarrow> (VmmError + RunResult) \<times> nat \<times> server" where
  "vm_exec env v argv stdin files_in artifacts sv =
     (let c = e_call env (sv_calls sv) in
      (exec_with_files (e_fmt env) (vc_clock c) (vc_dial c) (vc_sockopt c) (e_vm env v) argv stdin files_in [] artifacts,
       vc_elapsed c, sv\<lparr>sv_calls := Suc (sv_calls sv)\<rparr>))"

definition duration_ms :: "nat \<Rightarrow> u64" where
  "duration_ms d = word_of_nat (min (d div 1000000) u64_max)"

definition serve_run ::
    "('v, 'sk, 'pk, 'j) session_env \<Rightarrow> VmmError + RunResult \<Rightarrow> nat \<Rightarrow> bool \<Rightarrow> (RunResult \<Rightarrow> 'v Response)
      \<Rightarrow> nat \<Rightarrow> server \<Rightarrow> writer \<Rightarrow> bool \<times> nat \<times> server \<times> writer" where
  "serve_run env result wall is_command to_response wall_sum sv w =
     (let wall_sum1 = (if is_command then wall_sum + wall else wall_sum) in
      case result of
        Inr run \<Rightarrow>
          (let sv1 = (if is_command then on_metrics (guest_command (r_wall run)) sv else sv);
               (sent, w1) = send env (to_response run) w
           in (sent, wall_sum1, sv1, w1))
      | Inl e \<Rightarrow>
          (let survives = (error_kind e = Guest);
               sv1 = on_metrics (request_failed survives) sv;
               (sent, w1) = send env (ErrorReply (VmmError_display (e_fmt env) e) (\<not> survives)) w
           in (sent \<and> survives, wall_sum1, sv1, w1)))"

definition next_snapshot_dir :: "launch \<Rightarrow> server \<Rightarrow> string \<times> server" where
  "next_snapshot_dir la sv =
     (path_push (la_snapshot_base la) (''snap-'' @ dec (sv_snapshot_seq sv)), sv\<lparr>sv_snapshot_seq := Suc (sv_snapshot_seq sv)\<rparr>)"

definition do_snapshot :: "('v, 'sk, 'pk, 'j) session_env \<Rightarrow> launch \<Rightarrow> vm_id \<Rightarrow> server \<Rightarrow> (VmmError + string) \<times> server" where
  "do_snapshot env la v sv =
     (case next_snapshot_dir la sv of
        (dir, sv1) \<Rightarrow> (case e_snapshot env v dir of Some e \<Rightarrow> (Inl e, sv1) | None \<Rightarrow> (Inr dir, sv1)))"

definition record_to_value :: "('v, 'sk, 'pk, 'j) session_env \<Rightarrow> string \<Rightarrow> 'v" where
  "record_to_value env json = (case js_parse (e_crypto env) json of Inr v \<Rightarrow> v | Inl _ \<Rightarrow> e_no_record env)"

record live =
  lv_vm :: vm_id
  lv_probes :: bool
  lv_total :: nat
  lv_chain :: "string option"

text \<open>One decoded request of the command loop: whether the loop goes on, and the state it leaves.\<close>

definition no_probes :: string where "no_probes = ''audit probes are not attached for this session''"

definition serve_request ::
    "('v, 'sk, 'pk, 'j) session_env \<Rightarrow> launch \<Rightarrow> Request \<Rightarrow> live \<Rightarrow> server \<Rightarrow> writer \<Rightarrow> bool \<times> live \<times> server \<times> writer" where
  "serve_request env la req lv sv w =
     (case req of
        ReqClose \<Rightarrow> (False, lv, sv, snd (send env Closed w))
      | Open _ _ _ _ \<Rightarrow>
          (let (sent, w1) = send env (nonfatal ''session already open (open is the first message only)'') w
           in (sent, lv, sv, w1))
      | ReqExec argv stdin \<Rightarrow>
          (let sv1 = on_metrics (metrics_request VExec) sv;
               (result, wall, sv2) = vm_exec env (lv_vm lv) argv (as_bytes (case stdin of Some s \<Rightarrow> s | None \<Rightarrow> [])) [] [] sv1;
               (go, wall_sum, sv3, w1) = serve_run env result wall True
                 (\<lambda>r. Result (r_exit_code r) (from_utf8_lossy (r_stdout r)) (from_utf8_lossy (r_stderr r)) (duration_ms (r_wall r)))
                 (lv_total lv) sv2 w
           in (go, lv\<lparr>lv_total := wall_sum\<rparr>, sv3, w1))
      | ReqPut path content \<Rightarrow>
          (let sv1 = on_metrics (metrics_request VPut) sv;
               (result, wall, sv2) = vm_exec env (lv_vm lv) [NOOP_ARGV] [] [(path, as_bytes content)] [] sv1;
               (go, wall_sum, sv3, w1) = serve_run env result wall False (\<lambda>_. RespPut path) (lv_total lv) sv2 w
           in (go, lv\<lparr>lv_total := wall_sum\<rparr>, sv3, w1))
      | ReqGet path \<Rightarrow>
          (let sv1 = on_metrics (metrics_request VGet) sv;
               (result, wall, sv2) = vm_exec env (lv_vm lv) [NOOP_ARGV] [] [] [path] sv1;
               (go, wall_sum, sv3, w1) = serve_run env result wall False
                 (\<lambda>r. case find (\<lambda>a. art_path a = path) (r_files r) of
                        Some a \<Rightarrow> Got path (from_utf8_lossy (art_data a)) True
                      | None \<Rightarrow> Got path [] False)
                 (lv_total lv) sv2 w
           in (go, lv\<lparr>lv_total := wall_sum\<rparr>, sv3, w1))
      | ReqSnapshot \<Rightarrow>
          (let sv1 = on_metrics (metrics_request VSnapshot) sv;
               (r, sv2) = do_snapshot env la (lv_vm lv) sv1;
               (resp, sv3) = (case r of
                   Inr dir \<Rightarrow> (Snapshotted dir, sv2)
                 | Inl e \<Rightarrow> (nonfatal (''snapshot: '' @ VmmError_display (e_fmt env) e), on_metrics (request_failed True) sv2));
               (sent, w1) = send env resp w
           in (sent, lv, sv3, w1))
      | ReqTrace \<Rightarrow>
          (let sv1 = on_metrics (metrics_request VTrace) sv;
               (resp, lv1, sv2) =
                 (if lv_probes lv
                  then (let canonical = e_live_record env (lv_vm lv) (e_boot_latency env (lv_vm lv)) (lv_total lv) (sv_calls sv1);
                            envelope = sign_canonical_chained (e_crypto env) (e_key env) canonical (lv_chain lv)
                        in (RespTrace (record_to_value env envelope),
                            lv\<lparr>lv_chain := Some (record_hash (e_crypto env) canonical)\<rparr>, sv1))
                  else (nonfatal no_probes, lv, on_metrics (request_failed True) sv1));
               (sent, w1) = send env resp w
           in (sent, lv1, sv2, w1))
      | ReqTraceSummary \<Rightarrow>
          (let sv1 = on_metrics (metrics_request VTraceSummary) sv;
               (resp, sv2) =
                 (if lv_probes lv
                  then (RespTraceSummary (record_to_value env
                          (e_live_summary env (lv_vm lv) (e_boot_latency env (lv_vm lv)) (lv_total lv) (sv_calls sv1))), sv1)
                  else (nonfatal no_probes, on_metrics (request_failed True) sv1));
               (sent, w1) = send env resp w
           in (sent, lv, sv2, w1)))"

section \<open>The command loop\<close>

lemma discard_size: "stream_size (snd (discard_to_newline r)) \<le> stream_size r"
proof (induction r rule: discard_to_newline.induct)
  case (4 b r)
  show ?case
  proof (cases "position_newline b")
    case None
    then show ?thesis using 4 by (cases "b = []") simp_all
  next
    case (Some i)
    then show ?thesis using unconsumed_size [of b i r] by (cases "b = []") simp_all
  qed
qed auto

lemma read_line_size:
  "read_line_capped r cap out = (res, out', r') \<Longrightarrow>
   stream_size r' \<le> stream_size r \<and> (stream_size r' < stream_size r \<or> (res = Inr True \<and> out' = out))"
proof (induction r cap out rule: read_line_capped.induct)
  case (4 b r cap out)
  show ?case
  proof (cases "b = []")
    case True
    then show ?thesis using "4.prems" by simp
  next
    case b: False
    show ?thesis
    proof (cases "position_newline b")
      case (Some i)
      then show ?thesis using "4.prems" b unconsumed_size [OF b, of i r] by (auto split: if_splits)
    next
      case None
      then show ?thesis
        using "4.prems" "4.IH" [OF b None] b discard_size [of r]
        by (cases "discard_to_newline r") (fastforce split: if_splits sum.splits)
    qed
  qed
qed auto

text \<open>Every message takes something off the stream, unless it has ended.\<close>

lemma read_message_shrinks:
  "read_message sd r = (res, r') \<Longrightarrow> res \<noteq> Inr None \<Longrightarrow> stream_size r' < stream_size r"
proof (induction sd r rule: read_message.induct)
  case (1 sd r)
  obtain x buf r1 where l: "read_line_capped r MAX_MESSAGE_BYTES [] = (x, buf, r1)"
    by (cases "read_line_capped r MAX_MESSAGE_BYTES []")
  note size = read_line_size [OF l]
  show ?case
  proof (cases "x = Inr True \<and> buf = []")
    case True
    then show ?thesis using "1.prems" l by (subst (asm) read_message.simps) simp
  next
    case False
    then have lt: "stream_size r1 < stream_size r" using size by auto
    show ?thesis
    proof (cases "r' = r1")
      case False2: False
      then obtain eof s where again: "x = Inr eof" "from_utf8 buf = Some s" "trim s = []" "\<not> eof" "\<not> (eof \<and> buf = [])"
        "read_message sd r1 = (res, r')"
        using "1.prems"(1) l
        by (subst (asm) read_message.simps)
           (auto simp: Let_def split: sum.splits option.splits if_splits prod.splits)
      have "stream_size r' < stream_size r1"
        using "1.IH" [OF l [symmetric] again(1) refl again(5) again(2) refl] again "1.prems"(2) by simp
      then show ?thesis using lt by simp
    qed (use lt in simp)
  qed
qed

function session_loop ::
    "('v, 'sk, 'pk, 'j) session_env \<Rightarrow> launch \<Rightarrow> live \<Rightarrow> server \<Rightarrow> buf_read \<Rightarrow> writer \<Rightarrow> server \<times> writer" where
  "session_loop env la lv sv r w =
     (case read_message (e_serde env) r of
        (Inr None, _) \<Rightarrow> (sv, w)
      | (Inr (Some req), r1) \<Rightarrow>
          (case serve_request env la req lv sv w of
             (go, lv1, sv1, w1) \<Rightarrow> if go then session_loop env la lv1 sv1 r1 w1 else (sv1, w1))
      | (Inl (IoErr e), _) \<Rightarrow> (sv, w)
      | (Inl (SchemaErr n), _) \<Rightarrow>
          (on_metrics protocol_error sv,
           snd (send env (fatal (ProtocolError_display (e_fmt env) (SchemaErr n))) w))
      | (Inl e, r1) \<Rightarrow>
          (case send env (nonfatal (ProtocolError_display (e_fmt env) e)) w of
             (sent, w1) \<Rightarrow>
               if sent then session_loop env la lv (on_metrics protocol_error sv) r1 w1
               else (on_metrics protocol_error sv, w1)))"
  by pat_completeness auto
termination
  by (relation "measure (\<lambda>(env, la, lv, sv, r, w). stream_size r)")
     (auto dest: sym [THEN read_message_shrinks])

declare session_loop.simps [simp del]

text \<open>Teardown: the gauge, the probes (their own drop), the VM, and a refill if the pool is free.\<close>

definition end_session :: "('v, 'sk, 'pk, 'j) session_env \<Rightarrow> vm_id \<Rightarrow> server \<Rightarrow> server" where
  "end_session env v sv =
     (let sv1 = on_metrics session_closed sv; sv2 = sv1\<lparr>sv_host := drop_vm v (sv_host sv1)\<rparr> in
      case sv_pool sv2 of
        None \<Rightarrow> sv2
      | Some p \<Rightarrow>
          (case try_lock env sv2 of
             (Free, sv3) \<Rightarrow>
               (case Pool_refill p (sv_host sv3) of (_, p1, h) \<Rightarrow> sv3\<lparr>sv_pool := Some p1, sv_host := h\<rparr>)
           | (_, sv3) \<Rightarrow> sv3))"

text \<open>The handler of a connection. \<open>split\<close> says whether the second handle could be made.\<close>

definition serve_session_conn ::
    "('v, 'sk, 'pk, 'j) session_env \<Rightarrow> launch \<Rightarrow> bool \<Rightarrow> server \<Rightarrow> buf_read \<Rightarrow> writer \<Rightarrow> server \<times> writer" where
  "serve_session_conn env la split sv r w =
     (if \<not> split then (sv, w)
      else case read_message (e_serde env) r of
          (Inr None, _) \<Rightarrow> (sv, w)
        | (Inl e, _) \<Rightarrow>
            ((case e of IoErr _ \<Rightarrow> sv | _ \<Rightarrow> on_metrics protocol_error sv),
             snd (send env (fatal (''before open: '' @ ProtocolError_display (e_fmt env) e)) w))
        | (Inr (Some req), r1) \<Rightarrow>
            (case open_limits req (la_policy la) of
               Inl message \<Rightarrow> (on_metrics open_failed sv, snd (send env (fatal message) w))
             | Inr (limits, bare) \<Rightarrow>
                 (case boot_session_vm env la limits bare sv of
                    (Inl e, sv1) \<Rightarrow>
                      (on_metrics open_failed sv1,
                       snd (send env (fatal (''open sandbox: '' @ VmmError_display (e_fmt env) e)) w))
                  | (Inr (v, pooled), sv1) \<Rightarrow>
                      (let boot = e_boot_latency env v;
                           probes = e_attach env v;
                           sv2 = on_metrics (session_opened pooled boot) sv1;
                           (sent, w1) = send env (Opened (duration_ms boot) pooled) w
                       in if \<not> sent then (end_session env v sv2, w1)
                          else
                            (case session_loop env la \<lparr>lv_vm = v, lv_probes = probes, lv_total = 0, lv_chain = None\<rparr> sv2 r1 w1 of
                               (sv3, w2) \<Rightarrow> (end_session env v sv3, w2))))))"

section \<open>What a session leaves behind\<close>

text \<open>What the command loop never touches.\<close>

definition untouched :: "server \<Rightarrow> server \<Rightarrow> bool" where
  "untouched sv sv1 \<longleftrightarrow>
     sv_host sv1 = sv_host sv \<and> sv_pool sv1 = sv_pool sv \<and> sv_booted sv1 = sv_booted sv
     \<and> m_active (sv_metrics sv1) = m_active (sv_metrics sv)"

lemma untouched_refl [simp]: "untouched sv sv"
  by (simp add: untouched_def)

lemma untouched_trans: "untouched a b \<Longrightarrow> untouched b c \<Longrightarrow> untouched a c"
  by (simp add: untouched_def)

lemma untouched_metrics [simp]:
  "untouched sv (on_metrics (guest_command d) sv1) = untouched sv sv1"
  "untouched sv (on_metrics (request_failed b) sv1) = untouched sv sv1"
  "untouched sv (on_metrics (metrics_request v) sv1) = untouched sv sv1"
  "untouched sv (on_metrics protocol_error sv1) = untouched sv sv1"
  "untouched sv (on_metrics open_failed sv1) = untouched sv sv1"
  by (simp_all add: untouched_def on_metrics_def guest_command_def request_failed_def metrics_request_def
      protocol_error_def open_failed_def)

lemma untouched_counters [simp]:
  "untouched sv (sv1\<lparr>sv_calls := n\<rparr>) = untouched sv sv1"
  "untouched sv (sv1\<lparr>sv_snapshot_seq := n\<rparr>) = untouched sv sv1"
  by (simp_all add: untouched_def)

lemma serve_run_untouched:
  "untouched sv0 sv \<Longrightarrow> untouched sv0 (fst (snd (snd (serve_run env result wall cmd f t sv w))))"
  by (auto simp: serve_run_def Let_def split: sum.splits prod.splits)

lemma serve_request_untouched: "untouched sv (fst (snd (snd (serve_request env la req lv sv w))))"
proof (cases req)
  case ReqSnapshot
  then show ?thesis
    by (auto simp: serve_request_def do_snapshot_def next_snapshot_dir_def Let_def split: sum.splits prod.splits option.splits)
qed (auto simp: serve_request_def vm_exec_def Let_def case_prod_unfold intro!: serve_run_untouched)

lemma session_loop_step:
  "\<exists>sv1. untouched sv sv1 \<and> (fst (session_loop env la lv sv r w) = sv1
     \<or> (\<exists>lv1 r1 w1. stream_size r1 < stream_size r \<and> session_loop env la lv sv r w = session_loop env la lv1 sv1 r1 w1))"
proof -
  obtain res r1 where m: "read_message (e_serde env) r = (res, r1)" by (cases "read_message (e_serde env) r")
  show ?thesis
  proof (cases res)
    case (Inl e)
    have lt: "stream_size r1 < stream_size r" by (rule read_message_shrinks [OF m]) (simp add: Inl)
    let ?sv = "on_metrics protocol_error sv"
    let ?s = "send env (nonfatal (ProtocolError_display (e_fmt env) e)) w"
    show ?thesis
    proof (cases "(\<exists>k. e = IoErr k) \<or> (\<exists>n. e = SchemaErr n)")
      case True
      then have "fst (session_loop env la lv sv r w) = sv \<or> fst (session_loop env la lv sv r w) = ?sv"
        using m Inl by (subst (1 2) session_loop.simps) (auto simp del: ProtocolError_display.simps)
      then show ?thesis using untouched_refl [of sv] by (metis untouched_metrics(4))
    next
      case False
      then have "session_loop env la lv sv r w = (if fst ?s then session_loop env la lv ?sv r1 (snd ?s) else (?sv, snd ?s))"
        using m Inl
        by (subst session_loop.simps) (cases e; simp del: ProtocolError_display.simps add: case_prod_unfold)
      then show ?thesis using lt by (intro exI [of _ ?sv]) (auto simp del: ProtocolError_display.simps)
    qed
  next
    case (Inr q)
    show ?thesis
    proof (cases q)
      case None
      then show ?thesis using m Inr by (intro exI [of _ sv]) (subst session_loop.simps, simp)
    next
      case (Some req)
      have lt: "stream_size r1 < stream_size r" by (rule read_message_shrinks [OF m]) (simp add: Inr Some)
      obtain go lv1 sv1 w1 where s: "serve_request env la req lv sv w = (go, lv1, sv1, w1)"
        by (cases "serve_request env la req lv sv w")
      have u: "untouched sv sv1" using serve_request_untouched [of sv env la req lv w] s by simp
      have "session_loop env la lv sv r w = (if go then session_loop env la lv1 sv1 r1 w1 else (sv1, w1))"
        using m Inr Some s by (subst session_loop.simps) simp
      then show ?thesis using u lt by (intro exI [of _ sv1]) auto
    qed
  qed
qed

lemma session_loop_untouched: "untouched sv (fst (session_loop env la lv sv r w))"
proof (induction "stream_size r" arbitrary: lv sv r w rule: less_induct)
  case less
  obtain sv1 where u: "untouched sv sv1" and step: "fst (session_loop env la lv sv r w) = sv1
     \<or> (\<exists>lv1 r1 w1. stream_size r1 < stream_size r \<and> session_loop env la lv sv r w = session_loop env la lv1 sv1 r1 w1)"
    using session_loop_step by blast
  from step show ?case
  proof
    assume "fst (session_loop env la lv sv r w) = sv1"
    then show ?thesis using u by simp
  next
    assume "\<exists>lv1 r1 w1. stream_size r1 < stream_size r \<and> session_loop env la lv sv r w = session_loop env la lv1 sv1 r1 w1"
    then show ?thesis using less untouched_trans [OF u] by metis
  qed
qed

text \<open>The VMs of the daemon: its pool's, and those of sessions (\<open>out\<close>).\<close>

definition no_pool :: Pool where
  "no_pool = \<lparr>pool_has_vsock = True, pool_target = 0, pool_ready = []\<rparr>"

definition sv_holds :: "vm_id set \<Rightarrow> vm_id set \<Rightarrow> server \<Rightarrow> bool" where
  "sv_holds base out sv = holds base (case sv_pool sv of Some p \<Rightarrow> p | None \<Rightarrow> no_pool) out (sv_host sv)"

lemma sv_holds_untouched: "untouched sv sv1 \<Longrightarrow> sv_holds base out sv1 = sv_holds base out sv"
  by (simp add: untouched_def sv_holds_def)

lemma try_lock_frame: "try_lock env sv = (l, sv1) \<Longrightarrow> untouched sv sv1"
  by (auto simp: try_lock_def untouched_def)

lemma pool_pop_holds:
  assumes "pool_pop env bare sv = (x, sv1)" "sv_holds base out sv"
  shows "(case x of Some v \<Rightarrow> sv_holds base (insert v out) sv1 \<and> v \<notin> out | None \<Rightarrow> sv_holds base out sv1)
    \<and> sv_booted sv1 = sv_booted sv \<and> m_active (sv_metrics sv1) = m_active (sv_metrics sv)"
proof (cases "bare \<and> sv_pool sv \<noteq> None")
  case False
  then have "x = None \<and> sv1 = sv" using assms(1) by (auto simp: pool_pop_def split: bool.splits option.splits)
  then show ?thesis using assms(2) by simp
next
  case True
  then obtain p where p: "sv_pool sv = Some p" and b: bare by auto
  obtain l sv2 where l: "try_lock env sv = (l, sv2)" by (cases "try_lock env sv")
  note u = try_lock_frame [OF l]
  have h: "holds base p out (sv_host sv2)" using assms(2) p u by (simp add: sv_holds_def untouched_def)
  show ?thesis
  proof (cases "l = Free \<and> pool_ready p \<noteq> []")
    case True
    obtain y p1 h1 where t: "Pool_take p (sv_host sv2) = (y, p1, h1)" by (cases "Pool_take p (sv_host sv2)")
    have e: "sv1 = sv2\<lparr>sv_pool := Some p1, sv_host := h1\<rparr>" "x = (case y of Inr v \<Rightarrow> Some v | Inl _ \<Rightarrow> None)"
      using assms(1) True p b l t by (auto simp: pool_pop_def split: sum.splits)
    show ?thesis using Pool_take_holds [OF t h] e u by (auto simp: sv_holds_def untouched_def split: sum.splits)
  next
    case False
    then have "x = None \<and> sv1 = sv2" using assms(1) p b l by (auto simp: pool_pop_def split: lock.splits)
    then show ?thesis using sv_holds_untouched [OF u] assms(2) u by (simp add: untouched_def)
  qed
qed

definition confined :: "launch \<Rightarrow> BootConfig \<Rightarrow> bool" where
  "confined la c \<longleftrightarrow> (bc_jail c \<noteq> None \<longleftrightarrow> la_jailed la) \<and> bc_guest_cid c \<noteq> None"

definition within_policy :: "Policy \<Rightarrow> Limits \<Rightarrow> bool" where
  "within_policy p l \<longleftrightarrow>
     opt_ok (\<lambda>c. vcpus l \<le> c) (max_vcpus p) \<and> opt_ok (\<lambda>c. mem_mib l \<le> c) (max_mem_mib p)
     \<and> opt_ok (\<lambda>c. wall_secs l \<le> c) (max_wall_secs p) \<and> opt_ok (\<lambda>c. output_cap l \<le> c) (max_output_cap p)"

lemma boot_session_vm_holds:
  assumes "boot_session_vm env la limits bare sv = (x, sv1)" "sv_holds base out sv"
  shows "(case x of Inr (v, pooled) \<Rightarrow> sv_holds base (insert v out) sv1 \<and> v \<notin> out | Inl _ \<Rightarrow> sv_holds base out sv1)"
    and "\<exists>cs. sv_booted sv1 = sv_booted sv @ cs \<and> length cs \<le> 1 \<and> list_all (\<lambda>c. confined la c \<and> bc_limits c = limits) cs"
    and "m_active (sv_metrics sv1) = m_active (sv_metrics sv)"
proof -
  obtain y sv2 where p: "pool_pop env bare sv = (y, sv2)" by (cases "pool_pop env bare sv")
  note pop = pool_pop_holds [OF p assms(2)]
  let ?c = "cold_boot_config ((la_base la)\<lparr>bc_limits := limits\<rparr>) (la_jailed la)"
  have c: "confined la ?c" "bc_limits ?c = limits" by (simp_all add: confined_def cold_boot_config_def Let_def)
  obtain z h where st: "start_vm (sv_host sv2) = (z, h)" by (cases "start_vm (sv_host sv2)")
  have boot: "cold_boot ((la_base la)\<lparr>bc_limits := limits\<rparr>) (la_jailed la) sv2 = (z, sv2\<lparr>sv_booted := sv_booted sv2 @ [?c], sv_host := h\<rparr>)"
    by (simp add: cold_boot_def Let_def st)
  have e: "case y of Some v \<Rightarrow> x = Inr (v, True) \<and> sv1 = sv2
     | None \<Rightarrow> x = map_sum id (\<lambda>v. (v, False)) z \<and> sv1 = sv2\<lparr>sv_booted := sv_booted sv2 @ [?c], sv_host := h\<rparr>"
    using assms(1) p boot by (auto simp: boot_session_vm_def split: option.splits sum.splits)
  have cold: "case z of Inl _ \<Rightarrow> sv_holds base out (sv2\<lparr>sv_booted := sv_booted sv2 @ [?c], sv_host := h\<rparr>)
      | Inr v \<Rightarrow> sv_holds base (insert v out) (sv2\<lparr>sv_booted := sv_booted sv2 @ [?c], sv_host := h\<rparr>) \<and> v \<notin> out" if "y = None"
    using holds_start [OF _ st] pop that by (auto simp: sv_holds_def split: sum.splits)
  show "case x of Inr (v, pooled) \<Rightarrow> sv_holds base (insert v out) sv1 \<and> v \<notin> out | Inl _ \<Rightarrow> sv_holds base out sv1"
    using e pop cold by (cases y; cases z) auto
  show "\<exists>cs. sv_booted sv1 = sv_booted sv @ cs \<and> length cs \<le> 1 \<and> list_all (\<lambda>c. confined la c \<and> bc_limits c = limits) cs"
  proof (cases y)
    case None
    then show ?thesis using e pop c by (intro exI [of _ "[?c]"]) simp
  next
    case (Some v)
    then show ?thesis using e pop by (intro exI [of _ "[]"]) simp
  qed
  show "m_active (sv_metrics sv1) = m_active (sv_metrics sv)" using e pop by (cases y) auto
qed

lemma end_session_holds:
  assumes "sv_holds base (insert v out) sv" "v \<notin> out"
  shows "sv_holds base out (end_session env v sv)" "sv_booted (end_session env v sv) = sv_booted sv"
    "sv_metrics (end_session env v sv) = session_closed (sv_metrics sv)"
proof -
  let ?sv = "(on_metrics session_closed sv)\<lparr>sv_host := drop_vm v (sv_host sv)\<rparr>"
  have drop: "sv_holds base out ?sv"
    using assms by (auto simp: sv_holds_def holds_def on_metrics_def split: option.splits)
  obtain l sv3 where l: "try_lock env ?sv = (l, sv3)" by (cases "try_lock env ?sv")
  note u = try_lock_frame [OF l]
  have m: "sv_metrics sv3 = sv_metrics ?sv" using l by (auto simp: try_lock_def)
  have e: "end_session env v sv = (case sv_pool sv of None \<Rightarrow> ?sv
      | Some p \<Rightarrow> if l = Free then (case Pool_refill p (sv_host sv3) of (_, p1, h) \<Rightarrow> sv3\<lparr>sv_pool := Some p1, sv_host := h\<rparr>) else sv3)"
    using l by (auto simp: end_session_def Let_def on_metrics_def split: option.splits lock.splits)
  have "sv_holds base out (end_session env v sv) \<and> sv_booted (end_session env v sv) = sv_booted sv
      \<and> sv_metrics (end_session env v sv) = session_closed (sv_metrics sv)"
  proof (cases "sv_pool sv")
    case None
    then show ?thesis using e drop by (simp add: on_metrics_def)
  next
    case (Some p)
    obtain y p1 h where r: "Pool_refill p (sv_host sv3) = (y, p1, h)" by (cases "Pool_refill p (sv_host sv3)")
    have "holds base p out (sv_host sv3)" using drop u Some by (simp add: sv_holds_def untouched_def on_metrics_def)
    then have "holds base p1 out h" using refill_holds [OF r [unfolded Pool_refill_def]] by blast
    then show ?thesis
      using e Some r u m drop sv_holds_untouched [OF u, of base out] by (auto simp: sv_holds_def untouched_def on_metrics_def)
  qed
  then show "sv_holds base out (end_session env v sv)" "sv_booted (end_session env v sv) = sv_booted sv"
    "sv_metrics (end_session env v sv) = session_closed (sv_metrics sv)" by blast+
qed

text \<open>The output cap of a request is a \<open>usize\<close>: what the decoder of the type guarantees.\<close>

definition usize_requests :: "('j, Request) serde \<Rightarrow> bool" where
  "usize_requests sd \<longleftrightarrow> (\<forall>j a b c d. from_value sd j = Inr (Open a b c d) \<longrightarrow> opt_ok (\<lambda>n. n \<le> usize_max) d)"

lemma read_message_decoded: "read_message sd r = (Inr (Some q), r1) \<Longrightarrow> \<exists>j. from_value sd j = Inr q"
proof (induction sd r rule: read_message.induct)
  case (1 sd r)
  have dec: "\<exists>j. from_value sd j = Inr q" if "decode_message sd line = Inr q" for line
    using that by (auto simp: decode_message_def and_then_def map_err_def split: sum.splits option.splits if_splits)
  show ?case
  proof (cases "read_line_capped r MAX_MESSAGE_BYTES []")
    case (fields x buf r2)
    show ?thesis
    proof (cases "\<exists>s. x = Inr False \<and> from_utf8 buf = Some s \<and> trim s = []")
      case True
      then obtain s where s: "x = Inr False" "from_utf8 buf = Some s" "trim s = []" by blast
      then have "read_message sd r2 = (Inr (Some q), r1)"
        using "1.prems" fields by (subst (asm) read_message.simps) simp
      then show ?thesis
        using "1.IH" [OF fields [symmetric] s(1) refl _ s(2) refl s(3)] by simp
    next
      case False
      then show ?thesis
        using "1.prems" fields dec
        by (subst (asm) read_message.simps)
           (auto simp: Let_def map_sum_def split: sum.splits option.splits if_splits)
    qed
  qed
qed

lemma open_limits_within:
  assumes "open_limits req p = Inr (l, bare)" "ok_operator p"
    and "\<And>a b c d. req = Open a b c d \<Longrightarrow> opt_ok (\<lambda>n. n \<le> usize_max) d"
  shows "within_policy p l"
proof -
  obtain a b c d where req: "req = Open a b c d" using assms(1) by (cases req) (auto simp: open_limits_def)
  let ?r = "\<lparr>rq_vcpus = map_option unat a, rq_mem_mib = map_option unat b, rq_wall_secs = map_option unat c, rq_output_cap = d\<rparr>"
  have a: "opt_ok (\<lambda>v. v \<noteq> 0 \<and> unat v \<le> MAX_VCPUS) a" and b: "opt_ok (\<lambda>m. m \<noteq> 0) b" and res: "resolve p ?r = Inr l"
    using assms(1) req by (auto simp: open_limits_def Let_def and_then_def map_err_def split: if_splits sum.splits)
  have "ok_requested ?r"
    using a b assms(3) [OF req] unat_less_pow [where 'a = 8] unat_less_pow [where 'a = 32]
    by (auto simp: ok_requested_def opt_ok_def nz8_def nz32_def unat_gt_0 MAX_VCPUS_def split: option.splits)
  moreover have "\<not> any_over p ?r" using res resolve_refused [of p ?r] by auto
  ultimately have "l = granted_limits p ?r" "\<not> any_over p ?r" using resolve_ok [OF assms(2)] res by auto
  then show ?thesis
    using granted_le by (simp add: within_policy_def granted_limits_def any_over_def)
qed

lemma session_opened_active: "m_active (session_opened pooled d m) = m_active m + 1"
  by (simp add: session_opened_def Let_def)

lemma session_closed_active: "m_active m = n + 1 \<Longrightarrow> n + 1 \<noteq> 0 \<Longrightarrow> m_active (session_closed m) = n"
  by (simp add: session_closed_def)

lemma live_session_ends:
  assumes "sv_holds base (insert v out) sv1" "v \<notin> out" "m_active (sv_metrics sv1) + 1 \<noteq> 0"
    and "untouched (on_metrics (session_opened pooled d) sv1) sv2"
  shows "sv_holds base out (end_session env v sv2)" "sv_booted (end_session env v sv2) = sv_booted sv1"
    "m_active (sv_metrics (end_session env v sv2)) = m_active (sv_metrics sv1)"
proof -
  have h: "sv_holds base (insert v out) sv2"
    using assms(1) sv_holds_untouched [OF assms(4)] by (simp add: sv_holds_def on_metrics_def)
  note e = end_session_holds [OF h assms(2), of env]
  have "m_active (sv_metrics sv2) = m_active (sv_metrics sv1) + 1" "sv_booted sv2 = sv_booted sv1"
    using assms(4) by (simp_all add: untouched_def on_metrics_def session_opened_active)
  then show "sv_holds base out (end_session env v sv2)" "sv_booted (end_session env v sv2) = sv_booted sv1"
    "m_active (sv_metrics (end_session env v sv2)) = m_active (sv_metrics sv1)"
    using e session_closed_active assms(3) by auto
qed

text \<open>(C25) Whatever a client sends, and however commands, boots, locks and replies turn out, a session
  that has ended leaves no VM behind: the live VMs are again those of the pool and of the other
  sessions, none of which it touched, and the gauge of open sessions has its old value. It asked for at
  most one cold boot, with the confinement the daemon was launched with and limits within the
  operator's ceilings, neither of which a client can weaken.\<close>

theorem session_leaves_nothing_behind:
  assumes "sv_holds base out sv" "m_active (sv_metrics sv) + 1 \<noteq> 0" "ok_operator (la_policy la)" "usize_requests (e_serde env)"
    and "serve_session_conn env la split sv r w = (sv1, w1)"
  shows "sv_holds base out sv1 \<and> m_active (sv_metrics sv1) = m_active (sv_metrics sv)
    \<and> (\<exists>cs. sv_booted sv1 = sv_booted sv @ cs \<and> length cs \<le> 1
         \<and> list_all (\<lambda>c. confined la c \<and> within_policy (la_policy la) (bc_limits c)) cs)"
proof -
  have same: ?thesis if "untouched sv sv1"
    using that assms(1) sv_holds_untouched [OF that] by (auto simp: untouched_def intro: exI [of _ "[]"])
  obtain res r1 where m: "read_message (e_serde env) r = (res, r1)" by (cases "read_message (e_serde env) r")
  show ?thesis
  proof (cases "split \<and> (\<exists>req l. res = Inr (Some req) \<and> open_limits req (la_policy la) = Inr l)")
    case False
    then have "untouched sv sv1"
      using assms(5) m
      by (auto simp: serve_session_conn_def split: if_splits sum.splits option.splits ProtocolError.splits)
    then show ?thesis by (rule same)
  next
    case True
    then obtain req limits bare where req: "res = Inr (Some req)" and ol: "open_limits req (la_policy la) = Inr (limits, bare)"
      and sp: split by auto
    have lim: "within_policy (la_policy la) limits"
      by (rule open_limits_within [OF ol assms(3)])
         (use read_message_decoded [of "e_serde env" r req r1] m req assms(4) in \<open>auto simp: usize_requests_def\<close>)
    obtain y sv2 where b: "boot_session_vm env la limits bare sv = (y, sv2)" by (cases "boot_session_vm env la limits bare sv")
    note boot = boot_session_vm_holds [OF b assms(1)]
    obtain cs where cs: "sv_booted sv2 = sv_booted sv @ cs" "length cs \<le> 1"
      "list_all (\<lambda>c. confined la c \<and> within_policy (la_policy la) (bc_limits c)) cs"
      using boot(2) lim by (auto simp: list_all_iff)
    show ?thesis
    proof (cases y)
      case (Inl e)
      then have "sv1 = on_metrics open_failed sv2" using assms(5) m req ol b sp by (simp add: serve_session_conn_def)
      then show ?thesis using boot(1,3) cs Inl by (auto simp: sv_holds_def on_metrics_def open_failed_def)
    next
      case (Inr vp)
      then obtain v pooled where vp: "y = Inr (v, pooled)" by (cases vp) simp
      let ?sv = "on_metrics (session_opened pooled (e_boot_latency env v)) sv2"
      obtain sv3 where u: "untouched ?sv sv3" and e: "sv1 = end_session env v sv3"
      proof (cases "fst (send env (Opened (duration_ms (e_boot_latency env v)) pooled) w)")
        case True
        let ?loop = "session_loop env la \<lparr>lv_vm = v, lv_probes = e_attach env v, lv_total = 0, lv_chain = None\<rparr> ?sv r1
          (snd (send env (Opened (duration_ms (e_boot_latency env v)) pooled) w))"
        have "sv1 = end_session env v (fst ?loop)"
          using assms(5) m req ol b sp vp True by (simp add: serve_session_conn_def Let_def case_prod_unfold)
        then show ?thesis using that session_loop_untouched by blast
      next
        case False
        then have "sv1 = end_session env v ?sv"
          using assms(5) m req ol b sp vp by (simp add: serve_session_conn_def Let_def case_prod_unfold)
        then show ?thesis using that by force
      qed
      have act: "m_active (sv_metrics sv2) + 1 \<noteq> 0" using assms(2) boot(3) by simp
      have "sv_holds base (insert v out) sv2" "v \<notin> out" using boot(1) vp by auto
      from live_session_ends [OF this act u, of env] show ?thesis using e cs boot(3) by auto
    qed
  qed
qed

definition idle_server :: server where
  "idle_server = \<lparr>sv_metrics = Metrics_default, sv_pool = Some \<lparr>pool_has_vsock = True, pool_target = 1, pool_ready = []\<rparr>,
     sv_host = flaky_host, sv_snapshot_seq = 0, sv_booted = [], sv_calls = 0, sv_locks = 0\<rparr>"

definition house_launch :: launch where
  "house_launch = \<lparr>la_base = \<lparr>bc_limits = Limits_default, bc_jail = None, bc_guest_cid = None\<rparr>, la_jailed = True,
     la_policy = house_policy, la_snapshot_base = ''/s''\<rparr>"

definition plain_env :: "(nat, unit, unit, unit) session_env" where
  "plain_env = \<lparr>e_fmt = plain_fmt,
     e_serde = \<lparr>from_str = (\<lambda>_. Inr ()), get_schema = (\<lambda>_. Some 1), from_value = (\<lambda>_. Inr (Open None (Some 512) None None))\<rparr>,
     e_render = (\<lambda>_. Inr ''x''), e_vm = (\<lambda>_. \<lparr>vm_vsock_uds = None, vm_exec_wall = 1, vm_output_cap = 1\<rparr>),
     e_boot_latency = (\<lambda>_. 5), e_attach = (\<lambda>_. True), e_lock = (\<lambda>_. Free),
     e_call = (\<lambda>_. \<lparr>vc_clock = (\<lambda>n. n), vc_dial = Inl NotFound, vc_sockopt = None, vc_elapsed = 1\<rparr>),
     e_snapshot = (\<lambda>_ _. None), e_live_record = (\<lambda>_ _ _ _. []), e_live_summary = (\<lambda>_ _ _ _. []),
     e_crypto = toy_crypto, e_key = (), e_no_record = 0\<rparr>"

theorem session_leaves_nothing_behind_witness:
  "\<exists>sv1 w1. serve_session_conn plain_env house_launch True idle_server [Chunk [120, 10], Chunk [121, 10]] idle_writer = (sv1, w1)
     \<and> sv_holds {} {} sv1 \<and> m_active (sv_metrics sv1) = 0 \<and> list_all (\<lambda>c. bc_jail c \<noteq> None) (sv_booted sv1)"
proof -
  let ?run = "serve_session_conn plain_env house_launch True idle_server [Chunk [120, 10], Chunk [121, 10]] idle_writer"
  have h: "sv_holds {} {} idle_server" by (simp add: sv_holds_def holds_def idle_server_def flaky_host_def)
  have a: "m_active (sv_metrics idle_server) + 1 \<noteq> 0" by (simp add: idle_server_def Metrics_default_def)
  have p: "ok_operator (la_policy house_launch)"
    by (simp add: house_launch_def house_policy_def ok_operator_def nz8_def nz32_def)
  have u: "usize_requests (e_serde plain_env)" by (simp add: usize_requests_def plain_env_def)
  obtain sv1 w1 where run: "?run = (sv1, w1)" by (cases ?run)
  have b: "sv_booted idle_server = []" "m_active (sv_metrics idle_server) = 0" "la_jailed house_launch"
    by (simp_all add: idle_server_def Metrics_default_def house_launch_def)
  show ?thesis
    using session_leaves_nothing_behind [OF h a p u run] run b by (auto simp: confined_def list_all_iff)
qed

end
