(* ===== verification/Sweep.thy ===== *)
theory Sweep
  imports Exec Paths
begin

text \<open>
  The garbage collector for what a crashed driver leaves on the host, \<open>crates/vmm/src/sweep.rs\<close>:
  scratch directories named \<open>kee-<pid>-<seq>\<close> and the network namespaces named after them. What the
  kernel shows during a pass is the record \<open>sweep_env\<close>; what a pass changes is the record
  \<open>residue\<close>. The lemmas say exactly what a pass removes: never anything of a live process, of another
  user, of a running VMM or of a restore in flight, and everything else that is orphaned.
\<close>

section \<open>The host as a pass sees it\<close>

type_synonym identity = "u64 \<times> u64" \<comment> \<open>device and inode\<close>

record proc_entry =
  pr_name :: string
  pr_comm :: "string option"
  pr_cwd :: "identity option"

text \<open>Unreadable files are \<open>None\<close>, unreadable directories have no children. \<open>se_netns_del\<close>,
  \<open>se_unmount\<close> and \<open>se_remove\<close> say whether the operation would work.\<close>

record sweep_env =
  se_status :: "string option" \<comment> \<open>/proc/self/status\<close>
  se_exists :: "u32 \<Rightarrow> bool" \<comment> \<open>/proc/<pid>\<close>
  se_procs :: "proc_entry list option" \<comment> \<open>/proc\<close>
  se_metadata :: "string \<Rightarrow> identity option"
  se_children :: "string \<Rightarrow> string list"
  se_read :: "string \<Rightarrow> string option"
  se_uid :: "string \<Rightarrow> u32 option"
  se_mountinfo :: "string option" \<comment> \<open>/proc/self/mountinfo\<close>
  se_netns_del :: "string \<Rightarrow> bool"
  se_unmount :: "string \<Rightarrow> bool"
  se_remove :: "string \<Rightarrow> bool"

record residue =
  rs_entries :: "string list" \<comment> \<open>the names in the scratch directory\<close>
  rs_netns :: "string set"
  rs_mounts :: "string set"

section \<open>Whose directory it is\<close>

definition owner_pid :: "string \<Rightarrow> u32 option" where
  "owner_pid name =
     Option.bind (strip_prefix ''kee-'' name) (\<lambda>rest.
     Option.bind (split_once CHR ''-'' rest) (\<lambda>(pid, seq).
     if pid = [] \<or> seq = [] \<or> \<not> list_all (\<lambda>c. digit_of 10 c \<noteq> None) seq then None
     else parse_u32 pid))"

definition pid_alive :: "sweep_env \<Rightarrow> u32 \<Rightarrow> bool" where
  "pid_alive env pid = se_exists env pid"

definition own_euid :: "string option \<Rightarrow> u32 option" where
  "own_euid self_status =
     Option.bind self_status (\<lambda>s.
     Option.bind (find_map (strip_prefix ''Uid:'') (str_lines s)) (\<lambda>uid.
     Option.bind (slice_at (split_whitespace uid) 1) parse_u32))"

section \<open>What keeps a directory\<close>

definition protected_identities :: "sweep_env \<Rightarrow> string \<Rightarrow> identity set" where
  "protected_identities env dir =
     (case se_metadata env dir of Some i \<Rightarrow> {i} | None \<Rightarrow> {})
     \<union> set (List.map_filter (\<lambda>lvl2. se_metadata env (path_push lvl2 ''root''))
             (concat (map (se_children env) (se_children env dir))))"

fun vmm_proc_in :: "identity set \<Rightarrow> proc_entry list \<Rightarrow> u32 option" where
  "vmm_proc_in protected [] = None"
| "vmm_proc_in protected (p # ps) =
     (case Option.bind (from_utf8 (as_bytes (pr_name p))) parse_u32 of
        None \<Rightarrow> vmm_proc_in protected ps
      | Some pid \<Rightarrow>
          (let comm = trim (case pr_comm p of Some c \<Rightarrow> c | None \<Rightarrow> []) in
           if comm \<noteq> ''firecracker'' \<and> comm \<noteq> ''jailer'' then vmm_proc_in protected ps
           else case pr_cwd p of
               Some cwd \<Rightarrow> if cwd \<in> protected then Some pid else vmm_proc_in protected ps
             | None \<Rightarrow> vmm_proc_in protected ps))"

definition vmm_running_in :: "sweep_env \<Rightarrow> string \<Rightarrow> u32 option" where
  "vmm_running_in env dir =
     (let protected = protected_identities env dir in
      if protected = {} then None
      else case se_procs env of None \<Rightarrow> None | Some ps \<Rightarrow> vmm_proc_in protected ps)"

definition RESTORE_STAGING_MARKER :: string where "RESTORE_STAGING_MARKER = ''.restore-staging''"

definition restore_staging_in :: "sweep_env \<Rightarrow> string \<Rightarrow> bool" where
  "restore_staging_in env dir =
     (case se_read env (path_push dir RESTORE_STAGING_MARKER) of
        None \<Rightarrow> False
      | Some s \<Rightarrow> (case parse_u32 (trim s) of Some pid \<Rightarrow> pid_alive env pid | None \<Rightarrow> False))"

section \<open>The pass\<close>

record SweepReport =
  dirs_reclaimed :: usize
  netns_reclaimed :: usize
  live_skipped :: usize
  restore_staging_skipped :: usize

definition SweepReport_default :: SweepReport where
  "SweepReport_default = \<lparr>dirs_reclaimed = 0, netns_reclaimed = 0, live_skipped = 0, restore_staging_skipped = 0\<rparr>"

text \<open>The mount points under a directory, deepest first, and their detachment.\<close>

definition mount_point :: "string \<Rightarrow> string option" where
  "mount_point line = slice_at (split_on (\<lambda>c. c = CHR '' '') line) 4"

definition mounts_under :: "string \<Rightarrow> string \<Rightarrow> string list" where
  "mounts_under dir info =
     rev (sort_key (\<lambda>p. length (components p))
       (rev (filter (\<lambda>mp. path_starts_with mp dir) (List.map_filter mount_point (str_lines info)))))"

definition unmount_base :: "sweep_env \<Rightarrow> string \<Rightarrow> residue \<Rightarrow> residue" where
  "unmount_base env mp rs = (if se_unmount env mp then rs\<lparr>rs_mounts := rs_mounts rs - {mp}\<rparr> else rs)"

definition detach_mounts_under :: "sweep_env \<Rightarrow> string \<Rightarrow> residue \<Rightarrow> residue" where
  "detach_mounts_under env dir rs =
     (case se_mountinfo env of
        None \<Rightarrow> rs
      | Some info \<Rightarrow> fold (unmount_base env) (mounts_under dir info) rs)"

text \<open>\<open>remove_dir_all\<close> does not get past a mount point.\<close>

definition remove_dir_all :: "sweep_env \<Rightarrow> string \<Rightarrow> string \<Rightarrow> residue \<Rightarrow> bool \<times> residue" where
  "remove_dir_all env scratch name rs =
     (let dir = path_push scratch name in
      if se_remove env dir \<and> (\<forall>mp \<in> rs_mounts rs. \<not> path_starts_with mp dir)
      then (True, rs\<lparr>rs_entries := removeAll name (rs_entries rs)\<rparr>)
      else (False, rs))"

fun partition_dirs :: "sweep_env \<Rightarrow> string \<Rightarrow> u32 \<Rightarrow> string list \<Rightarrow> SweepReport \<Rightarrow> string list \<times> SweepReport" where
  "partition_dirs env scratch me [] rep = ([], rep)"
| "partition_dirs env scratch me (name # names) rep =
     (case owner_pid (from_utf8_lossy (as_bytes name)) of
        None \<Rightarrow> partition_dirs env scratch me names rep
      | Some pid \<Rightarrow>
          if se_uid env (path_push scratch name) \<noteq> Some me then partition_dirs env scratch me names rep
          else if pid_alive env pid
          then partition_dirs env scratch me names (rep\<lparr>live_skipped := live_skipped rep + 1\<rparr>)
          else (case partition_dirs env scratch me names rep of (dead, rep1) \<Rightarrow> (name # dead, rep1)))"

definition reclaim_netns :: "sweep_env \<Rightarrow> string \<Rightarrow> residue \<Rightarrow> SweepReport \<Rightarrow> residue \<times> SweepReport" where
  "reclaim_netns env name rs rep =
     (case from_utf8 (as_bytes name) of
        None \<Rightarrow> (rs, rep)
      | Some netns \<Rightarrow>
          if netns \<in> rs_netns rs
          then (if se_netns_del env netns
                then (rs\<lparr>rs_netns := rs_netns rs - {netns}\<rparr>, rep\<lparr>netns_reclaimed := netns_reclaimed rep + 1\<rparr>)
                else (rs, rep))
          else (rs, rep))"

definition reclaim_dir :: "sweep_env \<Rightarrow> string \<Rightarrow> string \<Rightarrow> residue \<Rightarrow> SweepReport \<Rightarrow> residue \<times> SweepReport" where
  "reclaim_dir env scratch name rs rep =
     (let dir = path_push scratch name in
      if vmm_running_in env dir \<noteq> None then (rs, rep\<lparr>live_skipped := live_skipped rep + 1\<rparr>)
      else
        (let (rs1, rep1) = reclaim_netns env name rs rep in
         if restore_staging_in env dir
         then (rs1, rep1\<lparr>restore_staging_skipped := restore_staging_skipped rep1 + 1\<rparr>)
         else
           (case remove_dir_all env scratch name (detach_mounts_under env dir rs1) of
              (True, rs2) \<Rightarrow> (rs2, rep1\<lparr>dirs_reclaimed := dirs_reclaimed rep1 + 1\<rparr>)
            | (False, rs2) \<Rightarrow> (rs2, rep1))))"

fun reclaim_all :: "sweep_env \<Rightarrow> string \<Rightarrow> string list \<Rightarrow> residue \<Rightarrow> SweepReport \<Rightarrow> residue \<times> SweepReport" where
  "reclaim_all env scratch [] rs rep = (rs, rep)"
| "reclaim_all env scratch (name # names) rs rep =
     (case reclaim_dir env scratch name rs rep of (rs1, rep1) \<Rightarrow> reclaim_all env scratch names rs1 rep1)"

text \<open>\<open>unreadable\<close> is the error of reading the scratch directory, if it cannot be read.\<close>

definition sweep_orphans ::
    "fmt \<Rightarrow> sweep_env \<Rightarrow> io_kind option \<Rightarrow> string \<Rightarrow> residue \<Rightarrow> (VmmError + SweepReport) \<times> residue" where
  "sweep_orphans f env unreadable scratch rs =
     (case unreadable of
        Some e \<Rightarrow> (Inl (Vmm (''read scratch base '' @ scratch @ '': '' @ io_display f e)), rs)
      | None \<Rightarrow>
          (case own_euid (se_status env) of
             None \<Rightarrow> (Inl (Vmm ''cannot read own euid from /proc/self/status; refusing to sweep without it''), rs)
           | Some me \<Rightarrow>
               (case partition_dirs env scratch me (rs_entries rs) SweepReport_default of
                  (dead, rep) \<Rightarrow> (case reclaim_all env scratch dead rs rep of (rs1, rep1) \<Rightarrow> (Inr rep1, rs1)))))"

section \<open>What a pass reclaims\<close>

text \<open>A directory is an orphan when its name is one the driver makes, it belongs to this user and the
  process in its name is gone. It is reclaimable when moreover no VMM runs in it, no restore stages
  into it and the kernel lets it go; a mount inside keeps it only when it cannot be detached.\<close>

definition orphan :: "sweep_env \<Rightarrow> string \<Rightarrow> u32 \<Rightarrow> string \<Rightarrow> bool" where
  "orphan env scratch me name \<longleftrightarrow>
     (case owner_pid (from_utf8_lossy (as_bytes name)) of
        None \<Rightarrow> False
      | Some pid \<Rightarrow> se_uid env (path_push scratch name) = Some me \<and> \<not> pid_alive env pid)"

definition idle :: "sweep_env \<Rightarrow> string \<Rightarrow> string \<Rightarrow> bool" where
  "idle env scratch name \<longleftrightarrow> vmm_running_in env (path_push scratch name) = None"

definition detachable :: "sweep_env \<Rightarrow> string \<Rightarrow> string \<Rightarrow> bool" where
  "detachable env dir mp \<longleftrightarrow>
     (case se_mountinfo env of None \<Rightarrow> False | Some info \<Rightarrow> mp \<in> set (mounts_under dir info)) \<and> se_unmount env mp"

definition removable :: "sweep_env \<Rightarrow> string \<Rightarrow> string set \<Rightarrow> string \<Rightarrow> bool" where
  "removable env scratch mounts name \<longleftrightarrow>
     se_remove env (path_push scratch name) \<and> \<not> restore_staging_in env (path_push scratch name)
     \<and> (\<forall>mp \<in> mounts. path_starts_with mp (path_push scratch name) \<longrightarrow> detachable env (path_push scratch name) mp)"

lemma mounts_under_set:
  "set (mounts_under dir info) = {mp \<in> set (List.map_filter mount_point (str_lines info)). path_starts_with mp dir}"
  by (auto simp: mounts_under_def)

lemma partition_dirs_dead: "fst (partition_dirs env scratch me names rep) = filter (orphan env scratch me) names"
  by (induction env scratch me names rep rule: partition_dirs.induct)
     (auto simp: orphan_def split: option.splits prod.splits)

lemma partition_dirs_report:
  "\<exists>n. snd (partition_dirs env scratch me names rep) = rep\<lparr>live_skipped := n\<rparr>"
proof (induction env scratch me names rep rule: partition_dirs.induct)
  case (1 env scratch me rep)
  show ?case by (rule exI [of _ "live_skipped rep"]) simp
next
  case (2 env scratch me name names rep)
  then show ?case by (fastforce split: option.splits prod.splits)
qed

lemma unmount_frame [simp]:
  "rs_entries (unmount_base env mp rs) = rs_entries rs" "rs_netns (unmount_base env mp rs) = rs_netns rs"
  "rs_mounts (unmount_base env mp rs) = rs_mounts rs - (if se_unmount env mp then {mp} else {})"
  by (simp_all add: unmount_base_def)

lemma unmount_all:
  "rs_entries (fold (unmount_base env) mps rs) = rs_entries rs"
  "rs_netns (fold (unmount_base env) mps rs) = rs_netns rs"
  "rs_mounts (fold (unmount_base env) mps rs) = rs_mounts rs - {mp \<in> set mps. se_unmount env mp}"
  by (induction mps arbitrary: rs) auto

lemma detach_frame [simp]:
  "rs_entries (detach_mounts_under env dir rs) = rs_entries rs"
  "rs_netns (detach_mounts_under env dir rs) = rs_netns rs"
  "rs_mounts (detach_mounts_under env dir rs) = rs_mounts rs - {mp. detachable env dir mp}"
  by (auto simp: detach_mounts_under_def detachable_def unmount_all split: option.splits)

text \<open>A mount that can be detached under one directory can be detached under every directory it lies
  below, so earlier detachments never change what a later directory is.\<close>

lemma detachable_mono:
  "detachable env dir mp \<Longrightarrow> path_starts_with mp dir' \<Longrightarrow> detachable env dir' mp"
  by (auto simp: detachable_def mounts_under_set split: option.splits)

lemma removable_detached:
  "removable env scratch (mounts - {mp. detachable env dir mp}) name \<longleftrightarrow> removable env scratch mounts name"
  by (auto simp: removable_def intro: detachable_mono)

lemma removed_iff:
  "fst (remove_dir_all env scratch name (detach_mounts_under env (path_push scratch name) rs))
   \<and> \<not> restore_staging_in env (path_push scratch name)
   \<longleftrightarrow> removable env scratch (rs_mounts rs) name"
  by (auto simp: remove_dir_all_def Let_def removable_def)

lemma reclaim_netns_effect:
  "reclaim_netns env name rs rep = (rs1, rep1) \<Longrightarrow>
   rs_entries rs1 = rs_entries rs \<and> rs_mounts rs1 = rs_mounts rs
   \<and> rs_netns rs1 = rs_netns rs - {n. n = name \<and> is_str name \<and> se_netns_del env name}
   \<and> (\<exists>k. rep1 = rep\<lparr>netns_reclaimed := k\<rparr>)"
  by (cases rep) (auto simp: reclaim_netns_def from_utf8_def is_str_def split: option.splits if_splits)

lemma reclaim_dir_effect:
  assumes "reclaim_dir env scratch name rs rep = (rs1, rep1)"
  shows "rs_entries rs1 = (if idle env scratch name \<and> removable env scratch (rs_mounts rs) name
           then removeAll name (rs_entries rs) else rs_entries rs)"
    and "rs_netns rs1 = rs_netns rs - {n. n = name \<and> idle env scratch name \<and> is_str name \<and> se_netns_del env name}"
    and "rs_mounts rs1 = rs_mounts rs \<or> rs_mounts rs1 = rs_mounts rs - {mp. detachable env (path_push scratch name) mp}"
    and "dirs_reclaimed rep1 = dirs_reclaimed rep
           + (if idle env scratch name \<and> removable env scratch (rs_mounts rs) name then 1 else 0)"
proof -
  obtain rs0 rep0 where n: "reclaim_netns env name rs rep = (rs0, rep0)" by (cases "reclaim_netns env name rs rep")
  note e = reclaim_netns_effect [OF n]
  note r = removed_iff [of env scratch name rs0]
  have frame: "snd (remove_dir_all env scratch name rs2)
      = (if fst (remove_dir_all env scratch name rs2) then rs2\<lparr>rs_entries := removeAll name (rs_entries rs2)\<rparr> else rs2)" for rs2
    by (simp add: remove_dir_all_def Let_def)
  have "(rs1, rep1) = (if \<not> idle env scratch name then (rs, rep\<lparr>live_skipped := live_skipped rep + 1\<rparr>)
      else if restore_staging_in env (path_push scratch name)
      then (rs0, rep0\<lparr>restore_staging_skipped := restore_staging_skipped rep0 + 1\<rparr>)
      else let rs2 = detach_mounts_under env (path_push scratch name) rs0; (b, rs3) = remove_dir_all env scratch name rs2
           in (rs3, if b then rep0\<lparr>dirs_reclaimed := dirs_reclaimed rep0 + 1\<rparr> else rep0))"
    using assms
    by (cases "remove_dir_all env scratch name (detach_mounts_under env (path_push scratch name) rs0)")
       (auto simp: reclaim_dir_def idle_def n Let_def split: if_splits bool.splits)
  note eq = this [unfolded Let_def case_prod_unfold frame]
  show "rs_entries rs1 = (if idle env scratch name \<and> removable env scratch (rs_mounts rs) name
      then removeAll name (rs_entries rs) else rs_entries rs)"
    "rs_netns rs1 = rs_netns rs - {n. n = name \<and> idle env scratch name \<and> is_str name \<and> se_netns_del env name}"
    "rs_mounts rs1 = rs_mounts rs \<or> rs_mounts rs1 = rs_mounts rs - {mp. detachable env (path_push scratch name) mp}"
    "dirs_reclaimed rep1 = dirs_reclaimed rep
       + (if idle env scratch name \<and> removable env scratch (rs_mounts rs) name then 1 else 0)"
    using eq e r by (auto split: if_splits)
qed

lemma reclaim_all_effect:
  assumes "reclaim_all env scratch names rs rep = (rs1, rep1)" "distinct names"
  shows "rs_entries rs1 =
      filter (\<lambda>n. \<not> (n \<in> set names \<and> idle env scratch n \<and> removable env scratch (rs_mounts rs) n)) (rs_entries rs)
    \<and> rs_netns rs1 = rs_netns rs - {n \<in> set names. idle env scratch n \<and> is_str n \<and> se_netns_del env n}
    \<and> rs_mounts rs1 \<subseteq> rs_mounts rs
    \<and> dirs_reclaimed rep1 = dirs_reclaimed rep
        + length (filter (\<lambda>n. idle env scratch n \<and> removable env scratch (rs_mounts rs) n) names)"
  using assms
proof (induction names arbitrary: rs rep)
  case (Cons name names)
  obtain rs0 rep0 where d: "reclaim_dir env scratch name rs rep = (rs0, rep0)"
    by (cases "reclaim_dir env scratch name rs rep")
  note e = reclaim_dir_effect [OF d]
  have all: "reclaim_all env scratch names rs0 rep0 = (rs1, rep1)" using Cons.prems(1) d by simp
  have same: "removable env scratch (rs_mounts rs0) = removable env scratch (rs_mounts rs)"
    using e(3) by (auto simp: fun_eq_iff removable_detached)
  have sub: "rs_mounts rs0 \<subseteq> rs_mounts rs" using e(3) by auto
  show ?case
    using Cons.IH [OF all] Cons.prems(2) e(1,2,4) sub unfolding same
    by (auto simp: removeAll_filter_not_eq intro: filter_cong)
qed simp


text \<open>A host with one dead driver, one live driver and a directory of someone else's.\<close>

definition small_host :: sweep_env where
  "small_host = \<lparr>se_status = Some ''Uid: 5 5'', se_exists = (\<lambda>pid. pid = 8), se_procs = Some [],
     se_metadata = (\<lambda>_. None), se_children = (\<lambda>_. []), se_read = (\<lambda>_. None), se_uid = (\<lambda>_. Some 5),
     se_mountinfo = None, se_netns_del = (\<lambda>_. True), se_unmount = (\<lambda>_. True), se_remove = (\<lambda>_. True)\<rparr>"

definition small_residue :: residue where
  "small_residue = \<lparr>rs_entries = [''kee-7-0'', ''kee-8-0'', ''notes''], rs_netns = {''kee-7-0'', ''kee-8-0''}, rs_mounts = {}\<rparr>"

lemma small_euid: "own_euid (se_status small_host) = Some 5"
proof -
  have "split_whitespace '' 5 5'' = [''5'', ''5'']"
    using string_of_chars_ascii [of "''5''"]
    by (simp add: split_whitespace_def utf8_chars_ascii is_ascii_def is_whitespace_def)
  moreover have "parse_u32 ''5'' = Some 5" by (simp add: parse_u32_def from_str_radix_def digit_of_def)
  moreover have "str_lines ''Uid: 5 5'' = [''Uid: 5 5'']" by (simp add: str_lines_def)
  ultimately show ?thesis by (simp add: own_euid_def small_host_def strip_prefix_def slice_at_def)
qed

lemma small_orphans:
  "orphan small_host scratch 5 ''kee-7-0''" "\<not> orphan small_host scratch 5 ''kee-8-0''" "\<not> orphan small_host scratch 5 ''notes''"
proof -
  have l: "from_utf8_lossy (as_bytes s) = s" if "is_ascii s" for s
    using that by (simp add: from_utf8_lossy_id is_ascii_is_str)
  have "owner_pid ''kee-7-0'' = Some 7" "owner_pid ''kee-8-0'' = Some 8" "owner_pid ''notes'' = None"
    by (simp_all add: owner_pid_def strip_prefix_def split_once_def parse_u32_def from_str_radix_def digit_of_def)
  then show "orphan small_host scratch 5 ''kee-7-0''" "\<not> orphan small_host scratch 5 ''kee-8-0''"
    "\<not> orphan small_host scratch 5 ''notes''"
    by (simp_all add: orphan_def l is_ascii_def small_host_def pid_alive_def)
qed


end
