(* ===== verification/Admission.thy ===== *)
theory Admission
  imports Prelude
begin

text \<open>
  Admission under the session ceiling, \<open>SessionTicket\<close> of \<open>crates/cli/src/serve.rs\<close>. The counter is
  one atomic with relaxed ordering, so the model keeps its whole modification order: a load, and the
  load of a failed exchange, may see any value the counter ever had, while an exchange that succeeds
  and the two unconditional updates act on the newest one. A weak exchange may also fail although the
  value is the expected one. Any number of connections run at once, each at its own place.
\<close>

section \<open>The steps of a connection\<close>

datatype conn =
    Arriving \<comment> \<open>before \<open>acquire\<close>\<close>
  | Deciding u64 \<comment> \<open>at the head of the loop, with \<open>current\<close>\<close>
  | Holding \<comment> \<open>has the ticket\<close>
  | Refused
  | Gone \<comment> \<open>the ticket was dropped\<close>

record admission =
  ad_order :: "u64 list" \<comment> \<open>the values of the counter, newest first\<close>
  ad_conn :: "nat \<Rightarrow> conn"

definition active_sessions :: "admission \<Rightarrow> u64" where
  "active_sessions s = hd (ad_order s)"

definition advance :: "nat \<Rightarrow> conn \<Rightarrow> admission \<Rightarrow> admission" where
  "advance i c s = s\<lparr>ad_conn := (ad_conn s)(i := c)\<rparr>"

definition store :: "u64 \<Rightarrow> admission \<Rightarrow> admission" where
  "store v s = s\<lparr>ad_order := v # ad_order s\<rparr>"

definition admission_start :: admission where
  "admission_start = \<lparr>ad_order = [0], ad_conn = (\<lambda>_. Arriving)\<rparr>"

text \<open>\<open>acquire\<close> one atomic access at a time, and the drop of the ticket, which is how every admitted
  connection ends: the thread could not be spawned, the session returned, or it panicked.\<close>

inductive admission_step :: "u64 \<Rightarrow> admission \<Rightarrow> admission \<Rightarrow> bool" for max_sessions :: u64 where
  fetch_add:
    "max_sessions = 0 \<Longrightarrow> ad_conn s i = Arriving \<Longrightarrow>
     admission_step max_sessions s (advance i Holding (store (active_sessions s + 1) s))"
| load:
    "max_sessions \<noteq> 0 \<Longrightarrow> ad_conn s i = Arriving \<Longrightarrow> v \<in> set (ad_order s) \<Longrightarrow>
     admission_step max_sessions s (advance i (Deciding v) s)"
| refuse:
    "ad_conn s i = Deciding current \<Longrightarrow> max_sessions \<le> current \<Longrightarrow>
     admission_step max_sessions s (advance i Refused s)"
| exchange:
    "ad_conn s i = Deciding current \<Longrightarrow> \<not> max_sessions \<le> current \<Longrightarrow> active_sessions s = current \<Longrightarrow>
     admission_step max_sessions s (advance i Holding (store (current + 1) s))"
| exchange_fails:
    "ad_conn s i = Deciding current \<Longrightarrow> \<not> max_sessions \<le> current \<Longrightarrow> now \<in> set (ad_order s) \<Longrightarrow>
     admission_step max_sessions s (advance i (Deciding now) s)"
| ticket_drop:
    "ad_conn s i = Holding \<Longrightarrow>
     admission_step max_sessions s (advance i Gone (store (active_sessions s - 1) s))"

inductive admission_reach :: "u64 \<Rightarrow> admission \<Rightarrow> bool" for max_sessions :: u64 where
  start: "admission_reach max_sessions admission_start"
| step: "admission_reach max_sessions s \<Longrightarrow> admission_step max_sessions s s1 \<Longrightarrow> admission_reach max_sessions s1"

definition holders :: "admission \<Rightarrow> nat set" where
  "holders s = {i. ad_conn s i = Holding}"

lemma ad_simps [simp]:
  "ad_order (advance i c s) = ad_order s" "ad_conn (advance i c s) = (ad_conn s)(i := c)"
  "ad_order (store v s) = v # ad_order s" "ad_conn (store v s) = ad_conn s"
  "active_sessions (store v s) = v" "active_sessions (advance i c s) = active_sessions s"
  by (simp_all add: advance_def store_def active_sessions_def)

lemma holders_store [simp]: "holders (store v s) = holders s"
  by (simp add: holders_def)

lemma holders_advance [simp]:
  "holders (advance i c s) = (if c = Holding then insert i (holders s) else holders s - {i})"
  by (auto simp: holders_def)

section \<open>The invariant\<close>

text \<open>The counter is the number of tickets, modulo its width; under a ceiling it is that number. Each
  value the counter had was within the ceiling, so a decision taken on a stale value is harmless.\<close>

definition admission_inv :: "u64 \<Rightarrow> admission \<Rightarrow> bool" where
  "admission_inv M s \<longleftrightarrow>
     finite (holders s) \<and> ad_order s \<noteq> [] \<and> active_sessions s = word_of_nat (card (holders s))
     \<and> (M \<noteq> 0 \<longrightarrow> card (holders s) \<le> unat M)
     \<and> (\<forall>i v. ad_conn s i = Deciding v \<longrightarrow> M \<noteq> 0 \<and> v \<in> set (ad_order s))
     \<and> (\<forall>i. ad_conn s i = Refused \<longrightarrow> M \<noteq> 0 \<and> (\<exists>v \<in> set (ad_order s). M \<le> v))"

lemma count_in:
  assumes "admission_inv M s" "M \<noteq> 0"
  shows "unat (active_sessions s) = card (holders s)"
proof -
  have "card (holders s) \<le> unat M" using assms by (simp add: admission_inv_def)
  then have "card (holders s) < 2 ^ 64" using unat_less_pow [of M] by simp
  then show ?thesis using assms(1) by (simp add: admission_inv_def unsigned_of_nat take_bit_nat_eq_self)
qed

lemma holders_add:
  assumes "finite (holders s)" "ad_conn s i \<noteq> Holding"
  shows "card (insert i (holders s)) = Suc (card (holders s))"
  using assms by (simp add: holders_def)

lemma holders_same [simp]: "ad_conn s i \<noteq> Holding \<Longrightarrow> holders s - {i} = holders s"
  by (auto simp: holders_def)

lemma holders_drop:
  assumes "finite (holders s)" "ad_conn s i = Holding"
  shows "card (holders s) = Suc (card (holders s - {i}))"
  using assms by (metis card_Suc_Diff1 holders_def mem_Collect_eq)

lemma inv_step: "admission_step M s s1 \<Longrightarrow> admission_inv M s \<Longrightarrow> admission_inv M s1"
proof (induction rule: admission_step.induct)
  case (fetch_add s i)
  then show ?case using holders_add [of s i] by (auto simp: admission_inv_def)
next
  case (load s i v)
  then show ?case by (auto simp: admission_inv_def)
next
  case (refuse s i current)
  then show ?case by (auto simp: admission_inv_def)
next
  case (exchange s i current)
  have m: "M \<noteq> 0" using exchange by (auto simp: admission_inv_def)
  then have "card (holders s) < unat M"
    using count_in [OF exchange(4)] exchange(2,3) by (simp add: word_le_nat_alt)
  then show ?case using exchange m holders_add [of s i] by (auto simp: admission_inv_def)
next
  case (exchange_fails s i current now)
  then show ?case by (auto simp: admission_inv_def)
next
  case (ticket_drop s i)
  then have c: "card (holders s) = Suc (card (holders s - {i}))"
    by (intro holders_drop) (simp_all add: admission_inv_def)
  have "active_sessions s - 1 = word_of_nat (card (holders s - {i}))"
    using ticket_drop(2) by (simp add: admission_inv_def c)
  moreover have "M \<noteq> 0 \<longrightarrow> card (holders s - {i}) \<le> unat M"
    using ticket_drop(2) c by (auto simp: admission_inv_def)
  ultimately show ?case using ticket_drop(2) by (auto simp: admission_inv_def)
qed

lemma inv_reach: "admission_reach M s \<Longrightarrow> admission_inv M s"
proof (induction rule: admission_reach.induct)
  case start
  show ?case by (simp add: admission_inv_def admission_start_def holders_def active_sessions_def)
next
  case (step s s1)
  then show ?case by (blast intro: inv_step)
qed

text \<open>Every value in the modification order was the number of tickets at some earlier moment.\<close>

lemma order_past:
  "admission_reach M s \<Longrightarrow> v \<in> set (ad_order s) \<Longrightarrow>
   \<exists>s0. admission_reach M s0 \<and> (admission_step M)\<^sup>*\<^sup>* s0 s \<and> active_sessions s0 = v"
proof (induction rule: admission_reach.induct)
  case start
  have "admission_reach M admission_start" by (rule admission_reach.start)
  then show ?case using start by (intro exI [of _ admission_start]) (simp add: admission_start_def active_sessions_def)
next
  case (step s s1)
  show ?case
  proof (cases "v \<in> set (ad_order s)")
    case True
    then show ?thesis using step by (meson rtranclp.rtrancl_into_rtrancl)
  next
    case False
    then have "active_sessions s1 = v" using step(2,4) by (auto elim!: admission_step.cases)
    moreover have "admission_reach M s1" using step(1,2) by (rule admission_reach.step)
    ultimately show ?thesis by (intro exI [of _ s1]) simp
  qed
qed

lemma inv_ceiling: "admission_inv M s \<Longrightarrow> M \<noteq> 0 \<Longrightarrow> M \<le> active_sessions s \<Longrightarrow> card (holders s) = unat M"
  using count_in [of M s] by (simp add: admission_inv_def word_le_nat_alt)

text \<open>A connection that finds a free slot and is not disturbed gets it.\<close>

lemma admitted_when_free:
  assumes "admission_inv M s" "ad_conn s i = Arriving" "M = 0 \<or> card (holders s) < unat M"
  shows "\<exists>s1. (admission_step M)\<^sup>*\<^sup>* s s1 \<and> ad_conn s1 = (ad_conn s)(i := Holding)"
proof (cases "M = 0")
  case True
  then show ?thesis using admission_step.fetch_add [of M s i] assms(2)
    by (intro exI [of _ "advance i Holding (store (active_sessions s + 1) s)"]) simp
next
  case False
  let ?v = "active_sessions s" and ?s1 = "advance i (Deciding (active_sessions s)) s"
  have "ad_order s \<noteq> []" using assms(1) by (simp add: admission_inv_def)
  then have "?v \<in> set (ad_order s)" by (simp add: active_sessions_def)
  then have one: "admission_step M s ?s1" using admission_step.load False assms(2) by blast
  have "\<not> M \<le> ?v" using count_in [OF assms(1) False] assms(3) False by (simp add: word_le_nat_alt)
  then have "admission_step M ?s1 (advance i Holding (store (?v + 1) ?s1))"
    using admission_step.exchange [of ?s1 i ?v M] by simp
  then show ?thesis using one
    by (intro exI [of _ "advance i Holding (store (?v + 1) ?s1)"]) (auto intro: rtranclp.rtrancl_into_rtrancl)
qed

text \<open>(C27) Whatever the interleaving of arriving, exchanging and ending connections, and whatever stale value
  a relaxed load returns: the live sessions never exceed the ceiling, the counter is their number, a
  connection is refused only if all slots were taken at some moment before, and one that arrives while
  a slot is free gets it if it runs undisturbed.\<close>

theorem admission_ceiling:
  assumes "admission_reach M s"
  shows "active_sessions s = word_of_nat (card (holders s))
    \<and> (M = 0 \<or> card (holders s) \<le> unat M \<and> unat (active_sessions s) = card (holders s))
    \<and> (\<forall>i. ad_conn s i = Refused \<longrightarrow>
         (\<exists>s0. admission_reach M s0 \<and> (admission_step M)\<^sup>*\<^sup>* s0 s \<and> card (holders s0) = unat M))
    \<and> (\<forall>i. ad_conn s i = Arriving \<longrightarrow> M = 0 \<or> card (holders s) < unat M \<longrightarrow>
         (\<exists>s1. (admission_step M)\<^sup>*\<^sup>* s s1 \<and> ad_conn s1 = (ad_conn s)(i := Holding)))"
proof (intro conjI allI impI)
  note inv = inv_reach [OF assms]
  show "active_sessions s = word_of_nat (card (holders s))" using inv by (simp add: admission_inv_def)
  show "M = 0 \<or> card (holders s) \<le> unat M \<and> unat (active_sessions s) = card (holders s)"
    using inv count_in [OF inv] by (auto simp: admission_inv_def)
next
  fix i assume "ad_conn s i = Refused"
  then obtain v where v: "M \<noteq> 0" "v \<in> set (ad_order s)" "M \<le> v"
    using inv_reach [OF assms] by (auto simp: admission_inv_def)
  then obtain s0 where "admission_reach M s0" "(admission_step M)\<^sup>*\<^sup>* s0 s" "active_sessions s0 = v"
    using order_past [OF assms] by blast
  then show "\<exists>s0. admission_reach M s0 \<and> (admission_step M)\<^sup>*\<^sup>* s0 s \<and> card (holders s0) = unat M"
    using v inv_ceiling [OF inv_reach] by blast
next
  fix i assume "ad_conn s i = Arriving" "M = 0 \<or> card (holders s) < unat M"
  then show "\<exists>s1. (admission_step M)\<^sup>*\<^sup>* s s1 \<and> ad_conn s1 = (ad_conn s)(i := Holding)"
    by (rule admitted_when_free [OF inv_reach [OF assms]])
qed

text \<open>One slot, two connections that both read zero: the second exchange cannot succeed.\<close>

definition race :: admission where
  "race = advance 1 Refused (advance 1 (Deciding 1) (advance 0 Holding (store 1
     (advance 1 (Deciding 0) (advance 0 (Deciding 0) admission_start)))))"

lemma race_reached: "admission_reach 1 race"
proof -
  have d: "ad_order admission_start = [0]" "ad_conn admission_start = (\<lambda>_. Arriving)" by (simp_all add: admission_start_def)
  have a: "active_sessions admission_start = 0" by (simp add: active_sessions_def d)
  let ?s1 = "advance 0 (Deciding 0) admission_start" let ?s2 = "advance 1 (Deciding 0) ?s1"
  let ?s3 = "advance 0 Holding (store 1 ?s2)" let ?s4 = "advance 1 (Deciding 1) ?s3"
  have "admission_step 1 admission_start ?s1" by (rule admission_step.load) (simp_all add: d)
  moreover have "admission_step 1 ?s1 ?s2" by (rule admission_step.load) (simp_all add: d)
  moreover have "admission_step 1 ?s2 ?s3"
    using admission_step.exchange [where max_sessions = 1 and s = ?s2 and i = 0 and current = 0]
    by (simp add: a)
  moreover have "admission_step 1 ?s3 ?s4" by (rule admission_step.exchange_fails [where current = 0]) (simp_all add: d)
  moreover have "admission_step 1 ?s4 race" unfolding race_def by (rule admission_step.refuse [where current = 1]) simp_all
  ultimately show ?thesis by (rule admission_reach.step [OF admission_reach.step [OF admission_reach.step [OF
    admission_reach.step [OF admission_reach.step [OF admission_reach.start]]]]])
qed

theorem admission_ceiling_witness:
  "card (holders race) \<le> 1 \<and> unat (active_sessions race) = card (holders race) \<and> ad_conn race 0 = Holding
   \<and> (\<exists>s0. admission_reach 1 s0 \<and> (admission_step 1)\<^sup>*\<^sup>* s0 race \<and> card (holders s0) = 1)"
proof -
  have "ad_conn race 1 = Refused" "ad_conn race 0 = Holding" by (simp_all add: race_def)
  then show ?thesis using admission_ceiling [OF race_reached] by auto
qed

end
