(* ===== verification/Serve.thy ===== *)
theory Serve
  imports Session Sweep Admission
begin

text \<open>
  The daemon around its sessions, \<open>crates/cli/src/serve.rs\<close>: binding the socket, reclaiming what a
  crashed daemon left, the prewarmed pool, admission of a connection, and the start of the whole. The
  file system is a set of bundle directories and a map of socket files; every operation on it has an
  outcome the environment chooses.
\<close>

section \<open>Bundle directories\<close>

definition prewarm_dir :: "u32 \<Rightarrow> string \<Rightarrow> string" where
  "prewarm_dir pid scratch = path_push scratch (''kee-prewarm-'' @ dec (unat pid))"

definition snapshots_dir :: "u32 \<Rightarrow> string \<Rightarrow> string" where
  "snapshots_dir pid scratch = path_push scratch (''kee-snapshots-'' @ dec (unat pid))"

definition bundle_pid :: "string \<Rightarrow> u32 option" where
  "bundle_pid name =
     Option.bind (from_utf8 (as_bytes name)) (\<lambda>name.
     Option.bind (case strip_prefix ''kee-prewarm-'' name of
                    Some r \<Rightarrow> Some r | None \<Rightarrow> strip_prefix ''kee-snapshots-'' name) parse_u32)"

definition stale_bundle :: "sweep_env \<Rightarrow> u32 \<Rightarrow> string \<Rightarrow> u32 \<Rightarrow> string \<Rightarrow> bool" where
  "stale_bundle env self scratch me name =
     (case bundle_pid name of
        None \<Rightarrow> False
      | Some pid \<Rightarrow>
          if pid = self then False
          else if se_uid env (path_push scratch name) \<noteq> Some me then False
          else if se_exists env pid then False
          else True)"

fun sweep_bundles :: "sweep_env \<Rightarrow> u32 \<Rightarrow> string \<Rightarrow> u32 \<Rightarrow> string list \<Rightarrow> string list" where
  "sweep_bundles env self scratch me [] = []"
| "sweep_bundles env self scratch me (name # names) =
     (let rest = sweep_bundles env self scratch me names in
      if stale_bundle env self scratch me name
      then (if se_remove env (path_push scratch name) then rest else name # rest)
      else name # rest)"

text \<open>\<open>readable\<close> says whether the scratch directory can be listed.\<close>

definition sweep_stale_agent_bundles :: "sweep_env \<Rightarrow> bool \<Rightarrow> u32 \<Rightarrow> string \<Rightarrow> residue \<Rightarrow> residue" where
  "sweep_stale_agent_bundles env readable self scratch rs =
     (case own_euid (se_status env) of
        None \<Rightarrow> rs
      | Some me \<Rightarrow>
          if \<not> readable then rs
          else rs\<lparr>rs_entries := sweep_bundles env self scratch me (rs_entries rs)\<rparr>)"

text \<open>The outcome of the sweep for crashed drivers is only logged.\<close>

definition sweep_orphaned_vms :: "fmt \<Rightarrow> sweep_env \<Rightarrow> io_kind option \<Rightarrow> string \<Rightarrow> residue \<Rightarrow> residue" where
  "sweep_orphaned_vms f env unreadable scratch rs = snd (sweep_orphans f env unreadable scratch rs)"

section \<open>Staged paths\<close>

record StagedPath =
  sp_path :: string
  sp_armed :: bool

definition StagedPath_new :: "string \<Rightarrow> StagedPath" where
  "StagedPath_new p = \<lparr>sp_path = p, sp_armed = True\<rparr>"

definition StagedPath_published :: "StagedPath \<Rightarrow> StagedPath" where
  "StagedPath_published s = s\<lparr>sp_armed := False\<rparr>"

definition StagedPath_drop :: "StagedPath \<Rightarrow> (string \<rightharpoonup> 'n) \<Rightarrow> (string \<rightharpoonup> 'n)" where
  "StagedPath_drop s fs = (if sp_armed s then fs(sp_path s := None) else fs)"

section \<open>Binding the socket\<close>

datatype node = Listener nat bool \<comment> \<open>mode, and whether a daemon answers\<close> | OtherNode

type_synonym sock_fs = "string \<rightharpoonup> node"

record bind_env =
  be_fmt :: fmt
  be_pid :: u32
  be_umask_mode :: nat \<comment> \<open>the mode a new socket gets\<close>
  be_remove :: "io_kind option"
  be_bind :: "io_kind option"
  be_chmod :: "io_kind option"
  be_rename :: "io_kind option"

definition answers :: "sock_fs \<Rightarrow> string \<Rightarrow> bool" where
  "answers fs p = (case fs p of Some (Listener _ live) \<Rightarrow> live | _ \<Rightarrow> False)"

definition bind_tmp :: "bind_env \<Rightarrow> string \<Rightarrow> string" where
  "bind_tmp be socket = socket @ ''.'' @ dec (unat (be_pid be)) @ ''.tmp''"

text \<open>The stages of \<open>bind\<close>, with the file system after each of them, oldest first. Every way out drops
  the guard of the temporary path.\<close>

definition bind_staged :: "bind_env \<Rightarrow> string \<Rightarrow> sock_fs \<Rightarrow> (string + unit) \<times> sock_fs list" where
  "bind_staged be socket fs =
     (let f = be_fmt be; tmp = StagedPath_new (bind_tmp be socket); fs0 = fs(sp_path tmp := None) in
      case be_bind be of
        Some e \<Rightarrow> (Inl (''bind '' @ sp_path tmp @ '': '' @ io_display f e
                    @ '' (does its parent directory exist and is it writable?)''), [fs0, StagedPath_drop tmp fs0])
      | None \<Rightarrow>
          (let fs1 = fs0(sp_path tmp \<mapsto> Listener (be_umask_mode be) True) in
           case be_chmod be of
             Some e \<Rightarrow> (Inl (''chmod the socket '' @ sp_path tmp @ '' to 0660 failed: '' @ io_display f e
                         @ ''; refusing to serve wide-open''), [fs0, fs1, StagedPath_drop tmp fs1])
           | None \<Rightarrow>
               (let fs2 = fs1(sp_path tmp \<mapsto> Listener 0x1B0 True) in
                case be_rename be of
                  Some e \<Rightarrow> (Inl (''move socket into place ('' @ sp_path tmp @ '' -> '' @ socket @ ''): '' @ io_display f e),
                             [fs0, fs1, fs2, StagedPath_drop tmp fs2])
                | None \<Rightarrow>
                    (let fs3 = fs2(socket := fs2 (sp_path tmp), sp_path tmp := None)
                     in (Inr (), [fs0, fs1, fs2, fs3, StagedPath_drop (StagedPath_published tmp) fs3])))))"

definition serve_bind :: "bind_env \<Rightarrow> string \<Rightarrow> sock_fs \<Rightarrow> (string + unit) \<times> sock_fs list" where
  "serve_bind be socket fs =
     (if fs socket \<noteq> None
      then if answers fs socket then (Inl (''another eke daemon is already listening on '' @ socket), [fs])
           else (case be_remove be of
                   Some e \<Rightarrow> (Inl (''remove stale socket '' @ socket @ '': '' @ io_display (be_fmt be) e), [fs])
                 | None \<Rightarrow> (case bind_staged be socket (fs(socket := None)) of (r, fss) \<Rightarrow> (r, fs # fss)))
      else (case bind_staged be socket fs of (r, fss) \<Rightarrow> (r, fs # fss)))"

section \<open>The pool\<close>

record daemon_config = BootConfig +
  dc_require_limits :: bool
  dc_scratch_dir :: string

record pool_env =
  pe_fmt :: fmt
  pe_limits :: Limits \<comment> \<open>the default profile\<close>
  pe_mkdir :: "io_kind option"
  pe_snapshot :: "VmmError option"
  pe_has_vsock :: bool

definition pool_source_config :: "pool_env \<Rightarrow> daemon_config \<Rightarrow> daemon_config" where
  "pool_source_config pe base = base\<lparr>bc_limits := pe_limits pe, dc_require_limits := False\<rparr>"

definition pool_config :: "pool_env \<Rightarrow> daemon_config \<Rightarrow> bool \<Rightarrow> daemon_config" where
  "pool_config pe base jailed =
     (let c = base\<lparr>bc_limits := pe_limits pe\<rparr>;
          c1 = c\<lparr>bc_jail := if jailed then Some (case bc_jail c of Some j \<Rightarrow> j | None \<Rightarrow> []) else None\<rparr>
      in if bc_guest_cid c1 = None then c1\<lparr>bc_guest_cid := Some DEFAULT_GUEST_CID\<rparr> else c1)"

text \<open>The pool comes with the configuration its clones are restored with. The source is started with
  its own configuration, the second component, and dropped on every way out.\<close>

definition build_pool_from ::
    "pool_env \<Rightarrow> daemon_config \<Rightarrow> bool \<Rightarrow> usize \<Rightarrow> vm_host \<Rightarrow> (VmmError + Pool \<times> daemon_config) \<times> daemon_config \<times> vm_host" where
  "build_pool_from pe base jailed target h =
     (let source_config = pool_source_config pe base in
      case start_vm h of
        (Inl e, h1) \<Rightarrow> (Inl e, source_config, h1)
      | (Inr source, h1) \<Rightarrow>
          (case pe_snapshot pe of
             Some e \<Rightarrow> (Inl e, source_config, drop_vm source h1)
           | None \<Rightarrow>
               (case Pool_new (pe_has_vsock pe) target (drop_vm source h1) of
                  (Inl e, h2) \<Rightarrow> (Inl e, source_config, h2)
                | (Inr p, h2) \<Rightarrow> (Inr (p, pool_config pe base jailed), source_config, h2))))"

definition build_pool ::
    "pool_env \<Rightarrow> u32 \<Rightarrow> daemon_config \<Rightarrow> bool \<Rightarrow> usize \<Rightarrow> vm_host \<Rightarrow> (string \<rightharpoonup> unit)
      \<Rightarrow> (VmmError + Pool \<times> daemon_config) \<times> vm_host \<times> (string \<rightharpoonup> unit)" where
  "build_pool pe pid base jailed target h bundles =
     (let snap_dir = StagedPath_new (prewarm_dir pid (dc_scratch_dir base)) in
      case pe_mkdir pe of
        Some e \<Rightarrow>
          (Inl (Vmm (''create prewarm dir '' @ sp_path snap_dir @ '': '' @ io_display (pe_fmt pe) e)), h,
           StagedPath_drop snap_dir bundles)
      | None \<Rightarrow>
          (let bundles1 = bundles(sp_path snap_dir \<mapsto> ()) in
           case build_pool_from pe base jailed target h of
             (Inr p, _, h1) \<Rightarrow> (Inr p, h1, StagedPath_drop (StagedPath_published snap_dir) bundles1)
           | (Inl e, _, h1) \<Rightarrow> (Inl e, h1, StagedPath_drop snap_dir bundles1)))"

definition build_optional_pool ::
    "pool_env \<Rightarrow> u32 \<Rightarrow> usize option \<Rightarrow> daemon_config \<Rightarrow> bool \<Rightarrow> vm_host \<Rightarrow> (string \<rightharpoonup> unit)
      \<Rightarrow> (Pool \<times> daemon_config) option \<times> vm_host \<times> (string \<rightharpoonup> unit)" where
  "build_optional_pool pe pid prewarm base jailed h bundles =
     (case prewarm of
        None \<Rightarrow> (None, h, bundles)
      | Some target \<Rightarrow>
          if target = 0 then (None, h, bundles)
          else (case build_pool pe pid base jailed target h bundles of
                  (Inr p, h1, b1) \<Rightarrow> (Some p, h1, b1)
                | (Inl _, h1, b1) \<Rightarrow> (None, h1, b1)))"

text \<open>The sample of the pool a scrape takes: nothing while the lock is held.\<close>

definition pool_sample :: "('v, 'sk, 'pk, 'j) session_env \<Rightarrow> server \<Rightarrow> u64 option \<times> server" where
  "pool_sample env sv =
     (case sv_pool sv of
        None \<Rightarrow> (None, sv)
      | Some p \<Rightarrow>
          (case try_lock env sv of
             (Free, sv1) \<Rightarrow> (Some (word_of_nat (min (length (pool_ready p)) u64_max)), sv1)
           | (_, sv1) \<Rightarrow> (None, sv1)))"

section \<open>A connection\<close>

text \<open>\<open>acquire\<close> on a counter nobody else touches: \<open>spurious\<close> exchanges fail first.\<close>

function acquire_loop :: "u64 \<Rightarrow> nat \<Rightarrow> u64 \<Rightarrow> u64 \<Rightarrow> u64 option" where
  "acquire_loop max_sessions spurious current active =
     (if max_sessions \<le> current then None
      else case spurious of
          Suc n \<Rightarrow> acquire_loop max_sessions n active active
        | 0 \<Rightarrow> if current = active then Some (current + 1) else acquire_loop max_sessions 0 active active)"
  by pat_completeness auto
termination
  by (relation "measure (\<lambda>(m, n, current, active). 2 * n + (if current = active then 0 else 1))") auto

declare acquire_loop.simps [simp del]

definition SessionTicket_acquire :: "u64 \<Rightarrow> nat \<Rightarrow> u64 \<Rightarrow> u64 option" where
  "SessionTicket_acquire max_sessions spurious active =
     (if max_sessions = 0 then Some (active + 1) else acquire_loop max_sessions spurious active active)"

definition SessionTicket_drop :: "u64 \<Rightarrow> u64" where
  "SessionTicket_drop active = active - 1"

definition at_capacity :: "u64 \<Rightarrow> 'v Response" where
  "at_capacity max_sessions = ErrorReply (''at capacity: '' @ dec (unat max_sessions)
     @ '' session(s) live, the daemon's --max-sessions ceiling; retry later or raise the ceiling'') True"

definition refuse_at_capacity :: "('v, 'sk, 'pk, 'j) session_env \<Rightarrow> u64 \<Rightarrow> writer \<Rightarrow> writer" where
  "refuse_at_capacity env max_sessions w = snd (write_message (e_render env) (at_capacity max_sessions) w)"

definition spawn_session ::
    "('v, 'sk, 'pk, 'j) session_env \<Rightarrow> launch \<Rightarrow> u64 \<Rightarrow> nat \<Rightarrow> bool \<Rightarrow> bool \<Rightarrow> server \<Rightarrow> u64 \<Rightarrow> buf_read \<Rightarrow> writer
      \<Rightarrow> server \<times> u64 \<times> writer" where
  "spawn_session env la max_sessions spurious spawned split sv active r w =
     (case SessionTicket_acquire max_sessions spurious active of
        None \<Rightarrow> (sv, active, refuse_at_capacity env max_sessions w)
      | Some active1 \<Rightarrow>
          if spawned
          then (case serve_session_conn env la split sv r w of (sv1, w1) \<Rightarrow> (sv1, SessionTicket_drop active1, w1))
          else (sv, SessionTicket_drop active1, w))"

section \<open>The start of the daemon\<close>

record ServeArgs =
  sa_socket :: string
  sa_prewarm :: "usize option"
  sa_unjailed :: bool
  sa_require_limits :: bool
  sa_metrics :: "string option"
  sa_max_sessions :: u64
  sa_idle_timeout :: nat
  sa_max_vcpus :: "nat option"
  sa_max_mem_mib :: "nat option"
  sa_max_wall_secs :: "nat option"
  sa_max_output_cap :: "usize option"

record daemon_state =
  da_sock :: sock_fs
  da_residue :: residue
  da_bundles :: "string \<rightharpoonup> unit"
  da_host :: vm_host

record start_env =
  st_bind :: bind_env
  st_sweep :: sweep_env
  st_unreadable :: "io_kind option"
  st_metrics_bind :: "io_kind option"
  st_key :: "KeyError option"
  st_pool :: pool_env

record started =
  sd_launch :: launch
  sd_pool :: "(Pool \<times> daemon_config) option"
  sd_max_sessions :: u64
  sd_idle_timeout :: "nat option"
  sd_require_limits :: bool

definition EXIT_OPERATIONAL :: nat where "EXIT_OPERATIONAL = 2"

definition Policy_default :: Policy where
  "Policy_default = \<lparr>po_vcpus = None, po_mem_mib = None, po_wall_secs = None, po_output_cap = None, max_vcpus = None,
     max_mem_mib = None, max_wall_secs = None, max_output_cap = None, require_jail = False, allow_net = None\<rparr>"

definition serve_policy :: "ServeArgs \<Rightarrow> Policy" where
  "serve_policy args = Policy_default\<lparr>max_vcpus := sa_max_vcpus args, max_mem_mib := sa_max_mem_mib args,
     max_wall_secs := sa_max_wall_secs args, max_output_cap := sa_max_output_cap args\<rparr>"

definition serve_config :: "ServeArgs \<Rightarrow> daemon_config \<Rightarrow> daemon_config" where
  "serve_config args base = (if sa_require_limits args then base\<lparr>dc_require_limits := True\<rparr> else base)"

text \<open>The daemon up to its accept loop: an exit code, or what it listens with.\<close>

definition serve_start :: "start_env \<Rightarrow> ServeArgs \<Rightarrow> daemon_config \<Rightarrow> daemon_state \<Rightarrow> (nat + started) \<times> daemon_state" where
  "serve_start se args env_base da =
     (let base = serve_config args env_base; jailed = (\<not> sa_unjailed args); scratch = dc_scratch_dir base;
          pid = be_pid (st_bind se)
      in if dc_require_limits base \<and> \<not> jailed then (Inl EXIT_OPERATIONAL, da)
         else case serve_bind (st_bind se) (sa_socket args) (da_sock da) of
             (Inl _, fss) \<Rightarrow> (Inl EXIT_OPERATIONAL, da\<lparr>da_sock := last fss\<rparr>)
           | (Inr _, fss) \<Rightarrow>
               (let rs1 = sweep_stale_agent_bundles (st_sweep se) (st_unreadable se = None) pid scratch (da_residue da);
                    rs2 = sweep_orphaned_vms (be_fmt (st_bind se)) (st_sweep se) (st_unreadable se) scratch rs1;
                    da1 = da\<lparr>da_sock := last fss, da_residue := rs2\<rparr>
                in if sa_metrics args \<noteq> None \<and> st_metrics_bind se \<noteq> None then (Inl EXIT_OPERATIONAL, da1)
                   else if st_key se \<noteq> None then (Inl EXIT_OPERATIONAL, da1)
                   else
                     (case build_optional_pool (st_pool se) pid (sa_prewarm args) base jailed (da_host da1) (da_bundles da1) of
                        (pool, h, bundles) \<Rightarrow>
                          (Inr \<lparr>sd_launch = \<lparr>la_base = BootConfig.truncate base, la_jailed = jailed,
                                  la_policy = serve_policy args, la_snapshot_base = snapshots_dir pid scratch\<rparr>,
                                sd_pool = pool, sd_max_sessions = sa_max_sessions args,
                                sd_idle_timeout = (if sa_idle_timeout args > 0 then Some (sa_idle_timeout args) else None),
                                sd_require_limits = dc_require_limits base\<rparr>,
                           da1\<lparr>da_host := h, da_bundles := bundles\<rparr>))))"

text \<open>The stop signal.\<close>

definition on_stop_signal :: "u32 \<Rightarrow> ServeArgs \<Rightarrow> string \<Rightarrow> daemon_state \<Rightarrow> daemon_state" where
  "on_stop_signal pid args scratch da =
     da\<lparr>da_sock := (da_sock da)(sa_socket args := None),
        da_bundles := fold (\<lambda>dir b. b(dir := None)) [prewarm_dir pid scratch, snapshots_dir pid scratch] (da_bundles da)\<rparr>"

section \<open>The idle deadline of a connection\<close>

text \<open>\<open>DeadlineStream\<close> of \<open>session.rs\<close>. Time is in nanoseconds; a read yields an error or asks the
  socket for bytes with the time left as its timeout.\<close>

record DeadlineStream =
  ds_budget :: "nat option"
  ds_deadline :: "nat option"

definition DeadlineStream_rearm :: "nat \<Rightarrow> DeadlineStream \<Rightarrow> DeadlineStream" where
  "DeadlineStream_rearm now s = s\<lparr>ds_deadline := map_option (\<lambda>b. now + b) (ds_budget s)\<rparr>"

definition DeadlineStream_new :: "nat option \<Rightarrow> nat \<Rightarrow> DeadlineStream" where
  "DeadlineStream_new budget now = DeadlineStream_rearm now \<lparr>ds_budget = budget, ds_deadline = None\<rparr>"

definition DeadlineStream_read :: "nat \<Rightarrow> DeadlineStream \<Rightarrow> io_kind + nat option" where
  "DeadlineStream_read now s =
     (case ds_deadline s of
        None \<Rightarrow> Inr None
      | Some deadline \<Rightarrow>
          (let remaining = deadline - now in
           if remaining = 0 then Inl TimedOut else Inr (Some remaining)))"

section \<open>The socket is never exposed\<close>

lemma bind_tmp_other: "bind_tmp be socket \<noteq> socket"
  by (simp add: bind_tmp_def)

lemmas bind_defs = serve_bind_def bind_staged_def StagedPath_new_def StagedPath_drop_def StagedPath_published_def
  bind_tmp_other bind_tmp_other [symmetric]

lemma serve_bind_ok: "serve_bind be socket fs = (Inr (), fss) \<Longrightarrow> last fss socket = Some (Listener 0x1B0 True)"
  by (auto simp: bind_defs Let_def split: if_splits option.splits prod.splits)


definition stale_bind :: bind_env where
  "stale_bind = \<lparr>be_fmt = plain_fmt, be_pid = 7, be_umask_mode = 0x1FF, be_remove = None, be_bind = None,
     be_chmod = None, be_rename = None\<rparr>"


section \<open>Admission of one connection\<close>

lemma acquire_loop_eq: "acquire_loop m n active active = (if m \<le> active then None else Some (active + 1))"
  by (induction n) (subst acquire_loop.simps; simp)+

lemma SessionTicket_acquire_eq:
  "SessionTicket_acquire m n active = (if m \<noteq> 0 \<and> m \<le> active then None else Some (active + 1))"
  by (simp add: SessionTicket_acquire_def acquire_loop_eq)

text \<open>A connection gives its slot back whatever becomes of it, and at the ceiling nothing is booted.\<close>

lemma spawn_session_slot:
  assumes "spawn_session env la m n spawned split sv active r w = (sv1, active1, w1)"
  shows "active1 = active"
    and "m \<noteq> 0 \<and> m \<le> active \<Longrightarrow> sv1 = sv \<and> w1 = snd (write_message (e_render env) (at_capacity m) w)"
  using assms
  by (auto simp: spawn_session_def SessionTicket_acquire_eq SessionTicket_drop_def refuse_at_capacity_def
      split: if_splits prod.splits)

section \<open>Sweeping and prewarming\<close>

lemma sweep_bundles_filter:
  "sweep_bundles env self scratch me names
     = filter (\<lambda>n. \<not> (stale_bundle env self scratch me n \<and> se_remove env (path_push scratch n))) names"
  by (induction names) (simp_all add: Let_def)

text \<open>The daemon's own directories are never stale to it.\<close>

lemma own_bundle_kept:
  "bundle_pid name = Some self \<Longrightarrow> name \<in> set names \<Longrightarrow> name \<in> set (sweep_bundles env self scratch me names)"
  by (simp add: sweep_bundles_filter stale_bundle_def)

text \<open>A pool that could not be built leaves neither VMs nor a bundle; one that was built accounts for
  every VM it started.\<close>

lemma Pool_new_accounts:
  assumes "Pool_new v target h = (r, h1)" "\<forall>x \<in> h_live h. x < h_next h"
  shows "case r of Inl _ \<Rightarrow> h_live h1 = h_live h
    | Inr p \<Rightarrow> holds (h_live h) p {} h1 \<and> length (pool_ready p) = target"
proof -
  let ?p = "\<lparr>pool_has_vsock = v, pool_target = target, pool_ready = []\<rparr>"
  obtain x p h2 where l: "refill_loop 0 ?p h = (x, p, h2)" by (cases "refill_loop 0 ?p h")
  have "holds (h_live h) ?p {} h" using assms(2) by (simp add: holds_def)
  note e = refill_holds [OF l this]
  have n: "Pool_new v target h = (case x of Inl e \<Rightarrow> (Inl e, Pool_drop p h2) | Inr _ \<Rightarrow> (Inr p, h2))"
    by (simp add: Pool_new_def Pool_refill_def l split: sum.splits)
  show ?thesis
  proof (cases x)
    case (Inl er)
    have "h_live (Pool_drop p h2) = h_live h" using e by (auto simp: Pool_drop_def fold_drop_vm holds_def)
    then show ?thesis using assms(1) n Inl by auto
  next
    case (Inr m)
    then show ?thesis using assms(1) n e by auto
  qed
qed

lemma build_pool_from_accounts:
  assumes "build_pool_from pe base jailed target h = (r, c, h1)" "\<forall>x \<in> h_live h. x < h_next h"
  shows "case r of Inl _ \<Rightarrow> h_live h1 = h_live h
    | Inr (p, cfg) \<Rightarrow> holds (h_live h) p {} h1 \<and> length (pool_ready p) = target \<and> cfg = pool_config pe base jailed"
proof -
  obtain y h3 where s: "start_vm h = (y, h3)" by (cases "start_vm h")
  show ?thesis
  proof (cases y)
    case (Inl e)
    then show ?thesis using assms(1) s start_vm_cases(1) [OF s] by (auto simp: build_pool_from_def)
  next
    case (Inr v)
    have l: "h_live (drop_vm v h3) = h_live h" and n: "\<forall>x \<in> h_live (drop_vm v h3). x < h_next (drop_vm v h3)"
      using start_vm_cases [OF s] Inr assms(2) by (auto intro: less_SucI)
    obtain q h4 where q: "Pool_new (pe_has_vsock pe) target (drop_vm v h3) = (q, h4)"
      by (cases "Pool_new (pe_has_vsock pe) target (drop_vm v h3)")
    note pool = Pool_new_accounts [OF q n, unfolded l]
    have eq: "(r, h1) = (case pe_snapshot pe of
        Some e \<Rightarrow> (Inl e, drop_vm v h3)
      | None \<Rightarrow> (case q of Inl e \<Rightarrow> (Inl e, h4) | Inr p \<Rightarrow> (Inr (p, pool_config pe base jailed), h4)))"
      using assms(1) by (simp add: build_pool_from_def Let_def s Inr q split: option.splits sum.splits)
    show ?thesis
    proof (cases "pe_snapshot pe")
      case None
      then show ?thesis using eq pool by (cases q) simp_all
    next
      case (Some e)
      then show ?thesis using eq l by simp
    qed
  qed
qed

lemma build_pool_accounts:
  assumes "build_pool pe pid base jailed target h bundles = (r, h1, bundles1)" "\<forall>x \<in> h_live h. x < h_next h"
  shows "case r of
      Inl _ \<Rightarrow> h_live h1 = h_live h \<and> bundles1 = bundles(prewarm_dir pid (dc_scratch_dir base) := None)
    | Inr (p, cfg) \<Rightarrow> holds (h_live h) p {} h1 \<and> length (pool_ready p) = target
        \<and> bundles1 = bundles(prewarm_dir pid (dc_scratch_dir base) \<mapsto> ())"
proof -
  obtain x c h2 where b: "build_pool_from pe base jailed target h = (x, c, h2)"
    by (cases "build_pool_from pe base jailed target h")
  show ?thesis using assms(1) build_pool_from_accounts [OF b assms(2)] b
    by (auto simp: build_pool_def Let_def StagedPath_new_def StagedPath_drop_def StagedPath_published_def
        split: option.splits sum.splits)
qed

text \<open>The clones are confined as the daemon is and keep its demand for limits; only the source is not.\<close>

lemma pool_config_posture:
  "bc_jail (pool_config pe base jailed) \<noteq> None \<longleftrightarrow> jailed"
  "dc_require_limits (pool_config pe base jailed) = dc_require_limits base"
  "bc_guest_cid (pool_config pe base jailed) \<noteq> None"
  by (auto simp: pool_config_def Let_def)

section \<open>Starting\<close>

text \<open>A daemon that must cap its VMs never starts unjailed, and one that starts takes nothing but the
  ceilings from its flags; a flag can only strengthen the hardening.\<close>

lemma serve_start_posture:
  assumes "serve_start se args base da = (Inr d, da1)"
  shows "sd_require_limits d = (sa_require_limits args \<or> dc_require_limits base)"
    and "sd_require_limits d \<Longrightarrow> la_jailed (sd_launch d)"
    and "la_policy (sd_launch d) = serve_policy args"
    and "st_key se = None" and "sa_metrics args \<noteq> None \<Longrightarrow> st_metrics_bind se = None"
    and "da_sock da1 (sa_socket args) = Some (Listener 0x1B0 True)"
proof -
  obtain r fss where b: "serve_bind (st_bind se) (sa_socket args) (da_sock da) = (r, fss)"
    by (cases "serve_bind (st_bind se) (sa_socket args) (da_sock da)")
  have sock: "last fss (sa_socket args) = Some (Listener 0x1B0 True)" if "r = Inr ()"
    using serve_bind_ok b that by blast
  show "sd_require_limits d = (sa_require_limits args \<or> dc_require_limits base)"
    "sd_require_limits d \<Longrightarrow> la_jailed (sd_launch d)" "la_policy (sd_launch d) = serve_policy args"
    "st_key se = None" "sa_metrics args \<noteq> None \<Longrightarrow> st_metrics_bind se = None"
    "da_sock da1 (sa_socket args) = Some (Listener 0x1B0 True)"
    using assms sock b by (auto simp: serve_start_def serve_config_def Let_def split: if_splits sum.splits prod.splits)
qed

section \<open>The deadline is absolute\<close>

text \<open>However a message is dripped, no read that is not an error waits past one budget from the
  rearming, and after it every read is an error.\<close>

lemma deadline_is_absolute:
  assumes "ds_budget s = Some b"
  shows "t + b \<le> now \<Longrightarrow> DeadlineStream_read now (DeadlineStream_rearm t s) = Inl TimedOut"
    and "DeadlineStream_read now (DeadlineStream_rearm t s) = Inr (Some timeout) \<Longrightarrow> now + timeout = t + b"
  using assms by (auto simp: DeadlineStream_read_def DeadlineStream_rearm_def Let_def split: if_splits)

end
