(* ===== verification/JsonText.thy ===== *)
theory JsonText
  imports StrLib
begin

text \<open>
  JSON as a reference for the program's hand-written renderers: values, their compact text, and a
  parser of the standard's grammar for what a renderer without floats can write (no white space,
  numbers are unsigned integers without leading zeros, a \<open>\u\<close> escape names a code point outside the
  surrogates). The round trip is the lemma the renderers build on: a text that is the rendering of a
  value can be read back to that value and to no other.
\<close>

section \<open>Values and their text\<close>

datatype json = JNull | JBool bool | JNum nat | JStr string | JArr "json list" | JObj "(string \<times> json) list"

definition escape :: "char \<Rightarrow> string" where
  "escape c =
     (let n = of_char c :: nat in
      if n = 34 then [CHR 0x5C, CHR 0x22]
      else if n = 92 then [CHR 0x5C, CHR 0x5C]
      else if n = 10 then [CHR 0x5C, CHR ''n'']
      else if n = 13 then [CHR 0x5C, CHR ''r'']
      else if n = 9 then [CHR 0x5C, CHR ''t'']
      else if n = 8 then [CHR 0x5C, CHR ''b'']
      else if n = 12 then [CHR 0x5C, CHR ''f'']
      else if n < 32 then [CHR 0x5C, CHR ''u''] @ hex_pad 4 n
      else [c])"

definition quote :: "string \<Rightarrow> string" where
  "quote s = dq @ concat (map escape s) @ dq"

fun commas :: "string list \<Rightarrow> string" where
  "commas [] = []"
| "commas [x] = x"
| "commas (x # y # ys) = x @ '','' @ commas (y # ys)"

fun render :: "json \<Rightarrow> string" where
  "render JNull = ''null''"
| "render (JBool b) = (if b then ''true'' else ''false'')"
| "render (JNum n) = dec n"
| "render (JStr s) = quote s"
| "render (JArr xs) = ''['' @ commas (map render xs) @ '']''"
| "render (JObj kvs) = ''{'' @ commas (map (\<lambda>kv. quote (fst kv) @ '':'' @ render (snd kv)) kvs) @ ''}''"

section \<open>The parser\<close>

fun hex4 :: "string \<Rightarrow> (nat \<times> string) option" where
  "hex4 (a # b # c # d # r) =
     (case (digit_of 16 a, digit_of 16 b, digit_of 16 c, digit_of 16 d) of
        (Some w, Some x, Some y, Some z) \<Rightarrow> Some (((w * 16 + x) * 16 + y) * 16 + z, r)
      | _ \<Rightarrow> None)"
| "hex4 _ = None"

lemma hex4_shorter: "hex4 s = Some (n, r) \<Longrightarrow> length r < length s"
  by (induction s rule: hex4.induct) (auto split: option.splits)

definition simple_escape :: "char \<Rightarrow> char option" where
  "simple_escape e =
     (if e = CHR 0x22 \<or> e = CHR 0x5C \<or> e = CHR ''/'' then Some e
      else if e = CHR ''n'' then Some (CHR 0x0A)
      else if e = CHR ''r'' then Some (CHR 0x0D)
      else if e = CHR ''t'' then Some (CHR 0x09)
      else if e = CHR ''b'' then Some (CHR 0x08)
      else if e = CHR ''f'' then Some (CHR 0x0C)
      else None)"

text \<open>The characters up to the closing quote, and what follows it.\<close>

function (sequential) parse_chars :: "string \<Rightarrow> (string \<times> string) option" where
  "parse_chars [] = None"
| "parse_chars (c # s) =
     (if c = CHR 0x22 then Some ([], s)
      else if c = CHR 0x5C then
        (case s of
           [] \<Rightarrow> None
         | e # s1 \<Rightarrow>
             if e = CHR ''u''
             then (case hex4 s1 of
                     None \<Rightarrow> None
                   | Some (n, s2) \<Rightarrow>
                       if scalar n then map_option (map_prod (\<lambda>r. string_of_chars [n] @ r) id) (parse_chars s2) else None)
             else (case simple_escape e of
                     None \<Rightarrow> None
                   | Some c1 \<Rightarrow> map_option (map_prod (\<lambda>r. c1 # r) id) (parse_chars s1)))
      else if (of_char c :: nat) < 32 then None
      else map_option (map_prod (\<lambda>r. c # r) id) (parse_chars s))"
  by pat_completeness auto
termination
  by (relation "measure length") (auto dest: hex4_shorter)

declare parse_chars.simps(2) [simp del]

definition is_digit :: "char \<Rightarrow> bool" where
  "is_digit c \<longleftrightarrow> 48 \<le> (of_char c :: nat) \<and> (of_char c :: nat) \<le> 57"

definition parse_num :: "string \<Rightarrow> (json \<times> string) option" where
  "parse_num s =
     (let ds = takeWhile is_digit s in
      if ds = [] \<or> (hd ds = CHR ''0'' \<and> length ds > 1) then None
      else Some (JNum (dec_value 0 ds), dropWhile is_digit s))"

definition parse_word :: "string \<Rightarrow> json \<Rightarrow> string \<Rightarrow> (json \<times> string) option" where
  "parse_word w v s = map_option (\<lambda>r. (v, r)) (strip_prefix w s)"

text \<open>Fuel bounds the nesting and the length of arrays; the length of the text is always enough.\<close>

fun parse_value :: "nat \<Rightarrow> string \<Rightarrow> (json \<times> string) option"
  and parse_elems :: "nat \<Rightarrow> string \<Rightarrow> (json list \<times> string) option"
  and parse_members :: "nat \<Rightarrow> string \<Rightarrow> ((string \<times> json) list \<times> string) option"
where
  "parse_value 0 s = None"
| "parse_value (Suc k) s =
     (case s of
        [] \<Rightarrow> None
      | c # r \<Rightarrow>
          if c = CHR 0x22 then map_option (map_prod JStr id) (parse_chars r)
          else if c = CHR ''['' then
            if r \<noteq> [] \<and> hd r = CHR '']'' then Some (JArr [], tl r) else map_option (map_prod JArr id) (parse_elems k r)
          else if c = CHR ''{'' then
            if r \<noteq> [] \<and> hd r = CHR ''}'' then Some (JObj [], tl r) else map_option (map_prod JObj id) (parse_members k r)
          else if c = CHR ''n'' then parse_word ''null'' JNull s
          else if c = CHR ''t'' then parse_word ''true'' (JBool True) s
          else if c = CHR ''f'' then parse_word ''false'' (JBool False) s
          else parse_num s)"
| "parse_elems 0 s = None"
| "parse_elems (Suc k) s =
     (case parse_value k s of
        None \<Rightarrow> None
      | Some (v, r) \<Rightarrow>
          (case r of
             CHR '']'' # r1 \<Rightarrow> Some ([v], r1)
           | CHR '','' # r1 \<Rightarrow> map_option (map_prod (\<lambda>vs. v # vs) id) (parse_elems k r1)
           | _ \<Rightarrow> None))"
| "parse_members 0 s = None"
| "parse_members (Suc k) s =
     (case s of
        CHR 0x22 # s1 \<Rightarrow>
          (case parse_chars s1 of
             Some (key, CHR '':'' # s2) \<Rightarrow>
               (case parse_value k s2 of
                  None \<Rightarrow> None
                | Some (v, r) \<Rightarrow>
                    (case r of
                       CHR ''}'' # r1 \<Rightarrow> Some ([(key, v)], r1)
                     | CHR '','' # r1 \<Rightarrow> map_option (map_prod (\<lambda>kvs. (key, v) # kvs) id) (parse_members k r1)
                     | _ \<Rightarrow> None))
           | _ \<Rightarrow> None)
      | _ \<Rightarrow> None)"

definition parse_json :: "string \<Rightarrow> json option" where
  "parse_json s = (case parse_value (Suc (length s)) s of Some (v, []) \<Rightarrow> Some v | _ \<Rightarrow> None)"

section \<open>Strings and numbers round trip\<close>

lemma string_of_char: "(of_char c :: nat) < 128 \<Longrightarrow> string_of_chars [of_char c] = [c]"
  using string_of_chars_ascii [of "[c]"] by (simp add: is_ascii_def)

lemma digit_of_hex: "d < 16 \<Longrightarrow> digit_of 16 (hex_digit d) = Some d"
  by (auto simp: hex_digit_def digit_of_def Let_def)

lemma hex_pad_4:
  "hex_pad 4 n = [hex_digit (n div 16 div 16 div 16 mod 16), hex_digit (n div 16 div 16 mod 16),
     hex_digit (n div 16 mod 16), hex_digit (n mod 16)]"
proof -
  have "(4 :: nat) = Suc (Suc (Suc (Suc 0)))" by simp
  then show ?thesis by (simp only: hex_pad.simps append.simps)
qed

lemma hex4_pad:
  assumes "n < 32"
  shows "hex4 (hex_pad 4 n @ t) = Some (n, t)"
proof -
  have "n div 16 < 16" "n div 16 div 16 = 0" using assms by (simp_all add: div_mult2_eq [symmetric] less_mult_imp_div_less)
  then show ?thesis by (simp add: hex_pad_4 digit_of_hex)
qed

lemma parse_chars_u:
  assumes "(of_char c :: nat) < 32"
  shows "parse_chars (CHR 0x5C # CHR ''u'' # hex_pad 4 (of_char c) @ t) = map_option (map_prod (\<lambda>r. c # r) id) (parse_chars t)"
proof -
  have "(@) [c] = (#) c" by (simp add: fun_eq_iff)
  then show ?thesis using assms by (simp add: parse_chars.simps(2) hex4_pad string_of_char scalar_def)
qed

lemma parse_chars_escape:
  "parse_chars (escape c @ t) = map_option (map_prod (\<lambda>r. c # r) id) (parse_chars t)"
proof -
  let ?n = "of_char c :: nat"
  have c: "?n = of_char d \<longleftrightarrow> c = d" for d by (rule of_char_eq_iff)
  consider "?n \<in> {34, 92, 10, 13, 9, 8, 12}" | "?n \<notin> {34, 92, 10, 13, 9, 8, 12}" "?n < 32"
    | "?n \<notin> {34, 92}" "\<not> ?n < 32" by auto
  then show ?thesis
  proof cases
    case 1
    then have "c \<in> {CHR 0x22, CHR 0x5C, CHR 0x0A, CHR 0x0D, CHR 0x09, CHR 0x08, CHR 0x0C}"
      using c [of "CHR 0x22"] c [of "CHR 0x5C"] c [of "CHR 0x0A"] c [of "CHR 0x0D"] c [of "CHR 0x09"]
        c [of "CHR 0x08"] c [of "CHR 0x0C"] by auto
    then show ?thesis by (auto simp: escape_def parse_chars.simps(2) simple_escape_def)
  next
    case 2
    then have "escape c = [CHR 0x5C, CHR ''u''] @ hex_pad 4 ?n" by (simp add: escape_def)
    then show ?thesis using 2(2) by (simp add: parse_chars_u)
  next
    case 3
    then have "c \<noteq> CHR 0x22" "c \<noteq> CHR 0x5C" "escape c = [c]" by (auto simp: escape_def)
    then show ?thesis using 3 by (simp add: parse_chars.simps(2))
  qed
qed

lemma parse_chars_quoted: "parse_chars (concat (map escape s) @ CHR 0x22 # rest) = Some (s, rest)"
  by (induction s) (simp_all add: parse_chars_escape parse_chars.simps(2) [of "CHR 0x22"])

definition terminated :: "string \<Rightarrow> bool" where
  "terminated rest \<longleftrightarrow> rest = [] \<or> \<not> is_digit (hd rest)"

lemma dec_is_digit: "c \<in> set (dec n) \<Longrightarrow> is_digit c"
  using dec_digits [of n] by (simp add: is_digit_def)

lemma dec_no_leading_zero: "hd (dec n) = CHR ''0'' \<Longrightarrow> length (dec n) = 1"
proof (induction n rule: dec.induct)
  case (1 n)
  show ?case
  proof (cases "n < 10")
    case True
    then show ?thesis by (subst dec.simps) simp
  next
    case False
    then have d: "dec n = dec (n div 10) @ [digit_char (n mod 10)]" by (subst dec.simps) simp
    then have h: "hd (dec (n div 10)) = CHR ''0''" using "1.prems" by simp
    then have "length (dec (n div 10)) = 1" using "1.IH" False by simp
    then have "dec (n div 10) = ''0''" using h by (cases "dec (n div 10)") auto
    then have "dec_value 0 (dec (n div 10)) = 0" by simp
    then show ?thesis using False by (simp add: dec_value_dec)
  qed
qed

lemma parse_num_dec: "terminated rest \<Longrightarrow> parse_num (dec n @ rest) = Some (JNum n, rest)"
proof -
  assume t: "terminated rest"
  have "takeWhile is_digit (dec n @ rest) = dec n" "dropWhile is_digit (dec n @ rest) = rest"
    using t by (cases rest; simp add: takeWhile_append2 dropWhile_append2 dec_is_digit terminated_def)+
  then show ?thesis using dec_no_leading_zero [of n] by (auto simp: parse_num_def dec_value_dec Let_def)
qed

lemma dec_head: "is_digit (hd (dec n))"
  by (rule dec_is_digit [of _ n]) simp

section \<open>The round trip\<close>

lemma render_head:
  "render j \<noteq> []" "hd (render j) \<noteq> CHR '']''" "hd (render j) \<noteq> CHR ''}''"
proof -
  have "hd (dec n) \<noteq> CHR '']''" "hd (dec n) \<noteq> CHR ''}''" for n
    using dec_head [of n] by (auto simp: is_digit_def)
  then show "render j \<noteq> []" "hd (render j) \<noteq> CHR '']''" "hd (render j) \<noteq> CHR ''}''"
    by (cases j; simp add: quote_def dq_def)+
qed

definition reads_back :: "json \<Rightarrow> bool" where
  "reads_back j \<longleftrightarrow> (\<forall>k rest. length (render j) \<le> k \<longrightarrow> terminated rest \<longrightarrow> parse_value k (render j @ rest) = Some (j, rest))"

lemma reads_backD:
  "reads_back j \<Longrightarrow> length (render j) \<le> k \<Longrightarrow> terminated rest \<Longrightarrow> parse_value k (render j @ rest) = Some (j, rest)"
  by (simp add: reads_back_def)

lemma reads_backI:
  "(\<And>k rest. length (render j) \<le> k \<Longrightarrow> terminated rest \<Longrightarrow> parse_value k (render j @ rest) = Some (j, rest)) \<Longrightarrow> reads_back j"
  by (simp add: reads_back_def)

lemma terminated_simps [simp]:
  "terminated []" "terminated (CHR '','' # r)" "terminated (CHR '']'' # r)" "terminated (CHR ''}'' # r)"
  by (simp_all add: terminated_def is_digit_def)

lemma parse_elems_commas:
  "list_all reads_back xs \<Longrightarrow> xs \<noteq> [] \<Longrightarrow> Suc (length (commas (map render xs))) \<le> k \<Longrightarrow>
   parse_elems k (commas (map render xs) @ CHR '']'' # rest) = Some (xs, rest)"
proof (induction xs arbitrary: k)
  case (Cons x xs)
  obtain k' where k: "k = Suc k'" using Cons.prems(3) by (cases k) auto
  show ?case
  proof (cases xs)
    case Nil
    then show ?thesis using Cons.prems k reads_backD [of x k' "CHR '']'' # rest"] by simp
  next
    case (Cons y ys)
    let ?t = "commas (map render xs) @ CHR '']'' # rest"
    have "parse_value k' (render x @ CHR '','' # ?t) = Some (x, CHR '','' # ?t)"
      using Cons.prems k local.Cons by (intro reads_backD) auto
    moreover have "parse_elems k' ?t = Some (xs, rest)"
      using Cons.prems Cons.IH [of k'] k local.Cons by simp
    ultimately show ?thesis using k local.Cons by simp
  qed
qed simp

definition member_text :: "string \<times> json \<Rightarrow> string" where
  "member_text kv = quote (fst kv) @ '':'' @ render (snd kv)"

lemma parse_member:
  assumes "parse_chars kt = Some (key, CHR '':'' # vt)" "parse_value k vt = Some (v, r)"
  shows "parse_members (Suc k) (CHR 0x22 # kt) =
    (case r of
       CHR ''}'' # r1 \<Rightarrow> Some ([(key, v)], r1)
     | CHR '','' # r1 \<Rightarrow> map_option (map_prod (\<lambda>kvs. (key, v) # kvs) id) (parse_members k r1)
     | _ \<Rightarrow> None)"
  using assms by simp

lemma parse_members_step:
  assumes "parse_value k (render v @ r) = Some (v, r)"
  shows "parse_members (Suc k) (member_text (key, v) @ r) =
    (case r of
       CHR ''}'' # r1 \<Rightarrow> Some ([(key, v)], r1)
     | CHR '','' # r1 \<Rightarrow> map_option (map_prod (\<lambda>kvs. (key, v) # kvs) id) (parse_members k r1)
     | _ \<Rightarrow> None)"
proof -
  have t: "member_text (key, v) @ r = CHR 0x22 # concat (map escape key) @ CHR 0x22 # CHR '':'' # render v @ r"
    by (simp add: member_text_def quote_def dq_def)
  show ?thesis unfolding t by (rule parse_member [OF parse_chars_quoted assms])
qed

lemma parse_members_commas:
  "list_all (\<lambda>kv. reads_back (snd kv)) kvs \<Longrightarrow> kvs \<noteq> [] \<Longrightarrow> Suc (length (commas (map member_text kvs))) \<le> k \<Longrightarrow>
   parse_members k (commas (map member_text kvs) @ CHR ''}'' # rest) = Some (kvs, rest)"
proof (induction kvs arbitrary: k)
  case (Cons kv kvs)
  obtain k' where k: "k = Suc k'" using Cons.prems(3) by (cases k) auto
  obtain key v where kv: "kv = (key, v)" by (cases kv)
  have len: "length (render v) \<le> length (member_text kv)" by (simp add: member_text_def kv)
  show ?case
  proof (cases kvs)
    case Nil
    have "parse_value k' (render v @ CHR ''}'' # rest) = Some (v, CHR ''}'' # rest)"
      using Cons.prems k kv len Nil by (intro reads_backD) auto
    from parse_members_step [OF this] show ?thesis using k kv Nil by simp
  next
    case (Cons kv2 kvs2)
    let ?t = "commas (map member_text kvs) @ CHR ''}'' # rest"
    have "parse_value k' (render v @ CHR '','' # ?t) = Some (v, CHR '','' # ?t)"
      using Cons.prems k kv len local.Cons by (intro reads_backD) auto
    note step = parse_members_step [OF this]
    have "parse_members k' ?t = Some (kvs, rest)"
      using Cons.prems Cons.IH [of k'] k local.Cons by simp
    then show ?thesis using step k kv local.Cons by simp
  qed
qed simp

lemma commas_head: "xs \<noteq> [] \<Longrightarrow> hd xs \<noteq> [] \<Longrightarrow> commas xs \<noteq> [] \<and> hd (commas xs) = hd (hd xs)"
  by (induction xs rule: commas.induct) auto

lemma render_obj: "render (JObj kvs) = ''{'' @ commas (map member_text kvs) @ ''}''"
  by (simp add: member_text_def [abs_def])

lemma value_arr:
  assumes "list_all reads_back xs" "length (render (JArr xs)) \<le> k"
  shows "parse_value k (render (JArr xs) @ rest) = Some (JArr xs, rest)"
proof -
  obtain k' where k: "k = Suc k'" using assms(2) by (cases k) auto
  show ?thesis
  proof (cases "xs = []")
    case True
    then show ?thesis using k by simp
  next
    case False
    let ?t = "commas (map render xs)"
    obtain c t where t: "?t = c # t" "c \<noteq> CHR '']''"
      using commas_head [of "map render xs"] False render_head [of "hd xs"]
      by (cases ?t) (auto simp: hd_map)
    have "parse_elems k' (?t @ CHR '']'' # rest) = Some (xs, rest)"
      using assms False k by (intro parse_elems_commas) auto
    then show ?thesis using k t by simp
  qed
qed

lemma value_obj:
  assumes "list_all (\<lambda>kv. reads_back (snd kv)) kvs" "length (render (JObj kvs)) \<le> k"
  shows "parse_value k (render (JObj kvs) @ rest) = Some (JObj kvs, rest)"
proof -
  obtain k' where k: "k = Suc k'" using assms(2) by (cases k) auto
  show ?thesis
  proof (cases "kvs = []")
    case True
    then show ?thesis using k by simp
  next
    case False
    let ?t = "commas (map member_text kvs)"
    have "member_text (hd kvs) \<noteq> []" "hd (member_text (hd kvs)) = CHR 0x22"
      by (simp_all add: member_text_def quote_def dq_def)
    then obtain t where t: "?t = CHR 0x22 # t"
      using commas_head [of "map member_text kvs"] False by (cases ?t) (auto simp: hd_map)
    have "parse_members k' (?t @ CHR ''}'' # rest) = Some (kvs, rest)"
      using assms(2) k unfolding render_obj by (intro parse_members_commas [OF assms(1) False]) simp
    then show ?thesis using k t unfolding render_obj by simp
  qed
qed

lemma value_num:
  assumes "length (render (JNum n)) \<le> k" "terminated rest"
  shows "parse_value k (render (JNum n) @ rest) = Some (JNum n, rest)"
proof -
  obtain k' where k: "k = Suc k'" using assms(1) by (cases k) auto
  obtain c t where d: "dec n = c # t" by (cases "dec n") auto
  have "is_digit c" using dec_head [of n] d by simp
  then have "c \<notin> {CHR 0x22, CHR ''['', CHR ''{'', CHR ''n'', CHR ''t'', CHR ''f''}" by (auto simp: is_digit_def)
  then show ?thesis using parse_num_dec [OF assms(2), of n] k d by simp
qed

lemma all_read_back: "reads_back j"
proof (induction j)
  case (JNum n)
  show ?case by (intro reads_backI value_num)
next
  case (JArr xs)
  then have "list_all reads_back xs" by (simp add: list_all_iff)
  then show ?case by (intro reads_backI value_arr)
next
  case (JObj kvs)
  have "list_all (\<lambda>kv. reads_back (snd kv)) kvs"
    using JObj by (auto simp: list_all_iff)
  then show ?case by (intro reads_backI value_obj)
next
  case (JStr s)
  show ?case
  proof (rule reads_backI)
    fix k rest assume "length (render (JStr s)) \<le> k"
    then obtain k' where "k = Suc k'" by (cases k) (auto simp: quote_def dq_def)
    then show "parse_value k (render (JStr s) @ rest) = Some (JStr s, rest)"
      using parse_chars_quoted [of s rest] by (simp add: quote_def dq_def)
  qed
next
  case JNull
  show ?case
  proof (rule reads_backI)
    fix k rest assume "length (render JNull) \<le> k"
    then obtain k' where "k = Suc k'" by (cases k) auto
    then show "parse_value k (render JNull @ rest) = Some (JNull, rest)"
      by (simp add: parse_word_def strip_prefix_def)
  qed
next
  case (JBool b)
  show ?case
  proof (rule reads_backI)
    fix k rest assume "length (render (JBool b)) \<le> k"
    then obtain k' where "k = Suc k'" by (cases k) (auto split: if_splits)
    then show "parse_value k (render (JBool b) @ rest) = Some (JBool b, rest)"
      by (cases b) (simp_all add: parse_word_def strip_prefix_def)
  qed
qed

lemma parse_render: "parse_json (render j) = Some j"
proof -
  have "parse_value (Suc (length (render j))) (render j @ []) = Some (j, [])"
    by (rule reads_backD [OF all_read_back]) simp_all
  then have "parse_value (Suc (length (render j))) (render j) = Some (j, [])" by (simp only: append_Nil2)
  then show ?thesis unfolding parse_json_def by (simp only: option.case prod.case list.case)
qed

lemma render_inj: "render a = render b \<Longrightarrow> a = b"
  by (metis parse_render option.inject)

section \<open>One line\<close>

text \<open>A rendering is one line: it holds no control character.\<close>

definition one_line :: "string \<Rightarrow> bool" where
  "one_line s \<longleftrightarrow> list_all (\<lambda>c. 32 \<le> (of_char c :: nat)) s"

lemma one_line_simps [simp]:
  "one_line []" "one_line (a @ b) \<longleftrightarrow> one_line a \<and> one_line b" "one_line (c # b) \<longleftrightarrow> 32 \<le> (of_char c :: nat) \<and> one_line b"
  by (simp_all add: one_line_def)

lemma one_line_hex: "one_line (hex_pad k n)"
proof (induction k arbitrary: n)
  case (Suc k)
  have "32 \<le> (of_char (hex_digit (n mod 16)) :: nat)" by (auto simp: hex_digit_def)
  then show ?case using Suc by simp
qed simp

lemma one_line_quote: "one_line (quote s)"
proof -
  have "one_line (escape c)" for c by (simp add: escape_def Let_def one_line_hex)
  then have "one_line (concat (map escape s))" by (induction s) simp_all
  then show ?thesis by (simp add: quote_def dq_def)
qed

lemma one_line_commas: "list_all one_line xs \<Longrightarrow> one_line (commas xs)"
  by (induction xs rule: commas.induct) simp_all

lemma one_line_dec: "one_line (dec n)"
  using dec_digits [of n] by (auto simp: one_line_def list_all_iff)

lemma one_line_render: "one_line (render j)"
proof (induction j)
  case (JArr xs)
  then have "one_line (commas (map render xs))" by (intro one_line_commas) (simp add: list_all_iff)
  then show ?case by simp
next
  case (JObj kvs)
  then have "one_line (commas (map member_text kvs))"
    by (intro one_line_commas) (auto simp: list_all_iff member_text_def one_line_quote)
  then show ?case unfolding render_obj by simp
qed (simp_all add: one_line_quote one_line_dec)

end
