(* ===== verification/RecordJson.thy ===== *)
theory RecordJson
  imports AuditRecord JsonText
begin

text \<open>
  The two texts of a run's record, \<open>crates/eke-probes-loader/src/json.rs\<close> and \<open>summary.rs\<close>: both are
  written by hand, piece by piece onto the end of a string. The model appends as the code does. The
  lemmas show that each text is the rendering of a JSON value that names what the record holds, so
  that it parses, on one line, to exactly that value.
\<close>

section \<open>Writing\<close>

definition field :: "string \<Rightarrow> string \<Rightarrow> string \<Rightarrow> bool \<Rightarrow> string" where
  "field out key value first = (if \<not> first then out @ '','' else out) @ dq @ key @ dq @ '':'' @ value"

definition field_opt_u64 :: "string \<Rightarrow> string \<Rightarrow> u64 option \<Rightarrow> bool \<Rightarrow> string" where
  "field_opt_u64 out key value first =
     (let out1 = (if \<not> first then out @ '','' else out) in
      case value of
        Some v \<Rightarrow> out1 @ dq @ key @ dq @ '':'' @ dec (unat v)
      | None \<Rightarrow> out1 @ dq @ key @ dq @ '':null'')"

definition clamped_ns :: "nat \<Rightarrow> u64" where
  "clamped_ns d = (if d \<le> u64_max then word_of_nat d else word_of_nat u64_max)"

text \<open>The escapes concern ASCII characters only, so they work byte by byte.\<close>

definition json_char :: "char \<Rightarrow> string" where
  "json_char c =
     (if c = CHR 0x22 then [CHR 0x5C, CHR 0x22]
      else if c = CHR 0x5C then [CHR 0x5C, CHR 0x5C]
      else if c = CHR 0x0A then [CHR 0x5C, CHR ''n'']
      else if c = CHR 0x0D then [CHR 0x5C, CHR ''r'']
      else if c = CHR 0x09 then [CHR 0x5C, CHR ''t'']
      else if c = CHR 0x08 then [CHR 0x5C, CHR ''b'']
      else if c = CHR 0x0C then [CHR 0x5C, CHR ''f'']
      else if (of_char c :: nat) < 0x20 then [CHR 0x5C, CHR ''u''] @ hex_pad 4 (of_char c)
      else [c])"

definition json_str :: "string \<Rightarrow> string \<Rightarrow> string" where
  "json_str out s = foldl (\<lambda>out ch. out @ json_char ch) (out @ dq) s @ dq"

definition proto_name :: "string \<Rightarrow> u8 \<Rightarrow> string" where
  "proto_name out proto =
     out @ (if proto = IPPROTO_TCP then ''tcp'' else if proto = IPPROTO_UDP then ''udp'' else ''proto '' @ dec (unat proto))"

definition push_syscall_name :: "string \<Rightarrow> Syscall \<Rightarrow> string" where
  "push_syscall_name out kind = out @ (case kind of Execve \<Rightarrow> ''execve'' | Openat \<Rightarrow> ''openat'' | Connect \<Rightarrow> ''connect'')"

text \<open>\<open>for (i, x) in xs.iter().enumerate()\<close> with a comma before every element but the first.\<close>

definition push_each :: "(string \<Rightarrow> 'a \<Rightarrow> string) \<Rightarrow> string \<Rightarrow> 'a list \<Rightarrow> string" where
  "push_each body out xs = foldl (\<lambda>out (i, x). body (if i > 0 then out @ '','' else out) x) out (enumerate 0 xs)"

section \<open>The record\<close>

definition AUDIT_SCHEMA_VERSION :: nat where "AUDIT_SCHEMA_VERSION = 1"

definition counts_to_json :: "string \<Rightarrow> FlowCounts \<Rightarrow> string" where
  "counts_to_json out c =
     (let o1 = field out ''ingress_packets'' (dec (unat (ingress_packets c))) False;
          o2 = field o1 ''ingress_bytes'' (dec (unat (ingress_bytes c))) False;
          o3 = field o2 ''egress_packets'' (dec (unat (egress_packets c))) False
      in field o3 ''egress_bytes'' (dec (unat (egress_bytes c))) False)"

definition quad :: "u32 \<Rightarrow> string" where
  "quad a = fmt_ipv4 (to_be_bytes 4 a)"

definition quoted_proto :: "string \<Rightarrow> u8 \<Rightarrow> string" where
  "quoted_proto out p = proto_name (out @ '','' @ dq @ ''proto'' @ dq @ '':'' @ dq) p @ dq"

definition endpoints :: "string \<Rightarrow> FlowKey \<Rightarrow> string" where
  "endpoints out k =
     (let o1 = out @ dq @ ''src'' @ dq @ '':'' @ dq @ quad (fk_src_addr k) @ dq;
          o2 = field o1 ''src_port'' (dec (unat (fk_src_port k))) False;
          o3 = o2 @ '','' @ dq @ ''dst'' @ dq @ '':'' @ dq @ quad (fk_dst_addr k) @ dq;
          o4 = field o3 ''dst_port'' (dec (unat (fk_dst_port k))) False
      in quoted_proto o4 (fk_proto k))"

definition endpoints6 :: "string \<Rightarrow> FlowKey6 \<Rightarrow> string" where
  "endpoints6 out k =
     (let o1 = out @ dq @ ''src'' @ dq @ '':'' @ dq @ fmt_ipv6 (fk6_src_addr k) @ dq;
          o2 = field o1 ''src_port'' (dec (unat (fk6_src_port k))) False;
          o3 = o2 @ '','' @ dq @ ''dst'' @ dq @ '':'' @ dq @ fmt_ipv6 (fk6_dst_addr k) @ dq;
          o4 = field o3 ''dst_port'' (dec (unat (fk6_dst_port k))) False
      in quoted_proto o4 (fk6_proto k))"

definition denial_to_json :: "string \<Rightarrow> string \<Rightarrow> u16 \<Rightarrow> u8 \<Rightarrow> u64 \<Rightarrow> string" where
  "denial_to_json out addr port proto packets =
     (let o1 = out @ ''{'' @ dq @ ''dst'' @ dq @ '':'' @ dq @ addr @ dq;
          o2 = field o1 ''dst_port'' (dec (unat port)) False;
          o3 = quoted_proto o2 proto
      in field o3 ''packets'' (dec (unat packets)) False @ ''}'')"

definition net_stats_to_json :: "string \<Rightarrow> NetStats \<Rightarrow> string" where
  "net_stats_to_json out s =
     (let o1 = field (out @ ''{'') ''ingress_packets'' (dec (unat (ns_ingress_packets s))) True;
          o2 = field o1 ''ingress_bytes'' (dec (unat (ns_ingress_bytes s))) False;
          o3 = field o2 ''egress_packets'' (dec (unat (ns_egress_packets s))) False
      in field o3 ''egress_bytes'' (dec (unat (ns_egress_bytes s))) False @ ''}'')"

definition bool_word :: "bool \<Rightarrow> string" where
  "bool_word b = (if b then ''true'' else ''false'')"

definition net_to_json :: "string \<Rightarrow> NetSection \<Rightarrow> string" where
  "net_to_json out net =
     (let o1 = net_stats_to_json (out @ ''{'' @ dq @ ''totals'' @ dq @ '':'') (net_totals net);
          o2 = push_each (\<lambda>out f. counts_to_json (endpoints (out @ ''{'') (fr_key f)) (fr_counts f) @ ''}'')
                 (o1 @ '','' @ dq @ ''flows'' @ dq @ '':['') (net_flows net);
          o3 = push_each (\<lambda>out d. denial_to_json out (quad (dr_dst_addr d)) (dr_dst_port d) (dr_proto d) (dr_count d))
                 (o2 @ ''],'' @ dq @ ''denials'' @ dq @ '':['') (net_denials net);
          o4 = push_each (\<lambda>out f. counts_to_json (endpoints6 (out @ ''{'') (fr6_key f)) (fr6_counts f) @ ''}'')
                 (o3 @ ''],'' @ dq @ ''flows6'' @ dq @ '':['') (net_flows6 net);
          o5 = push_each (\<lambda>out d. denial_to_json out (fmt_ipv6 (dr6_dst_addr d)) (dr6_dst_port d) (dr6_proto d) (dr6_count d))
                 (o4 @ ''],'' @ dq @ ''denials6'' @ dq @ '':['') (net_denials6 net);
          o6 = field (o5 @ '']'') ''dropped_flows'' (dec (unat (dropped_flows net))) False;
          o7 = field o6 ''dropped_denials'' (dec (unat (dropped_denials net))) False
      in o7 @ '','' @ dq @ ''truncated'' @ dq @ '':'' @ bool_word (truncated net) @ ''}'')"

definition cgroup_to_json :: "string \<Rightarrow> CgroupStats \<Rightarrow> string" where
  "cgroup_to_json out c =
     (let o1 = field_opt_u64 (out @ ''{'') ''cpu_usage_usec'' (cpu_usage_usec c) True;
          o2 = field_opt_u64 o1 ''memory_current'' (memory_current c) False;
          o3 = field_opt_u64 o2 ''memory_peak'' (memory_peak c) False;
          o4 = field_opt_u64 o3 ''io_rbytes'' (io_rbytes c) False
      in field_opt_u64 o4 ''io_wbytes'' (io_wbytes c) False @ ''}'')"

definition resources_to_json :: "string \<Rightarrow> ResourceSummary \<Rightarrow> string" where
  "resources_to_json out r =
     (let o1 = field (out @ ''{'') ''cpu_time_ns'' (dec (unat (clamped_ns (rs_cpu_time_ns r)))) True
      in cgroup_to_json (o1 @ '','' @ dq @ ''cgroup'' @ dq @ '':'') (rs_cgroup r) @ ''}'')"

definition notable_to_json :: "string \<Rightarrow> NotableSyscall \<Rightarrow> string" where
  "notable_to_json out n =
     (let o1 = push_syscall_name (out @ ''{'' @ dq @ ''kind'' @ dq @ '':'' @ dq) (no_kind n);
          o2 = json_str (o1 @ dq @ '','' @ dq @ ''detail'' @ dq @ '':'') (no_detail n);
          o3 = json_str (o2 @ '','' @ dq @ ''comm'' @ dq @ '':'') (no_comm n)
      in field o3 ''hits'' (dec (unat (no_hits n))) False @ ''}'')"

definition syscalls_to_json :: "string \<Rightarrow> SyscallFootprint \<Rightarrow> string" where
  "syscalls_to_json out s =
     (let o1 = field (out @ ''{'') ''total'' (dec (unat (fp_total s))) True;
          o2 = field (o1 @ '','' @ dq @ ''by_kind'' @ dq @ '':{'') ''execve'' (dec (unat (sc_execve (fp_by_kind s)))) True;
          o3 = field o2 ''openat'' (dec (unat (sc_openat (fp_by_kind s)))) False;
          o4 = field o3 ''connect'' (dec (unat (sc_connect (fp_by_kind s)))) False;
          o5 = field o4 ''unknown'' (dec (unat (sc_unknown (fp_by_kind s)))) False @ ''}'';
          o6 = push_each notable_to_json (o5 @ '','' @ dq @ ''notable'' @ dq @ '':['') (fp_notable s) @ '']'';
          o7 = o6 @ '','' @ dq @ ''notable_truncated'' @ dq @ '':'' @ bool_word (fp_notable_truncated s)
      in field o7 ''overflow_events'' (dec (unat (fp_overflow_events s))) False @ ''}'')"

definition gap_to_json :: "string \<Rightarrow> AxisGap \<Rightarrow> string" where
  "gap_to_json out gap =
     (let (axis, reason) = (case gap of HostSyscalls r \<Rightarrow> (''host_syscalls'', r) | Network r \<Rightarrow> (''network'', r)
                            | CpuGap r \<Rightarrow> (''cpu'', r))
      in json_str (out @ ''{'' @ dq @ ''axis'' @ dq @ '':'' @ dq @ axis @ dq @ '','' @ dq @ ''reason'' @ dq @ '':'') reason @ ''}'')"

definition to_json :: "RunRecord \<Rightarrow> string" where
  "to_json r =
     (let o1 = field ''{'' ''schema'' (dec AUDIT_SCHEMA_VERSION) True;
          o2 = field (o1 @ '','' @ dq @ ''timing'' @ dq @ '':{'') ''boot_ns'' (dec (unat (clamped_ns (tm_boot_ns (rr_timing r))))) True;
          o3 = field o2 ''exec_wall_ns'' (dec (unat (clamped_ns (tm_exec_wall_ns (rr_timing r))))) False @ ''}'';
          o4 = o3 @ '','' @ dq @ ''network'' @ dq @ '':'';
          o5 = (case rr_network r of Some net \<Rightarrow> net_to_json o4 net | None \<Rightarrow> o4 @ ''null'');
          o6 = resources_to_json (o5 @ '','' @ dq @ ''resources'' @ dq @ '':'') (rr_resources r);
          o7 = syscalls_to_json (o6 @ '','' @ dq @ ''host_syscalls'' @ dq @ '':'') (rr_host_syscalls r);
          o8 = push_each gap_to_json (o7 @ '','' @ dq @ ''coverage'' @ dq @ '':['') (rr_coverage r)
      in o8 @ '']'' @ ''}'')"

section \<open>The summary\<close>

definition SUMMARY_SCHEMA_VERSION :: nat where "SUMMARY_SCHEMA_VERSION = 1"
definition SUMMARY_NOTABLE_CAP :: usize where "SUMMARY_NOTABLE_CAP = 16"

definition gap_line :: "AxisGap \<Rightarrow> string" where
  "gap_line gap =
     (case gap of HostSyscalls r \<Rightarrow> ''host_syscalls: '' @ r | Network r \<Rightarrow> ''network: '' @ r | CpuGap r \<Rightarrow> ''cpu: '' @ r)"

definition endpoint :: "string \<Rightarrow> u32 \<times> u16 \<times> u8 \<Rightarrow> string" where
  "endpoint out t = (case t of (addr, port, proto) \<Rightarrow>
     proto_name (out @ dq @ quad addr @ '':'' @ dec (unat port) @ ''/'') proto @ dq)"

definition endpoint6 :: "string \<Rightarrow> bytes \<times> u16 \<times> u8 \<Rightarrow> string" where
  "endpoint6 out t = (case t of (addr, port, proto) \<Rightarrow>
     proto_name (out @ dq @ ''['' @ fmt_ipv6 addr @ '']:'' @ dec (unat port) @ ''/'') proto @ dq)"

text \<open>A \<open>BTreeSet\<close> is iterated in order. A loop with the flag \<open>wrote\<close> carries it along.\<close>

definition push_wrote :: "(string \<Rightarrow> 'a \<Rightarrow> string) \<Rightarrow> string \<times> bool \<Rightarrow> 'a list \<Rightarrow> string \<times> bool" where
  "push_wrote body st xs = foldl (\<lambda>(out, wrote) x. (body (if wrote then out @ '','' else out) x, True)) st xs"

definition denied_dst :: "DenialRecord \<Rightarrow> u32 \<times> u16 \<times> u8" where
  "denied_dst d = (dr_dst_addr d, dr_dst_port d, dr_proto d)"

definition denied_dst6 :: "DenialRecord6 \<Rightarrow> bytes \<times> u16 \<times> u8" where
  "denied_dst6 d = (dr6_dst_addr d, dr6_dst_port d, dr6_proto d)"

definition flow_dst :: "FlowRecord \<Rightarrow> u32 \<times> u16 \<times> u8" where
  "flow_dst f = (fk_dst_addr (fr_key f), fk_dst_port (fr_key f), fk_proto (fr_key f))"

definition flow_dst6 :: "FlowRecord6 \<Rightarrow> bytes \<times> u16 \<times> u8" where
  "flow_dst6 f = (fk6_dst_addr (fr6_key f), fk6_dst_port (fr6_key f), fk6_proto (fr6_key f))"

definition reached :: "NetSection \<Rightarrow> (u32 \<times> u16 \<times> u8) list" where
  "reached net =
     (let denied = set (map denied_dst (net_denials net))
      in sorted_list_of_set (set (filter (\<lambda>t. t \<notin> denied) (map flow_dst (net_flows net)))))"

definition reached6 :: "NetSection \<Rightarrow> (bytes \<times> u16 \<times> u8) list" where
  "reached6 net =
     (let denied6 = set (map denied_dst6 (net_denials6 net))
      in sorted_list_of_set (set (filter (\<lambda>t. t \<notin> denied6) (map flow_dst6 (net_flows6 net)))))"

definition net_summary :: "string \<Rightarrow> NetSection \<Rightarrow> string" where
  "net_summary out net =
     (let o1 = out @ ''{'' @ dq @ ''reached'' @ dq @ '':['';
          o2 = fst (push_wrote endpoint6 (push_wrote endpoint (o1, False) (reached net)) (reached6 net));
          o3 = o2 @ ''],'' @ dq @ ''denied'' @ dq @ '':['';
          o4 = fst (push_wrote (\<lambda>out d. endpoint6 out (denied_dst6 d))
                     (push_wrote (\<lambda>out d. endpoint out (denied_dst d)) (o3, False) (net_denials net)) (net_denials6 net)) @ '']'';
          o5 = field o4 ''sent_bytes'' (dec (unat (ns_ingress_bytes (net_totals net)))) False;
          o6 = field o5 ''recv_bytes'' (dec (unat (ns_egress_bytes (net_totals net)))) False
      in o6 @ '','' @ dq @ ''truncated'' @ dq @ '':'' @ bool_word (truncated net) @ ''}'')"

definition notable_line :: "NotableSyscall \<Rightarrow> string" where
  "notable_line n = push_syscall_name [] (no_kind n) @ '' '' @ no_detail n"

definition syscalls_summary :: "string \<Rightarrow> RunRecord \<Rightarrow> string" where
  "syscalls_summary out r =
     (let s = rr_host_syscalls r;
          o1 = field (out @ ''{'') ''execve'' (dec (unat (sc_execve (fp_by_kind s)))) True;
          o2 = field o1 ''openat'' (dec (unat (sc_openat (fp_by_kind s)))) False;
          o3 = field o2 ''connect'' (dec (unat (sc_connect (fp_by_kind s)))) False;
          o4 = push_each (\<lambda>out n. json_str out (notable_line n)) (o3 @ '','' @ dq @ ''notable'' @ dq @ '':['')
                 (take SUMMARY_NOTABLE_CAP (fp_notable s)) @ '']'';
          trunc = (fp_notable_truncated s \<or> length (fp_notable s) > SUMMARY_NOTABLE_CAP)
      in o4 @ '','' @ dq @ ''truncated'' @ dq @ '':'' @ bool_word trunc @ ''}'')"

definition to_summary_json :: "RunRecord \<Rightarrow> string" where
  "to_summary_json r =
     (let o1 = field ''{'' ''schema'' (dec SUMMARY_SCHEMA_VERSION) True;
          o2 = field (o1 @ '','' @ dq @ ''timing'' @ dq @ '':{'') ''boot_ns'' (dec (unat (clamped_ns (tm_boot_ns (rr_timing r))))) True;
          o3 = field o2 ''exec_ns'' (dec (unat (clamped_ns (tm_exec_wall_ns (rr_timing r))))) False @ ''}'';
          o4 = o3 @ '','' @ dq @ ''network'' @ dq @ '':'';
          o5 = (case rr_network r of Some net \<Rightarrow> net_summary o4 net | None \<Rightarrow> o4 @ ''null'');
          o6 = syscalls_summary (o5 @ '','' @ dq @ ''host_syscalls'' @ dq @ '':'') r;
          o7 = field (o6 @ '','' @ dq @ ''resources'' @ dq @ '':{'') ''cpu_ns'' (dec (unat (clamped_ns (rs_cpu_time_ns (rr_resources r))))) True;
          o8 = field_opt_u64 o7 ''mem_peak_bytes'' (memory_peak (rs_cgroup (rr_resources r))) False;
          o9 = field_opt_u64 o8 ''io_read_bytes'' (io_rbytes (rs_cgroup (rr_resources r))) False;
          o10 = field_opt_u64 o9 ''io_write_bytes'' (io_wbytes (rs_cgroup (rr_resources r))) False @ ''}'';
          o11 = push_each (\<lambda>out gap. json_str out (gap_line gap)) (o10 @ '','' @ dq @ ''gaps'' @ dq @ '':['') (rr_coverage r)
      in o11 @ '']'' @ ''}'')"

section \<open>What the record says\<close>

text \<open>The values the two texts stand for. Numbers of nanoseconds saturate at the largest 64-bit one.\<close>

definition word_json :: "'a::len word \<Rightarrow> json" where
  "word_json w = JNum (unat w)"

definition ns_json :: "nat \<Rightarrow> json" where
  "ns_json d = JNum (min d u64_max)"

definition opt_json :: "u64 option \<Rightarrow> json" where
  "opt_json v = (case v of Some n \<Rightarrow> word_json n | None \<Rightarrow> JNull)"

definition proto_text :: "u8 \<Rightarrow> string" where
  "proto_text p = (if p = IPPROTO_TCP then ''tcp'' else if p = IPPROTO_UDP then ''udp'' else ''proto '' @ dec (unat p))"

definition kind_text :: "Syscall \<Rightarrow> string" where
  "kind_text k = (case k of Execve \<Rightarrow> ''execve'' | Openat \<Rightarrow> ''openat'' | Connect \<Rightarrow> ''connect'')"

definition flow_json :: "string \<Rightarrow> u16 \<Rightarrow> string \<Rightarrow> u16 \<Rightarrow> u8 \<Rightarrow> FlowCounts \<Rightarrow> json" where
  "flow_json src sport dst dport proto c =
     JObj [(''src'', JStr src), (''src_port'', word_json sport), (''dst'', JStr dst), (''dst_port'', word_json dport),
       (''proto'', JStr (proto_text proto)), (''ingress_packets'', word_json (ingress_packets c)),
       (''ingress_bytes'', word_json (ingress_bytes c)), (''egress_packets'', word_json (egress_packets c)),
       (''egress_bytes'', word_json (egress_bytes c))]"

definition denial_json :: "string \<Rightarrow> u16 \<Rightarrow> u8 \<Rightarrow> u64 \<Rightarrow> json" where
  "denial_json dst port proto n =
     JObj [(''dst'', JStr dst), (''dst_port'', word_json port), (''proto'', JStr (proto_text proto)), (''packets'', word_json n)]"

definition net_json :: "NetSection \<Rightarrow> json" where
  "net_json net = JObj
     [(''totals'', JObj [(''ingress_packets'', word_json (ns_ingress_packets (net_totals net))),
         (''ingress_bytes'', word_json (ns_ingress_bytes (net_totals net))),
         (''egress_packets'', word_json (ns_egress_packets (net_totals net))),
         (''egress_bytes'', word_json (ns_egress_bytes (net_totals net)))]),
      (''flows'', JArr (map (\<lambda>f. flow_json (quad (fk_src_addr (fr_key f))) (fk_src_port (fr_key f))
         (quad (fk_dst_addr (fr_key f))) (fk_dst_port (fr_key f)) (fk_proto (fr_key f)) (fr_counts f)) (net_flows net))),
      (''denials'', JArr (map (\<lambda>d. denial_json (quad (dr_dst_addr d)) (dr_dst_port d) (dr_proto d) (dr_count d)) (net_denials net))),
      (''flows6'', JArr (map (\<lambda>f. flow_json (fmt_ipv6 (fk6_src_addr (fr6_key f))) (fk6_src_port (fr6_key f))
         (fmt_ipv6 (fk6_dst_addr (fr6_key f))) (fk6_dst_port (fr6_key f)) (fk6_proto (fr6_key f)) (fr6_counts f)) (net_flows6 net))),
      (''denials6'', JArr (map (\<lambda>d. denial_json (fmt_ipv6 (dr6_dst_addr d)) (dr6_dst_port d) (dr6_proto d) (dr6_count d))
         (net_denials6 net))),
      (''dropped_flows'', word_json (dropped_flows net)), (''dropped_denials'', word_json (dropped_denials net)),
      (''truncated'', JBool (truncated net))]"

definition resources_json :: "ResourceSummary \<Rightarrow> json" where
  "resources_json r = JObj
     [(''cpu_time_ns'', ns_json (rs_cpu_time_ns r)),
      (''cgroup'', JObj [(''cpu_usage_usec'', opt_json (cpu_usage_usec (rs_cgroup r))),
         (''memory_current'', opt_json (memory_current (rs_cgroup r))), (''memory_peak'', opt_json (memory_peak (rs_cgroup r))),
         (''io_rbytes'', opt_json (io_rbytes (rs_cgroup r))), (''io_wbytes'', opt_json (io_wbytes (rs_cgroup r)))])]"

definition notable_json :: "NotableSyscall \<Rightarrow> json" where
  "notable_json n = JObj [(''kind'', JStr (kind_text (no_kind n))), (''detail'', JStr (no_detail n)),
     (''comm'', JStr (no_comm n)), (''hits'', word_json (no_hits n))]"

definition syscalls_json :: "SyscallFootprint \<Rightarrow> json" where
  "syscalls_json s = JObj
     [(''total'', word_json (fp_total s)),
      (''by_kind'', JObj [(''execve'', word_json (sc_execve (fp_by_kind s))), (''openat'', word_json (sc_openat (fp_by_kind s))),
         (''connect'', word_json (sc_connect (fp_by_kind s))), (''unknown'', word_json (sc_unknown (fp_by_kind s)))]),
      (''notable'', JArr (map notable_json (fp_notable s))),
      (''notable_truncated'', JBool (fp_notable_truncated s)), (''overflow_events'', word_json (fp_overflow_events s))]"

definition gap_json :: "AxisGap \<Rightarrow> json" where
  "gap_json gap = (case gap of
       HostSyscalls r \<Rightarrow> JObj [(''axis'', JStr ''host_syscalls''), (''reason'', JStr r)]
     | Network r \<Rightarrow> JObj [(''axis'', JStr ''network''), (''reason'', JStr r)]
     | CpuGap r \<Rightarrow> JObj [(''axis'', JStr ''cpu''), (''reason'', JStr r)])"

definition record_json :: "RunRecord \<Rightarrow> json" where
  "record_json r = JObj
     [(''schema'', JNum 1),
      (''timing'', JObj [(''boot_ns'', ns_json (tm_boot_ns (rr_timing r))), (''exec_wall_ns'', ns_json (tm_exec_wall_ns (rr_timing r)))]),
      (''network'', case rr_network r of Some net \<Rightarrow> net_json net | None \<Rightarrow> JNull),
      (''resources'', resources_json (rr_resources r)),
      (''host_syscalls'', syscalls_json (rr_host_syscalls r)),
      (''coverage'', JArr (map gap_json (rr_coverage r)))]"

definition dst_text :: "u32 \<times> u16 \<times> u8 \<Rightarrow> string" where
  "dst_text t = (case t of (a, p, q) \<Rightarrow> quad a @ '':'' @ dec (unat p) @ ''/'' @ proto_text q)"

definition dst_text6 :: "bytes \<times> u16 \<times> u8 \<Rightarrow> string" where
  "dst_text6 t = (case t of (a, p, q) \<Rightarrow> ''['' @ fmt_ipv6 a @ '']:'' @ dec (unat p) @ ''/'' @ proto_text q)"

definition net_summary_json :: "NetSection \<Rightarrow> json" where
  "net_summary_json net = JObj
     [(''reached'', JArr (map (\<lambda>t. JStr (dst_text t)) (reached net) @ map (\<lambda>t. JStr (dst_text6 t)) (reached6 net))),
      (''denied'', JArr (map (\<lambda>d. JStr (dst_text (denied_dst d))) (net_denials net)
         @ map (\<lambda>d. JStr (dst_text6 (denied_dst6 d))) (net_denials6 net))),
      (''sent_bytes'', word_json (ns_ingress_bytes (net_totals net))),
      (''recv_bytes'', word_json (ns_egress_bytes (net_totals net))), (''truncated'', JBool (truncated net))]"

definition syscalls_summary_json :: "SyscallFootprint \<Rightarrow> json" where
  "syscalls_summary_json s = JObj
     [(''execve'', word_json (sc_execve (fp_by_kind s))), (''openat'', word_json (sc_openat (fp_by_kind s))),
      (''connect'', word_json (sc_connect (fp_by_kind s))),
      (''notable'', JArr (map (\<lambda>n. JStr (kind_text (no_kind n) @ '' '' @ no_detail n)) (take SUMMARY_NOTABLE_CAP (fp_notable s)))),
      (''truncated'', JBool (fp_notable_truncated s \<or> length (fp_notable s) > SUMMARY_NOTABLE_CAP))]"

definition summary_json :: "RunRecord \<Rightarrow> json" where
  "summary_json r = JObj
     [(''schema'', JNum 1),
      (''timing'', JObj [(''boot_ns'', ns_json (tm_boot_ns (rr_timing r))), (''exec_ns'', ns_json (tm_exec_wall_ns (rr_timing r)))]),
      (''network'', case rr_network r of Some net \<Rightarrow> net_summary_json net | None \<Rightarrow> JNull),
      (''host_syscalls'', syscalls_summary_json (rr_host_syscalls r)),
      (''resources'', JObj [(''cpu_ns'', ns_json (rs_cpu_time_ns (rr_resources r))),
         (''mem_peak_bytes'', opt_json (memory_peak (rs_cgroup (rr_resources r)))),
         (''io_read_bytes'', opt_json (io_rbytes (rs_cgroup (rr_resources r)))),
         (''io_write_bytes'', opt_json (io_wbytes (rs_cgroup (rr_resources r))))]),
      (''gaps'', JArr (map (\<lambda>g. JStr (gap_line g)) (rr_coverage r)))]"

section \<open>Loops and strings\<close>

lemma foldl_enumerate_commas:
  assumes "\<And>out x. body out x = out @ f x"
  shows "foldl (\<lambda>out (i, x). body (if i > 0 then out @ '','' else out) x) out (enumerate (Suc n) xs)
     = out @ concat (map (\<lambda>x. '','' @ f x) xs)"
  by (induction xs arbitrary: n out) (simp_all add: assms)

lemma commas_concat: "commas (x # xs) = x @ concat (map (\<lambda>y. '','' @ y) xs)"
  by (induction xs arbitrary: x) simp_all

lemma push_each_commas:
  assumes "\<And>out x. body out x = out @ f x"
  shows "push_each body out xs = out @ commas (map f xs)"
proof (cases xs)
  case Nil
  then show ?thesis by (simp add: push_each_def)
next
  case (Cons x ys)
  have "push_each body out xs = out @ f x @ concat (map (\<lambda>x. '','' @ f x) ys)"
    using foldl_enumerate_commas [where body = body and f = f and n = 0 and xs = ys and out = "out @ f x"] assms Cons
    by (simp add: push_each_def)
  moreover have "commas (map f xs) = f x @ concat (map (\<lambda>x. '','' @ f x) ys)"
    using commas_concat [of "f x" "map f ys"] Cons by (simp add: comp_def)
  ultimately show ?thesis by simp
qed

lemma push_wrote_again:
  assumes "\<And>out x. body out x = out @ f x"
  shows "push_wrote body (out, True) xs = (out @ concat (map (\<lambda>x. '','' @ f x) xs), True)"
  by (induction xs arbitrary: out) (simp_all add: assms push_wrote_def)

lemma push_wrote_first:
  assumes "\<And>out x. body out x = out @ f x"
  shows "push_wrote body (out, False) xs = (out @ commas (map f xs), xs \<noteq> [])"
proof (cases xs)
  case Nil
  then show ?thesis by (simp add: push_wrote_def)
next
  case (Cons x ys)
  have "push_wrote body (out, False) xs = push_wrote body (out @ f x, True) ys" by (simp add: push_wrote_def Cons assms)
  also have "\<dots> = (out @ f x @ concat (map (\<lambda>x. '','' @ f x) ys), True)" by (simp add: push_wrote_again [OF assms])
  also have "\<dots> = (out @ commas (map f xs), xs \<noteq> [])" using commas_concat [of "f x" "map f ys"] Cons by (simp add: comp_def)
  finally show ?thesis .
qed

lemma push_wrote_both:
  assumes "\<And>out x. body out x = out @ f x" "\<And>out y. body2 out y = out @ g y"
  shows "fst (push_wrote body2 (push_wrote body (out, False) xs) ys) = out @ commas (map f xs @ map g ys)"
proof (cases xs)
  case Nil
  then show ?thesis using push_wrote_first [where body = body2, OF assms(2)] push_wrote_first [where body = body, OF assms(1)] by simp
next
  case (Cons x zs)
  then have "fst (push_wrote body2 (push_wrote body (out, False) xs) ys)
      = out @ commas (map f xs) @ concat (map (\<lambda>y. '','' @ g y) ys)"
    by (simp add: push_wrote_first [where body = body, OF assms(1)] push_wrote_again [where body = body2, OF assms(2)])
  then show ?thesis using commas_concat [of "f x" "map f zs"] commas_concat [of "f x" "map f zs @ map g ys"] Cons
    by (simp add: comp_def)
qed

lemma json_char_escape: "json_char c = escape c"
proof -
  have c: "(of_char c :: nat) = of_char d \<longleftrightarrow> c = d" for d by (rule of_char_eq_iff)
  show ?thesis
    using c [of "CHR 0x22"] c [of "CHR 0x5C"] c [of "CHR 0x0A"] c [of "CHR 0x0D"] c [of "CHR 0x09"]
      c [of "CHR 0x08"] c [of "CHR 0x0C"]
    by (simp add: json_char_def escape_def Let_def)
qed

lemma json_str_quote: "json_str out s = out @ quote s"
proof -
  have "foldl (\<lambda>out ch. out @ json_char ch) out s = out @ concat (map escape s)" for out
    by (induction s arbitrary: out) (simp_all add: json_char_escape)
  then show ?thesis by (simp add: json_str_def quote_def)
qed

text \<open>Text that needs no escape.\<close>

definition verbatim :: "string \<Rightarrow> bool" where
  "verbatim s \<longleftrightarrow> list_all (\<lambda>c. 32 \<le> (of_char c :: nat) \<and> (of_char c :: nat) \<noteq> 34 \<and> (of_char c :: nat) \<noteq> 92) s"

lemma verbatim_simps [simp]:
  "verbatim []" "verbatim (a @ b) \<longleftrightarrow> verbatim a \<and> verbatim b"
  "verbatim (c # b) \<longleftrightarrow> 32 \<le> (of_char c :: nat) \<and> (of_char c :: nat) \<noteq> 34 \<and> (of_char c :: nat) \<noteq> 92 \<and> verbatim b"
  by (auto simp: verbatim_def)

lemma quote_verbatim: "verbatim s \<Longrightarrow> quote s = dq @ s @ dq"
  by (induction s) (auto simp: quote_def escape_def Let_def)

lemma verbatim_dec [simp]: "verbatim (dec n)"
  using dec_digits [of n] by (auto simp: verbatim_def list_all_iff)

lemma verbatim_hex [simp]: "verbatim (hex_lower n)"
proof (induction n rule: hex_lower.induct)
  case (1 n)
  have "verbatim [hex_digit d]" if "d < 16" for d using that by (auto simp: hex_digit_def)
  then show ?case using 1 by (subst hex_lower.simps) simp
qed

lemma verbatim_join: "verbatim sep \<Longrightarrow> list_all verbatim xs \<Longrightarrow> verbatim (join sep xs)"
proof -
  assume s: "verbatim sep" "list_all verbatim xs"
  then have "list_all verbatim ys \<Longrightarrow> verbatim (concat (map (\<lambda>z. sep @ z) ys))" for ys
    by (induction ys) simp_all
  then show ?thesis using s by (cases xs) (simp_all add: join_def)
qed

lemma verbatim_addr [simp]: "verbatim (quad a)" "verbatim (fmt_ipv6 b)"
proof -
  have v4: "verbatim (fmt_ipv4 b)" for b by (simp add: fmt_ipv4_def verbatim_join list_all_iff)
  have g: "verbatim (fmt_groups gs)" for gs by (simp add: fmt_groups_def verbatim_join list_all_iff)
  show "verbatim (quad a)" by (simp add: quad_def v4)
  show "verbatim (fmt_ipv6 b)" by (simp add: fmt_ipv6_def v4 g Let_def split: prod.splits)
qed

lemma verbatim_proto [simp]: "verbatim (proto_text p)"
  by (simp add: proto_text_def)

lemma verbatim_kind [simp]: "verbatim (kind_text k)"
  by (cases k) (simp_all add: kind_text_def)

section \<open>The texts are renderings\<close>

lemma proto_name_text: "proto_name out p = out @ proto_text p"
  by (simp add: proto_name_def proto_text_def)

lemma syscall_name_text: "push_syscall_name out k = out @ kind_text k"
  by (simp add: push_syscall_name_def kind_text_def)

lemma bool_word_render: "bool_word b = render (JBool b)"
  by (simp add: bool_word_def)

lemma clamped_render: "dec (unat (clamped_ns d)) = render (ns_json d)"
  by (auto simp: clamped_ns_def ns_json_def unsigned_of_nat take_bit_nat_eq_self u64_max_def min_def)

lemma opt_render:
  "field_opt_u64 out key v first = field out key (render (opt_json v)) first"
  by (cases v) (simp_all add: field_opt_u64_def field_def opt_json_def word_json_def Let_def)

lemma word_render: "render (word_json w) = dec (unat w)"
  by (simp add: word_json_def)

lemmas text_rules = proto_name_text syscall_name_text json_str_quote opt_render clamped_render field_def
  quote_verbatim word_render Let_def

lemma flow_render:
  "counts_to_json (endpoints (out @ ''{'') k) c @ ''}''
     = out @ render (flow_json (quad (fk_src_addr k)) (fk_src_port k) (quad (fk_dst_addr k)) (fk_dst_port k) (fk_proto k) c)"
  by (simp add: counts_to_json_def endpoints_def quoted_proto_def flow_json_def text_rules)

lemma flow6_render:
  "counts_to_json (endpoints6 (out @ ''{'') k) c @ ''}''
     = out @ render (flow_json (fmt_ipv6 (fk6_src_addr k)) (fk6_src_port k) (fmt_ipv6 (fk6_dst_addr k)) (fk6_dst_port k) (fk6_proto k) c)"
  by (simp add: counts_to_json_def endpoints6_def quoted_proto_def flow_json_def text_rules)

lemma denial_render:
  "verbatim addr \<Longrightarrow> denial_to_json out addr port proto n = out @ render (denial_json addr port proto n)"
  by (simp add: denial_to_json_def quoted_proto_def denial_json_def text_rules)

lemma notable_render: "notable_to_json out n = out @ render (notable_json n)"
  by (simp add: notable_to_json_def notable_json_def text_rules)

lemma gap_render: "gap_to_json out g = out @ render (gap_json g)"
  by (cases g) (simp_all add: gap_to_json_def gap_json_def text_rules)

lemma resources_render: "resources_to_json out r = out @ render (resources_json r)"
  by (simp add: resources_to_json_def cgroup_to_json_def resources_json_def text_rules)

lemma syscalls_render: "syscalls_to_json out s = out @ render (syscalls_json s)"
  by (simp add: syscalls_to_json_def syscalls_json_def text_rules bool_word_render
      push_each_commas [where f = "\<lambda>n. render (notable_json n)", OF notable_render] comp_def)

lemma net_stats_render:
  "net_stats_to_json out s = out @ render (JObj [(''ingress_packets'', word_json (ns_ingress_packets s)),
     (''ingress_bytes'', word_json (ns_ingress_bytes s)), (''egress_packets'', word_json (ns_egress_packets s)),
     (''egress_bytes'', word_json (ns_egress_bytes s))])"
  by (simp add: net_stats_to_json_def text_rules)

lemma net_render: "net_to_json out net = out @ render (net_json net)"
proof -
  have f: "push_each (\<lambda>out f. counts_to_json (endpoints (out @ ''{'') (fr_key f)) (fr_counts f) @ ''}'') o1 xs
      = o1 @ commas (map (\<lambda>f. render (flow_json (quad (fk_src_addr (fr_key f))) (fk_src_port (fr_key f))
          (quad (fk_dst_addr (fr_key f))) (fk_dst_port (fr_key f)) (fk_proto (fr_key f)) (fr_counts f))) xs)" for o1 xs
    by (rule push_each_commas) (rule flow_render)
  have f6: "push_each (\<lambda>out f. counts_to_json (endpoints6 (out @ ''{'') (fr6_key f)) (fr6_counts f) @ ''}'') o1 xs
      = o1 @ commas (map (\<lambda>f. render (flow_json (fmt_ipv6 (fk6_src_addr (fr6_key f))) (fk6_src_port (fr6_key f))
          (fmt_ipv6 (fk6_dst_addr (fr6_key f))) (fk6_dst_port (fr6_key f)) (fk6_proto (fr6_key f)) (fr6_counts f))) xs)" for o1 xs
    by (rule push_each_commas) (rule flow6_render)
  have d: "push_each (\<lambda>out d. denial_to_json out (quad (dr_dst_addr d)) (dr_dst_port d) (dr_proto d) (dr_count d)) o1 xs
      = o1 @ commas (map (\<lambda>d. render (denial_json (quad (dr_dst_addr d)) (dr_dst_port d) (dr_proto d) (dr_count d))) xs)" for o1 xs
    by (rule push_each_commas) (rule denial_render, simp)
  have d6: "push_each (\<lambda>out d. denial_to_json out (fmt_ipv6 (dr6_dst_addr d)) (dr6_dst_port d) (dr6_proto d) (dr6_count d)) o1 xs
      = o1 @ commas (map (\<lambda>d. render (denial_json (fmt_ipv6 (dr6_dst_addr d)) (dr6_dst_port d) (dr6_proto d) (dr6_count d))) xs)"
    for o1 xs by (rule push_each_commas) (rule denial_render, simp)
  show ?thesis
    unfolding net_to_json_def Let_def f f6 d d6 net_stats_render
    by (simp add: net_json_def text_rules bool_word_render comp_def)
qed

lemma to_json_render: "to_json r = render (record_json r)"
  by (cases "rr_network r")
     (simp_all add: to_json_def record_json_def text_rules net_render resources_render syscalls_render
        push_each_commas [where f = "\<lambda>g. render (gap_json g)", OF gap_render] AUDIT_SCHEMA_VERSION_def comp_def)

lemma endpoint_render: "endpoint out t = out @ render (JStr (dst_text t))"
  by (cases t) (simp add: endpoint_def dst_text_def text_rules)

lemma endpoint6_render: "endpoint6 out t = out @ render (JStr (dst_text6 t))"
  by (cases t) (simp add: endpoint6_def dst_text6_def text_rules)

lemma net_summary_render: "net_summary out net = out @ render (net_summary_json net)"
proof -
  note r = push_wrote_both [where body = endpoint and ?body2.0 = endpoint6, OF endpoint_render endpoint6_render]
  have d: "fst (push_wrote (\<lambda>out d. endpoint6 out (denied_dst6 d)) (push_wrote (\<lambda>out d. endpoint out (denied_dst d)) (o1, False) xs) ys)
      = o1 @ commas (map (\<lambda>d. render (JStr (dst_text (denied_dst d)))) xs @ map (\<lambda>d. render (JStr (dst_text6 (denied_dst6 d)))) ys)"
    for o1 xs ys
    by (rule push_wrote_both) (rule endpoint_render endpoint6_render)+
  show ?thesis unfolding net_summary_def Let_def r d
    by (simp add: net_summary_json_def text_rules bool_word_render comp_def del: render.simps(4))
qed

lemma syscalls_summary_render: "syscalls_summary out r = out @ render (syscalls_summary_json (rr_host_syscalls r))"
proof -
  have n: "push_each (\<lambda>out n. json_str out (notable_line n)) o1 xs
      = o1 @ commas (map (\<lambda>n. render (JStr (kind_text (no_kind n) @ '' '' @ no_detail n))) xs)" for o1 xs
    by (rule push_each_commas) (simp add: json_str_quote notable_line_def syscall_name_text)
  show ?thesis unfolding syscalls_summary_def Let_def n
    by (simp add: syscalls_summary_json_def text_rules bool_word_render comp_def del: render.simps(4))
qed

lemma to_summary_json_render: "to_summary_json r = render (summary_json r)"
proof -
  have g: "push_each (\<lambda>out gap. json_str out (gap_line gap)) o1 xs = o1 @ commas (map (\<lambda>g. render (JStr (gap_line g))) xs)" for o1 xs
    by (rule push_each_commas) (simp add: json_str_quote)
  show ?thesis unfolding to_summary_json_def Let_def g
    by (cases "rr_network r")
       (simp_all add: summary_json_def text_rules net_summary_render syscalls_summary_render SUMMARY_SCHEMA_VERSION_def comp_def
          del: render.simps(4))
qed

text \<open>(C29) Both texts of a record are JSON on one line that reads back to exactly what the record holds: the
  full text to every section with its names and numbers, the summary to its projection, whatever
  characters the guest put into the names of its programs and files.\<close>

theorem record_text_roundtrip:
  "parse_json (to_json r) = Some (record_json r) \<and> parse_json (to_summary_json r) = Some (summary_json r)
   \<and> one_line (to_json r) \<and> one_line (to_summary_json r)"
  unfolding to_json_render to_summary_json_render by (simp only: parse_render one_line_render simp_thms)

section \<open>What the summary calls reached\<close>

lemma reached_iff: "t \<in> set (reached net) \<longleftrightarrow> t \<in> flow_dst ` set (net_flows net) \<and> t \<notin> denied_dst ` set (net_denials net)"
  by (auto simp: reached_def Let_def)

lemma reached_sorted: "sorted (reached net) \<and> distinct (reached net)"
  by (simp add: reached_def Let_def)

text \<open>A flow that carried only bytes to the guest counts as a destination the guest reached.\<close>

lemma reached_counts_replies:
  assumes "f \<in> set (net_flows net)" "net_denials net = []" "ingress_packets (fr_counts f) = 0"
  shows "flow_dst f \<in> set (reached net)"
  using assms by (simp add: reached_iff)

end
