(* ===== verification/SignedText.thy ===== *)
theory SignedText
  imports Signing RecordJson
begin

text \<open>
  The signed envelope as text. Signing and verification take the JSON parser as a parameter and assume
  of it that it reads an envelope back; here the reference parser is shown to do so, for every
  envelope the signer writes. With it, a record that was rendered, signed and chained comes out of
  verification as the text whose value is the record.
\<close>

section \<open>The reference parser reads envelopes\<close>

definition ref_parse :: "string \<Rightarrow> string + json" where
  "ref_parse s = (case parse_json s of Some v \<Rightarrow> Inr v | None \<Rightarrow> Inl ''malformed'')"

definition ref_get_str :: "json \<Rightarrow> string \<Rightarrow> string option" where
  "ref_get_str v name =
     (case v of JObj kvs \<Rightarrow> (case map_of kvs name of Some (JStr s) \<Rightarrow> Some s | _ \<Rightarrow> None) | _ \<Rightarrow> None)"

lemma parse_chars_signed_escape:
  "parse_chars (json_escape_char c @ t) = map_option (map_prod (\<lambda>r. c # r) id) (parse_chars t)"
proof (cases "(of_char c :: nat) \<in> {8, 12}")
  case True
  then have e: "json_escape_char c = [CHR 0x5C, CHR ''u''] @ hex_pad 4 (of_char c)" by (auto simp: json_escape_char_def)
  have "(of_char c :: nat) < 32" using True by auto
  then show ?thesis unfolding e by (simp add: parse_chars_u)
next
  case False
  then have "json_escape_char c = escape c" by (simp add: json_escape_char_def escape_def Let_def)
  then show ?thesis by (simp add: parse_chars_escape)
qed

lemma parse_signed_string: "parse_chars (concat (map json_escape_char s) @ CHR 0x22 # rest) = Some (s, rest)"
  by (induction s) (simp_all add: parse_chars_signed_escape parse_chars.simps(2) [of "CHR 0x22"])

definition str_member :: "string \<times> string \<Rightarrow> string" where
  "str_member nv = dq @ fst nv @ dq @ '':'' @ dq @ concat (map json_escape_char (snd nv)) @ dq"

definition str_value :: "string \<times> string \<Rightarrow> string \<times> json" where
  "str_value nv = (fst nv, JStr (snd nv))"

lemma parse_str_member:
  assumes "verbatim (fst nv)"
  shows "parse_members (Suc (Suc k)) (str_member nv @ r) =
    (case r of
       CHR ''}'' # r1 \<Rightarrow> Some ([str_value nv], r1)
     | CHR '','' # r1 \<Rightarrow> map_option (map_prod (\<lambda>kvs. str_value nv # kvs) id) (parse_members (Suc k) r1)
     | _ \<Rightarrow> None)"
proof -
  let ?vt = "CHR 0x22 # concat (map json_escape_char (snd nv)) @ CHR 0x22 # r"
  have t: "str_member nv @ r = CHR 0x22 # fst nv @ CHR 0x22 # CHR '':'' # ?vt" by (simp add: str_member_def dq_def)
  have "parse_chars (fst nv @ CHR 0x22 # CHR '':'' # ?vt) = Some (fst nv, CHR '':'' # ?vt)"
    using parse_chars_quoted [of "fst nv" "CHR '':'' # ?vt"] quote_verbatim [OF assms] by (simp add: quote_def)
  moreover have "parse_value (Suc k) ?vt = Some (JStr (snd nv), r)" by (simp add: parse_signed_string)
  ultimately show ?thesis unfolding t str_value_def by (rule parse_member)
qed

lemma parse_str_members:
  "list_all (\<lambda>nv. verbatim (fst nv)) flds \<Longrightarrow> flds \<noteq> [] \<Longrightarrow> length flds < k \<Longrightarrow>
   parse_members k (commas (map str_member flds) @ CHR ''}'' # rest) = Some (map str_value flds, rest)"
proof (induction flds arbitrary: k)
  case (Cons nv flds)
  have "2 \<le> k" using Cons.prems(3) by simp
  then obtain k1 where "k = 2 + k1" by (rule le_Suc_ex [THEN exE])
  then have k: "k = Suc (Suc k1)" by simp
  have v: "verbatim (fst nv)" using Cons.prems(1) by simp
  show ?case
  proof (cases flds)
    case Nil
    then show ?thesis unfolding k using parse_str_member [OF v, of k1 "CHR ''}'' # rest"] by simp
  next
    case (Cons w ws)
    let ?t = "commas (map str_member flds) @ CHR ''}'' # rest"
    have "parse_members (Suc k1) ?t = Some (map str_value flds, rest)"
      by (rule Cons.IH) (use Cons.prems k local.Cons in simp_all)
    then have "parse_members k (str_member nv @ CHR '','' # ?t) = Some (str_value nv # map str_value flds, rest)"
      unfolding k parse_str_member [OF v] by (simp del: parse_members.simps)
    then show ?thesis using local.Cons by (simp del: parse_members.simps)
  qed
qed simp

lemma commas_members: "concat (map (\<lambda>nv. '','' @ str_member nv) flds) = (if flds = [] then [] else '','' @ commas (map str_member flds))"
  by (cases flds) (simp_all only: commas_concat map_map comp_def list.map concat.simps refl if_True if_False list.distinct append.simps append_assoc)

lemma value_of_members:
  "parse_members k (CHR 0x22 # m) = Some (kvs, r) \<Longrightarrow> parse_value (Suc k) (CHR ''{'' # CHR 0x22 # m) = Some (JObj kvs, r)"
  by (simp del: parse_members.simps)

text \<open>The whole envelope: the schema number, then the string members.\<close>

lemma parse_envelope:
  assumes "list_all (\<lambda>nv. verbatim (fst nv)) flds" "flds \<noteq> []"
  shows "parse_json (envelope_text flds) = Some (JObj ((''schema'', JNum SIGNED_RECORD_SCHEMA_VERSION) # map str_value flds))"
proof -
  let ?v = "JNum SIGNED_RECORD_SCHEMA_VERSION" and ?ms = "commas (map str_member flds)"
  let ?m = "member_text (''schema'', ?v) @ CHR '','' # ?ms @ CHR ''}'' # []"
  have env: "envelope_text flds = CHR ''{'' # ?m"
    using commas_members [of flds] assms(2)
    by (simp add: envelope_text_def str_member_def member_text_def quote_verbatim case_prod_unfold)
  have len: "length flds \<le> length ?ms"
    by (induction flds rule: induct_list012) (simp_all add: str_member_def dq_def)
  obtain m where m: "?m = CHR 0x22 # m" by (simp add: member_text_def quote_def dq_def)
  let ?k = "length ?m"
  have big: "length flds < ?k" using len by simp
  have num: "parse_value ?k (render ?v @ CHR '','' # ?ms @ CHR ''}'' # []) = Some (?v, CHR '','' # ?ms @ CHR ''}'' # [])"
    by (rule value_num) (simp_all add: member_text_def)
  have "parse_members (Suc ?k) ?m = Some ((''schema'', ?v) # map str_value flds, [])"
    unfolding parse_members_step [OF num] using parse_str_members [OF assms big, of "[]"] by (simp del: parse_members.simps)
  then have "parse_value (Suc (Suc ?k)) (CHR ''{'' # ?m) = Some (JObj ((''schema'', ?v) # map str_value flds), [])"
    unfolding m by (rule value_of_members)
  then show ?thesis unfolding parse_json_def env by (simp del: parse_value.simps)
qed

text \<open>So the assumption made of the parser holds of the reference parser for every envelope.\<close>

definition ref_crypto :: "('sk, 'pk, 'v) crypto \<Rightarrow> ('sk, 'pk, json) crypto" where
  "ref_crypto cr = \<lparr>cr_sign = cr_sign cr, cr_verifying_key = cr_verifying_key cr, cr_key_bytes = cr_key_bytes cr,
     cr_key_from_bytes = cr_key_from_bytes cr, cr_verify_strict = cr_verify_strict cr, cr_seed = cr_seed cr,
     cr_seed_bytes = cr_seed_bytes cr, cr_sha256 = cr_sha256 cr, js_parse = ref_parse, js_get_str = ref_get_str\<rparr>"

lemma map_of_str_value: "map_of (map str_value flds) n = map_option JStr (map_of flds n)"
  by (induction flds) (simp_all add: str_value_def)

lemma ref_json_law:
  assumes "\<forall>flds \<in> set envs. flds \<noteq> [] \<and> list_all (\<lambda>nv. verbatim (fst nv)) flds"
  shows "json_law (ref_crypto cr) envs"
proof -
  have "ref_get_str (JObj ((''schema'', JNum SIGNED_RECORD_SCHEMA_VERSION) # map str_value flds)) n = map_of flds n"
    if "n \<in> set field_names" for flds n
    using that by (auto simp: ref_get_str_def field_names_def map_of_str_value split: option.splits)
  then show ?thesis using assms
    by (auto simp: json_law_def list_all_iff ref_crypto_def ref_parse_def parse_envelope [unfolded list_all_iff])
qed

lemma ref_chain_law: "json_law (ref_crypto cr) (chain_fields (ref_crypto cr) sk prev recs)"
proof (rule ref_json_law)
  show "\<forall>flds \<in> set (chain_fields (ref_crypto cr) sk prev recs). flds \<noteq> [] \<and> list_all (\<lambda>nv. verbatim (fst nv)) flds"
    by (induction recs arbitrary: prev) (auto simp: envelope_fields_def split: option.splits)
qed

section \<open>A record from the fold to the reader\<close>

text \<open>(C30) Records that were rendered and signed in a chain verify, in order, to texts whose values are the
  records: nothing between the observer and the reader of a verified chain changes what was seen.\<close>

theorem signed_records_read_back:
  assumes "sign_law (ref_crypto cr) sk (chain_messages (ref_crypto cr) None (map to_json rs))"
    and "list_all (\<lambda>e. length e \<le> MAX_ENVELOPE_BYTES) (sign_chain (ref_crypto cr) sk None (map to_json rs))"
    and "find (\<lambda>k. key_id (ref_crypto cr) k = key_id (ref_crypto cr) (cr_verifying_key (ref_crypto cr) sk)) trusted
           = Some (cr_verifying_key (ref_crypto cr) sk)"
  shows "\<exists>texts. verify_chain (ref_crypto cr) trusted (sign_chain (ref_crypto cr) sk None (map to_json rs)) = Inr texts
    \<and> map parse_json texts = map (\<lambda>r. Some (record_json r)) rs"
proof -
  have "verify_chain (ref_crypto cr) trusted (sign_chain (ref_crypto cr) sk None (map to_json rs)) = Inr (map to_json rs)"
    unfolding verify_chain_def by (rule chain_loop_signed [OF ref_chain_law assms(1) _ assms(3,2)]) simp
  moreover have "map parse_json (map to_json rs) = map (\<lambda>r. Some (record_json r)) rs"
    by (simp only: map_map comp_def to_json_render parse_render)
  ultimately show ?thesis by blast
qed

definition quiet_record :: RunRecord where
  "quiet_record = \<lparr>rr_network = None,
     rr_resources = \<lparr>rs_cpu_time_ns = 5, rs_cgroup = \<lparr>cpu_usage_usec = None, memory_current = None, memory_peak = None,
       io_rbytes = None, io_wbytes = None\<rparr>\<rparr>,
     rr_host_syscalls = \<lparr>fp_total = 1, fp_by_kind = \<lparr>sc_execve = 1, sc_openat = 0, sc_connect = 0, sc_unknown = 0\<rparr>,
       fp_notable = [], fp_notable_truncated = False, fp_overflow_events = 0\<rparr>,
     rr_timing = \<lparr>tm_boot_ns = 7, tm_exec_wall_ns = 9\<rparr>, rr_coverage = []\<rparr>"

definition plain_crypto :: "(unit, unit, json) crypto" where
  "plain_crypto = \<lparr>cr_sign = (\<lambda>_ _. replicate 64 0), cr_verifying_key = (\<lambda>_. ()), cr_key_bytes = (\<lambda>_. [1]),
     cr_key_from_bytes = (\<lambda>_. Inr ()), cr_verify_strict = (\<lambda>_ _ _. True), cr_seed = (\<lambda>_. ()),
     cr_seed_bytes = (\<lambda>_. []), cr_sha256 = (\<lambda>_. []), js_parse = ref_parse, js_get_str = ref_get_str\<rparr>"

lemma length_escapes: "length (concat (map json_escape_char s)) \<le> 6 * length s"
proof -
  have "length (hex_pad k n) = k" for k n by (induction k arbitrary: n) simp_all
  then have "length (json_escape_char c) \<le> 6" for c by (simp add: json_escape_char_def Let_def)
  then show ?thesis by (induction s) (simp_all add: add_mono)
qed

theorem signed_records_read_back_witness:
  "\<exists>texts. verify_chain (ref_crypto plain_crypto) [()] (sign_chain (ref_crypto plain_crypto) () None (map to_json [quiet_record])) = Inr texts
    \<and> map parse_json texts = [Some (record_json quiet_record)]"
proof -
  let ?cr = "ref_crypto plain_crypto"
  have "length (to_json quiet_record) < 500"
    by (simp add: to_json_def quiet_record_def field_def field_opt_u64_def resources_to_json_def cgroup_to_json_def
        syscalls_to_json_def push_each_def bool_word_def clamped_ns_def u64_max_def dq_def dec.simps AUDIT_SCHEMA_VERSION_def Let_def)
  then have "length (concat (map json_escape_char (to_json quiet_record))) < 3000"
    using length_escapes [of "to_json quiet_record"] by simp
  then have size: "list_all (\<lambda>e. length e \<le> MAX_ENVELOPE_BYTES) (sign_chain ?cr () None (map to_json [quiet_record]))"
    by (simp add: sign_canonical_chained_def push_json_string_def MAX_ENVELOPE_BYTES_def dq_def Let_def key_id_def ref_crypto_def
        plain_crypto_def dec.simps SIGNED_RECORD_SCHEMA_VERSION_def)
  have sign: "sign_law ?cr () (chain_messages ?cr None (map to_json [quiet_record]))"
    by (simp add: sign_law_def ref_crypto_def plain_crypto_def)
  have key: "find (\<lambda>k. key_id ?cr k = key_id ?cr (cr_verifying_key ?cr ())) [()] = Some (cr_verifying_key ?cr ())" by simp
  show ?thesis using signed_records_read_back [OF sign size key] by simp
qed

end
