(* ===== verification/Jail.thy ===== *)
theory Jail
  imports Sweep Policy
begin

text \<open>
  The decisions of \<open>crates/vmm/src/jail.rs\<close> and the helpers of \<open>crates/vmm/src/paths.rs\<close> that do not
  touch a resource: which cgroup limits a jailed VMM gets, whether a bind mount reaches the jailer,
  where the VMM binary and its cgroup are, and which command line starts it. The steps that create
  and remove resources are in theory \<open>Boot\<close>. The lemmas say that the limits are the guest's envelope
  plus a fixed overhead, never below the memory a restored guest needs, that a boot with
  \<open>require_limits\<close> is capped or refused, and that the mount that governs a path is the last one among
  the deepest that cover it.
\<close>

section \<open>What the host shows\<close>

text \<open>Files that cannot be read are \<open>None\<close>.\<close>

record host_view =
  hv_path_var :: "string option" \<comment> \<open>PATH\<close>
  hv_cwd :: "io_kind + string"
  hv_is_file :: "string \<Rightarrow> bool"
  hv_subtree_control :: "string option" \<comment> \<open>/sys/fs/cgroup/cgroup.subtree_control\<close>
  hv_mountinfo :: "string option" \<comment> \<open>/proc/self/mountinfo\<close>

section \<open>Paths\<close>

definition path_str :: "string \<Rightarrow> VmmError + string" where
  "path_str p =
     ok_or (from_utf8 (as_bytes p)) (Vmm (''path is not valid UTF-8: '' @ from_utf8_lossy (as_bytes p)))"

definition absolute :: "fmt \<Rightarrow> host_view \<Rightarrow> string \<Rightarrow> VmmError + string" where
  "absolute f hv p =
     (if is_absolute p then Inr p
      else case hv_cwd hv of
             Inl e \<Rightarrow> Inl (Vmm (''resolve '' @ p @ '': '' @ io_display f e))
           | Inr cwd \<Rightarrow> Inr (path_push cwd p))"

definition require_file :: "host_view \<Rightarrow> string \<Rightarrow> string \<Rightarrow> string option \<Rightarrow> VmmError + unit" where
  "require_file hv path what hint =
     (if hv_is_file hv path then Inr ()
      else Inl (ArtifactMissing (what @ '' not found at '' @ path
             @ (case hint of Some h \<Rightarrow> '' ('' @ h @ '')'' | None \<Rightarrow> []))))"

section \<open>The jail\<close>

definition DEFAULT_JAIL_UID :: u32 where "DEFAULT_JAIL_UID = 10000"
definition DEFAULT_JAIL_GID :: u32 where "DEFAULT_JAIL_GID = 10000"
definition JAILED_API_SOCKET :: string where "JAILED_API_SOCKET = ''/run/firecracker.socket''"
definition JAILED_VSOCK_UDS :: string where "JAILED_VSOCK_UDS = ''/run/v.sock''"
definition CPU_PERIOD_US :: u64 where "CPU_PERIOD_US = 100000"
definition MEMORY_OVERHEAD_MIB :: u32 where "MEMORY_OVERHEAD_MIB = 128"
definition VMM_PIDS_MAX :: u64 where "VMM_PIDS_MAX = 1024"

record Jail =
  jl_jailer :: string
  jl_uid :: u32
  jl_gid :: u32

definition Jail_default :: Jail where
  "Jail_default = \<lparr>jl_jailer = ''jailer'', jl_uid = DEFAULT_JAIL_UID, jl_gid = DEFAULT_JAIL_GID\<rparr>"

record Chroot =
  ch_root :: string
  ch_uid :: u32
  ch_gid :: u32
  ch_cgroup_dir :: "string option"
  ch_mounts :: "string list"

definition Chroot_new :: "string \<Rightarrow> Jail \<Rightarrow> Chroot" where
  "Chroot_new root jail =
     \<lparr>ch_root = root, ch_uid = jl_uid jail, ch_gid = jl_gid jail, ch_cgroup_dir = None, ch_mounts = []\<rparr>"

section \<open>Limits\<close>

record Delegated =
  dg_cpu :: bool
  dg_memory :: bool
  dg_pids :: bool

definition read_delegated :: "host_view \<Rightarrow> Delegated" where
  "read_delegated hv =
     (let toks = split_whitespace (case hv_subtree_control hv of Some s \<Rightarrow> s | None \<Rightarrow> []) in
      \<lparr>dg_cpu = ''cpu'' \<in> set toks, dg_memory = ''memory'' \<in> set toks, dg_pids = ''pids'' \<in> set toks\<rparr>)"

definition cpu_quota :: "nat \<Rightarrow> u64" where
  "cpu_quota cpus = of_nat cpus * CPU_PERIOD_US"

definition memory_max :: "nat \<Rightarrow> u64" where
  "memory_max mib = (of_nat mib + ucast MEMORY_OVERHEAD_MIB) * 1024 * 1024"

definition cgroup_args_for :: "Delegated \<Rightarrow> nat \<Rightarrow> nat \<Rightarrow> string list" where
  "cgroup_args_for d cpus mib =
     (if \<not> (dg_cpu d \<and> dg_memory d) then []
      else
        [''memory.max='' @ dec (unat (memory_max mib)),
         ''cpu.max='' @ dec (unat (cpu_quota cpus)) @ '' '' @ dec (unat CPU_PERIOD_US)]
        @ (if dg_pids d then [''pids.max='' @ dec (unat VMM_PIDS_MAX)] else []))"

definition resolve_cgroup_caps :: "bool \<Rightarrow> Delegated \<Rightarrow> nat \<Rightarrow> nat \<Rightarrow> VmmError + string list" where
  "resolve_cgroup_caps require_limits d cpus mib =
     (if require_limits \<and> \<not> (dg_cpu d \<and> dg_memory d)
      then Inl (LimitsUnavailable
             (''cgroup v2 cpu/memory controllers are not delegated to the cgroup root, so the jailed ''
              @ ''microVM cannot be capped; require_limits refuses an uncapped run (a systemd host ''
              @ ''delegates them by default)''))
      else Inr (cgroup_args_for d cpus mib))"

definition cgroup_limit_args :: "host_view \<Rightarrow> bool \<Rightarrow> nat \<Rightarrow> nat \<Rightarrow> VmmError + string list" where
  "cgroup_limit_args hv require_limits cpus mib =
     resolve_cgroup_caps require_limits (read_delegated hv) cpus mib"

text \<open>\<open>u32::try_from(mem_file_len / MiB).unwrap_or(u32::MAX)\<close>, then the larger of the two; the result
  is positive because the configured value is.\<close>

definition restore_mem_mib :: "nat \<Rightarrow> u64 \<Rightarrow> nat" where
  "restore_mem_mib config_mib mem_file_len =
     (let from_file = min (unat (mem_file_len div (1024 * 1024))) (2 ^ 32 - 1);
          m = max from_file config_mib
      in if m = 0 then config_mib else m)"

section \<open>Mounts\<close>

definition shared_step :: "string \<Rightarrow> (nat \<times> bool) option \<Rightarrow> string \<Rightarrow> (nat \<times> bool) option" where
  "shared_step target best line =
     (let fields = split_on (\<lambda>c. c = CHR '' '') line in
      if length fields < 7 then best
      else if \<not> path_starts_with target (fields ! 4) then best
      else
        (let shared = list_ex (\<lambda>t. take 7 t = ''shared:'') (takeWhile (\<lambda>t. t \<noteq> ''-'') (drop 6 fields));
             depth = length (components (fields ! 4))
         in case best of
              None \<Rightarrow> Some (depth, shared)
            | Some (d, _) \<Rightarrow> if depth \<ge> d then Some (depth, shared) else best))"

definition mount_is_shared :: "string \<Rightarrow> string \<Rightarrow> bool" where
  "mount_is_shared mountinfo target =
     (case foldl (shared_step target) None (str_lines mountinfo) of
        None \<Rightarrow> False
      | Some (_, shared) \<Rightarrow> shared)"

definition scratch_is_shared_mount :: "fmt \<Rightarrow> host_view \<Rightarrow> string \<Rightarrow> bool" where
  "scratch_is_shared_mount f hv path =
     (case absolute f hv path of
        Inl _ \<Rightarrow> False
      | Inr target \<Rightarrow>
          (case hv_mountinfo hv of None \<Rightarrow> False | Some info \<Rightarrow> mount_is_shared info target))"

section \<open>The VMM binary and its cgroup\<close>

definition split_paths :: "string \<Rightarrow> string list" where
  "split_paths s = split_on (\<lambda>c. c = CHR '':'') s"

definition resolve_exec :: "fmt \<Rightarrow> host_view \<Rightarrow> string \<Rightarrow> VmmError + string" where
  "resolve_exec f hv firecracker =
     (if is_absolute firecracker then Inr firecracker
      else if length (components firecracker) > 1 then absolute f hv firecracker
      else
        ok_or (Option.bind (hv_path_var hv) (\<lambda>paths.
                 find_map (\<lambda>dir. let cand = path_push dir firecracker in
                                 if hv_is_file hv cand then Some cand else None) (split_paths paths)))
              (ArtifactMissing (''firecracker not found in PATH: '' @ firecracker)))"

definition CGROUP_ROOT :: string where "CGROUP_ROOT = ''/sys/fs/cgroup''"

definition jailer_cgroup_dir :: "fmt \<Rightarrow> host_view \<Rightarrow> string \<Rightarrow> string \<Rightarrow> string option" where
  "jailer_cgroup_dir f hv firecracker ident =
     (case resolve_exec f hv firecracker of
        Inl _ \<Rightarrow> None
      | Inr exec \<Rightarrow> map_option (\<lambda>name. path_push (path_push CGROUP_ROOT name) ident) (path_file_name exec))"

text \<open>\<open>proc_cgroup\<close> is the text of \<open>/proc/<pid>/cgroup\<close>.\<close>

definition read_cgroup_dir :: "string option \<Rightarrow> string option" where
  "read_cgroup_dir proc_cgroup =
     Option.bind proc_cgroup (\<lambda>t.
     Option.bind (find_map (strip_prefix ''0::'') (str_lines t)) (\<lambda>rel0.
     let rel = trim rel0 in
     if rel = [] \<or> rel = ''/'' then None
     else Some (path_push CGROUP_ROOT (dropWhile (\<lambda>c. c = slash) rel))))"

text \<open>The jailer's command line: the program and its arguments.\<close>

definition jailer_argv ::
    "Jail \<Rightarrow> string \<Rightarrow> string \<Rightarrow> string \<Rightarrow> string list \<Rightarrow> string option \<Rightarrow> string list" where
  "jailer_argv jail exec workdir ident cgroup_args netns =
     [jl_jailer jail, ''--id'', ident, ''--exec-file'', exec, ''--uid'', dec (unat (jl_uid jail)),
      ''--gid'', dec (unat (jl_gid jail)), ''--chroot-base-dir'', workdir, ''--cgroup-version'', ''2'']
     @ concat (map (\<lambda>a. [''--cgroup'', a]) cgroup_args)
     @ (case netns of Some ns \<Rightarrow> [''--netns'', ns] | None \<Rightarrow> [])
     @ [''--'', ''--api-sock'', JAILED_API_SOCKET]"

section \<open>The limits are the guest's envelope\<close>

lemma unat_memory_max: "mib < 2 ^ 32 \<Longrightarrow> unat (memory_max mib) = (mib + 128) * 2 ^ 20"
proof -
  assume "mib < 2 ^ 32"
  then have "(mib + 128) * 1048576 < 2 ^ 64" by simp
  moreover have "memory_max mib = word_of_nat ((mib + 128) * 1048576)"
    by (simp add: memory_max_def MEMORY_OVERHEAD_MIB_def)
  ultimately show ?thesis by (simp only: unat_of_nat) simp
qed

lemma unat_cpu_quota: "cpus < 2 ^ 8 \<Longrightarrow> unat (cpu_quota cpus) = cpus * 100000"
proof -
  assume "cpus < 2 ^ 8"
  then have "cpus * 100000 < 2 ^ 64" by simp
  moreover have "cpu_quota cpus = word_of_nat (cpus * 100000)"
    by (simp add: cpu_quota_def CPU_PERIOD_US_def)
  ultimately show ?thesis by (simp only: unat_of_nat) simp
qed

lemma restore_mem_mib_bounds:
  assumes "nz32 mib"
  shows "nz32 (restore_mem_mib mib len)" "mib \<le> restore_mem_mib mib len"
  using assms by (auto simp: restore_mem_mib_def nz32_def Let_def)

lemma restore_mem_mib_file:
  assumes "unat len < 2 ^ 52"
  shows "unat len div 2 ^ 20 \<le> restore_mem_mib mib len"
proof -
  have "unat (len div (1024 * 1024)) = unat len div 2 ^ 20"
    by (simp add: unat_div_distrib)
  moreover have "unat len div 2 ^ 20 < 2 ^ 32"
    using assms by (simp add: less_mult_imp_div_less)
  ultimately show ?thesis by (simp add: restore_mem_mib_def Let_def)
qed

text \<open>A restored guest is never capped below the memory its snapshot holds, whatever the caller's
  configuration says.\<close>

lemma restore_cap_covers_snapshot:
  assumes "nz32 mib" "unat len < 2 ^ 52"
  shows "unat len < unat (memory_max (restore_mem_mib mib len))"
proof -
  let ?m = "restore_mem_mib mib len"
  have "unat (memory_max ?m) = (?m + 128) * 2 ^ 20"
    using restore_mem_mib_bounds(1) [OF assms(1)] by (simp add: unat_memory_max nz32_def)
  moreover have "unat len < (unat len div 2 ^ 20 + 1) * 2 ^ 20"
    using div_mult_mod_eq [of "unat len" "2 ^ 20"] mod_less_divisor [of "2 ^ 20" "unat len"] by (simp add: algebra_simps)
  moreover have "(unat len div 2 ^ 20 + 1) * 2 ^ 20 \<le> (?m + 128) * 2 ^ 20"
    using restore_mem_mib_file [OF assms(2), of mib] by (intro mult_le_mono1) simp
  ultimately show ?thesis by linarith
qed

lemma cgroup_caps_exact:
  assumes "cgroup_limit_args hv required cpus mib = Inr args" "nz8 cpus" "nz32 mib"
  shows "args = [] \<and> \<not> required
     \<or> set args \<subseteq> {''memory.max='' @ dec ((mib + 128) * 2 ^ 20),
                    ''cpu.max='' @ dec (cpus * 100000) @ '' '' @ dec 100000, ''pids.max='' @ dec 1024}
       \<and> {''memory.max='' @ dec ((mib + 128) * 2 ^ 20),
          ''cpu.max='' @ dec (cpus * 100000) @ '' '' @ dec 100000} \<subseteq> set args"
  using assms
  by (auto simp: cgroup_limit_args_def resolve_cgroup_caps_def cgroup_args_for_def nz8_def nz32_def
      unat_memory_max unat_cpu_quota CPU_PERIOD_US_def VMM_PIDS_MAX_def split: if_splits)

lemma cgroup_caps_refused:
  "cgroup_limit_args hv required cpus mib = Inl e \<longleftrightarrow>
     required \<and> \<not> (dg_cpu (read_delegated hv) \<and> dg_memory (read_delegated hv))
     \<and> e = LimitsUnavailable
             (''cgroup v2 cpu/memory controllers are not delegated to the cgroup root, so the jailed ''
              @ ''microVM cannot be capped; require_limits refuses an uncapped run (a systemd host ''
              @ ''delegates them by default)'')"
  by (auto simp: cgroup_limit_args_def resolve_cgroup_caps_def)

section \<open>The mount that governs a path\<close>

definition covering :: "string \<Rightarrow> string \<Rightarrow> (nat \<times> bool) option" where
  "covering target line =
     (let fields = split_on (\<lambda>c. c = CHR '' '') line in
      if length fields < 7 \<or> \<not> path_starts_with target (fields ! 4) then None
      else Some (length (components (fields ! 4)),
                 list_ex (\<lambda>t. take 7 t = ''shared:'') (takeWhile (\<lambda>t. t \<noteq> ''-'') (drop 6 fields))))"

definition later_deeper :: "(nat \<times> 'a) option \<Rightarrow> nat \<times> 'a \<Rightarrow> (nat \<times> 'a) option" where
  "later_deeper best x = (case best of None \<Rightarrow> Some x | Some (d, _) \<Rightarrow> if d \<le> fst x then Some x else best)"

lemma shared_step_covering:
  "shared_step target best line = (case covering target line of None \<Rightarrow> best | Some x \<Rightarrow> later_deeper best x)"
  by (simp add: shared_step_def covering_def later_deeper_def Let_def split: option.splits)

lemma foldl_shared_step:
  "foldl (shared_step target) best lines = foldl later_deeper best (List.map_filter (covering target) lines)"
  by (induction lines arbitrary: best) (auto simp: shared_step_covering map_filter_def split: option.splits)

text \<open>The last of the deepest: nothing before it is deeper, everything behind it is less deep.\<close>

definition governs :: "nat \<times> 'a \<Rightarrow> (nat \<times> 'a) list \<Rightarrow> bool" where
  "governs z xs \<longleftrightarrow>
     (\<exists>as bs. xs = as @ z # bs \<and> (\<forall>a \<in> set as. fst a \<le> fst z) \<and> (\<forall>b \<in> set bs. fst b < fst z))"

lemma governs_Nil [simp]: "\<not> governs z []"
  by (simp add: governs_def)

lemma governs_Cons:
  "governs z (x # xs) \<longleftrightarrow> z = x \<and> (\<forall>b \<in> set xs. fst b < fst z) \<or> fst x \<le> fst z \<and> governs z xs"
proof
  assume "governs z (x # xs)"
  then obtain as bs where *: "x # xs = as @ z # bs" "\<forall>a \<in> set as. fst a \<le> fst z" "\<forall>b \<in> set bs. fst b < fst z"
    by (auto simp: governs_def)
  then show "z = x \<and> (\<forall>b \<in> set xs. fst b < fst z) \<or> fst x \<le> fst z \<and> governs z xs"
    by (cases as) (auto simp: governs_def)
next
  assume "z = x \<and> (\<forall>b \<in> set xs. fst b < fst z) \<or> fst x \<le> fst z \<and> governs z xs"
  then show "governs z (x # xs)"
  proof
    assume "z = x \<and> (\<forall>b \<in> set xs. fst b < fst z)"
    then show ?thesis unfolding governs_def by - (rule exI [of _ "[]"], rule exI [of _ xs], auto)
  next
    assume "fst x \<le> fst z \<and> governs z xs"
    then obtain as bs where "xs = as @ z # bs" "\<forall>a \<in> set (x # as). fst a \<le> fst z" "\<forall>b \<in> set bs. fst b < fst z"
      by (auto simp: governs_def)
    then show ?thesis unfolding governs_def by - (rule exI [of _ "x # as"], rule exI [of _ bs], auto)
  qed
qed

lemma foldl_later_deeper: "foldl later_deeper (Some x) ys = Some z \<longleftrightarrow> governs z (x # ys)"
proof (induction ys arbitrary: x)
  case Nil
  show ?case by (auto simp: governs_Cons)
next
  case (Cons y ys)
  have "later_deeper (Some x) y = Some (if fst x \<le> fst y then y else x)"
    by (cases x) (simp add: later_deeper_def)
  then show ?case using Cons.IH by (auto simp: governs_Cons)
qed

theorem mount_is_shared_governing:
  "mount_is_shared info target \<longleftrightarrow>
     (\<exists>d. governs (d, True) (List.map_filter (covering target) (str_lines info)))"
proof -
  let ?c = "List.map_filter (covering target) (str_lines info)"
  have "mount_is_shared info target \<longleftrightarrow> (\<exists>d. foldl later_deeper None ?c = Some (d, True))"
    by (auto simp: mount_is_shared_def foldl_shared_step split: option.splits)
  also have "\<dots> \<longleftrightarrow> (\<exists>d. governs (d, True) ?c)"
  proof (cases ?c)
    case (Cons x xs)
    then have "foldl later_deeper None ?c = foldl later_deeper (Some x) xs" by (simp add: later_deeper_def)
    then show ?thesis using foldl_later_deeper [of x xs] Cons by auto
  qed simp
  finally show ?thesis .
qed

end
