(* ===== verification/VmConfig.thy ===== *)
theory VmConfig
  imports Jail
begin

text \<open>
  \<open>BootConfig\<close> of \<open>crates/vmm/src/vm.rs\<close>: its defaults, the overrides taken from the environment, the
  folding of limits, and the two refusals that come before any resource is made; and the readiness
  report of \<open>crates/vmm/src/doctor.rs\<close>. The lemmas say which overrides change what, that a boot with
  \<open>require_limits\<close> never runs unjailed, and that a host the report calls ready passes every check that
  \<open>Vm::boot\<close> and \<open>Spawned::launch\<close> make of the host before they start a VMM.
\<close>

section \<open>The configuration\<close>

record boot_config =
  cf_firecracker :: string
  cf_kernel :: string
  cf_rootfs :: string
  cf_vcpus :: nat
  cf_mem_mib :: nat
  cf_boot_args :: string
  cf_userspace_marker :: string
  cf_boot_timeout :: nat
  cf_exec_wall :: nat
  cf_output_cap :: usize
  cf_guest_cid :: "u32 option"
  cf_read_only_root :: bool
  cf_input_dir :: "string option"
  cf_output_dir :: "string option"
  cf_enable_network :: bool
  cf_jail :: "Jail option"
  cf_require_limits :: bool
  cf_scratch_dir :: string

definition DEFAULT_BOOT_ARGS :: string where
  "DEFAULT_BOOT_ARGS = ''console=ttyS0 reboot=k panic=1 pci=off random.trust_cpu=on''"

definition GUEST_READY_MARKER :: string where "GUEST_READY_MARKER = ''KEE-GUEST-READY''"

definition boot_config_default :: boot_config where
  "boot_config_default =
     (let limits = Limits_default in
      \<lparr>cf_firecracker = ''firecracker'', cf_kernel = ''artifacts/vmlinux'',
       cf_rootfs = ''artifacts/rootfs-kee.ext4'', cf_vcpus = vcpus limits, cf_mem_mib = mem_mib limits,
       cf_boot_args = DEFAULT_BOOT_ARGS, cf_userspace_marker = GUEST_READY_MARKER,
       cf_boot_timeout = wall_secs limits * second_ns, cf_exec_wall = wall_secs limits * second_ns,
       cf_output_cap = output_cap limits, cf_guest_cid = None, cf_read_only_root = False,
       cf_input_dir = None, cf_output_dir = None, cf_enable_network = False, cf_jail = None,
       cf_require_limits = False, cf_scratch_dir = ''/tmp''\<rparr>)"

definition to_ascii_lowercase :: "string \<Rightarrow> string" where
  "to_ascii_lowercase =
     map (\<lambda>c. let n = of_char c :: nat in if 65 \<le> n \<and> n \<le> 90 then char_of (n + 32) else c)"

definition parse_env_bool :: "string \<Rightarrow> bool option" where
  "parse_env_bool v =
     Option.bind (from_utf8 (as_bytes v)) (\<lambda>s.
     let t = to_ascii_lowercase (trim s) in
     if t \<in> set [''1'', ''true'', ''yes'', ''on''] then Some True
     else if t \<in> set [''0'', ''false'', ''no'', ''off''] then Some False
     else None)"

definition override :: "'v option \<Rightarrow> ('v \<Rightarrow> 'c \<Rightarrow> 'c) \<Rightarrow> 'c \<Rightarrow> 'c" where
  "override v upd c = (case v of Some x \<Rightarrow> upd x c | None \<Rightarrow> c)"

definition from_env_with :: "(string \<Rightarrow> string option) \<Rightarrow> boot_config" where
  "from_env_with lookup =
     (let c0 = boot_config_default;
          c1 = override (lookup ''EKE_FIRECRACKER'') (\<lambda>v c. c\<lparr>cf_firecracker := v\<rparr>) c0;
          c2 = override (lookup ''EKE_KERNEL'') (\<lambda>v c. c\<lparr>cf_kernel := v\<rparr>) c1;
          c3 = override (lookup ''EKE_ROOTFS'') (\<lambda>v c. c\<lparr>cf_rootfs := v\<rparr>) c2;
          c4 = override (Option.bind (lookup ''EKE_MARKER'') (\<lambda>v. from_utf8 (as_bytes v)))
                 (\<lambda>v c. c\<lparr>cf_userspace_marker := v\<rparr>) c3;
          c5 = override (lookup ''EKE_SCRATCH_DIR'') (\<lambda>v c. c\<lparr>cf_scratch_dir := v\<rparr>) c4
      in override (Option.bind (lookup ''EKE_REQUIRE_LIMITS'') parse_env_bool)
           (\<lambda>v c. c\<lparr>cf_require_limits := v\<rparr>) c5)"

definition with_limits :: "Limits \<Rightarrow> boot_config \<Rightarrow> boot_config" where
  "with_limits l c =
     c\<lparr>cf_vcpus := vcpus l, cf_mem_mib := mem_mib l, cf_boot_timeout := wall_secs l * second_ns,
       cf_exec_wall := wall_secs l * second_ns, cf_output_cap := output_cap l\<rparr>"

definition refuse_uncappable_boot :: "boot_config \<Rightarrow> VmmError + unit" where
  "refuse_uncappable_boot c =
     (if cf_require_limits c \<and> cf_jail c = None
      then Inl (LimitsUnavailable
             (''require_limits is set but this boot is unjailed; the cgroup cpu/memory caps live on the ''
              @ ''jailed VMM, so an unjailed run cannot be capped (jail the run, or unset require_limits)''))
      else Inr ())"

definition nodev_verdict :: "bool \<Rightarrow> bool option \<Rightarrow> string \<Rightarrow> VmmError + unit" where
  "nodev_verdict jailed nodev scratch =
     (if jailed \<and> nodev = Some True then Inl (ScratchDirNodev scratch) else Inr ())"

section \<open>The host's readiness\<close>

text \<open>What the report reads beyond \<open>host_view\<close>: whether a path exists and its canonical form, the
  kernel release, \<open>/proc/self/status\<close>, and what \<open>--version\<close> prints.\<close>

record doctor_view = host_view +
  dv_exists :: "string \<Rightarrow> bool"
  dv_canonicalize :: "string \<Rightarrow> string option"
  dv_kvm_opens :: bool
  dv_osrelease :: "string option"
  dv_status :: "string option"
  dv_version :: "string \<Rightarrow> string option"
  dv_arch :: string

definition MIN_KERNEL :: "u64 \<times> u64" where "MIN_KERNEL = (5, 15)"
definition SUPPORTED_ARCHES :: "string list" where "SUPPORTED_ARCHES = [''x86_64'']"

datatype CheckStatus = CheckOk | CheckWarn | CheckFail

record Check =
  ck_label :: string
  ck_status :: CheckStatus
  ck_note :: "string option"

definition Check_new :: "string \<Rightarrow> bool \<Rightarrow> bool \<Rightarrow> string \<Rightarrow> Check" where
  "Check_new label ok warn_not_fail note =
     (let status = (if ok then CheckOk else if warn_not_fail then CheckWarn else CheckFail) in
      \<lparr>ck_label = label, ck_status = status, ck_note = (if status \<noteq> CheckOk then Some note else None)\<rparr>)"

definition command_on_path :: "'a host_view_scheme \<Rightarrow> string \<Rightarrow> bool" where
  "command_on_path hv bin =
     (if length (components bin) > 1 then hv_is_file hv bin
      else case hv_path_var hv of
             None \<Rightarrow> False
           | Some path \<Rightarrow> list_ex (\<lambda>dir. hv_is_file hv (path_push dir bin)) (split_paths path))"

definition geteuid :: "string option \<Rightarrow> u32 option" where
  "geteuid status =
     Option.bind status (\<lambda>s.
     Option.bind (find (\<lambda>l. take 4 l = ''Uid:'') (str_lines s)) (\<lambda>line.
     Option.bind (slice_at (split_whitespace line) 2) parse_u32))"

text \<open>The first two runs of digits of a text, as \<open>u64\<close>.\<close>

definition two_numbers :: "string \<Rightarrow> (u64 \<times> u64) option" where
  "two_numbers s =
     (let parts = filter (\<lambda>t. t \<noteq> []) (split_on (\<lambda>c. digit_of 10 c = None) s) in
      Option.bind (slice_at parts 0) (\<lambda>p. Option.bind (parse_u64 p) (\<lambda>a.
      Option.bind (slice_at parts 1) (\<lambda>q. Option.bind (parse_u64 q) (\<lambda>b. Some (a, b))))))"

text \<open>What follows the first occurrence of a text, up to the next one.\<close>

fun after_first :: "string \<Rightarrow> string \<Rightarrow> string option" where
  "after_first pat [] = (if pat = [] then Some [] else None)"
| "after_first pat (c # cs) =
     (if take (length pat) (c # cs) = pat then Some (drop (length pat) (c # cs)) else after_first pat cs)"

fun before_first :: "string \<Rightarrow> string \<Rightarrow> string" where
  "before_first pat [] = []"
| "before_first pat (c # cs) =
     (if take (length pat) (c # cs) = pat then [] else c # before_first pat cs)"

definition fc_version_of :: "string \<Rightarrow> (u64 \<times> u64) option" where
  "fc_version_of t =
     Option.bind (after_first ''Firecracker v'' t) (\<lambda>rest.
     two_numbers (before_first ''Firecracker v'' rest))"

definition firecracker_version :: "doctor_view \<Rightarrow> string \<Rightarrow> (u64 \<times> u64) option" where
  "firecracker_version dv fc = Option.bind (dv_version dv fc) fc_version_of"

definition kernel_at_least :: "doctor_view \<Rightarrow> u64 \<Rightarrow> u64 \<Rightarrow> bool" where
  "kernel_at_least dv major minor =
     (case Option.bind (dv_osrelease dv) two_numbers of
        None \<Rightarrow> False
      | Some (a, b) \<Rightarrow> major < a \<or> major = a \<and> minor \<le> b)"

definition cgroup_controllers_delegated :: "'a host_view_scheme \<Rightarrow> bool" where
  "cgroup_controllers_delegated hv =
     (case hv_subtree_control hv of
        None \<Rightarrow> False
      | Some s \<Rightarrow> (let toks = split_whitespace s in ''cpu'' \<in> set toks \<and> ''memory'' \<in> set toks))"

text \<open>An escape is a backslash with three octal digits; what does not parse stays as it is.\<close>

function unescape_octal :: "string \<Rightarrow> string" where
  "unescape_octal s =
     (if s = [] then []
      else if hd s = CHR 0x5C \<and> 3 < length s
      then (case from_str_radix 8 255 (take 3 (tl s)) of
              Some b \<Rightarrow> char_of b # unescape_octal (drop 4 s)
            | None \<Rightarrow> hd s # unescape_octal (tl s))
      else hd s # unescape_octal (tl s))"
  by pat_completeness auto
termination
  by (relation "measure length") auto

declare unescape_octal.simps [simp del]

definition nodev_step :: "string \<Rightarrow> (nat \<times> bool) option \<Rightarrow> string \<Rightarrow> (nat \<times> bool) option" where
  "nodev_step target best line =
     (let fields = split_on (\<lambda>c. c = CHR '' '') line in
      if length fields < 6 then best
      else
        (let mp = unescape_octal (fields ! 4); options = fields ! 5 in
         if \<not> path_starts_with target mp then best
         else if (case best of None \<Rightarrow> True | Some (l, _) \<Rightarrow> length mp > l)
         then Some (length mp, ''nodev'' \<in> set (split_on (\<lambda>c. c = CHR '','') options))
         else best))"

definition mount_nodev_in :: "string \<Rightarrow> string \<Rightarrow> bool option" where
  "mount_nodev_in mountinfo target =
     map_option snd (foldl (nodev_step target) None (str_lines mountinfo))"

text \<open>A parent is a shorter string, so the walk to the root ends.\<close>

definition weight :: "string list \<Rightarrow> nat" where
  "weight ps = sum_list (map (\<lambda>s. Suc (length s)) ps)"

lemma weight_simps [simp]:
  "weight [] = 0" "weight (s # ps) = Suc (length s) + weight ps" "weight (ps @ qs) = weight ps + weight qs"
  "weight (rev ps) = weight ps"
  by (simp_all add: weight_def rev_map [symmetric])

lemma weight_split_on: "weight (split_on q xs) = Suc (length xs)"
  by (induction xs) (auto split: list.splits)

lemma length_join_slash: "ps \<noteq> [] \<Longrightarrow> Suc (length (join_slash ps)) = weight ps"
  by (induction ps rule: join_slash.induct) auto

lemma weight_dropWhile: "weight (dropWhile q ps) \<le> weight ps"
  by (induction ps) auto

lemma weight_trim_tail: "ps \<noteq> [] \<Longrightarrow> weight (trim_tail ps) \<le> weight ps"
  by (cases ps) (simp_all add: trim_tail_def order_trans [OF weight_dropWhile])

lemma weight_butlast: "ps \<noteq> [] \<Longrightarrow> weight ps = weight (butlast ps) + Suc (length (last ps))"
  by (induction ps) auto

lemma last_trim_tail: "tl (trim_tail ps) \<noteq> [] \<Longrightarrow> last (trim_tail ps) \<noteq> []"
proof -
  let ?d = "dropWhile (\<lambda>s. s = [] \<or> s = ''.'') (rev (tl ps))"
  assume "tl (trim_tail ps) \<noteq> []"
  then have "?d \<noteq> []" by (simp add: trim_tail_def)
  then show ?thesis using hd_dropWhile [of "\<lambda>s. s = [] \<or> s = ''.''" "rev (tl ps)"]
    by (auto simp: trim_tail_def last_rev)
qed

lemma path_parent_shorter:
  assumes "path_parent p = Some q"
  shows "length q < length p"
proof -
  let ?sp = "split_on (\<lambda>c. c = slash) p"
  let ?ps = "trim_tail ?sp"
  have p: "p \<noteq> []" using assms by (auto simp: path_parent_def components_def)
  have w: "weight ?ps \<le> Suc (length p)" using weight_trim_tail [of ?sp] by (simp add: weight_split_on)
  have ne: "?ps \<noteq> []" by (simp add: trim_tail_def)
  show ?thesis
  proof (cases "tl ?ps = []")
    case True
    then show ?thesis using assms p by (auto simp: path_parent_def Let_def split: if_splits)
  next
    case False
    let ?qs = "trim_tail (butlast ?ps)"
    have b: "butlast ?ps \<noteq> []" using False by (cases ?ps) auto
    have l: "0 < length (last ?ps)" using last_trim_tail [OF False] by simp
    have "weight ?ps = weight (butlast ?ps) + Suc (length (last ?ps))" by (rule weight_butlast [OF ne])
    moreover have "weight ?qs \<le> weight (butlast ?ps)" by (rule weight_trim_tail [OF b])
    ultimately have q: "weight ?qs < length p" using w l by linarith
    have "?qs \<noteq> []" by (simp add: trim_tail_def)
    then have "Suc (length (join_slash ?qs)) = weight ?qs" by (rule length_join_slash)
    moreover have "?qs = [[]] \<Longrightarrow> weight ?qs = 1" by simp
    ultimately show ?thesis using assms False q by (auto simp: path_parent_def Let_def split: if_splits)
  qed
qed

function nearest_existing :: "(string \<Rightarrow> bool) \<Rightarrow> string \<Rightarrow> string option" where
  "nearest_existing exists_at dir =
     (if exists_at dir then Some dir
      else case path_parent dir of None \<Rightarrow> None | Some p \<Rightarrow> nearest_existing exists_at p)"
  by pat_completeness auto
termination
  by (relation "measure (\<lambda>(_, dir). length dir)") (auto dest: path_parent_shorter)

declare nearest_existing.simps [simp del]

definition scratch_is_nodev :: "doctor_view \<Rightarrow> string \<Rightarrow> bool option" where
  "scratch_is_nodev dv dir =
     Option.bind (nearest_existing (dv_exists dv) dir) (\<lambda>d.
     Option.bind (dv_canonicalize dv d) (\<lambda>target.
     Option.bind (hv_mountinfo dv) (\<lambda>info. mount_nodev_in info target)))"

definition refuse_nodev_scratch :: "doctor_view \<Rightarrow> boot_config \<Rightarrow> VmmError + unit" where
  "refuse_nodev_scratch dv c =
     nodev_verdict (cf_jail c \<noteq> None) (scratch_is_nodev dv (cf_scratch_dir c)) (cf_scratch_dir c)"

definition checks :: "doctor_view \<Rightarrow> boot_config \<Rightarrow> Check list" where
  "checks dv c =
     (let fc = from_utf8_lossy (as_bytes (cf_firecracker c)) in
      [Check_new (''architecture is '' @ dv_arch dv @ '' (x86_64)'') (dv_arch dv \<in> set SUPPORTED_ARCHES) False
         ''unsupported architecture: the engine is built and tested only for x86_64 (ADR 032)'',
       Check_new (''host kernel >= '' @ dec (unat (fst MIN_KERNEL)) @ ''.'' @ dec (unat (snd MIN_KERNEL))
                  @ '' (security-maintained LTS floor)'')
         (kernel_at_least dv (fst MIN_KERNEL) (snd MIN_KERNEL)) False
         (''unsupported kernel: below the security-maintained LTS floor the engine requires for ''
          @ ''running untrusted code (ADR 032); it also provides cgroup.kill for crash-safe ''
          @ ''teardown (ADR 011)''),
       Check_new ''/dev/kvm present'' (dv_exists dv ''/dev/kvm'') False
         ''every boot fails (NoKvm): isolation is hardware, there is no software fallback'',
       Check_new ''/dev/kvm writable (kvm group or root)'' (dv_kvm_opens dv) False
         ''every boot fails (NoKvm): add your user to the `kvm` group, or run as root'',
       Check_new ''guest kernel present (EKE_KERNEL)'' (hv_is_file dv (cf_kernel c)) False
         ''no kernel to boot: `cargo xtask fetch-artifacts`, or point EKE_KERNEL at one'',
       Check_new ''guest rootfs present (EKE_ROOTFS)'' (hv_is_file dv (cf_rootfs c)) False
         ''no rootfs to boot: build one (`cargo xtask build-rootfs`) or set EKE_ROOTFS'',
       Check_new (''firecracker on PATH ('' @ fc @ '')'') (command_on_path dv fc) False
         ''no VMM to launch: install Firecracker v1.9, or set EKE_FIRECRACKER'',
       Check_new ''firecracker is the pinned v1.9 (ADR 001)'' (firecracker_version dv fc = Some (1, 9)) True
         ''boots continue with a warning; API request bodies may not match another version'',
       Check_new ''real root (euid 0: the jailer mknod's device nodes)'' (geteuid (dv_status dv) = Some 0) True
         ''jailed boot (the default) fails; `--unjailed` still runs behind the KVM boundary'',
       Check_new ''jailer on PATH'' (command_on_path dv ''jailer'') True
         ''jailed boot (the default) fails; `--unjailed` still runs behind the KVM boundary'',
       Check_new ''cgroup v2 cpu+memory delegated (jailer resource caps)'' (cgroup_controllers_delegated dv) True
         ''jailed VMs run WITHOUT cpu/memory caps (ADR 010): a fail-open DoS mitigation'',
       Check_new ''scratch dir is not nodev (the jailer's /dev/kvm lives there)''
         (scratch_is_nodev dv (cf_scratch_dir c) \<noteq> Some True) True
         (''jailed boot (the default) fails: the scratch filesystem is mounted `nodev`, so the ''
          @ ''jailer's chroot /dev/kvm cannot be opened; point EKE_SCRATCH_DIR at a non-nodev path ''
          @ ''(e.g. under $HOME), or use `--unjailed`''),
       Check_new ''ip (iproute2: the per-VM tap for --net)'' (command_on_path dv ''ip'') True
         ''a `--net` run fails to build its tap; runs without networking are unaffected'',
       Check_new ''mke2fs (e2fsprogs: bulk input device / rootfs build)'' (command_on_path dv ''mke2fs'') True
         ''bulk `input_dir` and `cargo xtask build-rootfs` fail; per-frame files are unaffected'',
       Check_new ''e2fsck + debugfs (e2fsprogs: bulk output readback)''
         (command_on_path dv ''e2fsck'' \<and> command_on_path dv ''debugfs'') True
         ''bulk `output_dir` readback fails; per-frame `--get` artifacts are unaffected''])"

definition can_boot :: "Check list \<Rightarrow> bool" where
  "can_boot cs = list_all (\<lambda>k. ck_status k \<noteq> CheckFail) cs"

definition jailed_run_available :: "doctor_view \<Rightarrow> bool" where
  "jailed_run_available dv \<longleftrightarrow> geteuid (dv_status dv) = Some 0 \<and> command_on_path dv ''jailer''"

section \<open>Overrides and refusals\<close>

lemma override_None [simp]: "override None upd c = c"
  by (simp add: override_def)

lemma from_env_with_defaults: "from_env_with (\<lambda>_. None) = boot_config_default"
  by (simp add: from_env_with_def)

text \<open>The environment never changes the limits, the jail or the devices.\<close>

lemma from_env_with_frame:
  "cf_jail (from_env_with lookup) = None" "cf_enable_network (from_env_with lookup) = False"
  "cf_vcpus (from_env_with lookup) = 1" "cf_mem_mib (from_env_with lookup) = 256"
  "cf_guest_cid (from_env_with lookup) = None"
  by (simp_all add: from_env_with_def boot_config_default_def Limits_default_def override_def Let_def
      split: option.splits)

lemma refuse_uncappable_boot_Inr:
  "refuse_uncappable_boot c = Inr u \<longleftrightarrow> (cf_require_limits c \<longrightarrow> cf_jail c \<noteq> None)"
  by (auto simp: refuse_uncappable_boot_def)

section \<open>Readiness agrees with what a boot requires\<close>

lemma check_not_fail [simp]: "ck_status (Check_new l ok w n) \<noteq> CheckFail \<longleftrightarrow> ok \<or> w"
  by (simp add: Check_new_def Let_def)

lemma can_boot_checks:
  "can_boot (checks dv c) \<longleftrightarrow>
     dv_arch dv \<in> set SUPPORTED_ARCHES \<and> kernel_at_least dv (fst MIN_KERNEL) (snd MIN_KERNEL)
     \<and> dv_exists dv ''/dev/kvm'' \<and> dv_kvm_opens dv \<and> hv_is_file dv (cf_kernel c) \<and> hv_is_file dv (cf_rootfs c)
     \<and> command_on_path dv (from_utf8_lossy (as_bytes (cf_firecracker c)))"
  by (simp add: can_boot_def checks_def Let_def)

lemma command_on_path_resolves:
  assumes "command_on_path hv bin" "hv_cwd hv = Inr cwd"
  shows "\<exists>p. resolve_exec f (host_view.truncate hv) bin = Inr p"
proof (cases "is_absolute bin \<or> length (components bin) > 1")
  case True
  then show ?thesis using assms(2) by (auto simp: resolve_exec_def absolute_def host_view.defs)
next
  case False
  then obtain path dir where "hv_path_var hv = Some path" "dir \<in> set (split_paths path)"
      "hv_is_file hv (path_push dir bin)"
    using assms(1) by (auto simp: command_on_path_def list_ex_iff split: option.splits)
  moreover have "find_map g xs = None \<Longrightarrow> x \<in> set xs \<Longrightarrow> g x = None" for g :: "string \<Rightarrow> string option" and xs x
    by (induction xs) (auto split: option.splits)
  ultimately show ?thesis using False
    by (fastforce simp: resolve_exec_def host_view.defs ok_or_def Let_def split: option.splits if_splits)
qed

text \<open>Two lines for one mount point: the later one is the mount in force. \<open>mount_is_shared\<close> reads
  that one, \<open>mount_nodev_in\<close> reads the earlier one.\<close>

definition overmounted :: string where
  "overmounted = ''30 21 0:24 / /s rw - tmpfs a rw'' @ nl @ ''31 21 0:25 / /s rw,nodev shared:2 - tmpfs b rw'' @ nl"

lemma overmount_read_differently:
  "mount_is_shared overmounted ''/s'' \<and> mount_nodev_in overmounted ''/s'' = Some False"
  by code_simp

end
