(* ===== verification/Firecracker.thy ===== *)
theory Firecracker
  imports VmConfig JsonText
begin

text \<open>
  The HTTP client for the VMM's API socket, \<open>crates/vmm/src/firecracker.rs\<close>: the text of a request,
  the reading of one response, the classification of its status, and the bodies of the calls. The
  peer is a byte stream with an end (theory \<open>Prelude\<close>); serde's serialiser and the reading of a fault
  body are parameters. The lemmas say that whatever the peer sends, one call reads a bounded prefix
  and keeps a bounded body, that a well-formed response is read exactly and nothing behind it, and
  that a call succeeds exactly on a 2xx status.
\<close>

section \<open>Bounds\<close>

definition API_TIMEOUT :: nat where "API_TIMEOUT = 5 * second_ns"
definition SNAPSHOT_FLOOR_MIB_PER_S :: nat where "SNAPSHOT_FLOOR_MIB_PER_S = 32"
definition MAX_BODY :: usize where "MAX_BODY = 2 ^ 20"
definition MAX_RESPONSE :: nat where "MAX_RESPONSE = MAX_BODY + 8 * 1024"

definition snapshot_api_timeout :: "nat \<Rightarrow> nat" where
  "snapshot_api_timeout mib = API_TIMEOUT + mib div SNAPSHOT_FLOOR_MIB_PER_S * second_ns"

section \<open>The request\<close>

definition request_text :: "string \<Rightarrow> string \<Rightarrow> bytes \<Rightarrow> bytes" where
  "request_text meth path body =
     as_bytes (meth @ '' '' @ path @ '' HTTP/1.1'' @ crlf
       @ ''Host: localhost'' @ crlf
       @ ''Accept: application/json'' @ crlf
       @ ''Content-Type: application/json'' @ crlf
       @ ''Content-Length: '' @ dec (length body) @ crlf
       @ ''Connection: close'' @ crlf @ crlf) @ body"

section \<open>The response\<close>

text \<open>A read that outlives the deadline of the call fails with \<open>TimedOut\<close>, else the socket waits for the
  time that is left. An interrupted read is retried by the buffered reader and is no outcome.\<close>

definition DeadlineReader_read :: "nat \<Rightarrow> nat \<Rightarrow> io_kind + nat" where
  "DeadlineReader_read deadline now = (let remaining = deadline - now in if remaining = 0 then Inl TimedOut else Inr remaining)"

text \<open>\<open>Read::take\<close>: a reader that ends after \<open>li_left\<close> more bytes.\<close>

record limited =
  li_in :: reader
  li_left :: nat

definition li_advance :: "nat \<Rightarrow> limited \<Rightarrow> limited" where
  "li_advance n t = t\<lparr>li_in := (li_in t)\<lparr>avail := drop n (avail (li_in t))\<rparr>, li_left := li_left t - n\<rparr>"

definition line_result :: "bytes \<Rightarrow> io_kind + string" where
  "line_result bs = ok_or (from_utf8 bs) InvalidData"

definition read_line :: "(limited, io_kind, string) smethod" where
  "read_line t =
     (let av = avail (li_in t); win = take (li_left t) av in
      if 10 \<in> set win
      then (let bs = takeWhile (\<lambda>b. b \<noteq> 10) win @ [10] in (line_result bs, li_advance (length bs) t))
      else
        (case after (li_in t) of
           Some k \<Rightarrow>
             if length av < li_left t then (Inl k, li_advance (length win) t)
             else (line_result win, li_advance (length win) t)
         | None \<Rightarrow> (line_result win, li_advance (length win) t)))"

definition io_err :: "fmt \<Rightarrow> string \<Rightarrow> io_kind \<Rightarrow> VmmError" where
  "io_err f ctx k =
     (if k = WouldBlock \<or> k = TimedOut then Timeout (ctx @ '': '' @ io_display f k)
      else Vmm (ctx @ '': '' @ io_display f k))"

definition parse_status :: "string \<Rightarrow> u16 option" where
  "parse_status line = Option.bind (slice_at (split_whitespace line) 1) parse_u16"

definition contains_text :: "string \<Rightarrow> string \<Rightarrow> bool" where
  "contains_text pat s = (after_first pat s \<noteq> None)"

datatype header = Blank | ContentLength "nat option" string | TransferEncoding bool | Other

definition read_header :: "string \<Rightarrow> header" where
  "read_header line =
     (if trim line = [] then Blank
      else
        (let lower = to_ascii_lowercase line in
         case strip_prefix ''content-length:'' lower of
           Some v \<Rightarrow> ContentLength (from_str_radix 10 usize_max (trim v)) v
         | None \<Rightarrow>
             (case strip_prefix ''transfer-encoding:'' lower of
                Some v \<Rightarrow> TransferEncoding (contains_text ''chunked'' v)
              | None \<Rightarrow> Other)))"

text \<open>A line takes a prefix of what the limit leaves: \<open>line_bytes\<close> is that prefix.\<close>

definition line_bytes :: "limited \<Rightarrow> bytes" where
  "line_bytes t =
     (let win = take (li_left t) (avail (li_in t)) in
      if 10 \<in> set win then takeWhile (\<lambda>b. b \<noteq> 10) win @ [10] else win)"

lemma length_takeWhile_neq: "y \<in> set xs \<Longrightarrow> length (takeWhile (\<lambda>x. x \<noteq> y) xs) < length xs"
  by (induction xs) auto

lemma length_line_bytes: "length (line_bytes t) \<le> min (li_left t) (length (avail (li_in t)))"
  using length_takeWhile_neq [of 10 "take (li_left t) (avail (li_in t))"] by (auto simp: line_bytes_def Let_def)

lemma read_line_snd: "snd (read_line t) = li_advance (length (line_bytes t)) t"
  by (simp add: read_line_def line_bytes_def Let_def split: option.splits)

lemma read_line_fst: "fst (read_line t) = Inr line \<Longrightarrow> line_result (line_bytes t) = Inr line"
  by (auto simp: read_line_def line_bytes_def Let_def split: option.splits if_splits)

lemma line_result_Inr: "line_result bs = Inr line \<Longrightarrow> length line = length bs"
  by (auto simp: line_result_def from_utf8_def as_bytes_def ok_or_def split: option.splits if_splits)

lemma read_line_progress:
  assumes "read_line t = (Inr line, t')" "line \<noteq> []"
  shows "li_left t' < li_left t"
proof -
  have "length line = length (line_bytes t)" using read_line_fst [of t line] assms(1) by (auto dest: line_result_Inr)
  then have "0 < length (line_bytes t)" using assms(2) by (metis length_greater_0_conv)
  moreover have "length (line_bytes t) \<le> li_left t" using length_line_bytes [of t] by simp
  ultimately have "li_left t - length (line_bytes t) < li_left t" by arith
  moreover have "t' = li_advance (length (line_bytes t)) t" using read_line_snd [of t] assms(1) by simp
  ultimately show ?thesis by (simp add: li_advance_def)
qed

function read_headers :: "fmt \<Rightarrow> string \<Rightarrow> nat \<Rightarrow> bool \<Rightarrow> limited \<Rightarrow> (VmmError + nat \<times> bool) \<times> limited" where
  "read_headers f ctx content_length chunked t =
     (case read_line t of
        (Inl k, t1) \<Rightarrow> (Inl (io_err f ctx k), t1)
      | (Inr line, t1) \<Rightarrow>
          if line = [] then (Inl (Vmm (ctx @ '': connection closed mid-headers (truncated response)'')), t1)
          else
            (case read_header line of
               Blank \<Rightarrow> (Inr (content_length, chunked), t1)
             | ContentLength None v \<Rightarrow> (Inl (Vmm (ctx @ '': bad content-length '' @ dbg_str f v)), t1)
             | ContentLength (Some n) _ \<Rightarrow> read_headers f ctx n chunked t1
             | TransferEncoding b \<Rightarrow> read_headers f ctx content_length b t1
             | Other \<Rightarrow> read_headers f ctx content_length chunked t1))"
  by pat_completeness auto
termination
  by (relation "measure (\<lambda>(_, _, _, _, t). li_left t)") (auto dest: read_line_progress [OF sym])

declare read_headers.simps [simp del]

definition read_exact_limited :: "nat \<Rightarrow> (limited, io_kind, bytes) smethod" where
  "read_exact_limited n t =
     (let av = avail (li_in t); win = take (li_left t) av in
      if n \<le> length win then (Inr (take n win), li_advance n t)
      else (Inl (if length av < li_left t then (case after (li_in t) of None \<Rightarrow> UnexpectedEof | Some k \<Rightarrow> k)
                 else UnexpectedEof), li_advance (length win) t))"

definition read_response :: "fmt \<Rightarrow> string \<Rightarrow> reader \<Rightarrow> (VmmError + u16 \<times> bytes) \<times> reader" where
  "read_response f ctx r =
     (case read_line \<lparr>li_in = r, li_left = MAX_RESPONSE\<rparr> of
        (Inl k, t) \<Rightarrow> (Inl (io_err f ctx k), li_in t)
      | (Inr status_line, t) \<Rightarrow>
          (case parse_status status_line of
             None \<Rightarrow> (Inl (Vmm (ctx @ '': bad status line '' @ dbg_str f status_line)), li_in t)
           | Some status \<Rightarrow>
               (case read_headers f ctx 0 False t of
                  (Inl e, t1) \<Rightarrow> (Inl e, li_in t1)
                | (Inr (content_length, chunked), t1) \<Rightarrow>
                    if chunked then (Inl (Vmm (ctx @ '': unexpected chunked response'')), li_in t1)
                    else if content_length > MAX_BODY
                    then (Inl (Vmm (ctx @ '': content-length '' @ dec content_length @ '' exceeds the ''
                           @ dec MAX_BODY @ ''-byte cap'')), li_in t1)
                    else
                      (case read_exact_limited content_length t1 of
                         (Inl k, t2) \<Rightarrow> (Inl (io_err f ctx k), li_in t2)
                       | (Inr body, t2) \<Rightarrow> (Inr (status, body), li_in t2)))))"

section \<open>One call\<close>

text \<open>What connecting to the socket yields, and a failure to set its timeout.\<close>

record api_peer =
  ap_dial :: "io_kind + stream"
  ap_sockopt :: "io_kind option"

text \<open>serde: the bytes of a value, and the message of a fault body.\<close>

record serde =
  sd_to_vec :: "json \<Rightarrow> string + bytes"
  sd_fault :: "bytes \<Rightarrow> string option"

definition ApiClient_request ::
    "fmt \<Rightarrow> api_peer \<Rightarrow> string \<Rightarrow> string \<Rightarrow> bytes \<Rightarrow> VmmError + u16 \<times> bytes" where
  "ApiClient_request f peer meth path body =
     (let ctx = ''api '' @ meth @ '' '' @ path in
      case ap_dial peer of
        Inl k \<Rightarrow> Inl (io_err f ctx k)
      | Inr s \<Rightarrow>
          (case ap_sockopt peer of
             Some k \<Rightarrow> Inl (io_err f ctx k)
           | None \<Rightarrow>
               (case on_out (write_all (request_text meth path body)) s of
                  (Inl k, _) \<Rightarrow> Inl (io_err f ctx k)
                | (Inr _, s1) \<Rightarrow>
                    (case on_out flush s1 of
                       (Inl k, _) \<Rightarrow> Inl (io_err f ctx k)
                     | (Inr _, s2) \<Rightarrow> fst (read_response f ctx (s_in s2))))))"

definition ApiClient_send ::
    "fmt \<Rightarrow> serde \<Rightarrow> api_peer \<Rightarrow> string \<Rightarrow> string \<Rightarrow> json \<Rightarrow> VmmError + unit" where
  "ApiClient_send f sd peer meth path body =
     (case sd_to_vec sd body of
        Inl e \<Rightarrow> Inl (Vmm (''serialize '' @ path @ '': '' @ e))
      | Inr bs \<Rightarrow>
          and_then (ApiClient_request f peer meth path bs) (\<lambda>(status, resp).
          if 200 \<le> status \<and> status < 300 then Inr ()
          else
            (let detail = (case sd_fault sd resp of Some m \<Rightarrow> m | None \<Rightarrow> ''HTTP '' @ dec (unat status)) in
             Inl (Vmm (meth @ '' '' @ path @ '': '' @ detail)))))"

section \<open>Bodies\<close>

text \<open>What the derived \<open>Serialize\<close> of each body describes: fields in order, absent options left out.\<close>

definition BootSource :: "string \<Rightarrow> string \<Rightarrow> json" where
  "BootSource kernel_image_path boot_args =
     JObj [(''kernel_image_path'', JStr kernel_image_path), (''boot_args'', JStr boot_args)]"

record TokenBucket =
  tb_size :: nat
  tb_one_time_burst :: "nat option"
  tb_refill_time :: nat

definition opt_field :: "string \<Rightarrow> json option \<Rightarrow> (string \<times> json) list" where
  "opt_field name v = (case v of Some j \<Rightarrow> [(name, j)] | None \<Rightarrow> [])"

definition TokenBucket_json :: "TokenBucket \<Rightarrow> json" where
  "TokenBucket_json b =
     JObj ([(''size'', JNum (tb_size b))] @ opt_field ''one_time_burst'' (map_option JNum (tb_one_time_burst b))
           @ [(''refill_time'', JNum (tb_refill_time b))])"

record RateLimiter =
  rl_bandwidth :: "TokenBucket option"
  rl_ops :: "TokenBucket option"

definition RateLimiter_json :: "RateLimiter \<Rightarrow> json" where
  "RateLimiter_json r =
     JObj (opt_field ''bandwidth'' (map_option TokenBucket_json (rl_bandwidth r))
           @ opt_field ''ops'' (map_option TokenBucket_json (rl_ops r)))"

definition GUEST_IO_BANDWIDTH_BYTES_PER_S :: nat where "GUEST_IO_BANDWIDTH_BYTES_PER_S = 256 * 1024 * 1024"
definition GUEST_IO_ONE_TIME_BURST_BYTES :: nat where "GUEST_IO_ONE_TIME_BURST_BYTES = 1024 * 1024 * 1024"

definition default_guest_io :: RateLimiter where
  "default_guest_io =
     \<lparr>rl_bandwidth = Some \<lparr>tb_size = GUEST_IO_BANDWIDTH_BYTES_PER_S,
                             tb_one_time_burst = Some GUEST_IO_ONE_TIME_BURST_BYTES, tb_refill_time = 1000\<rparr>,
      rl_ops = None\<rparr>"

definition Drive :: "string \<Rightarrow> string \<Rightarrow> bool \<Rightarrow> bool \<Rightarrow> RateLimiter option \<Rightarrow> json" where
  "Drive drive_id path_on_host is_root_device is_read_only rate_limiter =
     JObj ([(''drive_id'', JStr drive_id), (''path_on_host'', JStr path_on_host),
            (''is_root_device'', JBool is_root_device), (''is_read_only'', JBool is_read_only)]
           @ opt_field ''rate_limiter'' (map_option RateLimiter_json rate_limiter))"

definition MachineConfig :: "nat \<Rightarrow> nat \<Rightarrow> json" where
  "MachineConfig vcpu_count mem_size_mib =
     JObj [(''vcpu_count'', JNum vcpu_count), (''mem_size_mib'', JNum mem_size_mib)]"

datatype Action = InstanceStart | SendCtrlAltDel

definition Action_json :: "Action \<Rightarrow> json" where
  "Action_json a =
     JObj [(''action_type'', JStr (case a of InstanceStart \<Rightarrow> ''InstanceStart'' | SendCtrlAltDel \<Rightarrow> ''SendCtrlAltDel''))]"

definition Vsock :: "u32 \<Rightarrow> string \<Rightarrow> json" where
  "Vsock guest_cid uds_path = JObj [(''guest_cid'', JNum (unat guest_cid)), (''uds_path'', JStr uds_path)]"

definition NetworkInterface :: "string \<Rightarrow> string \<Rightarrow> string \<Rightarrow> json" where
  "NetworkInterface iface_id host_dev_name guest_mac =
     JObj [(''iface_id'', JStr iface_id), (''host_dev_name'', JStr host_dev_name), (''guest_mac'', JStr guest_mac)]"

datatype VmStateKind = Paused | Resumed

definition VmState :: "VmStateKind \<Rightarrow> json" where
  "VmState k = JObj [(''state'', JStr (case k of Paused \<Rightarrow> ''Paused'' | Resumed \<Rightarrow> ''Resumed''))]"

definition SnapshotCreate :: "string \<Rightarrow> string \<Rightarrow> json" where
  "SnapshotCreate snapshot_path mem_file_path =
     JObj [(''snapshot_type'', JStr ''Full''), (''snapshot_path'', JStr snapshot_path),
           (''mem_file_path'', JStr mem_file_path)]"

definition MemBackend :: "string \<Rightarrow> json" where
  "MemBackend backend_path = JObj [(''backend_type'', JStr ''File''), (''backend_path'', JStr backend_path)]"

definition SnapshotLoad :: "string \<Rightarrow> json \<Rightarrow> bool \<Rightarrow> json" where
  "SnapshotLoad snapshot_path mem_backend resume_vm =
     JObj [(''snapshot_path'', JStr snapshot_path), (''mem_backend'', mem_backend), (''resume_vm'', JBool resume_vm)]"

section \<open>Whatever the peer sends\<close>

definition advanced :: "limited \<Rightarrow> limited \<Rightarrow> bool" where
  "advanced t t' \<longleftrightarrow> (\<exists>n \<le> li_left t. t' = li_advance n t)"

lemma li_advance_add: "li_advance m (li_advance n t) = li_advance (n + m) t"
  by (simp add: li_advance_def add.commute)

lemma advanced_trans: "advanced a b \<Longrightarrow> advanced b c \<Longrightarrow> advanced a c"
proof -
  assume "advanced a b" "advanced b c"
  then obtain n m where "n \<le> li_left a" "b = li_advance n a" "m \<le> li_left a - n" "c = li_advance m b"
    by (auto simp: advanced_def li_advance_def)
  then show ?thesis unfolding advanced_def by (intro exI [of _ "n + m"]) (simp add: li_advance_add)
qed

lemma advanced_read_line: "read_line t = (x, t') \<Longrightarrow> advanced t t'"
  using read_line_snd [of t] length_line_bytes [of t] by (auto simp: advanced_def)

lemma advanced_read_headers: "read_headers f ctx cl ch t = (x, t') \<Longrightarrow> advanced t t'"
proof (induction f ctx cl ch t arbitrary: x t' rule: read_headers.induct)
  case (1 f ctx cl ch t)
  obtain y t1 where r: "read_line t = (y, t1)" by (cases "read_line t")
  note a = advanced_read_line [OF r]
  show ?case
  proof (cases "\<exists>line. y = Inr line \<and> line \<noteq> []")
    case False
    then have "t' = t1" using "1.prems" r by (subst (asm) read_headers.simps) (auto split: sum.splits)
    then show ?thesis using a by simp
  next
    case True
    then obtain line where y: "y = Inr line" "line \<noteq> []" by blast
    show ?thesis
      using "1.prems" "1.IH" [OF r [symmetric] y] y a r
      by (subst (asm) read_headers.simps) (auto split: header.splits option.splits intro: advanced_trans)
  qed
qed

lemma advanced_read_exact: "advanced t (snd (read_exact_limited n t))"
proof -
  let ?win = "take (li_left t) (avail (li_in t))"
  have "snd (read_exact_limited n t) = li_advance (min n (length ?win)) t"
    by (simp add: read_exact_limited_def Let_def min_def del: length_take)
  moreover have "min n (length ?win) \<le> li_left t" by simp
  ultimately show ?thesis unfolding advanced_def by blast
qed

lemma read_response_bounded:
  assumes "read_response f ctx r = (res, r')"
  shows "(\<exists>n \<le> MAX_RESPONSE. r' = r\<lparr>avail := drop n (avail r)\<rparr>)
    \<and> (\<forall>status body. res = Inr (status, body) \<longrightarrow> length body \<le> MAX_BODY)"
proof -
  let ?t = "\<lparr>li_in = r, li_left = MAX_RESPONSE\<rparr>"
  obtain x t where l: "read_line ?t = (x, t)" by (cases "read_line ?t")
  obtain y t1 where h: "read_headers f ctx 0 False t = (y, t1)" by (cases "read_headers f ctx 0 False t")
  have "\<exists>t' \<in> {t, t1} \<union> range (\<lambda>n. snd (read_exact_limited n t1)). r' = li_in t'"
    using assms unfolding read_response_def l prod.case h
    by (auto split: prod.splits sum.splits option.splits if_splits) (metis rangeI snd_conv)+
  moreover have "advanced ?t t" "advanced t t1"
    using advanced_read_line [OF l] advanced_read_headers [OF h] by simp_all
  ultimately have "\<exists>t'. advanced ?t t' \<and> r' = li_in t'"
    using advanced_trans advanced_read_exact by blast
  then have "\<exists>n \<le> MAX_RESPONSE. r' = r\<lparr>avail := drop n (avail r)\<rparr>"
    by (auto simp: advanced_def li_advance_def)
  moreover have "res = Inr (status, body) \<Longrightarrow> length body \<le> MAX_BODY" for status body
    using assms by (auto simp: read_response_def read_exact_limited_def Let_def
        split: prod.splits sum.splits option.splits if_splits)
  ultimately show ?thesis by blast
qed

section \<open>A well-formed response is read exactly\<close>

definition clean :: "string \<Rightarrow> bool" where
  "clean h \<longleftrightarrow> is_ascii h \<and> CHR 0x0A \<notin> set h"

definition http_head :: "nat \<Rightarrow> string \<Rightarrow> string list \<Rightarrow> string" where
  "http_head status reason headers =
     (''HTTP/1.1 '' @ dec status @ '' '' @ reason) @ crlf @ concat (map (\<lambda>h. h @ crlf) headers) @ crlf"

definition content_length_line :: "nat \<Rightarrow> string" where
  "content_length_line n = ''Content-Length: '' @ dec n"

lemma is_ascii_append [simp]: "is_ascii (a @ b) \<longleftrightarrow> is_ascii a \<and> is_ascii b"
  by (auto simp: is_ascii_def)

lemma is_ascii_dec [simp]: "is_ascii (dec n)"
  using dec_digits [of n] by (force simp: is_ascii_def)

lemma length_crlf [simp]: "length crlf = 2"
  by (simp add: crlf_def)

lemma crlf_not_Nil [simp]: "crlf \<noteq> []"
  by (simp add: crlf_def)

lemma in_set_dropWhile: "x \<in> set xs \<Longrightarrow> \<not> q x \<Longrightarrow> x \<in> set (dropWhile q xs)"
  by (induction xs) auto

lemma whitespace_bytes [simp]: "is_whitespace 32" "is_whitespace 13" "is_whitespace 10"
  by (simp_all add: is_whitespace_def)

lemma is_ascii_crlf [simp]: "is_ascii crlf"
  by (simp add: is_ascii_def crlf_def)

lemma lf_not_in_dec [simp]: "CHR 0x0A \<notin> set (dec n)"
  using dec_digits [of n] by fastforce

lemma clean_crlf_bytes:
  assumes "clean h"
  shows "takeWhile (\<lambda>b. b \<noteq> 10) (as_bytes (h @ crlf) @ rest) @ [10] = as_bytes (h @ crlf)"
    and "10 \<in> set (take (length h + 2) (as_bytes (h @ crlf) @ rest))"
proof -
  have "b \<noteq> 10" if "b \<in> set (as_bytes h)" for b
  proof -
    have "char_of (unat b) \<in> set (of_bytes (as_bytes h))" using that by (simp add: of_bytes_def)
    moreover have "char_of (10 :: nat) = CHR 0x0A" by code_simp
    ultimately show ?thesis using assms by (auto simp: clean_def)
  qed
  then show "takeWhile (\<lambda>b. b \<noteq> 10) (as_bytes (h @ crlf) @ rest) @ [10] = as_bytes (h @ crlf)"
    by (simp add: takeWhile_append2 crlf_def as_bytes_def [of "[CHR 0x0D, CHR 0x0A]"])
  show "10 \<in> set (take (length h + 2) (as_bytes (h @ crlf) @ rest))"
    by (simp add: crlf_def as_bytes_def)
qed

lemma read_line_clean:
  assumes "clean h" "length h + 2 \<le> left"
  shows "read_line \<lparr>li_in = r\<lparr>avail := as_bytes (h @ crlf) @ rest\<rparr>, li_left = left\<rparr>
    = (Inr (h @ crlf), \<lparr>li_in = r\<lparr>avail := rest\<rparr>, li_left = left - (length h + 2)\<rparr>)"
proof -
  let ?av = "as_bytes (h @ crlf) @ rest"
  have win: "take left ?av = as_bytes (h @ crlf) @ take (left - (length h + 2)) rest"
    using assms(2) by (simp add: crlf_def)
  have len: "length (as_bytes (h @ crlf)) = length h + 2" by (simp add: crlf_def)
  have "10 \<in> set (take left ?av)"
    using clean_crlf_bytes(2) [OF assms(1), of "[]"] len unfolding win by (simp del: as_bytes_append)
  moreover have "takeWhile (\<lambda>b. b \<noteq> 10) (take left ?av) @ [10] = as_bytes (h @ crlf)"
    unfolding win by (rule clean_crlf_bytes(1) [OF assms(1)])
  moreover have "line_result (as_bytes (h @ crlf)) = Inr (h @ crlf)"
    using assms(1) by (simp add: line_result_def clean_def is_ascii_is_str del: as_bytes_append)
  ultimately show ?thesis
    by (simp add: read_line_def li_advance_def len Let_def del: as_bytes_append)
qed

section \<open>Headers\<close>

lemma of_char_dec: "c \<in> set (map of_char (dec n)) \<Longrightarrow> \<not> is_whitespace c"
  using dec_digits [of n] by (auto simp: is_whitespace_def)

lemma trim_dec: "trim ('' '' @ dec n @ crlf) = dec n"
proof -
  let ?d = "map of_char (dec n) :: nat list"
  have ne: "?d \<noteq> []" by simp
  have nw: "\<not> is_whitespace (hd ?d)" "\<not> is_whitespace (hd (rev ?d))"
    using of_char_dec hd_in_set [OF ne] hd_in_set [of "rev ?d"] ne by (metis, metis rev_is_Nil_conv set_rev)
  have "is_ascii '' ''" by (simp add: is_ascii_def)
  then have ascii: "is_ascii ('' '' @ dec n @ crlf)" by (simp only: is_ascii_append is_ascii_dec is_ascii_crlf simp_thms)
  have c: "utf8_chars ('' '' @ dec n @ crlf) = 32 # ?d @ [13, 10]"
    using utf8_chars_ascii [OF ascii] by (simp add: crlf_def)
  have "dropWhile is_whitespace (32 # ?d @ [13, 10]) = ?d @ [13, 10]"
    using nw(1) ne by (cases ?d) simp_all
  moreover have "dropWhile is_whitespace (rev (?d @ [13, 10])) = rev ?d"
    using nw(2) ne by (cases "rev ?d") simp_all
  ultimately show ?thesis by (simp only: trim_def c rev_rev_ident string_of_chars_ascii [OF is_ascii_dec])
qed

lemma trim_crlf [simp]: "trim crlf = []"
  by code_simp

lemma lowercase_dec [simp]: "to_ascii_lowercase (dec n) = dec n"
  using dec_digits [of n] unfolding to_ascii_lowercase_def Let_def by (intro map_idI) auto

lemma to_ascii_lowercase_append [simp]: "to_ascii_lowercase (a @ b) = to_ascii_lowercase a @ to_ascii_lowercase b"
  by (simp add: to_ascii_lowercase_def)

lemma trim_nonblank:
  assumes "is_ascii s" "c \<in> set s" "\<not> is_whitespace (of_char c)"
  shows "trim s \<noteq> []"
proof -
  let ?cs = "map of_char s :: nat list"
  have "of_char c \<in> set (dropWhile is_whitespace ?cs)"
    using assms(2,3) by (intro in_set_dropWhile) simp_all
  moreover have "encode_utf8 n \<noteq> []" for n by (simp add: encode_utf8_def)
  ultimately show ?thesis using assms(3)
    by (auto simp: trim_def utf8_chars_ascii [OF assms(1)] string_of_chars_def of_bytes_def)
qed

lemma lowercase_content_length: "to_ascii_lowercase ''Content-Length: '' = ''content-length: ''"
  "to_ascii_lowercase crlf = crlf"
  by code_simp+

lemma read_header_length:
  assumes "n \<le> usize_max"
  shows "read_header (content_length_line n @ crlf) = ContentLength (Some n) ('' '' @ dec n @ crlf)"
proof -
  have l: "to_ascii_lowercase (content_length_line n @ crlf) = ''content-length:'' @ '' '' @ dec n @ crlf"
    by (simp only: content_length_line_def to_ascii_lowercase_append lowercase_content_length lowercase_dec) simp
  have "is_ascii ''Content-Length: ''" by (simp add: is_ascii_def)
  then have "is_ascii (content_length_line n @ crlf)"
    by (simp only: content_length_line_def is_ascii_append is_ascii_dec is_ascii_crlf simp_thms)
  then have "trim (content_length_line n @ crlf) \<noteq> []"
    by (rule trim_nonblank [where c = "CHR ''C''"]) (simp_all add: content_length_line_def is_whitespace_def)
  then show ?thesis
    by (simp only: read_header_def l Let_def if_False strip_prefix_def) (simp add: trim_dec [simplified] from_str_radix_dec assms)
qed

lemma split_on_none: "\<forall>x \<in> set xs. \<not> q x \<Longrightarrow> split_on q xs = [xs]"
  by (induction xs) auto

lemma parse_status_line:
  assumes "clean reason" "status < 2 ^ 16"
  shows "parse_status ((''HTTP/1.1 '' @ dec status @ '' '' @ reason) @ crlf) = Some (word_of_nat status)"
proof -
  let ?tail = "reason @ crlf"
  let ?d = "map of_char (dec status) :: nat list"
  have "is_ascii ''HTTP/1.1 ''" "is_ascii '' ''" by (simp_all add: is_ascii_def)
  then have ascii: "is_ascii ((''HTTP/1.1 '' @ dec status @ '' '' @ reason) @ crlf)"
    using assms(1) by (simp only: is_ascii_append is_ascii_dec is_ascii_crlf clean_def simp_thms)
  have c: "utf8_chars ((''HTTP/1.1 '' @ dec status @ '' '' @ reason) @ crlf)
      = map of_char ''HTTP/1.1'' @ 32 # ?d @ 32 # map of_char ?tail"
    by (subst utf8_chars_ascii [OF ascii]) simp
  have "split_on is_whitespace (map of_char ''HTTP/1.1'') = [map of_char ''HTTP/1.1'']"
    by (rule split_on_none) (simp add: is_whitespace_def)
  moreover have "split_on is_whitespace ?d = [?d]"
    by (rule split_on_none) (use of_char_dec in blast)
  moreover have "?d \<noteq> []" by simp
  ultimately have "\<exists>ws. split_whitespace ((''HTTP/1.1 '' @ dec status @ '' '' @ reason) @ crlf)
      = string_of_chars (map of_char ''HTTP/1.1'') # string_of_chars ?d # ws"
    unfolding split_whitespace_def c by (simp only: split_on_append whitespace_bytes) simp
  then show ?thesis using assms(2)
    by (auto simp: parse_status_def slice_at_def string_of_chars_ascii parse_u16_def from_str_radix_dec)
qed

definition plain_header :: "string \<Rightarrow> bool" where
  "plain_header h \<longleftrightarrow> clean h \<and> read_header (h @ crlf) = Other"

lemma clean_content_length: "clean (content_length_line n)"
proof -
  have "is_ascii ''Content-Length: ''" by (simp add: is_ascii_def)
  moreover have "CHR 0x0A \<notin> set ''Content-Length: ''" by simp
  ultimately show ?thesis
    by (simp only: clean_def content_length_line_def is_ascii_append is_ascii_dec lf_not_in_dec set_append Un_iff simp_thms)
qed

lemma read_headers_line:
  assumes "clean h" "length h + 2 \<le> left"
  shows "read_header (h @ crlf) = Other \<Longrightarrow>
      read_headers f ctx cl ch \<lparr>li_in = r\<lparr>avail := as_bytes (h @ crlf) @ rest\<rparr>, li_left = left\<rparr>
      = read_headers f ctx cl ch \<lparr>li_in = r\<lparr>avail := rest\<rparr>, li_left = left - (length h + 2)\<rparr>"
    and "read_header (h @ crlf) = ContentLength (Some n) v \<Longrightarrow>
      read_headers f ctx cl ch \<lparr>li_in = r\<lparr>avail := as_bytes (h @ crlf) @ rest\<rparr>, li_left = left\<rparr>
      = read_headers f ctx n ch \<lparr>li_in = r\<lparr>avail := rest\<rparr>, li_left = left - (length h + 2)\<rparr>"
    and "read_header (h @ crlf) = Blank \<Longrightarrow>
      read_headers f ctx cl ch \<lparr>li_in = r\<lparr>avail := as_bytes (h @ crlf) @ rest\<rparr>, li_left = left\<rparr>
      = (Inr (cl, ch), \<lparr>li_in = r\<lparr>avail := rest\<rparr>, li_left = left - (length h + 2)\<rparr>)"
  by (subst read_headers.simps; simp add: read_line_clean [OF assms] del: as_bytes_append)+

lemma read_headers_plain:
  assumes "\<forall>h \<in> set hs. plain_header h" "length (concat (map (\<lambda>h. h @ crlf) hs)) \<le> left"
  shows "read_headers f ctx cl ch \<lparr>li_in = r\<lparr>avail := as_bytes (concat (map (\<lambda>h. h @ crlf) hs)) @ rest\<rparr>, li_left = left\<rparr>
    = read_headers f ctx cl ch
        \<lparr>li_in = r\<lparr>avail := rest\<rparr>, li_left = left - length (concat (map (\<lambda>h. h @ crlf) hs))\<rparr>"
  using assms
proof (induction hs arbitrary: left)
  case (Cons h hs)
  let ?more = "as_bytes (concat (map (\<lambda>h. h @ crlf) hs)) @ rest"
  have "read_headers f ctx cl ch \<lparr>li_in = r\<lparr>avail := as_bytes (h @ crlf) @ ?more\<rparr>, li_left = left\<rparr>
      = read_headers f ctx cl ch \<lparr>li_in = r\<lparr>avail := ?more\<rparr>, li_left = left - (length h + 2)\<rparr>"
    using Cons.prems by (intro read_headers_line(1)) (auto simp: plain_header_def)
  then show ?case using Cons.IH [of "left - (length h + 2)"] Cons.prems by simp
qed simp

lemma read_headers_exact:
  fixes before behind n
  defines "hb \<equiv> concat (map (\<lambda>h. h @ crlf) before)" and "ha \<equiv> concat (map (\<lambda>h. h @ crlf) behind)"
  assumes "\<forall>h \<in> set before \<union> set behind. plain_header h" "n \<le> usize_max"
    "length hb + (length (content_length_line n) + 2) + length ha + 2 \<le> left"
  shows "read_headers f ctx cl ch
      \<lparr>li_in = r\<lparr>avail := as_bytes hb @ as_bytes (content_length_line n @ crlf) @ as_bytes ha @ as_bytes ([] @ crlf) @ rest\<rparr>,
       li_left = left\<rparr>
    = (Inr (n, ch), \<lparr>li_in = r\<lparr>avail := rest\<rparr>,
         li_left = left - (length hb + (length (content_length_line n) + 2) + length ha + 2)\<rparr>)"
proof -
  have 1: "\<forall>h \<in> set before. plain_header h" "\<forall>h \<in> set behind. plain_header h" using assms(3) by auto
  have b: "read_header ([] @ crlf) = Blank" "clean []" by (simp_all add: read_header_def clean_def is_ascii_def)
  show ?thesis unfolding hb_def ha_def
    apply (subst read_headers_plain [OF 1(1)])
    subgoal using assms(5) by (simp add: hb_def)
    apply (subst read_headers_line(2) [OF clean_content_length _ read_header_length [OF assms(4)]])
    subgoal using assms(5) by (simp add: hb_def)
    apply (subst read_headers_plain [OF 1(2)])
    subgoal using assms(5) by (simp add: hb_def ha_def)
    apply (subst read_headers_line(3) [OF b(2) _ b(1)])
    subgoal using assms(5) by (simp add: hb_def ha_def)
    by (simp add: algebra_simps)
qed

lemma read_exact_limited_ok:
  "length body \<le> left \<Longrightarrow>
     read_exact_limited (length body) \<lparr>li_in = r\<lparr>avail := body @ rest\<rparr>, li_left = left\<rparr>
     = (Inr body, \<lparr>li_in = r\<lparr>avail := rest\<rparr>, li_left = left - length body\<rparr>)"
  by (simp add: read_exact_limited_def li_advance_def Let_def)

definition http_response :: "nat \<Rightarrow> string \<Rightarrow> string list \<Rightarrow> string list \<Rightarrow> bytes \<Rightarrow> bytes" where
  "http_response status reason before behind body =
     as_bytes (http_head status reason (before @ content_length_line (length body) # behind)) @ body"

lemma read_response_exact:
  assumes "clean reason" "\<forall>h \<in> set before \<union> set behind. plain_header h" "status < 2 ^ 16"
    "length body \<le> MAX_BODY" "length (http_response status reason before behind body) \<le> MAX_RESPONSE"
  shows "read_response f ctx (r\<lparr>avail := http_response status reason before behind body @ rest\<rparr>)
    = (Inr (word_of_nat status, body), r\<lparr>avail := rest\<rparr>)"
proof -
  let ?n = "length body"
  let ?s = "''HTTP/1.1 '' @ dec status @ '' '' @ reason"
  let ?hb = "concat (map (\<lambda>h. h @ crlf) before)" and ?ha = "concat (map (\<lambda>h. h @ crlf) behind)"
  let ?tail = "as_bytes ?hb @ as_bytes (content_length_line ?n @ crlf) @ as_bytes ?ha @ as_bytes ([] @ crlf) @ body @ rest"
  have txt_eq: "http_response status reason before behind body @ rest = as_bytes (?s @ crlf) @ ?tail"
    by (simp only: http_response_def http_head_def as_bytes_append map_append concat_append list.map concat.simps
        append_assoc append_Nil)
  have "is_ascii ''HTTP/1.1 ''" "is_ascii '' ''" by (simp_all add: is_ascii_def)
  then have clean: "clean ?s"
    using assms(1) by (simp only: clean_def is_ascii_append is_ascii_dec simp_thms set_append Un_iff lf_not_in_dec) simp
  define total where "total = length ?hb + (length (content_length_line ?n) + 2) + length ?ha + 2"
  have len: "length (?s @ crlf) + total + ?n \<le> MAX_RESPONSE"
    using assms(5) by (simp add: http_response_def http_head_def total_def del: append_assoc)
  have usz: "?n \<le> usize_max" using assms(4) by (simp add: MAX_BODY_def usize_max_def)
  have l: "read_line \<lparr>li_in = r\<lparr>avail := as_bytes (?s @ crlf) @ ?tail\<rparr>, li_left = MAX_RESPONSE\<rparr>
      = (Inr (?s @ crlf), \<lparr>li_in = r\<lparr>avail := ?tail\<rparr>, li_left = MAX_RESPONSE - (length ?s + 2)\<rparr>)"
    using len by (intro read_line_clean clean) simp
  have h: "read_headers f ctx 0 False \<lparr>li_in = r\<lparr>avail := ?tail\<rparr>, li_left = MAX_RESPONSE - (length ?s + 2)\<rparr>
      = (Inr (?n, False), \<lparr>li_in = r\<lparr>avail := body @ rest\<rparr>, li_left = MAX_RESPONSE - (length ?s + 2) - total\<rparr>)"
    unfolding total_def using len by (intro read_headers_exact assms(2) usz) (simp add: total_def)
  have b: "read_exact_limited ?n \<lparr>li_in = r\<lparr>avail := body @ rest\<rparr>, li_left = MAX_RESPONSE - (length ?s + 2) - total\<rparr>
      = (Inr body, \<lparr>li_in = r\<lparr>avail := rest\<rparr>, li_left = MAX_RESPONSE - (length ?s + 2) - total - ?n\<rparr>)"
    using len by (intro read_exact_limited_ok) simp
  show ?thesis
    unfolding txt_eq read_response_def
    by (simp only: l h b prod.case sum.case parse_status_line [OF assms(1,3)] option.case if_False
        limited.simps) (use assms(4) in simp)
qed


definition answer :: "nat \<Rightarrow> bytes \<Rightarrow> stream" where
  "answer status body =
     \<lparr>s_in = \<lparr>avail = http_response status ''Bad Request'' [''Server: Firecracker API''] [] body @ [1, 2], after = None\<rparr>,
      s_out = \<lparr>written = [], room = None, wfail = OtherIo\<rparr>\<rparr>"

definition answering :: "nat \<Rightarrow> bytes \<Rightarrow> api_peer" where
  "answering status body = \<lparr>ap_dial = Inr (answer status body), ap_sockopt = None\<rparr>"

definition plain_serde :: serde where
  "plain_serde = \<lparr>sd_to_vec = (\<lambda>j. Inr (as_bytes (render j))), sd_fault = (\<lambda>_. Some ''bad disk'')\<rparr>"


end
