(* ===== verification/Drives.thy ===== *)
theory Drives
  imports Jail "HOL-Library.List_Lexorder" "HOL-Library.Char_ord"
begin

text \<open>
  The bulk block devices, \<open>crates/vmm/src/drives.rs\<close>: sizing and building the input and output images,
  and reading the output tree back from an image the guest controlled. A directory is a finite tree;
  what a system call yields is an argument. The lemmas say that the input image holds the input and
  that the walk counts exactly the tree, that the read-back helpers stop at their deadline, and that
  no symbolic link that resolves outside the destination survives.
\<close>

section \<open>Trees\<close>

text \<open>An entry of a directory: one that cannot be read or whose type cannot, a file or symbolic link
  with its length and its allocated blocks (\<open>None\<close>: no metadata), a directory.\<close>

datatype dirent =
    BadEntry io_kind
  | BadType io_kind
  | Leaf string bool "(nat \<times> nat) option" \<comment> \<open>name, symbolic link, bytes and blocks\<close>
  | Sub string dir
and dir = Unreadable io_kind | Listing "dirent list"

text \<open>The stack of a walk: directories still to be read, the last one pushed first.\<close>

type_synonym walk = "(string \<times> dir) list"

definition weight_walk :: "walk \<Rightarrow> nat" where
  "weight_walk st = sum_list (map (\<lambda>(_, d). Suc (size d)) st)"

lemma weight_walk_simps [simp]: "weight_walk [] = 0" "weight_walk ((p, d) # st) = Suc (size d + weight_walk st)"
  by (simp_all add: weight_walk_def)

section \<open>Tools\<close>

text \<open>What running a host tool yields: it cannot be started, it exits with a code and what it wrote to
  its standard error (\<open>None\<close>: killed by a signal), or it succeeds.\<close>

datatype tool = ToolSpawn io_kind | ToolExit "int option" string | ToolOk

definition tool_spawn_error :: "fmt \<Rightarrow> string \<Rightarrow> io_kind \<Rightarrow> VmmError" where
  "tool_spawn_error f program k =
     (if k = NotFound
      then ArtifactMissing (program @ '' not found (a host tool the driver shells out to '' @ [CHR 0xE2, CHR 0x80, CHR 0x94]
             @ '' install e2fsprogs/coreutils/iproute2)'')
      else Vmm (''run '' @ program @ '': '' @ io_display f k))"

definition dec_int :: "int \<Rightarrow> string" where
  "dec_int i = (if i < 0 then ''-'' @ dec (nat (- i)) else dec (nat i))"

definition run_host_tool :: "fmt \<Rightarrow> string \<Rightarrow> tool \<Rightarrow> VmmError + unit" where
  "run_host_tool f program t =
     (case t of
        ToolSpawn k \<Rightarrow> Inl (tool_spawn_error f program k)
      | ToolExit code err \<Rightarrow>
          Inl (Vmm (program @ '' failed building a block device image (exit ''
            @ (case code of None \<Rightarrow> ''signal'' | Some c \<Rightarrow> dec_int c) @ ''): '' @ trim err))
      | ToolOk \<Rightarrow> Inr ())"

section \<open>The input image\<close>

definition MAX_INPUT_BYTES :: nat where "MAX_INPUT_BYTES = 2 * 1024 * 1024 * 1024"
definition OUTPUT_IMAGE_MIB :: nat where "OUTPUT_IMAGE_MIB = 256"
definition OUTPUT_EXTRACT_CAP :: nat where "OUTPUT_EXTRACT_CAP = 2 * OUTPUT_IMAGE_MIB * 1024 * 1024"
definition OUTPUT_READBACK_TIMEOUT :: nat where "OUTPUT_READBACK_TIMEOUT = 120 * second_ns"
definition INPUT_LABEL :: string where "INPUT_LABEL = ''kee-input''"
definition OUTPUT_LABEL :: string where "OUTPUT_LABEL = ''kee-output''"

fun measure_entries ::
    "fmt \<Rightarrow> string \<Rightarrow> dirent list \<Rightarrow> walk \<Rightarrow> nat \<Rightarrow> nat \<Rightarrow> VmmError + walk \<times> nat \<times> nat" where
  "measure_entries f d [] st bytes files = Inr (st, bytes, files)"
| "measure_entries f d (BadEntry k # es) st bytes files = Inl (ArtifactMissing (''read input entry: '' @ io_display f k))"
| "measure_entries f d (BadType k # es) st bytes files = Inl (ArtifactMissing (''stat input entry: '' @ io_display f k))"
| "measure_entries f d (Sub n sub # es) st bytes files = measure_entries f d es ((path_push d n, sub) # st) bytes files"
| "measure_entries f d (Leaf n link len # es) st bytes files =
     measure_entries f d es st (case len of Some (b, _) \<Rightarrow> min (bytes + b) u64_max | None \<Rightarrow> bytes) (files + 1)"

lemma measure_entries_weight:
  "measure_entries f d es st bytes files = Inr (st', b', n') \<Longrightarrow> weight_walk st' \<le> weight_walk st + size_list size es"
  by (induction f d es st bytes files rule: measure_entries.induct) auto

function measure_loop :: "fmt \<Rightarrow> walk \<Rightarrow> nat \<Rightarrow> nat \<Rightarrow> VmmError + nat \<times> nat" where
  "measure_loop f [] bytes files = Inr (bytes, files)"
| "measure_loop f ((d, Unreadable k) # st) bytes files =
     Inl (ArtifactMissing (''read input dir '' @ d @ '': '' @ io_display f k))"
| "measure_loop f ((d, Listing es) # st) bytes files =
     (case measure_entries f d es st bytes files of
        Inl e \<Rightarrow> Inl e
      | Inr (st1, bytes1, files1) \<Rightarrow>
          if bytes1 > MAX_INPUT_BYTES
          then Inl (ArtifactMissing (''input directory exceeds the '' @ dec MAX_INPUT_BYTES @ ''-byte bulk-input ceiling''))
          else measure_loop f st1 bytes1 files1)"
  by pat_completeness auto
termination
  by (relation "measure (\<lambda>(_, st, _, _). weight_walk st)") (auto dest!: measure_entries_weight)

definition measure_tree :: "fmt \<Rightarrow> string \<Rightarrow> dir \<Rightarrow> VmmError + nat \<times> nat" where
  "measure_tree f d root = measure_loop f [(d, root)] 0 0"

definition require_dir :: "bool \<Rightarrow> string \<Rightarrow> string \<Rightarrow> VmmError + unit" where
  "require_dir is_dir path what =
     (if is_dir then Inr () else Inl (ArtifactMissing (what @ '' not found or not a directory: '' @ path)))"

definition input_size_mib :: "nat \<Rightarrow> nat" where
  "input_size_mib bytes = max (bytes div (1024 * 1024) * 3 div 2) 8 + 8"

text \<open>The commands, with the program first, and the outcome of each in turn.\<close>

definition input_image_commands :: "string \<Rightarrow> string \<Rightarrow> nat \<Rightarrow> nat \<Rightarrow> string list list" where
  "input_image_commands src_dir img bytes files =
     [[''truncate'', ''-s'', dec (input_size_mib bytes) @ ''M'', img],
      [''mke2fs'', ''-F'', ''-q'', ''-t'', ''ext4'', ''-m'', ''0'', ''-N'', dec (files + 256), ''-L'', INPUT_LABEL,
       ''-d'', src_dir, img]]"

definition output_image_commands :: "string \<Rightarrow> string list list" where
  "output_image_commands img =
     [[''truncate'', ''-s'', dec OUTPUT_IMAGE_MIB @ ''M'', img],
      [''mke2fs'', ''-F'', ''-q'', ''-t'', ''ext4'', ''-m'', ''0'', ''-L'', OUTPUT_LABEL,
       ''-E'', ''lazy_itable_init=0,lazy_journal_init=0'', img]]"

fun run_tools :: "fmt \<Rightarrow> (nat \<Rightarrow> tool) \<Rightarrow> nat \<Rightarrow> string list list \<Rightarrow> VmmError + unit" where
  "run_tools f outcome i [] = Inr ()"
| "run_tools f outcome i (cmd # cmds) =
     and_then (run_host_tool f (hd cmd) (outcome i)) (\<lambda>_. run_tools f outcome (Suc i) cmds)"

definition build_input_image ::
    "fmt \<Rightarrow> (nat \<Rightarrow> tool) \<Rightarrow> bool \<Rightarrow> dir \<Rightarrow> string \<Rightarrow> string \<Rightarrow> VmmError + string" where
  "build_input_image f outcome is_dir content src_dir workdir =
     and_then (require_dir is_dir src_dir ''input directory'') (\<lambda>_.
     and_then (measure_tree f src_dir content) (\<lambda>(bytes, files).
     let img = path_push workdir ''input.ext4'' in
     and_then (run_tools f outcome 0 (input_image_commands src_dir img bytes files)) (\<lambda>_. Inr img)))"

definition build_output_image :: "fmt \<Rightarrow> (nat \<Rightarrow> tool) \<Rightarrow> string \<Rightarrow> VmmError + string" where
  "build_output_image f outcome workdir =
     (let img = path_push workdir ''output.ext4'' in
      and_then (run_tools f outcome 0 (output_image_commands img)) (\<lambda>_. Inr img))"

section \<open>Reading the output back\<close>

text \<open>\<open>blocks * 512\<close> of every file and link below a directory; what cannot be read does not count.\<close>

fun alloc_entries :: "string \<Rightarrow> dirent list \<Rightarrow> walk \<Rightarrow> nat \<Rightarrow> walk \<times> nat" where
  "alloc_entries d [] st acc = (st, acc)"
| "alloc_entries d (Sub n sub # es) st acc = alloc_entries d es ((path_push d n, sub) # st) acc"
| "alloc_entries d (Leaf n link (Some (_, blocks)) # es) st acc =
     alloc_entries d es st (min (acc + min (blocks * 512) u64_max) u64_max)"
| "alloc_entries d (e # es) st acc = alloc_entries d es st acc"

lemma alloc_entries_weight:
  "alloc_entries d es st acc = (st', t') \<Longrightarrow> weight_walk st' \<le> weight_walk st + size_list size es"
  by (induction d es st acc rule: alloc_entries.induct) auto

function alloc_loop :: "walk \<Rightarrow> nat \<Rightarrow> nat" where
  "alloc_loop [] acc = acc"
| "alloc_loop ((d, Unreadable k) # st) acc = alloc_loop st acc"
| "alloc_loop ((d, Listing es) # st) acc =
     (case alloc_entries d es st acc of (st1, acc1) \<Rightarrow> alloc_loop st1 acc1)"
  by pat_completeness auto
termination
  by (relation "measure (\<lambda>(st, _). weight_walk st)") (auto dest: alloc_entries_weight split: prod.splits)

definition dir_alloc_bytes :: "string \<Rightarrow> dir \<Rightarrow> nat" where
  "dir_alloc_bytes d root = alloc_loop [(d, root)] 0"

text \<open>Polling a helper: \<open>poll\<close> and \<open>over_budget\<close> by the number of the pass, \<open>cost\<close> the time a pass takes
  beside its sleep. The helper has ended, or was killed and reaped.\<close>

datatype helper = Ended | KilledAndReaped

definition POLL_SLEEP :: nat where "POLL_SLEEP = 50000000"

function wait_helper ::
    "fmt \<Rightarrow> (nat \<Rightarrow> io_kind + int option option) \<Rightarrow> (nat \<Rightarrow> VmmError option) \<Rightarrow> (nat \<Rightarrow> nat) \<Rightarrow> nat \<Rightarrow> string
      \<Rightarrow> nat \<Rightarrow> nat \<Rightarrow> (VmmError + int option) \<times> helper \<times> nat" where
  "wait_helper f poll over_budget cost deadline what n now =
     (case poll n of
        Inl k \<Rightarrow> (Inl (Vmm (''wait on '' @ what @ '': '' @ io_display f k)), KilledAndReaped, now)
      | Inr (Some status) \<Rightarrow> (Inr status, Ended, now)
      | Inr None \<Rightarrow>
          (case over_budget n of
             Some e \<Rightarrow> (Inl e, KilledAndReaped, now)
           | None \<Rightarrow>
               if now + cost n \<ge> deadline
               then (Inl (Timeout (what @ '' exceeded the output-readback deadline'')), KilledAndReaped, now + cost n)
               else wait_helper f poll over_budget cost deadline what (Suc n) (now + cost n + POLL_SLEEP)))"
  by pat_completeness auto
termination
  by (relation "measure (\<lambda>(_, _, _, _, deadline, _, _, now). deadline - now)") (auto simp: POLL_SLEEP_def)

declare wait_helper.simps [simp del]

record readback =
  rb_poll :: "nat \<Rightarrow> io_kind + int option option"
  rb_cost :: "nat \<Rightarrow> nat"
  rb_spawn :: "io_kind option"

definition fsck_output_image :: "fmt \<Rightarrow> readback \<Rightarrow> nat \<Rightarrow> nat \<Rightarrow> VmmError + unit" where
  "fsck_output_image f rb deadline now =
     (case rb_spawn rb of
        Some k \<Rightarrow> Inl (tool_spawn_error f ''e2fsck'' k)
      | None \<Rightarrow>
          and_then (fst (wait_helper f (rb_poll rb) (\<lambda>_. None) (rb_cost rb) deadline ''e2fsck'' 0 now)) (\<lambda>code.
          case code of
            Some c \<Rightarrow>
              if c < 4 then Inr ()
              else Inl (Vmm (''e2fsck could not repair the output image (exit '' @ dec_int c @ '')''))
          | None \<Rightarrow> Inl (Vmm ''e2fsck terminated by a signal'')))"

text \<open>\<open>seen n\<close> is the tree under the destination at the \<open>n\<close>-th pass.\<close>

definition rdump_capped ::
    "fmt \<Rightarrow> readback \<Rightarrow> (nat \<Rightarrow> dir) \<Rightarrow> string \<Rightarrow> nat \<Rightarrow> nat \<Rightarrow> nat \<Rightarrow> VmmError + unit" where
  "rdump_capped f rb seen dest byte_cap deadline now =
     and_then (path_str dest) (\<lambda>dest_str.
     if list_ex is_whitespace (utf8_chars dest_str)
     then Inl (Vmm (''output dir path must not contain whitespace (debugfs -R limitation): '' @ dest_str))
     else
       (case rb_spawn rb of
          Some k \<Rightarrow> Inl (tool_spawn_error f ''debugfs'' k)
        | None \<Rightarrow>
            and_then (fst (wait_helper f (rb_poll rb)
                (\<lambda>n. if dir_alloc_bytes dest (seen n) > byte_cap then Some (OutputCap (min byte_cap usize_max)) else None)
                (rb_cost rb) deadline ''debugfs rdump'' 0 now)) (\<lambda>code.
            case code of
              Some c \<Rightarrow> if c = 0 then Inr () else Inl (Vmm (''debugfs rdump failed (exit '' @ dec_int c @ '')''))
            | None \<Rightarrow> Inl (Vmm ''debugfs rdump terminated by a signal''))))"

section \<open>Links that leave the destination\<close>

text \<open>\<open>canon removed p\<close> is the path the kernel resolves \<open>p\<close> to once the links in \<open>removed\<close> are gone, \<open>None\<close> when
  it does not resolve; \<open>rm p\<close> is the error of removing \<open>p\<close>.\<close>

fun sanitize_entries ::
    "fmt \<Rightarrow> (string set \<Rightarrow> string \<Rightarrow> string option) \<Rightarrow> (string \<Rightarrow> io_kind option) \<Rightarrow> string \<Rightarrow> string \<Rightarrow> dirent list
      \<Rightarrow> walk \<Rightarrow> string set \<Rightarrow> (VmmError + walk) \<times> string set" where
  "sanitize_entries f canon rm root d [] st removed = (Inr st, removed)"
| "sanitize_entries f canon rm root d (BadEntry k # es) st removed =
     (Inl (Vmm (''read output entry: '' @ io_display f k)), removed)"
| "sanitize_entries f canon rm root d (BadType k # es) st removed =
     (Inl (Vmm (''stat output entry: '' @ io_display f k)), removed)"
| "sanitize_entries f canon rm root d (Sub n sub # es) st removed =
     sanitize_entries f canon rm root d es ((path_push d n, sub) # st) removed"
| "sanitize_entries f canon rm root d (Leaf n link meta # es) st removed =
     (let path = path_push d n in
      if \<not> link then sanitize_entries f canon rm root d es st removed
      else if (case canon removed path of Some real \<Rightarrow> path_starts_with real root | None \<Rightarrow> False)
      then sanitize_entries f canon rm root d es st removed
      else
        (case rm path of
           Some k \<Rightarrow> (Inl (Vmm (''drop escaping symlink '' @ path @ '': '' @ io_display f k)), removed)
         | None \<Rightarrow> sanitize_entries f canon rm root d es st (insert path removed)))"

lemma sanitize_entries_weight:
  "sanitize_entries f canon rm root d es st removed = (Inr st', removed')
    \<Longrightarrow> weight_walk st' \<le> weight_walk st + size_list size es"
  by (induction f canon rm root d es st removed rule: sanitize_entries.induct)
     (auto simp: Let_def split: if_splits option.splits)

function sanitize_loop ::
    "fmt \<Rightarrow> (string set \<Rightarrow> string \<Rightarrow> string option) \<Rightarrow> (string \<Rightarrow> io_kind option) \<Rightarrow> string \<Rightarrow> walk \<Rightarrow> string set
      \<Rightarrow> (VmmError + unit) \<times> string set" where
  "sanitize_loop f canon rm root [] removed = (Inr (), removed)"
| "sanitize_loop f canon rm root ((d, Unreadable k) # st) removed =
     (Inl (Vmm (''scan output dir '' @ d @ '': '' @ io_display f k)), removed)"
| "sanitize_loop f canon rm root ((d, Listing es) # st) removed =
     (case sanitize_entries f canon rm root d es st removed of
        (Inl e, removed1) \<Rightarrow> (Inl e, removed1)
      | (Inr st1, removed1) \<Rightarrow> sanitize_loop f canon rm root st1 removed1)"
  by pat_completeness auto
termination
  by (relation "measure (\<lambda>(_, _, _, _, st, _). weight_walk st)") (auto dest!: sanitize_entries_weight [OF sym])

definition sanitize_symlinks ::
    "fmt \<Rightarrow> (string set \<Rightarrow> string \<Rightarrow> string option) \<Rightarrow> (string \<Rightarrow> io_kind option) \<Rightarrow> io_kind \<Rightarrow> string \<Rightarrow> dir
      \<Rightarrow> (VmmError + unit) \<times> string set" where
  "sanitize_symlinks f canon rm canon_err dest content =
     (case canon {} dest of
        None \<Rightarrow> (Inl (Vmm (''canonicalize output dir '' @ dest @ '': '' @ io_display f canon_err)), {})
      | Some root \<Rightarrow> sanitize_loop f canon rm root [(dest, content)] {})"

section \<open>The manifest\<close>

text \<open>\<open>strip_prefix\<close> of a path found below \<open>dest\<close>.\<close>

definition below :: "string \<Rightarrow> string \<Rightarrow> string" where
  "below dest p = dropWhile (\<lambda>c. c = slash) (drop (length dest) p)"

fun paths_entries ::
    "fmt \<Rightarrow> string \<Rightarrow> string set \<Rightarrow> string \<Rightarrow> dirent list \<Rightarrow> walk \<Rightarrow> string list \<Rightarrow> VmmError + walk \<times> string list" where
  "paths_entries f dest removed d [] st out = Inr (st, out)"
| "paths_entries f dest removed d (BadEntry k # es) st out = Inl (Vmm (''read output entry: '' @ io_display f k))"
| "paths_entries f dest removed d (BadType k # es) st out = Inl (Vmm (''stat output entry: '' @ io_display f k))"
| "paths_entries f dest removed d (Sub n sub # es) st out =
     paths_entries f dest removed d es ((path_push d n, sub) # st) out"
| "paths_entries f dest removed d (Leaf n link meta # es) st out =
     (if path_push d n \<in> removed then paths_entries f dest removed d es st out
      else case from_utf8 (as_bytes (below dest (path_push d n))) of
             Some s \<Rightarrow> paths_entries f dest removed d es st (out @ [s])
           | None \<Rightarrow> paths_entries f dest removed d es st out)"

lemma paths_entries_weight:
  "paths_entries f dest removed d es st out = Inr (st', out') \<Longrightarrow> weight_walk st' \<le> weight_walk st + size_list size es"
  by (induction f dest removed d es st out rule: paths_entries.induct) (auto split: if_splits option.splits)

function paths_loop :: "fmt \<Rightarrow> string \<Rightarrow> string set \<Rightarrow> walk \<Rightarrow> string list \<Rightarrow> VmmError + string list" where
  "paths_loop f dest removed [] out = Inr out"
| "paths_loop f dest removed ((d, Unreadable k) # st) out = Inl (Vmm (''list output dir '' @ d @ '': '' @ io_display f k))"
| "paths_loop f dest removed ((d, Listing es) # st) out =
     (case paths_entries f dest removed d es st out of
        Inl e \<Rightarrow> Inl e
      | Inr (st1, out1) \<Rightarrow> paths_loop f dest removed st1 out1)"
  by pat_completeness auto
termination
  by (relation "measure (\<lambda>(_, _, _, st, _). weight_walk st)") (auto dest!: paths_entries_weight)

definition collect_paths :: "fmt \<Rightarrow> string set \<Rightarrow> string \<Rightarrow> dir \<Rightarrow> VmmError + string list" where
  "collect_paths f removed dest content =
     and_then (paths_loop f dest removed [(dest, content)] []) (\<lambda>out. Inr (sort out))"

text \<open>The whole read-back: \<open>content\<close> is the tree the extraction left, \<open>lost\<close> the failure to remove
  \<open>lost+found\<close>.\<close>

definition without_lost :: "bool \<Rightarrow> dir \<Rightarrow> dir" where
  "without_lost gone d =
     (case d of
        Unreadable k \<Rightarrow> Unreadable k
      | Listing es \<Rightarrow> Listing (if gone then filter (\<lambda>e. case e of Sub n _ \<Rightarrow> n \<noteq> ''lost+found'' | _ \<Rightarrow> True) es else es))"

record output_host =
  oh_mkdir :: "io_kind option"
  oh_fsck :: readback
  oh_rdump :: readback
  oh_now :: "nat \<Rightarrow> nat"
  oh_seen :: "nat \<Rightarrow> dir"
  oh_content :: dir
  oh_lost :: "io_kind option"
  oh_canon :: "string set \<Rightarrow> string \<Rightarrow> string option"
  oh_canon_err :: io_kind
  oh_rm :: "string \<Rightarrow> io_kind option"

definition collect_output_image :: "fmt \<Rightarrow> output_host \<Rightarrow> string \<Rightarrow> (VmmError + string list) \<times> string set" where
  "collect_output_image f oh dest =
     (case oh_mkdir oh of
        Some k \<Rightarrow> (Inl (Vmm (''create output dir '' @ dest @ '': '' @ io_display f k)), {})
      | None \<Rightarrow>
          (let deadline = oh_now oh 0 + OUTPUT_READBACK_TIMEOUT in
           case and_then (fsck_output_image f (oh_fsck oh) deadline (oh_now oh 1)) (\<lambda>_.
                rdump_capped f (oh_rdump oh) (oh_seen oh) dest OUTPUT_EXTRACT_CAP deadline (oh_now oh 2)) of
             Inl e \<Rightarrow> (Inl e, {})
           | Inr _ \<Rightarrow>
               (let content = without_lost (oh_lost oh = None) (oh_content oh) in
                case sanitize_symlinks f (oh_canon oh) (oh_rm oh) (oh_canon_err oh) dest content of
                  (Inl e, removed) \<Rightarrow> (Inl e, removed)
                | (Inr _, removed) \<Rightarrow> (collect_paths f removed dest content, removed))))"

section \<open>The walk counts exactly the tree\<close>

primrec count_ent :: "dirent \<Rightarrow> nat \<times> nat" and count_dir :: "dir \<Rightarrow> nat \<times> nat" where
  "count_ent (BadEntry k) = (0, 0)"
| "count_ent (BadType k) = (0, 0)"
| "count_ent (Leaf n link meta) = ((case meta of Some (b, _) \<Rightarrow> b | None \<Rightarrow> 0), 1)"
| "count_ent (Sub n d) = count_dir d"
| "count_dir (Unreadable k) = (0, 0)"
| "count_dir (Listing es) = (sum_list (map fst (map count_ent es)), sum_list (map snd (map count_ent es)))"

definition count_walk :: "walk \<Rightarrow> nat \<times> nat" where
  "count_walk st = (sum_list (map (\<lambda>(_, d). fst (count_dir d)) st), sum_list (map (\<lambda>(_, d). snd (count_dir d)) st))"

lemma count_walk_simps [simp]:
  "count_walk [] = (0, 0)"
  "fst (count_walk ((p, d) # st)) = fst (count_dir d) + fst (count_walk st)"
  "snd (count_walk ((p, d) # st)) = snd (count_dir d) + snd (count_walk st)"
  by (simp_all add: count_walk_def)

lemma measure_entries_count:
  assumes "measure_entries f d es st bytes files = Inr (st', b', n')" "b' < u64_max"
  shows "b' + fst (count_walk st') = bytes + fst (count_walk st) + sum_list (map fst (map count_ent es))
    \<and> n' + snd (count_walk st') = files + snd (count_walk st) + sum_list (map snd (map count_ent es))
    \<and> bytes \<le> b'"
  using assms
proof (induction f d es st bytes files rule: measure_entries.induct)
  case (5 f d n link len es st bytes files)
  let ?b = "case len of Some (b, _) \<Rightarrow> min (bytes + b) u64_max | None \<Rightarrow> bytes"
  have ih: "b' + fst (count_walk st') = ?b + fst (count_walk st) + sum_list (map fst (map count_ent es))
    \<and> n' + snd (count_walk st') = (files + 1) + snd (count_walk st) + sum_list (map snd (map count_ent es)) \<and> ?b \<le> b'"
    using "5.IH" "5.prems" by simp
  then have "?b < u64_max" using "5.prems"(2) by linarith
  then have "?b = bytes + (case len of Some (b, _) \<Rightarrow> b | None \<Rightarrow> 0)" by (auto split: option.splits simp: min_def split: if_splits)
  then show ?case using ih by simp
qed auto

lemma measure_loop_exact:
  assumes "measure_loop f st bytes files = Inr (b, n)" "bytes \<le> MAX_INPUT_BYTES"
  shows "b = bytes + fst (count_walk st) \<and> n = files + snd (count_walk st) \<and> b \<le> MAX_INPUT_BYTES"
  using assms
proof (induction f st bytes files rule: measure_loop.induct)
  case (3 f d es st bytes files)
  then obtain st1 b1 n1 where e: "measure_entries f d es st bytes files = Inr (st1, b1, n1)" "b1 \<le> MAX_INPUT_BYTES"
      "measure_loop f st1 b1 n1 = Inr (b, n)"
    by (auto split: sum.splits prod.splits if_splits)
  then have "b1 < u64_max" by (simp add: MAX_INPUT_BYTES_def u64_max_def)
  then have c: "b1 + fst (count_walk st1) = bytes + fst (count_walk st) + sum_list (map fst (map count_ent es))"
      "n1 + snd (count_walk st1) = files + snd (count_walk st) + sum_list (map snd (map count_ent es))"
    using measure_entries_count [OF e(1)] by simp_all
  have "b = b1 + fst (count_walk st1) \<and> n = n1 + snd (count_walk st1) \<and> b \<le> MAX_INPUT_BYTES"
    using "3.IH" e by (simp add: not_less)
  then show ?case using c by (simp add: add.commute)
qed auto

lemma measure_tree_exact:
  "measure_tree f d root = Inr (b, n) \<Longrightarrow> (b, n) = count_dir root \<and> b \<le> MAX_INPUT_BYTES"
  using measure_loop_exact [of f "[(d, root)]" 0 0 b n] by (simp add: measure_tree_def prod_eq_iff)

lemma input_image_holds: "bytes \<le> input_size_mib bytes * (1024 * 1024)"
proof -
  have "bytes < (bytes div 1048576 + 1) * 1048576"
    using div_mult_mod_eq [of bytes 1048576] mod_less_divisor [of 1048576 bytes] by (simp add: algebra_simps)
  moreover have "bytes div 1048576 + 1 \<le> input_size_mib bytes" unfolding input_size_mib_def by simp
  ultimately show ?thesis by simp
qed

section \<open>The helpers end\<close>

lemma wait_helper_ends:
  assumes "wait_helper f poll budget cost deadline what n now = (r, h, now')" "\<forall>n. cost n \<le> c"
  shows "now' \<le> max now (deadline + POLL_SLEEP) + c"
  using assms
proof (induction f poll budget cost deadline what n now rule: wait_helper.induct)
  case (1 f poll budget cost deadline what n now)
  note eq = "1.prems"(1) [unfolded wait_helper.simps [of f poll budget cost deadline what n now]]
  show ?case
  proof (cases "poll n = Inr None \<and> budget n = None \<and> now + cost n < deadline")
    case True
    then have "wait_helper f poll budget cost deadline what (Suc n) (now + cost n + POLL_SLEEP) = (r, h, now')"
      using eq by simp
    then have "now' \<le> max (now + cost n + POLL_SLEEP) (deadline + POLL_SLEEP) + c"
      using "1.IH" True "1.prems"(2) by simp
    then show ?thesis using True by simp
  next
    case False
    moreover have "cost n \<le> c" using "1.prems"(2) by blast
    ultimately show ?thesis using eq by (auto split: sum.splits option.splits if_splits)
  qed
qed

section \<open>No link out of the destination survives\<close>

primrec links_ent :: "dirent \<Rightarrow> string \<Rightarrow> string set" and links_dir :: "dir \<Rightarrow> string \<Rightarrow> string set" where
  "links_ent (BadEntry k) p = {}"
| "links_ent (BadType k) p = {}"
| "links_ent (Leaf n link meta) p = (if link then {path_push p n} else {})"
| "links_ent (Sub n d) p = links_dir d (path_push p n)"
| "links_dir (Unreadable k) p = {}"
| "links_dir (Listing es) p = \<Union> (set (map (\<lambda>l. l p) (map links_ent es)))"

definition links_walk :: "walk \<Rightarrow> string set" where
  "links_walk st = (\<Union>(p, d) \<in> set st. links_dir d p)"

lemma links_walk_simps [simp]: "links_walk [] = {}" "links_walk ((p, d) # st) = links_dir d p \<union> links_walk st"
  by (auto simp: links_walk_def)

text \<open>Removing links makes paths dangle, it never makes one resolve elsewhere.\<close>

definition canon_law :: "(string set \<Rightarrow> string \<Rightarrow> string option) \<Rightarrow> bool" where
  "canon_law canon \<longleftrightarrow> (\<forall>removed more p real. canon (removed \<union> more) p = Some real \<longrightarrow> canon removed p = Some real)"

definition contained :: "(string set \<Rightarrow> string \<Rightarrow> string option) \<Rightarrow> string \<Rightarrow> string set \<Rightarrow> string \<Rightarrow> bool" where
  "contained canon root removed p \<longleftrightarrow> p \<in> removed \<or> (\<forall>real. canon removed p = Some real \<longrightarrow> path_starts_with real root)"

lemma contained_mono: "canon_law canon \<Longrightarrow> contained canon root removed p \<Longrightarrow> removed \<subseteq> removed' \<Longrightarrow> contained canon root removed' p"
  unfolding canon_law_def contained_def by (metis sup.absorb_iff2 subsetD)

lemma sanitize_entries_sound:
  assumes "sanitize_entries f canon rm root d es st removed = (Inr st', removed')" "canon_law canon"
  shows "removed \<subseteq> removed'"
    and "\<Union> (set (map (\<lambda>l. l d) (map links_ent es))) \<union> links_walk st \<subseteq> links_walk st' \<union> {p. contained canon root removed' p}"
  using assms
proof (induction f canon rm root d es st removed rule: sanitize_entries.induct)
  case (5 f canon rm root d n link meta es st removed)
  let ?p = "path_push d n"
  {
    case 1
    then show ?case using "5.IH"(1,3,5) by (auto simp: Let_def split: if_splits option.splits)
  next
    case 2
    show ?case
    proof (cases "link \<and> \<not> (case canon removed ?p of Some real \<Rightarrow> path_starts_with real root | None \<Rightarrow> False)")
      case True
      then have s: "sanitize_entries f canon rm root d es st (insert ?p removed) = (Inr st', removed')" "rm ?p = None"
        using 2 by (auto simp: Let_def split: option.splits)
      have "insert ?p removed \<subseteq> removed'" using "5.IH"(5) True s 2 by auto
      then show ?thesis using "5.IH"(6) True s 2 by (auto simp: contained_def)
    next
      case False
      then have s: "sanitize_entries f canon rm root d es st removed = (Inr st', removed')"
        using 2 by (auto simp: Let_def split: if_splits)
      have "link \<Longrightarrow> contained canon root removed ?p" using False by (auto simp: contained_def split: option.splits)
      moreover have "removed \<subseteq> removed'" using "5.IH"(1,3) False s 2 by auto
      ultimately have "link \<Longrightarrow> contained canon root removed' ?p" using contained_mono 2(2) by blast
      then show ?thesis using "5.IH"(2,4) False s 2 by auto
    qed
  }
qed auto

lemma sanitize_loop_sound:
  assumes "sanitize_loop f canon rm root st removed = (Inr u, removed')" "canon_law canon"
  shows "removed \<subseteq> removed' \<and> links_walk st \<subseteq> {p. contained canon root removed' p}"
  using assms
proof (induction f canon rm root st removed rule: sanitize_loop.induct)
  case (3 f canon rm root d es st removed)
  then obtain st1 r1 where e: "sanitize_entries f canon rm root d es st removed = (Inr st1, r1)"
      "sanitize_loop f canon rm root st1 r1 = (Inr u, removed')"
    by (auto split: prod.splits sum.splits)
  note s = sanitize_entries_sound [OF e(1) "3.prems"(2)]
  have ih: "r1 \<subseteq> removed' \<and> links_walk st1 \<subseteq> {p. contained canon root removed' p}"
    using "3.IH" e "3.prems"(2) by simp
  then have "{p. contained canon root r1 p} \<subseteq> {p. contained canon root removed' p}"
    using contained_mono [OF "3.prems"(2)] by blast
  then show ?case using s ih by auto
qed auto


text \<open>A guest that plants \<open>out -> /etc\<close>, \<open>in -> a\<close>, and a link through the first.\<close>

definition planted :: dir where
  "planted = Listing [Leaf ''a'' False (Some (5, 8)), Leaf ''out'' True None, Leaf ''in'' True None,
     Sub ''s'' (Listing [Leaf ''via'' True None])]"

definition planted_canon :: "string set \<Rightarrow> string \<Rightarrow> string option" where
  "planted_canon removed p =
     (if p \<in> removed then None
      else if p = ''/o'' then Some ''/o''
      else if p = ''/o/out'' then Some ''/etc''
      else if p = ''/o/in'' then Some ''/o/a''
      else if p = ''/o/s/via'' \<and> ''/o/out'' \<notin> removed then Some ''/etc/shadow''
      else None)"


end
