(* ===== verification/Console.thy ===== *)
theory Console
  imports StrLib "HOL-Library.Sublist"
begin

text \<open>
  The serial console, \<open>crates/vmm/src/console.rs\<close>: the capped buffer its reader thread appends to, the
  search for the userspace marker and the tail put into error messages. The lock is taken for every
  access, so the state is the buffer; the end of the thread is not represented. The lemmas say that
  the buffer is always a bounded end of what the guest printed, and holds at least its last MiB.
\<close>

definition CONSOLE_CAP :: usize where "CONSOLE_CAP = 2 ^ 20"
definition CONSOLE_SLACK :: usize where "CONSOLE_SLACK = CONSOLE_CAP"

definition append_capped :: "bytes \<Rightarrow> bytes \<Rightarrow> bytes" where
  "append_capped buf chunk =
     (let b = buf @ chunk in
      if length b > CONSOLE_CAP + CONSOLE_SLACK then drop (length b - CONSOLE_CAP) b else b)"

text \<open>The reader thread: every chunk it reads, until the end of the stream or an error.\<close>

definition console_reader :: "bytes list \<Rightarrow> bytes" where
  "console_reader chunks = foldl append_capped [] chunks"

definition windows :: "nat \<Rightarrow> 'a list \<Rightarrow> 'a list list" where
  "windows n xs = map (\<lambda>i. take n (drop i xs)) [0 ..< Suc (length xs) - n]"

definition find_bytes :: "bytes \<Rightarrow> bytes \<Rightarrow> bool" where
  "find_bytes haystack needle =
     (if needle = [] then True
      else if length haystack < length needle then False
      else list_ex (\<lambda>w. w = needle) (windows (length needle) haystack))"

definition console_contains :: "bytes \<Rightarrow> string \<Rightarrow> bool" where
  "console_contains buf marker = find_bytes buf (as_bytes marker)"

definition console_snapshot :: "bytes \<Rightarrow> string" where
  "console_snapshot buf = from_utf8_lossy buf"

definition trim_end :: "string \<Rightarrow> string" where
  "trim_end s = string_of_chars (rev (dropWhile is_whitespace (rev (utf8_chars s))))"

fun join_bars :: "string list \<Rightarrow> string" where
  "join_bars [] = []"
| "join_bars [s] = s"
| "join_bars (s # ss) = s @ '' | '' @ join_bars ss"

definition last_lines :: "string \<Rightarrow> nat \<Rightarrow> string option" where
  "last_lines t n =
     (let tail = take n (rev (filter (\<lambda>l. l \<noteq> []) (map trim_end (str_lines t)))) in
      if tail = [] then None else Some (join_bars (rev tail)))"

section \<open>What the buffer holds\<close>

definition console_ok :: "bytes \<Rightarrow> bytes \<Rightarrow> bool" where
  "console_ok printed buf \<longleftrightarrow>
     suffix buf printed \<and> min (length printed) CONSOLE_CAP \<le> length buf \<and> length buf \<le> CONSOLE_CAP + CONSOLE_SLACK"

lemma append_capped_ok:
  assumes "console_ok printed buf"
  shows "console_ok (printed @ chunk) (append_capped buf chunk)"
proof -
  have "suffix (buf @ chunk) (printed @ chunk)" using assms by (auto simp: console_ok_def suffix_def)
  then have "suffix (drop n (buf @ chunk)) (printed @ chunk)" for n
    using suffix_drop suffix_order.trans by metis
  then show ?thesis using assms \<open>suffix (buf @ chunk) (printed @ chunk)\<close>
    by (auto simp: console_ok_def append_capped_def Let_def CONSOLE_SLACK_def min_def simp del: drop_append suffix_append
        split: if_splits)
qed

lemma console_reader_ok: "console_ok (concat chunks) (console_reader chunks)"
proof -
  have "console_ok printed buf \<Longrightarrow> console_ok (printed @ concat chunks) (foldl append_capped buf chunks)" for printed buf
  proof (induction chunks arbitrary: printed buf)
    case (Cons c cs)
    have "console_ok ((printed @ c) @ concat cs) (foldl append_capped (append_capped buf c) cs)"
      by (rule Cons.IH [OF append_capped_ok [OF Cons.prems]])
    then show ?case by simp
  qed simp
  from this [of "[]" "[]"] show ?thesis by (simp add: console_reader_def console_ok_def)
qed

lemma find_bytes_sublist: "find_bytes h n \<longleftrightarrow> sublist n h"
proof (cases "n = [] \<or> length h < length n")
  case True
  then show ?thesis by (auto simp: find_bytes_def dest: sublist_length_le)
next
  case False
  have "(\<exists>i < Suc (length h) - length n. take (length n) (drop i h) = n) \<longleftrightarrow> sublist n h"
  proof
    assume "\<exists>i < Suc (length h) - length n. take (length n) (drop i h) = n"
    then obtain i where "take (length n) (drop i h) = n" by blast
    then show "sublist n h" by (metis sublist_take sublist_drop sublist_order.order.trans)
  next
    assume "sublist n h"
    then obtain a b where h: "h = a @ n @ b" by (auto simp: sublist_def)
    then show "\<exists>i < Suc (length h) - length n. take (length n) (drop i h) = n"
      by (intro exI [of _ "length a"]) simp
  qed
  moreover have "n \<in> set (windows (length n) h) \<longleftrightarrow> (\<exists>i < Suc (length h) - length n. take (length n) (drop i h) = n)"
    by (force simp: windows_def)
  ultimately show ?thesis using False by (simp add: find_bytes_def list_ex_iff)
qed

text \<open>A marker printed within the last MiB is seen; one that is seen was printed.\<close>

lemma marker_seen:
  assumes "console_contains (console_reader chunks) marker"
  shows "sublist (as_bytes marker) (concat chunks)"
  using assms console_reader_ok [of chunks]
  by (auto simp: console_contains_def find_bytes_sublist console_ok_def intro: sublist_order.order.trans suffix_imp_sublist)

lemma marker_not_missed:
  assumes "concat chunks = before @ as_bytes marker @ behind" "length (as_bytes marker @ behind) \<le> CONSOLE_CAP"
  shows "console_contains (console_reader chunks) marker"
proof -
  let ?buf = "console_reader chunks" and ?t = "as_bytes marker @ behind"
  have "suffix ?buf (concat chunks)" "suffix ?t (concat chunks)" "length ?t \<le> length ?buf"
    using console_reader_ok [of chunks] assms by (auto simp: console_ok_def suffix_def)
  then have "suffix ?t ?buf" by (meson suffix_length_suffix)
  then show ?thesis by (auto simp: console_contains_def find_bytes_sublist suffix_def sublist_def)
qed

end
