(* ===== verification/Host.thy ===== *)
theory Host
  imports Firecracker Drives Console
begin

text \<open>
  The host as a launch changes it: the resources that outlive a call (scratch directories, staged
  files, network namespaces, mounts, cgroups, VMM and sentinel processes), the clock, and the calls
  that take and give back these resources (\<open>net.rs\<close>, \<open>lifetime.rs\<close>, and the spawning and reclaiming
  parts of \<open>spawn.rs\<close>, \<open>jail.rs\<close>, \<open>vm.rs\<close> and \<open>snapshot.rs\<close> under \<open>crates/vmm/src\<close>). What a system
  call or a tool yields is read from the record \<open>env\<close> by the number of the call. Contents and modes
  of files are not represented; whatever lies below a scratch directory goes with it.
\<close>

section \<open>Resources\<close>

datatype resource =
    Dir string | File string | Netns string | Mount string | Cgroup string | VmmProc nat | Sentinel nat

record host =
  hs_res :: "resource set"
  hs_now :: nat
  hs_step :: nat \<comment> \<open>calls made so far\<close>
  hs_next :: nat \<comment> \<open>the next process\<close>
  hs_seq :: u64 \<comment> \<open>\<open>VM_SEQ\<close>\<close>
  hs_api :: "(string \<times> string \<times> json \<times> nat) list" \<comment> \<open>requests sent to API sockets, with their timeouts\<close>
  hs_cmds :: "(nat \<times> string list) list" \<comment> \<open>processes started, with their command lines\<close>

text \<open>\<open>en_io\<close> is the failure of a call, \<open>en_release\<close> whether the host lets a resource go, \<open>en_partial\<close>
  whether a failed \<open>ip netns add\<close> leaves a namespace behind, \<open>en_residue\<close> the same of the jailer's cgroup and
  of the files of a snapshot, \<open>en_cost\<close> the time a call takes.\<close>

record env =
  en_fmt :: fmt
  en_serde :: serde
  en_view :: doctor_view
  en_pid :: u32
  en_io :: "nat \<Rightarrow> io_kind option"
  en_release :: "resource \<Rightarrow> nat \<Rightarrow> bool"
  en_residue :: "nat \<Rightarrow> bool"
  en_partial :: "nat \<Rightarrow> bool"
  en_tool :: "nat \<Rightarrow> tool"
  en_status :: "int option \<Rightarrow> string" \<comment> \<open>an exit status, displayed\<close>
  en_eexist :: string \<comment> \<open>what \<open>ip\<close> writes for a name in use\<close>
  en_cost :: "nat \<Rightarrow> nat"
  en_peer :: "nat \<Rightarrow> api_peer"
  en_exit :: "nat \<Rightarrow> io_kind + string option"
  en_console :: "nat \<Rightarrow> bytes"
  en_connects :: "nat \<Rightarrow> bool"
  en_dial :: "nat \<Rightarrow> io_kind + stream"
  en_proc_cgroup :: "nat \<Rightarrow> string option"
  en_log :: "nat \<Rightarrow> string" \<comment> \<open>the VMM's standard error, empty when unreadable\<close>
  en_len :: "string \<Rightarrow> u64 option"
  en_owner :: "string \<Rightarrow> io_kind + u32 \<times> nat"
  en_input :: "string \<Rightarrow> bool \<times> dir" \<comment> \<open>is a directory, and its contents\<close>

definition tick :: "env \<Rightarrow> host \<Rightarrow> host" where
  "tick env h = h\<lparr>hs_step := Suc (hs_step h), hs_now := hs_now h + en_cost env (hs_step h)\<rparr>"

definition ask :: "env \<Rightarrow> (nat \<Rightarrow> 'a) \<Rightarrow> host \<Rightarrow> 'a \<times> host" where
  "ask env q h = (q (hs_step h), tick env h)"

definition try_io :: "env \<Rightarrow> (io_kind \<Rightarrow> 'e) \<Rightarrow> (host, 'e, unit) smethod" where
  "try_io env err h =
     (case ask env (en_io env) h of (Some k, h1) \<Rightarrow> (Inl (err k), h1) | (None, h1) \<Rightarrow> (Inr (), h1))"

definition acquire :: "resource \<Rightarrow> host \<Rightarrow> host" where
  "acquire r h = h\<lparr>hs_res := insert r (hs_res h)\<rparr>"

definition discard :: "resource \<Rightarrow> host \<Rightarrow> host" where
  "discard r h = h\<lparr>hs_res := hs_res h - {r}\<rparr>"

definition release :: "env \<Rightarrow> resource \<Rightarrow> host \<Rightarrow> host" where
  "release env r h = (case ask env (en_release env r) h of (True, h1) \<Rightarrow> discard r h1 | (False, h1) \<Rightarrow> h1)"

text \<open>A sleep lasts at least as long as asked and never no time at all.\<close>

definition thread_sleep :: "nat \<Rightarrow> host \<Rightarrow> host" where
  "thread_sleep d h = h\<lparr>hs_now := hs_now h + max 1 d\<rparr>"

definition inside :: "string \<Rightarrow> resource \<Rightarrow> bool" where
  "inside p r = (case r of Dir d \<Rightarrow> path_starts_with d p | File d \<Rightarrow> path_starts_with d p | _ \<Rightarrow> False)"

definition mounted_under :: "string \<Rightarrow> resource \<Rightarrow> bool" where
  "mounted_under p r = (case r of Mount m \<Rightarrow> path_starts_with m p | _ \<Rightarrow> False)"

text \<open>\<open>remove_dir_all\<close> does not get past a mount point; what it removes before it fails is content of
  the directory.\<close>

definition remove_tree :: "env \<Rightarrow> string \<Rightarrow> host \<Rightarrow> host" where
  "remove_tree env p h =
     (case ask env (en_release env (Dir p)) h of
        (ok, h1) \<Rightarrow>
          if ok \<and> (\<forall>r \<in> hs_res h1. \<not> mounted_under p r)
          then h1\<lparr>hs_res := {r \<in> hs_res h1. \<not> inside p r}\<rparr>
          else h1)"

text \<open>A directory is removed alone only when it is empty.\<close>

definition remove_empty :: "env \<Rightarrow> string \<Rightarrow> host \<Rightarrow> host" where
  "remove_empty env p h =
     (case ask env (en_release env (Dir p)) h of
        (ok, h1) \<Rightarrow> if ok \<and> (\<forall>r \<in> hs_res h1. inside p r \<longrightarrow> r = Dir p) then discard (Dir p) h1 else h1)"

section \<open>Processes\<close>

definition spawn_child :: "(nat \<Rightarrow> resource) \<Rightarrow> string list \<Rightarrow> host \<Rightarrow> nat \<times> host" where
  "spawn_child mk argv h =
     (let p = hs_next h in (p, (acquire (mk p) h)\<lparr>hs_next := Suc p, hs_cmds := hs_cmds h @ [(p, argv)]\<rparr>))"

text \<open>\<open>kill\<close> and \<open>wait\<close> of a child: \<open>SIGKILL\<close> cannot be refused and \<open>wait\<close> returns once it is gone.\<close>

definition kill_wait :: "env \<Rightarrow> resource \<Rightarrow> host \<Rightarrow> host" where
  "kill_wait env r h = discard r (tick env h)"

section \<open>The API\<close>

definition api_call :: "env \<Rightarrow> string \<Rightarrow> string \<Rightarrow> json \<Rightarrow> nat \<Rightarrow> (host, VmmError, unit) smethod" where
  "api_call env meth path body timeout h =
     (case ask env (en_peer env) h of
        (peer, h1) \<Rightarrow>
          (ApiClient_send (en_fmt env) (en_serde env) peer meth path body,
           h1\<lparr>hs_api := hs_api h1 @ [(meth, path, body, timeout)]\<rparr>))"

definition api_put :: "env \<Rightarrow> string \<Rightarrow> json \<Rightarrow> (host, VmmError, unit) smethod" where
  "api_put env path body = api_call env ''PUT'' path body API_TIMEOUT"

definition api_patch :: "env \<Rightarrow> string \<Rightarrow> json \<Rightarrow> (host, VmmError, unit) smethod" where
  "api_patch env path body = api_call env ''PATCH'' path body API_TIMEOUT"

section \<open>The tap\<close>

definition TAP_NAME :: string where "TAP_NAME = ''fc0''"
definition GUEST_MAC :: string where "GUEST_MAC = ''02:00:00:00:00:02''"
definition HOST_IP :: string where "HOST_IP = ''10.200.0.1''"
definition GUEST_IP :: string where "GUEST_IP = ''10.200.0.2''"
definition HOST_PREFIX :: nat where "HOST_PREFIX = 30"
definition HOST_IP6 :: string where "HOST_IP6 = ''fd00:200::1''"
definition GUEST_IP6 :: string where "GUEST_IP6 = ''fd00:200::2''"
definition HOST_PREFIX6 :: nat where "HOST_PREFIX6 = 64"

record GuestLink =
  gl_host :: string
  gl_guest :: string
  gl_prefix_len :: nat

record Tap =
  tp_netns :: string
  tp_name :: string
  tp_mac :: string
  tp_v4 :: GuestLink
  tp_v6 :: "GuestLink option"

definition netns_path :: "string \<Rightarrow> string" where "netns_path name = path_push ''/run/netns'' name"

definition netns_exists :: "string \<Rightarrow> host \<Rightarrow> bool" where
  "netns_exists name h \<longleftrightarrow> Netns name \<in> hs_res h"

definition ip_netns_add :: "env \<Rightarrow> string \<Rightarrow> (host, VmmError, unit) smethod" where
  "ip_netns_add env name h =
     (case ask env (en_tool env) h of
        (ToolSpawn k, h1) \<Rightarrow> (Inl (tool_spawn_error (en_fmt env) ''ip'' k), h1)
      | (ToolExit _ err, h1) \<Rightarrow>
          (Inl (Vmm (''ip netns add '' @ name @ '': '' @ trim err)),
           if en_partial env (hs_step h) then acquire (Netns name) h1 else h1)
      | (ToolOk, h1) \<Rightarrow>
          if netns_exists name h1 then (Inl (Vmm (''ip netns add '' @ name @ '': '' @ trim (en_eexist env))), h1)
          else (Inr (), acquire (Netns name) h1))"

text \<open>\<open>ip netns del\<close> under \<open>run_bounded\<close>: a failure and a helper that had to be left behind look alike.\<close>

definition netns_del :: "env \<Rightarrow> string \<Rightarrow> host \<Rightarrow> host" where
  "netns_del env name = release env (Netns name)"

definition netns_add :: "env \<Rightarrow> string \<Rightarrow> (host, VmmError, unit) smethod" where
  "netns_add env name h =
     (case ip_netns_add env name h of
        (Inr u, h1) \<Rightarrow> (Inr u, h1)
      | (Inl first, h1) \<Rightarrow>
          if \<not> netns_exists name h1 then (Inl first, h1)
          else ip_netns_add env name (netns_del env name h1))"

fun join_spaces :: "string list \<Rightarrow> string" where
  "join_spaces [] = []"
| "join_spaces [s] = s"
| "join_spaces (s # ss) = s @ '' '' @ join_spaces ss"

definition run_ip :: "env \<Rightarrow> string list \<Rightarrow> (host, VmmError, unit) smethod" where
  "run_ip env args h =
     (case ask env (en_tool env) h of
        (ToolSpawn k, h1) \<Rightarrow> (Inl (tool_spawn_error (en_fmt env) ''ip'' k), h1)
      | (ToolExit _ err, h1) \<Rightarrow> (Inl (Vmm (''ip '' @ join_spaces args @ '': '' @ trim err)), h1)
      | (ToolOk, h1) \<Rightarrow> (Inr (), h1))"

definition ip_in_ns :: "env \<Rightarrow> string \<Rightarrow> string list \<Rightarrow> (host, VmmError, unit) smethod" where
  "ip_in_ns env netns args = run_ip env ([''netns'', ''exec'', netns, ''ip''] @ args)"

definition add_host_v6 :: "env \<Rightarrow> string \<Rightarrow> host \<Rightarrow> bool \<times> host" where
  "add_host_v6 env netns h =
     (case ip_in_ns env netns [''-6'', ''addr'', ''add'', HOST_IP6 @ ''/'' @ dec HOST_PREFIX6, ''dev'', TAP_NAME, ''nodad''] h of
        (Inr _, h1) \<Rightarrow> (True, h1)
      | (Inl _, h1) \<Rightarrow> (False, h1))"

definition build_tap :: "env \<Rightarrow> string \<Rightarrow> (u32 \<times> u32) option \<Rightarrow> (host, VmmError, bool) smethod" where
  "build_tap env netns owner =
     seqm (ip_in_ns env netns [''link'', ''set'', ''dev'', ''lo'', ''up'']) (\<lambda>_.
     seqm (ip_in_ns env netns ([''tuntap'', ''add'', ''dev'', TAP_NAME, ''mode'', ''tap'']
             @ (case owner of Some (u, g) \<Rightarrow> [''user'', dec (unat u), ''group'', dec (unat g)] | None \<Rightarrow> []))) (\<lambda>_.
     seqm (ip_in_ns env netns [''link'', ''set'', ''dev'', TAP_NAME, ''up'']) (\<lambda>_.
     seqm (ip_in_ns env netns [''addr'', ''add'', HOST_IP @ ''/'' @ dec HOST_PREFIX, ''dev'', TAP_NAME]) (\<lambda>_ h.
     case add_host_v6 env netns h of (up, h1) \<Rightarrow> (Inr up, h1)))))"

definition Tap_create :: "env \<Rightarrow> string \<Rightarrow> (u32 \<times> u32) option \<Rightarrow> (host, VmmError, Tap) smethod" where
  "Tap_create env netns owner =
     seqm (netns_add env netns) (\<lambda>_ h.
     case build_tap env netns owner h of
       (Inl e, h1) \<Rightarrow> (Inl e, netns_del env netns h1)
     | (Inr v6_up, h1) \<Rightarrow>
         (Inr \<lparr>tp_netns = netns, tp_name = TAP_NAME, tp_mac = GUEST_MAC,
               tp_v4 = \<lparr>gl_host = HOST_IP, gl_guest = GUEST_IP, gl_prefix_len = HOST_PREFIX\<rparr>,
               tp_v6 = (if v6_up
                        then Some \<lparr>gl_host = HOST_IP6, gl_guest = GUEST_IP6, gl_prefix_len = HOST_PREFIX6\<rparr>
                        else None)\<rparr>, h1))"

definition Tap_delete :: "env \<Rightarrow> Tap \<Rightarrow> host \<Rightarrow> host" where
  "Tap_delete env tap = netns_del env (tp_netns tap)"

section \<open>The lifetime of a VM\<close>

definition SENTINEL_REAP_TIMEOUT :: nat where "SENTINEL_REAP_TIMEOUT = 3 * second_ns"
definition SENTINEL_POLL :: nat where "SENTINEL_POLL = 10000000"

record VmLifetime =
  lt_own_cgroup :: "string option"
  lt_watched :: "string list"
  lt_sentinel :: "nat option"
  lt_torn_down :: bool
  lt_pid :: nat

definition create_lifetime_cgroup :: "env \<Rightarrow> nat \<Rightarrow> string \<Rightarrow> (host, string, string) smethod" where
  "create_lifetime_cgroup env pid name h =
     (case ask env (en_proc_cgroup env) h of
        (t, h1) \<Rightarrow>
          (case read_cgroup_dir t of
             None \<Rightarrow> (Inl ''no cgroup v2 entry for this process'', h1)
           | Some own \<Rightarrow>
               (let dir = path_push own name in
                case ask env (en_io env) h1 of
                  (failure, h2) \<Rightarrow>
                    (case (if Cgroup dir \<in> hs_res h2 then Some AlreadyExists else failure) of
                       Some k \<Rightarrow> (Inl (''create '' @ dir @ '': '' @ io_display (en_fmt env) k), h2)
                     | None \<Rightarrow>
                         (case ask env (en_io env) (acquire (Cgroup dir) h2) of
                            (Some k, h3) \<Rightarrow>
                              (Inl (''enroll pid '' @ dec pid @ '' in '' @ dir @ '': '' @ io_display (en_fmt env) k),
                               release env (Cgroup dir) h3)
                          | (None, h3) \<Rightarrow> (Inr dir, h3))))))"

text \<open>The script, line by line; \<open>dq\<close> and \<open>sq\<close> are the two quote characters.\<close>

definition SENTINEL_SCRIPT :: string where
  "SENTINEL_SCRIPT =
     (let dq = [CHR 0x22]; sq = [CHR 0x27] in concat (map (\<lambda>line. line @ nl)
     [[],
      ''trap '' @ sq @ sq @ '' INT TERM HUP'',
      ''read _ || :'',
      ''for d in '' @ dq @ ''$@'' @ dq @ ''; do'',
      ''  [ -d '' @ dq @ ''$d'' @ dq @ '' ] && { echo 1 > '' @ dq @ ''$d/cgroup.kill'' @ dq @ ''; } 2>/dev/null'',
      ''done'',
      ''n=0'',
      ''while [ '' @ dq @ ''$n'' @ dq @ '' -lt 40 ]; do'',
      ''  left=0'',
      ''  for d in '' @ dq @ ''$@'' @ dq @ ''; do'',
      ''    if [ -d '' @ dq @ ''$d'' @ dq @ '' ]; then rmdir '' @ dq @ ''$d'' @ dq @ '' 2>/dev/null || left=1; fi'',
      ''  done'',
      ''  [ '' @ dq @ ''$left'' @ dq @ '' -eq 0 ] && exit 0'',
      ''  n=$((n+1))'',
      ''  sleep 0.05 2>/dev/null || sleep 1'',
      ''done'']))"

definition arm_sentinel :: "env \<Rightarrow> string list \<Rightarrow> host \<Rightarrow> nat option \<times> host" where
  "arm_sentinel env dirs h =
     (if dirs = [] then (None, h)
      else case ask env (en_io env) h of
             (Some _, h1) \<Rightarrow> (None, h1)
           | (None, h1) \<Rightarrow> (case spawn_child Sentinel ([''sh'', ''-c'', SENTINEL_SCRIPT, ''sentinel''] @ dirs) h1 of (p, h2) \<Rightarrow> (Some p, h2)))"

definition VmLifetime_adopt :: "env \<Rightarrow> nat \<Rightarrow> string \<Rightarrow> host \<Rightarrow> VmLifetime \<times> host" where
  "VmLifetime_adopt env pid name h =
     (case create_lifetime_cgroup env pid name h of
        (r, h1) \<Rightarrow>
          (let own_cgroup = (case r of Inr dir \<Rightarrow> Some dir | Inl _ \<Rightarrow> None);
               watched = (case own_cgroup of Some d \<Rightarrow> [d] | None \<Rightarrow> [])
           in case arm_sentinel env watched h1 of
                (s, h2) \<Rightarrow>
                  (\<lparr>lt_own_cgroup = own_cgroup, lt_watched = watched, lt_sentinel = s, lt_torn_down = False,
                    lt_pid = pid\<rparr>, h2)))"

definition VmLifetime_watch :: "env \<Rightarrow> nat \<Rightarrow> string list \<Rightarrow> host \<Rightarrow> VmLifetime \<times> host" where
  "VmLifetime_watch env pid dirs h =
     (case arm_sentinel env dirs h of
        (s, h1) \<Rightarrow>
          (\<lparr>lt_own_cgroup = None, lt_watched = dirs, lt_sentinel = s, lt_torn_down = False, lt_pid = pid\<rparr>, h1))"

definition VmLifetime_disarmed :: VmLifetime where
  "VmLifetime_disarmed =
     \<lparr>lt_own_cgroup = None, lt_watched = [], lt_sentinel = None, lt_torn_down = True, lt_pid = 0\<rparr>"

definition VmLifetime_watches :: "VmLifetime \<Rightarrow> string \<Rightarrow> bool" where
  "VmLifetime_watches lt dir = list_ex (\<lambda>w. components w = components dir) (lt_watched lt)"

definition mark_down :: "VmLifetime \<Rightarrow> VmLifetime" where
  "mark_down lt = lt\<lparr>lt_torn_down := True\<rparr>"

text \<open>The sentinel wakes when its pipe closes and removes what it watches (\<open>SENTINEL_SCRIPT\<close>).\<close>

definition sentinel_wakes :: "env \<Rightarrow> string list \<Rightarrow> host \<Rightarrow> host" where
  "sentinel_wakes env watched h = fold (\<lambda>d. release env (Cgroup d)) watched h"

lemma tick_simps [simp]:
  "hs_res (tick env h) = hs_res h" "hs_next (tick env h) = hs_next h" "hs_now h \<le> hs_now (tick env h)"
  "hs_api (tick env h) = hs_api h" "hs_seq (tick env h) = hs_seq h"
  by (simp_all add: tick_def)

function reap_sentinel :: "env \<Rightarrow> nat \<Rightarrow> nat \<Rightarrow> host \<Rightarrow> host" where
  "reap_sentinel env s deadline h =
     (case ask env (en_exit env) h of
        (Inr (Some _), h1) \<Rightarrow> discard (Sentinel s) h1
      | (Inr None, h1) \<Rightarrow>
          if hs_now h1 < deadline then reap_sentinel env s deadline (thread_sleep SENTINEL_POLL h1)
          else kill_wait env (Sentinel s) h1
      | (Inl _, h1) \<Rightarrow> kill_wait env (Sentinel s) h1)"
  by pat_completeness auto
termination
  by (relation "measure (\<lambda>(_, _, deadline, h). deadline - hs_now h)") (auto simp: ask_def tick_def thread_sleep_def)

declare reap_sentinel.simps [simp del]

definition VmLifetime_teardown :: "env \<Rightarrow> VmLifetime \<Rightarrow> host \<Rightarrow> VmLifetime \<times> host" where
  "VmLifetime_teardown env lt h =
     (let lt1 = (mark_down lt)\<lparr>lt_own_cgroup := None, lt_sentinel := None\<rparr>;
          h1 = (case lt_own_cgroup lt of Some d \<Rightarrow> release env (Cgroup d) h | None \<Rightarrow> h)
      in case lt_sentinel lt of
           None \<Rightarrow> (lt1, h1)
         | Some s \<Rightarrow>
             (let h2 = sentinel_wakes env (lt_watched lt) h1 in
              (lt1, reap_sentinel env s (hs_now h2 + SENTINEL_REAP_TIMEOUT) h2)))"

section \<open>Killing from outside\<close>

text \<open>The handle shares the flag of the lifetime; \<open>flag i\<close> is its \<open>i\<close>-th load, \<open>accepts\<close> whether a write to
  a cgroup's kill file works, \<open>signalled\<close> whether the signal is delivered.\<close>

record KillHandle =
  kh_cgroups :: "string list"
  kh_pid :: nat

datatype kill_action = NoAction | KillCgroup string | SignalPid nat

definition VmLifetime_kill_handle :: "VmLifetime \<Rightarrow> KillHandle" where
  "VmLifetime_kill_handle lt = \<lparr>kh_cgroups = lt_watched lt, kh_pid = lt_pid lt\<rparr>"

definition KillHandle_kill ::
    "(nat \<Rightarrow> bool) \<Rightarrow> (string \<Rightarrow> bool) \<Rightarrow> bool \<Rightarrow> KillHandle \<Rightarrow> (VmmError + unit) \<times> kill_action" where
  "KillHandle_kill flag accepts signalled kh =
     (if flag 0 then (Inr (), NoAction)
      else case find accepts (kh_cgroups kh) of
             Some dir \<Rightarrow> (Inr (), KillCgroup dir)
           | None \<Rightarrow>
               if flag 1 then (Inr (), NoAction)
               else if signalled \<or> flag 2 then (Inr (), SignalPid (kh_pid kh))
               else (Inl (Vmm (''kill handle could not reach VMM pid '' @ dec (kh_pid kh)
                       @ '' (no cgroup, and the pid signal failed)'')), SignalPid (kh_pid kh)))"

section \<open>Scratch directories\<close>

definition FC_STDERR :: string where "FC_STDERR = ''fc.stderr''"
definition VSOCK_UDS :: string where "VSOCK_UDS = ''v.sock''"
definition IFACE_ID :: string where "IFACE_ID = ''eth0''"
definition SUN_PATH_MAX :: usize where "SUN_PATH_MAX = 108"

definition check_sun_path :: "string \<Rightarrow> VmmError + unit" where
  "check_sun_path socket =
     (let len = length socket in
      if len + 1 > SUN_PATH_MAX
      then Inl (Vmm (''unix socket path '' @ socket @ '' is too long ('' @ dec len @ '' bytes; the kernel's limit is ''
             @ dec (SUN_PATH_MAX - 1) @ ''); use a shorter scratch dir via EKE_SCRATCH_DIR''))
      else Inr ())"

definition workdir_name :: "string \<Rightarrow> string" where
  "workdir_name workdir = (case path_file_name workdir of Some n \<Rightarrow> from_utf8_lossy (as_bytes n) | None \<Rightarrow> [])"

definition workdir_path :: "env \<Rightarrow> string \<Rightarrow> u64 \<Rightarrow> string" where
  "workdir_path env base n = path_push base (''kee-'' @ dec (unat (en_pid env)) @ ''-'' @ dec (unat n))"

fun create_workdir_loop :: "env \<Rightarrow> string \<Rightarrow> nat \<Rightarrow> (host, VmmError, string) smethod" where
  "create_workdir_loop env base 0 h =
     (Inl (Vmm (''no fresh scratch dir under '' @ base @ '' after 1024 attempts (stale agent-* dirs?)'')), h)"
| "create_workdir_loop env base (Suc tries) h =
     (let workdir = workdir_path env base (hs_seq h) in
      case ask env (en_io env) (h\<lparr>hs_seq := hs_seq h + 1\<rparr>) of
        (failure, h1) \<Rightarrow>
          (case (if Dir workdir \<in> hs_res h1 then Some AlreadyExists else failure) of
             None \<Rightarrow>
               (case try_io env (\<lambda>k. Vmm (''chmod '' @ workdir @ '': '' @ io_display (en_fmt env) k)) (acquire (Dir workdir) h1) of
                  (Inl e, h2) \<Rightarrow> (Inl e, remove_tree env workdir h2)
                | (Inr _, h2) \<Rightarrow> (Inr workdir, h2))
           | Some k \<Rightarrow>
               if k = AlreadyExists then create_workdir_loop env base tries h1
               else (Inl (Vmm (''create scratch dir '' @ workdir @ '' (is '' @ base @ '' present and writable?): ''
                      @ io_display (en_fmt env) k)), h1)))"

definition create_workdir :: "env \<Rightarrow> string \<Rightarrow> (host, VmmError, string) smethod" where
  "create_workdir env base = create_workdir_loop env base 1024"

definition reclaim_scratch :: "env \<Rightarrow> string \<Rightarrow> Tap option \<Rightarrow> host \<Rightarrow> host" where
  "reclaim_scratch env workdir tap h =
     (case tap of
        None \<Rightarrow> remove_tree env workdir h
      | Some t \<Rightarrow>
          (let h1 = Tap_delete env t h in
           if \<not> netns_exists (tp_netns t) h1 then remove_tree env workdir h1 else h1))"

definition reclaim_scratch_after_tap_failure :: "env \<Rightarrow> string \<Rightarrow> host \<Rightarrow> host" where
  "reclaim_scratch_after_tap_failure env workdir h =
     (let netns = (case path_file_name workdir of
                     Some n \<Rightarrow> (case from_utf8 (as_bytes n) of Some s \<Rightarrow> s | None \<Rightarrow> [])
                   | None \<Rightarrow> [])
      in if netns \<noteq> [] \<and> netns_exists netns h then h else remove_tree env workdir h)"

section \<open>Starting the VMM\<close>

definition console_spawn :: "env \<Rightarrow> (host, VmmError, unit) smethod" where
  "console_spawn env = try_io env (\<lambda>k. Vmm (''spawn console reader: '' @ io_display (en_fmt env) k))"

definition spawn_fc :: "env \<Rightarrow> string \<Rightarrow> string \<Rightarrow> string \<Rightarrow> string option \<Rightarrow> (host, VmmError, nat) smethod" where
  "spawn_fc env firecracker workdir socket netns h =
     (case check_sun_path socket of
        Inl e \<Rightarrow> (Inl e, h)
      | Inr _ \<Rightarrow>
          seqm (try_io env (\<lambda>k. Vmm (''create firecracker stderr log: '' @ io_display (en_fmt env) k))) (\<lambda>_.
          seqm (try_io env (\<lambda>k.
                  if k = NotFound
                  then ArtifactMissing (''not found: '' @ (if netns \<noteq> None then ''ip (iproute2)'' else firecracker))
                  else Vmm (''spawn firecracker: '' @ io_display (en_fmt env) k))) (\<lambda>_ h1.
          case spawn_child VmmProc
                 ((case netns of Some ns \<Rightarrow> [''ip'', ''netns'', ''exec'', ns, firecracker] | None \<Rightarrow> [firecracker])
                  @ [''--api-sock'', socket]) h1 of
            (child, h2) \<Rightarrow>
              (case console_spawn env h2 of
                 (Inl e, h3) \<Rightarrow> (Inl e, kill_wait env (VmmProc child) h3)
               | (Inr _, h3) \<Rightarrow> (Inr child, h3)))) h)"

definition remove_cgroup :: "env \<Rightarrow> string \<Rightarrow> host \<Rightarrow> host" where
  "remove_cgroup env dir h =
     (let h1 = release env (Cgroup dir) h in
      case path_parent dir of
        Some parent \<Rightarrow>
          if components parent \<noteq> components CGROUP_ROOT then release env (Cgroup parent) h1 else h1
      | None \<Rightarrow> h1)"

text \<open>The jailer makes the VM's cgroup on its own; whether it got that far is \<open>en_residue\<close>.\<close>

definition spawn_jailer ::
    "env \<Rightarrow> Jail \<Rightarrow> string \<Rightarrow> string \<Rightarrow> string \<Rightarrow> string list \<Rightarrow> string option
      \<Rightarrow> (host, VmmError, nat \<times> string \<times> string) smethod" where
  "spawn_jailer env jail firecracker workdir ident cgroup_args netns h =
     (let hv = host_view.truncate (en_view env) in
      case and_then (resolve_exec (en_fmt env) hv firecracker) (\<lambda>exec.
           and_then (ok_or (path_file_name exec) (Vmm (''firecracker path has no file name: '' @ exec))) (\<lambda>exec_name.
           let chroot_root = path_push (path_push (path_push workdir exec_name) ident) ''root'';
               socket = path_push chroot_root ''run/firecracker.socket''
           in and_then (check_sun_path socket) (\<lambda>_. Inr (exec, exec_name, socket, chroot_root)))) of
        Inl e \<Rightarrow> (Inl e, h)
      | Inr (exec, exec_name, socket, chroot_root) \<Rightarrow>
          seqm (try_io env (\<lambda>k. Vmm (''create firecracker stderr log: '' @ io_display (en_fmt env) k))) (\<lambda>_.
          seqm (try_io env (\<lambda>k.
                  if k = NotFound then ArtifactMissing (''jailer not found: '' @ jl_jailer jail)
                  else Vmm (''spawn jailer: '' @ io_display (en_fmt env) k))) (\<lambda>_ h1.
          case spawn_child VmmProc (jailer_argv jail exec workdir ident cgroup_args netns) h1 of
            (child, h2) \<Rightarrow>
              (let h3 = (if en_residue env (hs_step h2)
                         then acquire (Cgroup (path_push (path_push CGROUP_ROOT exec_name) ident)) h2 else h2)
               in case console_spawn env h3 of
                    (Inl e, h4) \<Rightarrow>
                      (Inl e,
                       (let h5 = kill_wait env (VmmProc child) h4 in
                        case jailer_cgroup_dir (en_fmt env) hv firecracker ident of
                          Some cgroup \<Rightarrow> remove_cgroup env cgroup h5
                        | None \<Rightarrow> h5))
                  | (Inr _, h4) \<Rightarrow> (Inr (child, socket, chroot_root), h4)))) h)"

section \<open>Staging into the chroot\<close>

definition give_to_jail :: "env \<Rightarrow> string \<Rightarrow> u32 \<Rightarrow> u32 \<Rightarrow> (host, VmmError, unit) smethod" where
  "give_to_jail env path uid gid =
     seqm (try_io env (\<lambda>k. Vmm (''chmod staged '' @ path @ '': '' @ io_display (en_fmt env) k))) (\<lambda>_.
     try_io env (\<lambda>k. Vmm (''chown staged '' @ path @ '' to '' @ dec (unat uid) @ '':'' @ dec (unat gid) @ '': ''
        @ io_display (en_fmt env) k)))"

definition stage_into_chroot ::
    "env \<Rightarrow> string \<Rightarrow> string \<Rightarrow> string \<Rightarrow> u32 \<Rightarrow> u32 \<Rightarrow> (host, VmmError, string) smethod" where
  "stage_into_chroot env root name src uid gid =
     seqm (try_io env (\<lambda>k. Vmm (''stage '' @ src @ '' into jail: '' @ io_display (en_fmt env) k))) (\<lambda>_.
     seqm (give_to_jail env (path_push root name) uid gid) (\<lambda>_. okm (''/'' @ name)))"

definition unmount :: "env \<Rightarrow> string \<Rightarrow> host \<Rightarrow> host" where
  "unmount env path = release env (Mount path)"

definition bind_ro :: "env \<Rightarrow> string \<Rightarrow> string \<Rightarrow> (host, VmmError, unit) smethod" where
  "bind_ro env src dst h =
     (case ask env (en_tool env) h of
        (ToolSpawn k, h1) \<Rightarrow> (Inl (Vmm (''spawn `mount --bind`: '' @ io_display (en_fmt env) k)), h1)
      | (ToolExit code _, h1) \<Rightarrow>
          (Inl (Vmm (''bind-mount '' @ src @ '' -> '' @ dst @ '': mount exited '' @ en_status env code)), h1)
      | (ToolOk, h1) \<Rightarrow>
          (case ask env (en_tool env) (acquire (Mount dst) h1) of
             (ToolOk, h2) \<Rightarrow> (Inr (), h2)
           | (ToolExit code _, h2) \<Rightarrow>
               (Inl (Vmm (''remount read-only '' @ dst @ '': mount exited '' @ en_status env code)), unmount env dst h2)
           | (ToolSpawn k, h2) \<Rightarrow>
               (Inl (Vmm (''spawn `mount -o remount,ro,bind`: '' @ io_display (en_fmt env) k)), unmount env dst h2)))"

definition stage_ro_base_into_chroot ::
    "env \<Rightarrow> string \<Rightarrow> string \<Rightarrow> string \<Rightarrow> string \<Rightarrow> u32 \<Rightarrow> u32 \<Rightarrow> (host, VmmError, string \<times> string option) smethod" where
  "stage_ro_base_into_chroot env root name src scratch_dir uid gid h =
     (let hv = host_view.truncate (en_view env) in
      if \<not> scratch_is_shared_mount (en_fmt env) hv scratch_dir
      then seqm (stage_into_chroot env root name src uid gid) (\<lambda>_. okm (''/'' @ name, None)) h
      else case absolute (en_fmt env) hv src of
             Inl e \<Rightarrow> (Inl e, h)
           | Inr src1 \<Rightarrow>
               (let dst = path_push root name in
                seqm (try_io env (\<lambda>k. Vmm (''create bind target '' @ dst @ '': '' @ io_display (en_fmt env) k))) (\<lambda>_.
                seqm (bind_ro env src1 dst) (\<lambda>_. okm (''/'' @ name, Some dst))) h))"

definition unmount_all :: "env \<Rightarrow> Chroot \<Rightarrow> host \<Rightarrow> host" where
  "unmount_all env c h = fold (unmount env) (ch_mounts c) h"

section \<open>The disk of a restore\<close>

definition marker_path :: "string \<Rightarrow> string" where
  "marker_path parent = path_push parent RESTORE_STAGING_MARKER"

definition ensure_private_staging_dir :: "env \<Rightarrow> string \<Rightarrow> (host, VmmError, unit) smethod" where
  "ensure_private_staging_dir env dir h =
     (case ask env (en_io env) h of
        (failure, h1) \<Rightarrow>
          (case (if Dir dir \<in> hs_res h1 then Some AlreadyExists else failure) of
             None \<Rightarrow> try_io env (\<lambda>k. Vmm (''chmod staging dir '' @ dir @ '': '' @ io_display (en_fmt env) k)) (acquire (Dir dir) h1)
           | Some k \<Rightarrow>
               if k \<noteq> AlreadyExists
               then (Inl (Vmm (''create staging dir '' @ dir @ '': '' @ io_display (en_fmt env) k)), h1)
               else case en_owner env dir of
                      Inl e \<Rightarrow> (Inl (Vmm (''stat staging dir '' @ dir @ '': '' @ io_display (en_fmt env) e)), h1)
                    | Inr (uid, mode) \<Rightarrow>
                        (case own_euid (dv_status (en_view env)) of
                           None \<Rightarrow> (Inl (Vmm ''cannot read own euid to verify the staging dir owner''), h1)
                         | Some me \<Rightarrow>
                             if uid \<noteq> me \<or> mode mod 0x200 \<noteq> 0x1C0
                             then (Inl (Vmm (''restore staging dir '' @ dir @ '' exists but is not a private (mode 0700, owner ''
                                    @ dec (unat me) @ '') directory; refusing to stage the root disk into a possibly-squatted path'')), h1)
                             else (Inr (), h1))))"

definition unstage_restore_disk :: "env \<Rightarrow> string \<Rightarrow> host \<Rightarrow> host" where
  "unstage_restore_disk env backing h =
     (let h1 = release env (File backing) h in
      case path_parent backing of
        Some parent \<Rightarrow> remove_empty env parent (release env (File (marker_path parent)) h1)
      | None \<Rightarrow> h1)"

definition reserve_restore_disk :: "env \<Rightarrow> string \<Rightarrow> (host, VmmError, unit) smethod" where
  "reserve_restore_disk env backing h =
     (case ask env (en_io env) h of
        (failure, h1) \<Rightarrow>
          (case (if File backing \<in> hs_res h1 then Some AlreadyExists else failure) of
             None \<Rightarrow> (Inr (), acquire (File backing) h1)
           | Some k \<Rightarrow>
               if k = AlreadyExists
               then (Inl (Vmm (''root disk path '' @ backing @ '' already exists: a concurrent restore of this snapshot, or a live ''
                      @ ''source VM still holding it. An unjailed restore of a read-write snapshot is ''
                      @ ''single-flight (v1.9 reopens the disk at this baked-in path); restore clones ''
                      @ ''sequentially, or use a jailed or read_only_root snapshot for concurrent clones, or ''
                      @ ''drop the source first.'')), h1)
               else (Inl (Vmm (''stage restore disk '' @ backing @ '': '' @ io_display (en_fmt env) k)), h1)))"

definition write_marker :: "env \<Rightarrow> string \<Rightarrow> (host, VmmError, unit) smethod" where
  "write_marker env backing h =
     (case path_parent backing of
        None \<Rightarrow> (Inr (), h)
      | Some parent \<Rightarrow>
          (case ask env (en_io env) h of
             (Some k, h1) \<Rightarrow>
               (Inl (Vmm (''write restore-staging marker '' @ marker_path parent @ '': '' @ io_display (en_fmt env) k)),
                unstage_restore_disk env backing h1)
           | (None, h1) \<Rightarrow> (Inr (), acquire (File (marker_path parent)) h1)))"

definition stage_restore_disk :: "env \<Rightarrow> string \<Rightarrow> (host, VmmError, unit) smethod" where
  "stage_restore_disk env backing =
     seqm (case path_parent backing of Some parent \<Rightarrow> ensure_private_staging_dir env parent | None \<Rightarrow> okm ()) (\<lambda>_.
     seqm (reserve_restore_disk env backing) (\<lambda>_.
     seqm (write_marker env backing) (\<lambda>_ h.
     case try_io env (\<lambda>k. Vmm (''stage restore disk '' @ backing @ '': '' @ io_display (en_fmt env) k)) h of
       (Inl e, h1) \<Rightarrow> (Inl e, unstage_restore_disk env backing h1)
     | (Inr _, h1) \<Rightarrow> (Inr (), h1))))"

section \<open>Giving everything back\<close>

definition teardown ::
    "env \<Rightarrow> nat \<Rightarrow> string \<Rightarrow> Tap option \<Rightarrow> Chroot option \<Rightarrow> VmLifetime \<Rightarrow> host \<Rightarrow> host" where
  "teardown env child workdir tap chroot lifetime h =
     (let h1 = kill_wait env (VmmProc child) h;
          h2 = (case Option.bind chroot ch_cgroup_dir of Some d \<Rightarrow> remove_cgroup env d h1 | None \<Rightarrow> h1);
          h3 = snd (VmLifetime_teardown env (mark_down lifetime) h2);
          h4 = (case chroot of Some c \<Rightarrow> unmount_all env c h3 | None \<Rightarrow> h3)
      in reclaim_scratch env workdir tap h4)"

end
