(* ===== verification/Boot.thy ===== *)
theory Boot
  imports Host Pool
begin

text \<open>
  A boot and a restore from the first check to the running VM, and back: \<open>Spawned\<close> of
  \<open>crates/vmm/src/spawn.rs\<close>, \<open>Vm::boot\<close>, \<open>RunningVm\<close> and its drop of \<open>vm.rs\<close>, \<open>Vm::restore\<close> and
  \<open>snapshot\<close> of \<open>snapshot.rs\<close>. Every wait ends: its loop is a total function whose measure is the time
  left to the deadline. The theorems say what each of these leaves on the host, on every path.
\<close>

section \<open>The guard of a launch\<close>

record OutputDevice =
  od_image :: string
  od_dest :: string

record Spawned =
  sp_child :: "nat option"
  sp_workdir :: string
  sp_rootfs :: string
  sp_restored :: bool
  sp_socket :: string
  sp_vsock_uds :: "string option"
  sp_input_image :: "string option"
  sp_output :: "OutputDevice option"
  sp_tap :: "Tap option"
  sp_chroot :: "Chroot option"
  sp_lifetime :: VmLifetime

record Snapshot =
  ss_state :: string
  ss_mem :: string
  ss_root_drive :: string
  ss_root_backing :: string
  ss_shared_base :: bool
  ss_has_vsock :: bool
  ss_tap_name :: "string option"
  ss_vcpus :: nat

record running_vm =
  rv_child :: nat
  rv_workdir :: string
  rv_socket :: string
  rv_boot_latency :: nat
  rv_rootfs :: string
  rv_restored :: bool
  rv_has_input :: bool
  rv_vsock_uds :: "string option"
  rv_output :: "OutputDevice option"
  rv_tap :: "Tap option"
  rv_chroot :: "Chroot option"
  rv_lifetime :: VmLifetime
  rv_exec_wall :: nat
  rv_output_cap :: usize
  rv_vcpus :: nat
  rv_mem_mib :: nat

section \<open>Deadlines and polling\<close>

definition boot_deadline :: "nat \<Rightarrow> nat \<Rightarrow> nat" where
  "boot_deadline now timeout =
     (if now + timeout \<le> instant_max then now + timeout else now + 86400 * second_ns)"

definition still_before :: "env \<Rightarrow> nat \<Rightarrow> string \<Rightarrow> (host, VmmError, unit) smethod" where
  "still_before env deadline what h =
     (let h1 = tick env h in
      if hs_now h1 \<ge> deadline then (Inl (Timeout (''boot deadline expired before '' @ what)), h1) else (Inr (), h1))"

definition POLL_INITIAL :: nat where "POLL_INITIAL = 1000000"
definition POLL_CAP :: nat where "POLL_CAP = 5000000"

definition PollBackoff_bump :: "nat \<Rightarrow> nat" where
  "PollBackoff_bump next = min (next * 2) POLL_CAP"

definition exited :: "env \<Rightarrow> nat option \<Rightarrow> (host, VmmError, string option) smethod" where
  "exited env child h =
     (case child of
        None \<Rightarrow> (Inl (Vmm ''VMM child already reclaimed''), h)
      | Some _ \<Rightarrow>
          (case ask env (en_exit env) h of
             (Inl k, h1) \<Rightarrow> (Inl (Vmm (''wait on firecracker: '' @ io_display (en_fmt env) k)), h1)
           | (Inr st, h1) \<Rightarrow> (Inr st, h1)))"

lemma exited_host: "exited env child h = (r, h1) \<Longrightarrow> h1 = h \<or> h1 = tick env h"
  by (auto simp: exited_def ask_def split: option.splits sum.splits)

lemma exited_now: "exited env child h = (r, h1) \<Longrightarrow> hs_now h \<le> hs_now h1"
  by (auto dest: exited_host)

function await_api_socket :: "env \<Rightarrow> nat option \<Rightarrow> nat \<Rightarrow> nat \<Rightarrow> (host, VmmError, unit) smethod" where
  "await_api_socket env child deadline next h =
     (case exited env child h of
        (Inl e, h1) \<Rightarrow> (Inl e, h1)
      | (Inr (Some st), h1) \<Rightarrow> (Inl (Vmm (''firecracker exited before boot ('' @ st @ '')'')), h1)
      | (Inr None, h1) \<Rightarrow>
          (case ask env (en_connects env) h1 of
             (True, h2) \<Rightarrow> (Inr (), h2)
           | (False, h2) \<Rightarrow>
               (let h3 = tick env h2 in
                if hs_now h3 \<ge> deadline then (Inl (Timeout ''firecracker API socket never became ready''), h3)
                else await_api_socket env child deadline (PollBackoff_bump next) (thread_sleep next h3))))"
  by pat_completeness auto
termination
  by (relation "measure (\<lambda>(_, _, deadline, _, h). deadline - hs_now h)")
     (auto simp: ask_def tick_def thread_sleep_def dest!: exited_now [OF sym])

function await_userspace :: "env \<Rightarrow> nat option \<Rightarrow> string \<Rightarrow> nat \<Rightarrow> nat \<Rightarrow> (host, VmmError, unit) smethod" where
  "await_userspace env child marker deadline next h =
     (case ask env (en_console env) h of
        (printed, h0) \<Rightarrow>
          if console_contains printed marker then (Inr (), h0)
          else
            (case exited env child h0 of
               (Inl e, h1) \<Rightarrow> (Inl e, h1)
             | (Inr (Some st), h1) \<Rightarrow> (Inl (Vmm (''firecracker exited before userspace ('' @ st @ '')'')), h1)
             | (Inr None, h1) \<Rightarrow>
                 (let h2 = tick env h1 in
                  if hs_now h2 \<ge> deadline
                  then (Inl (Timeout (''guest did not reach userspace (marker '' @ dbg_str (en_fmt env) marker
                         @ '') within the boot deadline'')), h2)
                  else await_userspace env child marker deadline (PollBackoff_bump next) (thread_sleep next h2))))"
  by pat_completeness auto
termination
  by (relation "measure (\<lambda>(_, _, _, deadline, _, h). deadline - hs_now h)")
     (auto simp: ask_def tick_def thread_sleep_def dest!: exited_now [OF sym])

function await_eke_ready :: "env \<Rightarrow> nat option \<Rightarrow> string \<Rightarrow> nat \<Rightarrow> nat \<Rightarrow> (host, VmmError, unit) smethod" where
  "await_eke_ready env child uds deadline next h =
     (case ask env (en_dial env) h of
        (dial, h0) \<Rightarrow>
          (case connect_agent_at (en_fmt env) dial None uds EKE_VSOCK_PORT of
             Inr _ \<Rightarrow> (Inr (), h0)
           | Inl e0 \<Rightarrow>
               (case exited env child h0 of
                  (Inl e, h1) \<Rightarrow> (Inl e, h1)
                | (Inr (Some st), h1) \<Rightarrow> (Inl (Vmm (''firecracker exited after restore ('' @ st @ '')'')), h1)
                | (Inr None, h1) \<Rightarrow>
                    (let h2 = tick env h1 in
                     if hs_now h2 \<ge> deadline
                     then (Inl (Timeout (''guest agent not ready before the restore deadline: ''
                            @ VmmError_display (en_fmt env) e0)), h2)
                     else await_eke_ready env child uds deadline (PollBackoff_bump next) (thread_sleep next h2)))))"
  by pat_completeness auto
termination
  by (relation "measure (\<lambda>(_, _, _, deadline, _, h). deadline - hs_now h)")
     (auto simp: ask_def tick_def thread_sleep_def dest!: exited_now [OF sym])

declare await_api_socket.simps [simp del] await_userspace.simps [simp del] await_eke_ready.simps [simp del]

section \<open>Launching\<close>

definition create_tap_or_reclaim :: "env \<Rightarrow> bool \<Rightarrow> string \<Rightarrow> (u32 \<times> u32) option \<Rightarrow> (host, VmmError, Tap option) smethod" where
  "create_tap_or_reclaim env networked workdir owner h =
     (if networked
      then (case Tap_create env (workdir_name workdir) owner h of
              (Inr tap, h1) \<Rightarrow> (Inr (Some tap), h1)
            | (Inl e, h1) \<Rightarrow> (Inl e, reclaim_scratch_after_tap_failure env workdir h1))
      else (Inr None, h))"

definition fetch_hint :: "string option" where "fetch_hint = Some ''run `cargo xtask fetch-artifacts`''"

definition image_call :: "env \<Rightarrow> ((nat \<Rightarrow> tool) \<Rightarrow> VmmError + 'a) \<Rightarrow> (host, VmmError, 'a) smethod" where
  "image_call env build h = (build (\<lambda>i. en_tool env (hs_step h + i)), tick env (tick env h))"

definition input_image :: "env \<Rightarrow> string \<Rightarrow> string \<Rightarrow> (host, VmmError, string) smethod" where
  "input_image env dir workdir =
     (case en_input env dir of
        (is_dir, content) \<Rightarrow> image_call env (\<lambda>t. build_input_image (en_fmt env) t is_dir content dir workdir))"

definition output_image :: "env \<Rightarrow> string \<Rightarrow> (host, VmmError, string) smethod" where
  "output_image env workdir = image_call env (\<lambda>t. build_output_image (en_fmt env) t workdir)"

text \<open>What \<open>launch\<close> does between making the scratch directory and disarming its guard.\<close>

definition stage_launch ::
    "env \<Rightarrow> boot_config \<Rightarrow> nat \<Rightarrow> string \<Rightarrow> (host, VmmError, string \<times> string option \<times> OutputDevice option) smethod" where
  "stage_launch env c deadline workdir =
     seqm (if cf_read_only_root c then (\<lambda>h. (absolute (en_fmt env) (host_view.truncate (en_view env)) (cf_rootfs c), h))
           else
             (let copy = path_push workdir ''rootfs.ext4'' in
              seqm (still_before env deadline ''rootfs copy'') (\<lambda>_.
              seqm (try_io env (\<lambda>k. Vmm (''copy rootfs to '' @ copy @ '': '' @ io_display (en_fmt env) k))) (\<lambda>_.
              seqm (\<lambda>h. (Inr (), acquire (File copy) h)) (\<lambda>_.
              seqm (try_io env (\<lambda>k. Vmm (''chmod rootfs copy: '' @ io_display (en_fmt env) k))) (\<lambda>_. okm copy)))))) (\<lambda>rootfs.
     seqm (case cf_input_dir c of
             None \<Rightarrow> okm None
           | Some dir \<Rightarrow>
               seqm (still_before env deadline ''input image build'') (\<lambda>_.
               seqm (input_image env dir workdir) (\<lambda>img. okm (Some img)))) (\<lambda>input.
     seqm (case cf_output_dir c of
             None \<Rightarrow> okm None
           | Some dest \<Rightarrow>
               seqm (still_before env deadline ''output image build'') (\<lambda>_.
               seqm (output_image env workdir) (\<lambda>img. okm (Some \<lparr>od_image = img, od_dest = dest\<rparr>)))) (\<lambda>output.
     okm (rootfs, input, output))))"

definition spawn_fc_or_reclaim :: "env \<Rightarrow> boot_config \<Rightarrow> string \<Rightarrow> Tap option \<Rightarrow> (host, VmmError, nat) smethod" where
  "spawn_fc_or_reclaim env c workdir tap h =
     (case spawn_fc env (cf_firecracker c) workdir (path_push workdir ''fc.sock'') (map_option tp_netns tap) h of
        (Inr child, h1) \<Rightarrow> (Inr child, h1)
      | (Inl e, h1) \<Rightarrow> (Inl e, reclaim_scratch env workdir tap h1))"

record JailedSpawn =
  js_child :: nat
  js_workdir :: string
  js_socket :: string
  js_chroot_root :: string
  js_tap :: "Tap option"
  js_lifetime :: VmLifetime

definition spawn_jailed ::
    "env \<Rightarrow> boot_config \<Rightarrow> Jail \<Rightarrow> bool \<Rightarrow> string list \<Rightarrow> (host, VmmError, JailedSpawn) smethod" where
  "spawn_jailed env c jail networked cgroup_args =
     seqm (create_workdir env (cf_scratch_dir c)) (\<lambda>workdir.
     seqm (create_tap_or_reclaim env networked workdir (Some (jl_uid jail, jl_gid jail))) (\<lambda>tap h.
     let ident = workdir_name workdir in
     case spawn_jailer env jail (cf_firecracker c) workdir ident cgroup_args (map_option (\<lambda>t. netns_path (tp_netns t)) tap) h of
       (Inl e, h1) \<Rightarrow> (Inl e, reclaim_scratch env workdir tap h1)
     | (Inr (child, socket, chroot_root), h1) \<Rightarrow>
         (case VmLifetime_watch env child
                 (case jailer_cgroup_dir (en_fmt env) (host_view.truncate (en_view env)) (cf_firecracker c) ident of
                    Some d \<Rightarrow> [d] | None \<Rightarrow> []) h1 of
            (lt, h2) \<Rightarrow>
              (Inr \<lparr>js_child = child, js_workdir = workdir, js_socket = socket, js_chroot_root = chroot_root,
                    js_tap = tap, js_lifetime = lt\<rparr>, h2))))"

definition jailed_vsock :: "string \<Rightarrow> string" where
  "jailed_vsock chroot_root = path_push chroot_root (dropWhile (\<lambda>ch. ch = slash) JAILED_VSOCK_UDS)"

definition launch_jailed :: "env \<Rightarrow> boot_config \<Rightarrow> Jail \<Rightarrow> (host, VmmError, Spawned) smethod" where
  "launch_jailed env c jail h =
     (case cgroup_limit_args (host_view.truncate (en_view env)) (cf_require_limits c) (cf_vcpus c) (cf_mem_mib c) of
        Inl e \<Rightarrow> (Inl e, h)
      | Inr cgroup_args \<Rightarrow>
          seqm (spawn_jailed env c jail (cf_enable_network c) cgroup_args) (\<lambda>s. okm
            \<lparr>sp_child = Some (js_child s), sp_workdir = js_workdir s, sp_rootfs = ''/rootfs.ext4'', sp_restored = False,
             sp_socket = js_socket s, sp_vsock_uds = map_option (\<lambda>_. jailed_vsock (js_chroot_root s)) (cf_guest_cid c),
             sp_input_image = None, sp_output = None, sp_tap = js_tap s,
             sp_chroot = Some (Chroot_new (js_chroot_root s) jail), sp_lifetime = js_lifetime s\<rparr>) h)"

definition launch_unjailed :: "env \<Rightarrow> boot_config \<Rightarrow> nat \<Rightarrow> (host, VmmError, Spawned) smethod" where
  "launch_unjailed env c deadline =
     seqm (create_workdir env (cf_scratch_dir c)) (\<lambda>workdir h.
     case stage_launch env c deadline workdir h of
       (Inl e, h1) \<Rightarrow> (Inl e, remove_tree env workdir h1)
     | (Inr (rootfs, input, output), h1) \<Rightarrow>
         seqm (create_tap_or_reclaim env (cf_enable_network c) workdir None) (\<lambda>tap.
         seqm (spawn_fc_or_reclaim env c workdir tap) (\<lambda>child h2.
         case VmLifetime_adopt env child (workdir_name workdir) h2 of
           (lt, h3) \<Rightarrow>
             (Inr \<lparr>sp_child = Some child, sp_workdir = workdir, sp_rootfs = rootfs, sp_restored = False,
                   sp_socket = path_push workdir ''fc.sock'',
                   sp_vsock_uds = map_option (\<lambda>_. path_push workdir VSOCK_UDS) (cf_guest_cid c),
                   sp_input_image = input, sp_output = output, sp_tap = tap, sp_chroot = None, sp_lifetime = lt\<rparr>, h3))) h1)"

definition launch :: "env \<Rightarrow> boot_config \<Rightarrow> nat \<Rightarrow> (host, VmmError, Spawned) smethod" where
  "launch env c deadline h =
     (let hv = host_view.truncate (en_view env) in
      case and_then (require_file hv (cf_kernel c) ''kernel image'' fetch_hint) (\<lambda>_.
           require_file hv (cf_rootfs c) ''rootfs image'' fetch_hint) of
        Inl e \<Rightarrow> (Inl e, h)
      | Inr _ \<Rightarrow>
          (case cf_jail c of
             Some jail \<Rightarrow> launch_jailed env c jail h
           | None \<Rightarrow> launch_unjailed env c deadline h))"

definition launch_jailed_for_restore :: "env \<Rightarrow> boot_config \<Rightarrow> Snapshot \<Rightarrow> Jail \<Rightarrow> (host, VmmError, Spawned) smethod" where
  "launch_jailed_for_restore env c ss jail h =
     (let mem_len = (case en_len env (ss_mem ss) of Some n \<Rightarrow> n | None \<Rightarrow> 0) in
      case cgroup_limit_args (host_view.truncate (en_view env)) (cf_require_limits c) (ss_vcpus ss)
             (restore_mem_mib (cf_mem_mib c) mem_len) of
        Inl e \<Rightarrow> (Inl e, h)
      | Inr cgroup_args \<Rightarrow>
          seqm (spawn_jailed env c jail (ss_tap_name ss \<noteq> None) cgroup_args) (\<lambda>s. okm
            \<lparr>sp_child = Some (js_child s), sp_workdir = js_workdir s, sp_rootfs = ss_root_drive ss, sp_restored = True,
             sp_socket = js_socket s,
             sp_vsock_uds = (if ss_has_vsock ss then Some (path_push (js_chroot_root s) VSOCK_UDS) else None),
             sp_input_image = None, sp_output = None, sp_tap = js_tap s,
             sp_chroot = Some (Chroot_new (js_chroot_root s) jail), sp_lifetime = js_lifetime s\<rparr>) h)"

definition launch_for_restore :: "env \<Rightarrow> boot_config \<Rightarrow> Snapshot \<Rightarrow> (host, VmmError, Spawned) smethod" where
  "launch_for_restore env c ss =
     (case cf_jail c of
        Some jail \<Rightarrow> launch_jailed_for_restore env c ss jail
      | None \<Rightarrow>
          seqm (create_workdir env (cf_scratch_dir c)) (\<lambda>workdir.
          seqm (create_tap_or_reclaim env (ss_tap_name ss \<noteq> None) workdir None) (\<lambda>tap.
          seqm (spawn_fc_or_reclaim env c workdir tap) (\<lambda>child h.
          case VmLifetime_adopt env child (workdir_name workdir) h of
            (lt, h1) \<Rightarrow>
              (Inr \<lparr>sp_child = Some child, sp_workdir = workdir, sp_rootfs = ss_root_drive ss, sp_restored = True,
                    sp_socket = path_push workdir ''fc.sock'',
                    sp_vsock_uds = (if ss_has_vsock ss then Some (path_push workdir VSOCK_UDS) else None),
                    sp_input_image = None, sp_output = None, sp_tap = tap, sp_chroot = None, sp_lifetime = lt\<rparr>, h1)))))"

section \<open>Booting\<close>

text \<open>The methods of \<open>Spawned\<close> change the guard and the host.\<close>

record boot_state =
  bs_vm :: Spawned
  bs_host :: host

definition on_host :: "(host, 'e, 'a) smethod \<Rightarrow> (boot_state, 'e, 'a) smethod" where
  "on_host m s = (case m (bs_host s) of (r, h) \<Rightarrow> (r, s\<lparr>bs_host := h\<rparr>))"

definition on_vm :: "(Spawned \<Rightarrow> Spawned) \<Rightarrow> (boot_state, 'e, unit) smethod" where
  "on_vm upd s = (Inr (), s\<lparr>bs_vm := upd (bs_vm s)\<rparr>)"

definition push_mount :: "string option \<Rightarrow> Spawned \<Rightarrow> Spawned" where
  "push_mount m vm =
     (case m of
        Some d \<Rightarrow> vm\<lparr>sp_chroot := map_option (\<lambda>ch. ch\<lparr>ch_mounts := ch_mounts ch @ [d]\<rparr>) (sp_chroot vm)\<rparr>
      | None \<Rightarrow> vm)"

definition learn_jailer_cgroup :: "env \<Rightarrow> (boot_state, VmmError, unit) smethod" where
  "learn_jailer_cgroup env s =
     (case sp_child (bs_vm s) of
        None \<Rightarrow> (Inr (), s)
      | Some _ \<Rightarrow>
          (case ask env (en_proc_cgroup env) (bs_host s) of
             (t, h) \<Rightarrow>
               (Inr (), \<lparr>bs_vm = (bs_vm s)\<lparr>sp_chroot :=
                            map_option (\<lambda>ch. ch\<lparr>ch_cgroup_dir := read_cgroup_dir t\<rparr>) (sp_chroot (bs_vm s))\<rparr>,
                         bs_host = h\<rparr>)))"

definition overlay_size_mib :: "nat \<Rightarrow> nat" where "overlay_size_mib mib = max (mib div 2) 1"

definition GUEST_IP6_CMDLINE_KEY :: string where "GUEST_IP6_CMDLINE_KEY = ''kee_guest_ip6''"

definition kernel_args :: "boot_config \<Rightarrow> Tap option \<Rightarrow> string" where
  "kernel_args c tap =
     (let a0 = (if cf_read_only_root c
                then cf_boot_args c @ '' init=/sbin/overlay-init overlay_size='' @ dec (overlay_size_mib (cf_mem_mib c)) @ ''M''
                else cf_boot_args c)
      in case tap of
           None \<Rightarrow> a0
         | Some t \<Rightarrow>
             (let a1 = a0 @ '' ip='' @ gl_guest (tp_v4 t) @ '':::255.255.255.252::eth0:off''
              in case tp_v6 t of
                   None \<Rightarrow> a1
                 | Some v6 \<Rightarrow> a1 @ '' '' @ GUEST_IP6_CMDLINE_KEY @ ''='' @ gl_guest v6 @ ''/'' @ dec (gl_prefix_len v6)))"

definition stage_boot :: "env \<Rightarrow> boot_config \<Rightarrow> (boot_state, VmmError, string \<times> string) smethod" where
  "stage_boot env c s =
     (case sp_chroot (bs_vm s) of
        None \<Rightarrow>
          (and_then (absolute (en_fmt env) (host_view.truncate (en_view env)) (cf_kernel c)) (\<lambda>kpath.
           and_then (path_str kpath) (\<lambda>k. and_then (path_str (sp_rootfs (bs_vm s))) (\<lambda>r. Inr (k, r)))), s)
      | Some ch \<Rightarrow>
          (let root = ch_root ch; uid = ch_uid ch; gid = ch_gid ch in
           seqm (on_host (stage_into_chroot env root ''kernel'' (cf_kernel c) uid gid)) (\<lambda>kernel_arg.
           seqm (if cf_read_only_root c
                 then seqm (on_host (stage_ro_base_into_chroot env root ''rootfs.ext4'' (cf_rootfs c) (cf_scratch_dir c) uid gid))
                        (\<lambda>(arg, mount). seqm (on_vm (push_mount mount)) (\<lambda>_. okm arg))
                 else on_host (stage_into_chroot env root ''rootfs.ext4'' (cf_rootfs c) uid gid)) (\<lambda>rootfs_arg.
           seqm (case cf_input_dir c of
                   None \<Rightarrow> okm ()
                 | Some dir \<Rightarrow>
                     seqm (on_host (input_image env dir root)) (\<lambda>img.
                     seqm (on_host (give_to_jail env img uid gid)) (\<lambda>_.
                     on_vm (\<lambda>vm. vm\<lparr>sp_input_image := Some img\<rparr>)))) (\<lambda>_.
           seqm (case cf_output_dir c of
                   None \<Rightarrow> okm ()
                 | Some dest \<Rightarrow>
                     seqm (on_host (output_image env root)) (\<lambda>img.
                     seqm (on_host (give_to_jail env img uid gid)) (\<lambda>_.
                     on_vm (\<lambda>vm. vm\<lparr>sp_output := Some \<lparr>od_image = img, od_dest = dest\<rparr>\<rparr>)))) (\<lambda>_.
           seqm (learn_jailer_cgroup env) (\<lambda>_. okm (kernel_arg, rootfs_arg)))))) s))"

datatype DriveKind = Root | Data
datatype DriveAccess = ReadOnly | ReadWrite

definition put_drive ::
    "env \<Rightarrow> string \<Rightarrow> string \<Rightarrow> DriveKind \<Rightarrow> DriveAccess \<Rightarrow> nat \<Rightarrow> (host, VmmError, unit) smethod" where
  "put_drive env ident path_on_host kind access deadline =
     seqm (still_before env deadline (''PUT /drives/'' @ ident)) (\<lambda>_.
     api_put env (''/drives/'' @ ident)
       (Drive ident path_on_host (kind = Root) (access = ReadOnly) (Some default_guest_io)))"

definition data_path :: "Spawned \<Rightarrow> string \<Rightarrow> string \<Rightarrow> VmmError + string" where
  "data_path vm jailed_path img = (if sp_chroot vm \<noteq> None then Inr jailed_path else path_str img)"

definition lift :: "'e + 'a \<Rightarrow> ('s, 'e, 'a) smethod" where "lift r s = (r, s)"

definition configure :: "env \<Rightarrow> boot_config \<Rightarrow> nat \<Rightarrow> Spawned \<Rightarrow> string \<Rightarrow> string \<Rightarrow> (host, VmmError, unit) smethod" where
  "configure env c deadline vm kpath rootfs =
     seqm (still_before env deadline ''PUT /boot-source'') (\<lambda>_.
     seqm (api_put env ''/boot-source'' (BootSource kpath (kernel_args c (sp_tap vm)))) (\<lambda>_.
     seqm (put_drive env ''rootfs'' rootfs Root (if cf_read_only_root c then ReadOnly else ReadWrite) deadline) (\<lambda>_.
     seqm (case sp_input_image vm of
             None \<Rightarrow> okm ()
           | Some img \<Rightarrow>
               seqm (lift (data_path vm ''/input.ext4'' img)) (\<lambda>p. put_drive env ''input'' p Data ReadOnly deadline)) (\<lambda>_.
     seqm (case sp_output vm of
             None \<Rightarrow> okm ()
           | Some out \<Rightarrow>
               seqm (lift (data_path vm ''/output.ext4'' (od_image out))) (\<lambda>p. put_drive env ''output'' p Data ReadWrite deadline)) (\<lambda>_.
     seqm (still_before env deadline ''PUT /machine-config'') (\<lambda>_.
     seqm (api_put env ''/machine-config'' (MachineConfig (cf_vcpus c) (cf_mem_mib c))) (\<lambda>_.
     seqm (case cf_guest_cid c of
             None \<Rightarrow> okm ()
           | Some cid \<Rightarrow>
               seqm (still_before env deadline ''PUT /vsock'') (\<lambda>_.
               api_put env ''/vsock'' (Vsock cid (if sp_chroot vm \<noteq> None then JAILED_VSOCK_UDS else VSOCK_UDS)))) (\<lambda>_.
     (case sp_tap vm of
        None \<Rightarrow> okm ()
      | Some tap \<Rightarrow>
          seqm (still_before env deadline ''PUT /network-interfaces'') (\<lambda>_.
          api_put env (''/network-interfaces/'' @ IFACE_ID) (NetworkInterface IFACE_ID (tp_name tap) (tp_mac tap))))))))))))"

definition run_boot :: "env \<Rightarrow> boot_config \<Rightarrow> nat \<Rightarrow> (boot_state, VmmError, nat) smethod" where
  "run_boot env c deadline =
     seqm (\<lambda>s. on_host (await_api_socket env (sp_child (bs_vm s)) deadline POLL_INITIAL) s) (\<lambda>_.
     seqm (stage_boot env c) (\<lambda>(kpath, rootfs).
     seqm (\<lambda>s. on_host (configure env c deadline (bs_vm s) kpath rootfs) s) (\<lambda>_.
     seqm (on_host (still_before env deadline ''InstanceStart'')) (\<lambda>_ s.
     let started = hs_now (bs_host s) in
     seqm (on_host (api_put env ''/actions'' (Action_json InstanceStart))) (\<lambda>_.
     seqm (\<lambda>s. on_host (await_userspace env (sp_child (bs_vm s)) (cf_userspace_marker c) deadline POLL_INITIAL) s) (\<lambda>_ s.
     (Inr (hs_now (bs_host s) - started), s))) s))))"

section \<open>Restoring\<close>

text \<open>\<open>create_dir_all\<close>: a directory that exists is left as it is.\<close>

definition create_chroot_dirs :: "env \<Rightarrow> string \<Rightarrow> (host, VmmError, unit) smethod" where
  "create_chroot_dirs env dir =
     seqm (try_io env (\<lambda>k. Vmm (''create chroot disk dirs '' @ dir @ '': '' @ io_display (en_fmt env) k))) (\<lambda>_ h.
     (Inr (), acquire (Dir dir) h))"

definition stage_restore_jailed ::
    "env \<Rightarrow> Snapshot \<Rightarrow> nat \<Rightarrow> Chroot \<Rightarrow> string \<Rightarrow> (boot_state, VmmError, string \<times> string \<times> string option) smethod" where
  "stage_restore_jailed env ss deadline ch workdir =
     (let root = ch_root ch; uid = ch_uid ch; gid = ch_gid ch in
      seqm (on_host (try_io env (\<lambda>k. Vmm (''chown chroot root to '' @ dec (unat uid) @ '':'' @ dec (unat gid) @ '': ''
              @ io_display (en_fmt env) k)))) (\<lambda>_.
      seqm (on_host (still_before env deadline ''stage snapshot state'')) (\<lambda>_.
      seqm (on_host (stage_into_chroot env root ''snapshot.state'' (ss_state ss) uid gid)) (\<lambda>state_arg.
      seqm (on_host (still_before env deadline ''stage snapshot memory'')) (\<lambda>_.
      seqm (on_host (stage_ro_base_into_chroot env root ''snapshot.mem'' (ss_mem ss) workdir uid gid)) (\<lambda>(mem_arg, mem_mount).
      seqm (on_vm (push_mount mem_mount)) (\<lambda>_.
      seqm (lift (if is_absolute (ss_root_backing ss) then Inr (dropWhile (\<lambda>ch. ch = slash) (ss_root_backing ss))
                  else Inl (Vmm (''snapshot's baked-in disk path is not absolute: '' @ ss_root_backing ss)))) (\<lambda>baked_rel.
      let disk_target = path_push root baked_rel in
      seqm (case path_parent disk_target of
              Some parent \<Rightarrow> on_host (create_chroot_dirs env parent)
            | None \<Rightarrow> okm ()) (\<lambda>_.
      seqm (on_host (still_before env deadline ''stage restore disk'')) (\<lambda>_.
      seqm (if ss_shared_base ss
            then seqm (on_host (stage_ro_base_into_chroot env root (from_utf8_lossy (as_bytes baked_rel)) (ss_root_drive ss) workdir uid gid))
                   (\<lambda>(_, disk_mount). seqm (on_vm (push_mount disk_mount)) (\<lambda>_. okm None))
            else seqm (on_host (stage_restore_disk env disk_target)) (\<lambda>_.
                 seqm (on_host (give_to_jail env disk_target uid gid)) (\<lambda>_. okm (Some disk_target)))) (\<lambda>armed.
      seqm (learn_jailer_cgroup env) (\<lambda>_. okm (state_arg, mem_arg, armed)))))))))))))"

definition stage_restore_unjailed ::
    "env \<Rightarrow> Snapshot \<Rightarrow> nat \<Rightarrow> (host, VmmError, string \<times> string \<times> string option) smethod" where
  "stage_restore_unjailed env ss deadline =
     seqm (lift (path_str (ss_state ss))) (\<lambda>state_arg.
     seqm (lift (path_str (ss_mem ss))) (\<lambda>mem_arg.
     seqm (if ss_shared_base ss then okm None
           else seqm (still_before env deadline ''stage restore disk'') (\<lambda>_.
                seqm (stage_restore_disk env (ss_root_backing ss)) (\<lambda>_. okm (Some (ss_root_backing ss))))) (\<lambda>armed.
     okm (state_arg, mem_arg, armed))))"

definition snapshot_mem_mib :: "env \<Rightarrow> Snapshot \<Rightarrow> nat" where
  "snapshot_mem_mib env ss =
     (case en_len env (ss_mem ss) of Some n \<Rightarrow> min (unat n div 2 ^ 20) (2 ^ 32 - 1) | None \<Rightarrow> 0)"

text \<open>Loading with the staged disk in hand: it goes whether the deadline has passed, the load fails or
  succeeds. The result is the latency of the load.\<close>

definition unstage_armed :: "env \<Rightarrow> string option \<Rightarrow> host \<Rightarrow> host" where
  "unstage_armed env armed h = (case armed of Some p \<Rightarrow> unstage_restore_disk env p h | None \<Rightarrow> h)"

definition load_snapshot ::
    "env \<Rightarrow> Snapshot \<Rightarrow> nat \<Rightarrow> string \<times> string \<times> string option \<Rightarrow> (host, VmmError, nat) smethod" where
  "load_snapshot env ss deadline args h =
     (case args of
        (state_arg, mem_arg, armed) \<Rightarrow>
          (case still_before env deadline ''PUT /snapshot/load'' h of
             (Inl e, h1) \<Rightarrow> (Inl e, unstage_armed env armed h1)
           | (Inr _, h1) \<Rightarrow>
               (let load_timeout = min (snapshot_api_timeout (snapshot_mem_mib env ss)) (deadline - hs_now h1) in
                case api_call env ''PUT'' ''/snapshot/load'' (SnapshotLoad state_arg (MemBackend mem_arg) True) load_timeout h1 of
                  (loaded, h2) \<Rightarrow>
                    (let h3 = unstage_armed env armed h2 in
                     case loaded of
                       Inl e \<Rightarrow> (Inl e, h3)
                     | Inr _ \<Rightarrow> (Inr (hs_now h2 - hs_now h1), h3)))))"

definition run_restore :: "env \<Rightarrow> Snapshot \<Rightarrow> nat \<Rightarrow> (boot_state, VmmError, nat) smethod" where
  "run_restore env ss deadline =
     seqm (\<lambda>s. on_host (await_api_socket env (sp_child (bs_vm s)) deadline POLL_INITIAL) s) (\<lambda>_.
     seqm (on_host (still_before env deadline ''restore staging'')) (\<lambda>_.
     seqm (\<lambda>s. case sp_chroot (bs_vm s) of
                  Some ch \<Rightarrow> stage_restore_jailed env ss deadline ch (sp_workdir (bs_vm s)) s
                | None \<Rightarrow> on_host (stage_restore_unjailed env ss deadline) s) (\<lambda>args.
     seqm (on_host (load_snapshot env ss deadline args)) (\<lambda>latency.
     seqm (\<lambda>s. on_host (exited env (sp_child (bs_vm s))) s) (\<lambda>status.
     case status of
       Some st \<Rightarrow> failm (Vmm (''firecracker exited after restore ('' @ st @ '')''))
     | None \<Rightarrow>
         seqm (\<lambda>s. case sp_vsock_uds (bs_vm s) of
                      Some uds \<Rightarrow> on_host (await_eke_ready env (sp_child (bs_vm s)) uds deadline POLL_INITIAL) s
                    | None \<Rightarrow> (Inr (), s)) (\<lambda>_. okm latency))))))"

section \<open>Failure and success\<close>

definition enrich :: "VmmError \<Rightarrow> string \<Rightarrow> VmmError" where
  "enrich cause detail =
     (if detail = [] then cause
      else case cause of Vmm m \<Rightarrow> Vmm (m @ detail) | Timeout m \<Rightarrow> Timeout (m @ detail) | _ \<Rightarrow> cause)"

definition abort_detail :: "string \<Rightarrow> string \<Rightarrow> string" where
  "abort_detail fc_log console =
     (case last_lines fc_log 3 of Some t \<Rightarrow> '' [firecracker: '' @ t @ '']'' | None \<Rightarrow> [])
     @ (case last_lines console 3 of Some t \<Rightarrow> '' [console: '' @ t @ '']'' | None \<Rightarrow> [])"

definition abort :: "env \<Rightarrow> Spawned \<Rightarrow> VmmError \<Rightarrow> host \<Rightarrow> VmmError \<times> host" where
  "abort env vm cause h =
     (let (cgroup, h0) =
        (case sp_chroot vm of
           None \<Rightarrow> (None, h)
         | Some ch \<Rightarrow>
             (case (ch_cgroup_dir ch, sp_child vm) of
                (Some d, _) \<Rightarrow> (Some d, h)
              | (None, None) \<Rightarrow> (None, h)
              | (None, Some _) \<Rightarrow> (case ask env (en_proc_cgroup env) h of (t, h1) \<Rightarrow> (read_cgroup_dir t, h1))));
          h1 = (case sp_child vm of Some p \<Rightarrow> kill_wait env (VmmProc p) h0 | None \<Rightarrow> h0);
          h2 = (case cgroup of Some d \<Rightarrow> remove_cgroup env d h1 | None \<Rightarrow> h1);
          h3 = snd (VmLifetime_teardown env (mark_down (sp_lifetime vm)) h2);
          (fc_log, h4) = ask env (en_log env) h3;
          (console, h5) = ask env (en_console env) h4;
          h6 = (case sp_chroot vm of Some ch \<Rightarrow> unmount_all env ch h5 | None \<Rightarrow> h5)
      in (enrich cause (abort_detail fc_log (console_snapshot console)), reclaim_scratch env (sp_workdir vm) (sp_tap vm) h6))"

definition into_running :: "nat \<Rightarrow> boot_config \<Rightarrow> Spawned \<Rightarrow> VmmError + running_vm" where
  "into_running latency c vm =
     (case sp_child vm of
        None \<Rightarrow> Inl (Vmm ''VMM child already reclaimed'')
      | Some child \<Rightarrow>
          Inr \<lparr>rv_child = child, rv_workdir = sp_workdir vm, rv_socket = sp_socket vm, rv_boot_latency = latency,
               rv_rootfs = sp_rootfs vm, rv_restored = sp_restored vm, rv_has_input = (sp_input_image vm \<noteq> None),
               rv_vsock_uds = sp_vsock_uds vm, rv_output = sp_output vm, rv_tap = sp_tap vm, rv_chroot = sp_chroot vm,
               rv_lifetime = sp_lifetime vm, rv_exec_wall = cf_exec_wall c, rv_output_cap = cf_output_cap c,
               rv_vcpus = cf_vcpus c, rv_mem_mib = cf_mem_mib c\<rparr>)"

definition host_checks :: "env \<Rightarrow> boot_config \<Rightarrow> VmmError + unit" where
  "host_checks env c =
     and_then (refuse_uncappable_boot c) (\<lambda>_.
     and_then (refuse_nodev_scratch (en_view env) c) (\<lambda>_.
     if dv_exists (en_view env) ''/dev/kvm'' then Inr () else Inl NoKvm))"

definition finish_launch ::
    "env \<Rightarrow> boot_config \<Rightarrow> (boot_state, VmmError, nat) smethod \<Rightarrow> Spawned \<Rightarrow> (host, VmmError, running_vm) smethod" where
  "finish_launch env c run vm h =
     (case run \<lparr>bs_vm = vm, bs_host = h\<rparr> of
        (Inr latency, s) \<Rightarrow> (into_running latency c (bs_vm s), bs_host s)
      | (Inl e, s) \<Rightarrow> (case abort env (bs_vm s) e (bs_host s) of (e1, h1) \<Rightarrow> (Inl e1, h1)))"

definition Vm_boot :: "env \<Rightarrow> boot_config \<Rightarrow> (host, VmmError, running_vm) smethod" where
  "Vm_boot env c h =
     (case host_checks env c of
        Inl e \<Rightarrow> (Inl e, h)
      | Inr _ \<Rightarrow>
          (let deadline = boot_deadline (hs_now h) (cf_boot_timeout c) in
           seqm (launch env c deadline) (finish_launch env c (run_boot env c deadline)) h))"

definition Vm_restore :: "env \<Rightarrow> Snapshot \<Rightarrow> boot_config \<Rightarrow> (host, VmmError, running_vm) smethod" where
  "Vm_restore env ss c h =
     (let hv = host_view.truncate (en_view env) in
      case and_then (host_checks env c) (\<lambda>_.
           and_then (require_file hv (ss_state ss) ''snapshot state file'' None) (\<lambda>_.
           and_then (require_file hv (ss_mem ss) ''snapshot memory file'' None) (\<lambda>_.
           require_file hv (ss_root_drive ss) ''snapshot root disk'' None))) of
        Inl e \<Rightarrow> (Inl e, h)
      | Inr _ \<Rightarrow>
          (let deadline = boot_deadline (hs_now h) (cf_boot_timeout c) in
           seqm (launch_for_restore env c ss) (finish_launch env c (run_restore env ss deadline)) h))"

definition RunningVm_drop :: "env \<Rightarrow> running_vm \<Rightarrow> host \<Rightarrow> host" where
  "RunningVm_drop env vm = teardown env (rv_child vm) (rv_workdir vm) (rv_tap vm) (rv_chroot vm) (rv_lifetime vm)"

definition Spawned_drop :: "env \<Rightarrow> Spawned \<Rightarrow> host \<Rightarrow> host" where
  "Spawned_drop env vm h =
     (case sp_child vm of
        Some child \<Rightarrow> teardown env child (sp_workdir vm) (sp_tap vm) (sp_chroot vm) (sp_lifetime vm) h
      | None \<Rightarrow> h)"

section \<open>A running VM\<close>

definition request_power_off :: "env \<Rightarrow> running_vm \<Rightarrow> host \<Rightarrow> running_vm \<times> host" where
  "request_power_off env vm h =
     (vm\<lparr>rv_lifetime := mark_down (rv_lifetime vm)\<rparr>, snd (api_put env ''/actions'' (Action_json SendCtrlAltDel) h))"

function await_power_off :: "env \<Rightarrow> nat \<Rightarrow> host \<Rightarrow> bool \<times> host" where
  "await_power_off env deadline h =
     (case ask env (en_exit env) h of
        (Inr (Some _), h1) \<Rightarrow> (True, h1)
      | (Inr None, h1) \<Rightarrow>
          if hs_now h1 \<ge> deadline then (False, h1) else await_power_off env deadline (thread_sleep POWER_OFF_POLL h1)
      | (Inl _, h1) \<Rightarrow> (False, h1))"
  by pat_completeness auto
termination
  by (relation "measure (\<lambda>(_, deadline, h). deadline - hs_now h)") (auto simp: ask_def tick_def thread_sleep_def)

declare await_power_off.simps [simp del]

definition power_off_and_wait :: "env \<Rightarrow> running_vm \<Rightarrow> nat \<Rightarrow> host \<Rightarrow> bool \<times> running_vm \<times> host" where
  "power_off_and_wait env vm deadline h =
     (let vm1 = vm\<lparr>rv_lifetime := mark_down (rv_lifetime vm)\<rparr> in
      case api_put env ''/actions'' (Action_json SendCtrlAltDel) h of
        (Inl _, h1) \<Rightarrow> (False, vm1, h1)
      | (Inr _, h1) \<Rightarrow> (case await_power_off env deadline h1 of (ok, h2) \<Rightarrow> (ok, vm1, h2)))"

definition stop_and_reap :: "env \<Rightarrow> running_vm \<Rightarrow> host \<Rightarrow> running_vm \<times> host" where
  "stop_and_reap env vm h =
     (case power_off_and_wait env vm (hs_now h + POWER_OFF_TIMEOUT) h of
        (ok, vm1, h1) \<Rightarrow> (vm1, if ok then h1 else kill_wait env (VmmProc (rv_child vm)) h1))"

definition shutdown :: "env \<Rightarrow> running_vm \<Rightarrow> host \<Rightarrow> host" where
  "shutdown env vm h =
     (case power_off_and_wait env vm (hs_now h + POWER_OFF_TIMEOUT) h of (_, vm1, h1) \<Rightarrow> RunningVm_drop env vm1 h1)"

definition collect_outputs ::
    "env \<Rightarrow> output_host \<Rightarrow> running_vm \<Rightarrow> host \<Rightarrow> (VmmError + string list) \<times> host" where
  "collect_outputs env oh vm h =
     (case rv_output vm of
        None \<Rightarrow>
          (Inl (Vmm ''this microVM was booted without an output device (set BootConfig.output_dir)''), RunningVm_drop env vm h)
      | Some out \<Rightarrow>
          (case stop_and_reap env vm h of
             (vm1, h1) \<Rightarrow> (fst (collect_output_image (en_fmt env) oh (od_dest out)), RunningVm_drop env vm1 h1)))"

section \<open>Taking a snapshot\<close>

text \<open>The files of a bundle; a failed create may have written some of them.\<close>

definition write_snapshot_bundle ::
    "env \<Rightarrow> running_vm \<Rightarrow> string \<Rightarrow> string \<Rightarrow> string \<Rightarrow> bool \<Rightarrow> (host, VmmError, unit) smethod" where
  "write_snapshot_bundle env vm state mem root_drive shared_base h =
     (case and_then (path_str state) (\<lambda>st. and_then (path_str mem) (\<lambda>m. Inr (st, m))) of
        Inl e \<Rightarrow> (Inl e, h)
      | Inr (st, m) \<Rightarrow>
          (case api_call env ''PUT'' ''/snapshot/create'' (SnapshotCreate st m) (snapshot_api_timeout (rv_mem_mib vm)) h of
             (r, h1) \<Rightarrow>
               (let h2 = (if r = Inr () \<or> en_residue env (hs_step h) then acquire (File mem) (acquire (File state) h1) else h1) in
                case r of
                  Inl e \<Rightarrow> (Inl e, h2)
                | Inr _ \<Rightarrow>
                    if shared_base then (Inr (), h2)
                    else (case ask env (en_io env) h2 of
                            (Some k, h3) \<Rightarrow>
                              (Inl (Vmm (''copy root disk into snapshot bundle: '' @ io_display (en_fmt env) k)),
                               if en_residue env (hs_step h2) then acquire (File root_drive) h3 else h3)
                          | (None, h3) \<Rightarrow> (Inr (), acquire (File root_drive) h3)))))"

definition PartialBundle_drop :: "env \<Rightarrow> string \<Rightarrow> string \<Rightarrow> string option \<Rightarrow> host \<Rightarrow> host" where
  "PartialBundle_drop env state mem private_disk h =
     (let h1 = release env (File mem) (release env (File state) h) in
      case private_disk of Some d \<Rightarrow> release env (File d) h1 | None \<Rightarrow> h1)"

definition snapshot_refusal :: "running_vm \<Rightarrow> string option" where
  "snapshot_refusal vm =
     (if rv_restored vm
      then Some ''snapshot of an already-restored VM is not supported (its live disk has no host path)''
      else if rv_chroot vm \<noteq> None
      then Some (''snapshot of a jailed VM is not supported (its disk lives in the chroot); snapshot ''
             @ ''an unjailed prewarmed source and restore jailed clones from it'')
      else if rv_output vm \<noteq> None \<or> rv_has_input vm
      then Some ''snapshot of a VM with an input/output device is not yet supported''
      else None)"

definition create_snapshot_dir :: "env \<Rightarrow> string \<Rightarrow> (host, VmmError, unit) smethod" where
  "create_snapshot_dir env dir =
     seqm (try_io env (\<lambda>k. Vmm (''create snapshot dir '' @ dir @ '': '' @ io_display (en_fmt env) k))) (\<lambda>_ h.
     (Inr (), acquire (Dir dir) h))"

definition RunningVm_snapshot :: "env \<Rightarrow> running_vm \<Rightarrow> string \<Rightarrow> (host, VmmError, Snapshot) smethod" where
  "RunningVm_snapshot env vm dir0 h =
     (case snapshot_refusal vm of
        Some msg \<Rightarrow> (Inl (Vmm msg), h)
      | None \<Rightarrow>
          (let shared_base = (\<not> path_starts_with (rv_rootfs vm) (rv_workdir vm)) in
           seqm (create_snapshot_dir env dir0) (\<lambda>_.
           seqm (lift (absolute (en_fmt env) (host_view.truncate (en_view env)) dir0)) (\<lambda>dir.
           let state = path_push dir ''snapshot.state''; mem = path_push dir ''snapshot.mem'';
               root_drive = (if shared_base then rv_rootfs vm else path_push dir ''rootfs.ext4'')
           in seqm (api_patch env ''/vm'' (VmState Paused)) (\<lambda>_ h1.
              case write_snapshot_bundle env vm state mem root_drive shared_base h1 of
                (created, h2) \<Rightarrow>
                  (case api_patch env ''/vm'' (VmState Resumed) h2 of
                     (resumed, h3) \<Rightarrow>
                       (case created of
                          Inl e \<Rightarrow>
                            (Inl e, PartialBundle_drop env state mem (if shared_base then None else Some root_drive) h3)
                        | Inr _ \<Rightarrow>
                            (case resumed of
                               Inl e \<Rightarrow> (Inl e, h3)
                             | Inr _ \<Rightarrow>
                                 (Inr \<lparr>ss_state = state, ss_mem = mem, ss_root_drive = root_drive,
                                       ss_root_backing = rv_rootfs vm, ss_shared_base = shared_base,
                                       ss_has_vsock = (rv_vsock_uds vm \<noteq> None),
                                       ss_tap_name = map_option tp_name (rv_tap vm), ss_vcpus = rv_vcpus vm\<rparr>, h3)))))))
           h))"

end
