(* ===== verification/Moves.thy ===== *)
theory Moves
  imports Boot
begin

text \<open>
  Which resources of the host each call of a launch can change. A call is \<open>quiet\<close> when it changes none:
  the waits, the API, the tools that build images, staging into a chroot. The rest names its resources.
  The last section is about the paths of a scratch directory.
\<close>

named_theorems moves \<open>which resources a call can change\<close>
named_theorems quiet \<open>calls that change no resource\<close>

section \<open>Which resources a call changes\<close>

definition moves :: "resource set \<Rightarrow> host \<Rightarrow> host \<Rightarrow> bool" where
  "moves T h h' \<longleftrightarrow> (\<forall>r. r \<notin> T \<longrightarrow> (r \<in> hs_res h' \<longleftrightarrow> r \<in> hs_res h)) \<and> hs_next h \<le> hs_next h'"

definition quiet :: "(host, 'e, 'a) smethod \<Rightarrow> bool" where
  "quiet m \<longleftrightarrow> (\<forall>h. hs_res (snd (m h)) = hs_res h \<and> hs_next (snd (m h)) = hs_next h)"

lemma moves_refl [simp]: "moves T h h"
  by (simp add: moves_def)

lemma moves_trans: "moves T a b \<Longrightarrow> moves T b c \<Longrightarrow> moves T a c"
  by (simp add: moves_def)

lemma moves_mono: "moves T a b \<Longrightarrow> T \<subseteq> T' \<Longrightarrow> moves T' a b"
  by (auto simp: moves_def)

lemma moves_fields:
  "moves T (h\<lparr>hs_seq := q\<rparr>) h' \<longleftrightarrow> moves T h h'" "moves T h (h'\<lparr>hs_seq := q\<rparr>) \<longleftrightarrow> moves T h h'"
  by (simp_all add: moves_def)

lemma moves_basic [moves]:
  "moves T h (tick env h)" "r \<in> T \<Longrightarrow> moves T h (acquire r h)" "r \<in> T \<Longrightarrow> moves T h (discard r h)"
  "moves T h (thread_sleep d h)"
  by (auto simp: moves_def acquire_def discard_def thread_sleep_def)

lemma moves_release [moves]: "r \<in> T \<Longrightarrow> moves T h (release env r h)"
  by (auto simp: moves_def release_def ask_def discard_def split: bool.splits)

lemma moves_kill_wait [moves]: "r \<in> T \<Longrightarrow> moves T h (kill_wait env r h)"
  by (auto simp: moves_def kill_wait_def discard_def)

lemma moves_remove_tree [moves]: "{r. inside p r} \<subseteq> T \<Longrightarrow> moves T h (remove_tree env p h)"
  by (auto simp: moves_def remove_tree_def ask_def)

lemma moves_remove_empty [moves]: "Dir p \<in> T \<Longrightarrow> moves T h (remove_empty env p h)"
  by (auto simp: moves_def remove_empty_def ask_def discard_def)

lemma moves_fold: "(\<And>x h. x \<in> set xs \<Longrightarrow> moves T h (g x h)) \<Longrightarrow> moves T h (fold g xs h)"
  by (induction xs arbitrary: h) (auto intro: moves_trans)

lemma quietD: "quiet m \<Longrightarrow> m h = (r, h') \<Longrightarrow> hs_res h' = hs_res h \<and> hs_next h' = hs_next h"
  by (metis quiet_def snd_conv)

lemma quiet_moves: "quiet m \<Longrightarrow> m h = (r, h') \<Longrightarrow> moves T h h'"
  by (auto simp: moves_def dest: quietD)

lemma quiet_seqm [quiet]:
  assumes "quiet m" "\<And>x. quiet (f x)"
  shows "quiet (seqm m f)"
  unfolding quiet_def
proof
  fix h
  obtain r h1 where m: "m h = (r, h1)" by (cases "m h")
  show "hs_res (snd (seqm m f h)) = hs_res h \<and> hs_next (snd (seqm m f h)) = hs_next h"
    using quietD [OF assms(1) m] assms(2) by (cases r) (simp_all add: seqm_def m quiet_def)
qed

lemma quiet_basic [quiet]:
  "quiet (okm x)" "quiet (failm e)" "quiet (lift r')" "quiet (try_io env err)" "quiet (still_before env deadline what)"
  "quiet (api_call env meth path body timeout)" "quiet (exited env child)" "quiet (image_call env build)"
  by (auto simp: quiet_def okm_def failm_def lift_def try_io_def still_before_def api_call_def image_call_def exited_def
      ask_def Let_def split: option.splits sum.splits)

text \<open>The three waits only let time pass.\<close>

lemma exited_quiet: "exited env child h = (r, h1) \<Longrightarrow> hs_res h1 = hs_res h \<and> hs_next h1 = hs_next h"
  by (auto dest!: exited_host)

lemma quiet_awaits [quiet]:
  "quiet (await_api_socket env child deadline nxt)" "quiet (await_userspace env child marker deadline nxt)"
  "quiet (await_eke_ready env child uds deadline nxt)"
proof -
  have "hs_res (snd (await_api_socket env child deadline nxt h)) = hs_res h
      \<and> hs_next (snd (await_api_socket env child deadline nxt h)) = hs_next h" for h
  proof (induction env child deadline nxt h rule: await_api_socket.induct)
    case (1 env child deadline nxt h)
    obtain r h1 where e: "exited env child h = (r, h1)" by (cases "exited env child h")
    show ?case using e exited_quiet [OF e] "1.IH" [OF e [symmetric]]
      by (subst (1 2) await_api_socket.simps)
         (auto simp: ask_def Let_def thread_sleep_def split: sum.splits option.splits bool.splits)
  qed
  then show "quiet (await_api_socket env child deadline nxt)" by (simp add: quiet_def)
  have "hs_res (snd (await_userspace env child marker deadline nxt h)) = hs_res h
      \<and> hs_next (snd (await_userspace env child marker deadline nxt h)) = hs_next h" for h
  proof (induction env child marker deadline nxt h rule: await_userspace.induct)
    case (1 env child marker deadline nxt h)
    obtain r h1 where e: "exited env child (tick env h) = (r, h1)" by (cases "exited env child (tick env h)")
    show ?case using e exited_quiet [OF e] "1.IH" [of "en_console env (hs_step h)" "tick env h" r h1]
      by (subst (1 2) await_userspace.simps)
         (auto simp: ask_def Let_def thread_sleep_def split: sum.splits option.splits)
  qed
  then show "quiet (await_userspace env child marker deadline nxt)" by (simp add: quiet_def)
  have "hs_res (snd (await_eke_ready env child uds deadline nxt h)) = hs_res h
      \<and> hs_next (snd (await_eke_ready env child uds deadline nxt h)) = hs_next h" for h
  proof (induction env child uds deadline nxt h rule: await_eke_ready.induct)
    case (1 env child uds deadline nxt h)
    obtain r h1 where e: "exited env child (tick env h) = (r, h1)" by (cases "exited env child (tick env h)")
    show ?case using e exited_quiet [OF e] "1.IH" [of "en_dial env (hs_step h)" "tick env h" _ r h1]
      by (subst (1 2) await_eke_ready.simps)
         (auto simp: ask_def Let_def thread_sleep_def split: sum.splits option.splits)
  qed
  then show "quiet (await_eke_ready env child uds deadline nxt)" by (simp add: quiet_def)
qed

lemma quiet_staging [quiet]:
  "quiet (give_to_jail env path uid gid)" "quiet (stage_into_chroot env root name src uid gid)"
  "quiet (input_image env dir workdir)" "quiet (output_image env workdir)" "quiet (console_spawn env)"
  "quiet (api_put env path' body)" "quiet (api_patch env path' body)"
  unfolding give_to_jail_def stage_into_chroot_def input_image_def output_image_def console_spawn_def api_put_def api_patch_def
  by (auto intro!: quiet split: prod.splits)

lemma quiet_run_ip [quiet]: "quiet (run_ip env args)" "quiet (ip_in_ns env netns args)"
  by (auto simp: quiet_def run_ip_def ip_in_ns_def ask_def split: tool.splits)

lemma quiet_build_tap [quiet]: "quiet (build_tap env netns owner)"
proof -
  have "quiet (\<lambda>h. case add_host_v6 env netns h of (up, h1) \<Rightarrow> (Inr up :: VmmError + bool, h1))"
    using quiet_run_ip(2) [of env netns] by (auto simp: quiet_def add_host_v6_def split: prod.splits sum.splits) (metis snd_conv)+
  then show ?thesis unfolding build_tap_def by (auto intro!: quiet)
qed

lemma quiet_put_drive [quiet]: "quiet (put_drive env ident path kind access deadline)"
  unfolding put_drive_def by (auto intro!: quiet)

lemma quiet_configure [quiet]: "quiet (configure env c deadline vm kp rootfs)"
  unfolding configure_def by (intro quiet) (auto intro!: quiet split: option.splits)

section \<open>Namespaces\<close>

lemma moves_ip_netns_add: "ip_netns_add env name h = (r, h') \<Longrightarrow> moves {Netns name} h h'"
  by (auto simp: ip_netns_add_def ask_def moves_def acquire_def split: tool.splits if_splits)

lemma moves_netns_add: "netns_add env name h = (r, h') \<Longrightarrow> moves {Netns name} h h'"
  unfolding netns_add_def netns_del_def
  by (auto split: prod.splits sum.splits if_splits dest!: moves_ip_netns_add)
     (metis moves_trans moves_release singletonI)

lemma moves_Tap_create:
  assumes "Tap_create env name owner h = (r, h')"
  shows "moves {Netns name} h h'"
proof -
  obtain a h1 where a: "netns_add env name h = (a, h1)" by (cases "netns_add env name h")
  obtain b h2 where b: "build_tap env name owner h1 = (b, h2)" by (cases "build_tap env name owner h1")
  have "moves {Netns name} h h1" "moves {Netns name} h1 h2"
    using moves_netns_add [OF a] quiet_moves [OF quiet_build_tap b] by simp_all
  then have "moves {Netns name} h h2" "moves {Netns name} h h1" by (auto intro: moves_trans)
  then show ?thesis using assms a b
    by (auto simp: Tap_create_def seqm_def netns_del_def split: sum.splits intro: moves_trans moves_release)
qed

lemma Tap_create_netns: "Tap_create env name owner h = (Inr tap, h') \<Longrightarrow> tp_netns tap = name"
  by (auto simp: Tap_create_def seqm_def split: prod.splits sum.splits)

text \<open>Best-effort steps work: the host lets every resource go, and a tool that fails leaves nothing.\<close>

definition works :: "env \<Rightarrow> bool" where
  "works env \<longleftrightarrow> (\<forall>r n. en_release env r n) \<and> (\<forall>n. \<not> en_partial env n)"

lemma release_works: "works env \<Longrightarrow> hs_res (release env r h) = hs_res h - {r}"
  by (simp add: works_def release_def ask_def discard_def)

lemma ip_netns_add_fails:
  "works env \<Longrightarrow> ip_netns_add env name h = (Inl e, h') \<Longrightarrow> hs_res h' = hs_res h"
  by (auto simp: works_def ip_netns_add_def ask_def split: tool.splits if_splits)

lemma netns_add_fails:
  assumes "works env" "netns_add env name h = (Inl e, h')"
  shows "Netns name \<notin> hs_res h'"
proof -
  obtain r h1 where a: "ip_netns_add env name h = (r, h1)" by (cases "ip_netns_add env name h")
  show ?thesis
  proof (cases "netns_exists name h1 \<and> (\<exists>e. r = Inl e)")
    case True
    then have "ip_netns_add env name (netns_del env name h1) = (Inl e, h')"
      using assms(2) a by (auto simp: netns_add_def)
    then have "hs_res h' = hs_res (netns_del env name h1)" by (rule ip_netns_add_fails [OF assms(1)])
    then show ?thesis using release_works [OF assms(1)] by (simp add: netns_del_def)
  next
    case False
    then show ?thesis using assms(2) a by (auto simp: netns_add_def netns_exists_def split: sum.splits)
  qed
qed

lemma Tap_create_fails:
  assumes "works env" "Tap_create env name owner h = (Inl e, h')"
  shows "Netns name \<notin> hs_res h'"
proof -
  obtain a h1 where a: "netns_add env name h = (a, h1)" by (cases "netns_add env name h")
  show ?thesis
  proof (cases a)
    case (Inl e1)
    then show ?thesis using assms netns_add_fails [OF assms(1), of name h e1 h1] a
      by (simp add: Tap_create_def seqm_def)
  next
    case (Inr u)
    then show ?thesis using assms a release_works [OF assms(1)]
      by (auto simp: Tap_create_def seqm_def netns_del_def split: prod.splits sum.splits)
  qed
qed

section \<open>Paths of a scratch directory\<close>

lemma components_join:
  assumes "dir \<noteq> []" "p = [] \<or> hd p \<noteq> slash"
  shows "components (path_push dir p) = components dir @ List.map_filter (component_of False) (split_on (\<lambda>ch. ch = slash) p)"
proof -
  let ?sp = "split_on (\<lambda>ch. ch = slash)"
  have nil: "List.map_filter (component_of False) [[]] = []" by (simp add: map_filter_def)
  have cat: "components (d @ slash # q) = components d @ List.map_filter (component_of False) (?sp q)" if "d \<noteq> []" for d q
    using that by (cases "?sp d") (auto simp: components_def split_on_append)
  show ?thesis
  proof (cases "last dir = slash")
    case False
    then have "path_push dir p = dir @ slash # p" using assms by (auto simp: path_push_def)
    then show ?thesis using cat [OF assms(1)] by simp
  next
    case True
    then obtain d where d: "dir = d @ [slash]" using assms(1) by (metis append_butlast_last_id)
    have p: "path_push dir p = d @ slash # p" using assms True d by (auto simp: path_push_def)
    show ?thesis
    proof (cases "d = []")
      case True
      then show ?thesis using p d by (simp add: components_def map_filter_def)
    next
      case False
      then show ?thesis using cat [OF False, of p] cat [OF False, of "[]"] p d nil by simp
    qed
  qed
qed

lemma path_starts_with_refl [simp]: "path_starts_with p p"
  by (simp add: path_starts_with_def)

lemma path_starts_with_join:
  assumes "path_starts_with d w" "d \<noteq> []" "p = [] \<or> hd p \<noteq> slash"
  shows "path_starts_with (path_push d p) w"
  using assms(1) by (simp add: path_starts_with_def components_join [OF assms(2,3)]) (metis append_take_drop_id take_append take_all_iff
      nat_le_linear take_all append_eq_append_conv_if length_take min_def)

lemma path_push_not_Nil: "dir \<noteq> [] \<Longrightarrow> path_push dir p \<noteq> []"
  by (auto simp: path_push_def)

lemma split_no_slash: "slash \<notin> set n \<Longrightarrow> split_on (\<lambda>ch. ch = slash) n = [n]"
  by (rule split_on_none) auto

lemma path_file_name_push:
  assumes "slash \<notin> set n" "n \<noteq> []" "n \<noteq> ''.''" "n \<noteq> ''..''"
  shows "path_file_name (path_push base n) = Some n"
proof (cases "base = []")
  case True
  then have "path_push base n = n" by (simp add: path_push_def)
  moreover have "components n = [Normal n]"
    using assms by (auto simp: components_def split_no_slash map_filter_def dest: hd_in_set)
  ultimately show ?thesis by (simp add: path_file_name_def)
next
  case False
  have "hd n \<noteq> slash" using assms(1,2) hd_in_set by metis
  then have "components (path_push base n) = components base @ [Normal n]"
    using assms by (simp add: components_join [OF False] split_no_slash map_filter_def)
  then show ?thesis by (simp add: path_file_name_def)
qed

definition vm_name :: "env \<Rightarrow> u64 \<Rightarrow> string" where
  "vm_name env n = ''kee-'' @ dec (unat (en_pid env)) @ ''-'' @ dec (unat n)"

lemma slash_not_in_dec [simp]: "slash \<notin> set (dec n)"
  using dec_digits [of n] by (fastforce simp: slash_def)

lemma vm_name_plain: "slash \<notin> set (vm_name env n)" "vm_name env n \<noteq> []" "vm_name env n \<noteq> ''.''" "vm_name env n \<noteq> ''..''"
  "is_str (vm_name env n)"
proof -
  have "is_ascii ''kee-''" "is_ascii ''-''" by (simp_all add: is_ascii_def)
  then show "is_str (vm_name env n)"
    by (intro is_ascii_is_str) (simp only: vm_name_def is_ascii_append is_ascii_dec simp_thms)
qed (simp_all add: vm_name_def, simp add: slash_def)

lemma workdir_names:
  assumes "w = workdir_path env base n"
  shows "path_file_name w = Some (vm_name env n)" "workdir_name w = vm_name env n"
    "from_utf8 (as_bytes (vm_name env n)) = Some (vm_name env n)" "w \<noteq> []"
proof -
  have w: "w = path_push base (vm_name env n)" using assms by (simp add: workdir_path_def vm_name_def)
  then show *: "path_file_name w = Some (vm_name env n)" by (simp add: path_file_name_push vm_name_plain)
  then show "workdir_name w = vm_name env n" by (simp add: workdir_name_def from_utf8_lossy_id vm_name_plain)
  show "from_utf8 (as_bytes (vm_name env n)) = Some (vm_name env n)" by (simp add: vm_name_plain)
  show "w \<noteq> []" using w vm_name_plain(2) [of env n] by (auto simp: path_push_def)
qed

text \<open>A parent has the components of the path except the last.\<close>

definition comps_of :: "string list \<Rightarrow> component list" where
  "comps_of L = (if hd L = [] \<and> tl L \<noteq> [] then [RootDir] else List.map_filter (component_of True) [hd L])
     @ List.map_filter (component_of False) (tl L)"

lemma split_on_Cons_sep: "q x \<Longrightarrow> split_on q (x # xs) = [] # split_on q xs"
  by simp

lemma components_split: "components p = comps_of (split_on (\<lambda>ch. ch = slash) p)"
proof (cases p)
  case Nil
  then show ?thesis by (simp add: components_def comps_of_def map_filter_def)
next
  case (Cons x xs)
  obtain s ss where s: "split_on (\<lambda>ch. ch = slash) xs = s # ss" by (cases "split_on (\<lambda>ch. ch = slash) xs") auto
  show ?thesis using Cons s by (auto simp: components_def comps_of_def map_filter_def)
qed

lemma split_on_join_slash: "qs \<noteq> [] \<Longrightarrow> \<forall>s \<in> set qs. slash \<notin> set s \<Longrightarrow> split_on (\<lambda>ch. ch = slash) (join_slash qs) = qs"
  by (induction qs rule: join_slash.induct) (auto simp: split_no_slash split_on_append)

lemma split_on_sep: "s \<in> set (split_on q xs) \<Longrightarrow> y \<in> set s \<Longrightarrow> \<not> q y"
  by (induction xs arbitrary: s) (fastforce split: if_splits list.splits)+

lemma trim_tail_facts:
  assumes "ps \<noteq> []"
  shows "trim_tail ps \<noteq> []" "hd (trim_tail ps) = hd ps" "set (trim_tail ps) \<subseteq> set ps"
    "List.map_filter (component_of False) (tl (trim_tail ps)) = List.map_filter (component_of False) (tl ps)"
    "tl (trim_tail ps) \<noteq> [] \<Longrightarrow> last (tl (trim_tail ps)) \<noteq> [] \<and> last (tl (trim_tail ps)) \<noteq> ''.''"
proof -
  let ?q = "\<lambda>s. s = [] \<or> s = ''.''"
  let ?keep = "rev (dropWhile ?q (rev (tl ps)))" and ?cut = "rev (takeWhile ?q (rev (tl ps)))"
  have "tl ps = ?keep @ ?cut" by (metis rev_append rev_rev_ident takeWhile_dropWhile_id)
  moreover have "List.map_filter (component_of False) ?cut = []"
    by (auto simp: map_filter_def filter_empty_conv dest!: set_takeWhileD)
  ultimately have "List.map_filter (component_of False) (tl ps) = List.map_filter (component_of False) ?keep"
    using map_filter_append [of "component_of False" ?keep ?cut] by simp
  then show "List.map_filter (component_of False) (tl (trim_tail ps)) = List.map_filter (component_of False) (tl ps)"
    by (simp add: trim_tail_def)
  show "set (trim_tail ps) \<subseteq> set ps"
    using assms set_dropWhileD [of _ ?q "rev (tl ps)"] by (auto simp: trim_tail_def dest: list.set_sel(2))
  show "last (tl (trim_tail ps)) \<noteq> [] \<and> last (tl (trim_tail ps)) \<noteq> ''.''" if "tl (trim_tail ps) \<noteq> []"
    using that hd_dropWhile [of ?q "rev (tl ps)"] by (auto simp: trim_tail_def last_rev)
qed (simp_all add: trim_tail_def)

lemma path_parent_components:
  assumes "path_parent p = Some q"
  shows "components q = butlast (components p)"
proof -
  let ?L = "split_on (\<lambda>ch. ch = slash) p" and ?mf = "List.map_filter (component_of False)"
  let ?ps = "trim_tail ?L"
  have L: "?L \<noteq> []" by simp
  note T = trim_tail_facts [OF L]
  have not_root: "components p \<noteq> []" "last (components p) \<noteq> RootDir" using assms by (auto simp: path_parent_def split: if_splits)
  obtain a t where ps: "?ps = a # t" using T(1) by (cases ?ps) auto
  have a: "a = hd ?L" using T(2) ps by simp
  let ?head = "if a = [] then [RootDir] else List.map_filter (component_of True) [a]"
  have comp: "components p = comps_of ?L" "?mf (tl ?L) = ?mf t" using components_split T(4) ps by simp_all
  show ?thesis
  proof (cases "t = []")
    case True
    then have "?mf (tl ?L) = []" using comp(2) by (simp add: map_filter_def)
    then have "components p = List.map_filter (component_of True) [a]"
      using comp(1) not_root a by (auto simp: comps_of_def split: if_splits)
    moreover have "q = []" using assms ps True not_root by (simp add: path_parent_def)
    ultimately show ?thesis by (simp add: components_def map_filter_def)
  next
    case False
    have "last t \<noteq> [] \<and> last t \<noteq> ''.''" using T(5) ps False by simp
    then obtain lc where lc: "component_of False (last t) = Some lc" by (cases "last t = ''..''") simp_all
    have mf: "?mf t = ?mf (butlast t) @ [lc]"
      using map_filter_append [of "component_of False" "butlast t" "[last t]"] lc False by (simp add: map_filter_def)
    have "tl ?L \<noteq> []" using mf comp(2) by (auto simp: map_filter_def)
    then have p: "components p = ?head @ ?mf t" using comp a by (simp add: comps_of_def)
    let ?qs = "trim_tail (a # butlast t)"
    note Q = trim_tail_facts [of "a # butlast t", OF list.simps(3), unfolded list.sel]
    have q: "q = (if ?qs = [[]] then [slash] else join_slash ?qs)"
      using assms ps False not_root by (simp add: path_parent_def Let_def)
    have noslash: "\<forall>s \<in> set ?qs. slash \<notin> set s"
    proof
      fix s assume "s \<in> set ?qs"
      then have "s \<in> set (a # butlast t)" using Q(3) by blast
      then have "s \<in> set ?ps" unfolding ps using in_set_butlastD [of s t] by auto
      then have "s \<in> set ?L" using T(3) by blast
      then show "slash \<notin> set s" using split_on_sep [of s "\<lambda>ch. ch = slash" p slash] by blast
    qed
    have "components q = ?head @ ?mf (butlast t)"
    proof (cases "?qs = [[]]")
      case True
      then have "a = []" "?mf (butlast t) = []" using Q(2,4) by (auto simp: map_filter_def)
      then show ?thesis using q True by (simp add: components_def map_filter_def)
    next
      case False
      then have "components q = comps_of ?qs" using q components_split [of q] split_on_join_slash [OF Q(1) noslash] by simp
      moreover have "a = [] \<Longrightarrow> tl ?qs \<noteq> []" using False Q(1,2) by (metis list.exhaust_sel)
      ultimately show ?thesis using Q(2,4) by (auto simp: comps_of_def)
    qed
    then show ?thesis using p mf by simp
  qed
qed

end
