(* ===== verification/Reclaim.thy ===== *)
theory Reclaim
  imports Moves
begin

text \<open>
  What a launch leaves on the host. A launch in progress keeps an invariant (\<open>held\<close>): whatever it took
  lies in its scratch directory, is its namespace, its cgroups, its recorded mounts, its VMM or its
  sentinel. From there an aborted launch and a dropped VM give everything back (\<open>settled\<close>). The
  proofs are triples with a postcondition for success and one for failure.
\<close>

section \<open>Triples\<close>

definition triple :: "('s \<Rightarrow> bool) \<Rightarrow> ('s, 'e, 'a) smethod \<Rightarrow> ('a \<Rightarrow> 's \<Rightarrow> bool) \<Rightarrow> ('s \<Rightarrow> bool) \<Rightarrow> bool" where
  "triple P m Q E \<longleftrightarrow> (\<forall>s. P s \<longrightarrow> (case m s of (Inr x, t) \<Rightarrow> Q x t | (Inl e, t) \<Rightarrow> E t))"

named_theorems triples \<open>triples of the calls of a launch\<close>

lemma tripleI: "(\<And>s x t. P s \<Longrightarrow> m s = (Inr x, t) \<Longrightarrow> Q x t) \<Longrightarrow> (\<And>s e t. P s \<Longrightarrow> m s = (Inl e, t) \<Longrightarrow> E t) \<Longrightarrow> triple P m Q E"
  unfolding triple_def by (auto split: prod.splits sum.splits)

lemma triple_ok: "triple P m Q E \<Longrightarrow> P s \<Longrightarrow> m s = (Inr x, t) \<Longrightarrow> Q x t"
  unfolding triple_def by fastforce

lemma triple_fail: "triple P m Q E \<Longrightarrow> P s \<Longrightarrow> m s = (Inl e, t) \<Longrightarrow> E t"
  unfolding triple_def by fastforce

lemma triple_seqm: "triple P m R E \<Longrightarrow> (\<And>x. triple (R x) (f x) Q E) \<Longrightarrow> triple P (seqm m f) Q E"
  unfolding triple_def seqm_def by (fastforce split: prod.splits sum.splits)

lemma triple_okm: "(\<And>s. P s \<Longrightarrow> Q x s) \<Longrightarrow> triple P (okm x) Q E"
  by (simp add: triple_def okm_def)

lemma triple_failm: "(\<And>s. P s \<Longrightarrow> E s) \<Longrightarrow> triple P (failm e) Q E"
  by (simp add: triple_def failm_def)

lemma triple_conseq: "triple P m Q E \<Longrightarrow> (\<And>s. P' s \<Longrightarrow> P s) \<Longrightarrow> (\<And>x s. Q x s \<Longrightarrow> Q' x s) \<Longrightarrow> (\<And>s. E s \<Longrightarrow> E' s) \<Longrightarrow> triple P' m Q' E'"
  unfolding triple_def by (fastforce split: prod.splits sum.splits)

text \<open>Assertions about a host see its resources and the next process.\<close>

definition at_host :: "(resource set \<Rightarrow> nat \<Rightarrow> bool) \<Rightarrow> host \<Rightarrow> bool" where
  "at_host J h \<longleftrightarrow> J (hs_res h) (hs_next h)"

lemma at_host_quiet: "quiet m \<Longrightarrow> m h = (r, h') \<Longrightarrow> at_host J h' = at_host J h"
  by (auto simp: at_host_def dest: quietD)

lemma triple_quiet: "quiet m \<Longrightarrow> triple (at_host J) m (\<lambda>_. at_host J) (at_host J)"
  by (intro tripleI) (auto simp: at_host_def dest: quietD)

section \<open>What is settled\<close>

text \<open>The resources of the VM with scratch directory \<open>w\<close> that stages into \<open>X\<close>.\<close>

definition own :: "string \<Rightarrow> resource set \<Rightarrow> resource set" where
  "own w X = {r. inside w r \<or> mounted_under w r} \<union> {Netns (workdir_name w)} \<union> range Cgroup \<union> X"

text \<open>Every mount point lies in a directory that exists.\<close>

definition orderly :: "resource set \<Rightarrow> string \<Rightarrow> bool" where
  "orderly R w \<longleftrightarrow> (Dir w \<notin> R \<longrightarrow> (\<forall>r \<in> R. \<not> mounted_under w r))"

text \<open>\<open>Y\<close> is what may stay although every best-effort step works.\<close>

definition settled :: "env \<Rightarrow> string \<Rightarrow> resource set \<Rightarrow> resource set \<Rightarrow> resource set \<Rightarrow> resource set \<Rightarrow> bool" where
  "settled env w X Y R0 R \<longleftrightarrow>
     (\<forall>r. r \<notin> own w X \<longrightarrow> (r \<in> R \<longleftrightarrow> r \<in> R0))
     \<and> (Netns (workdir_name w) \<in> R \<longrightarrow> Netns (workdir_name w) \<in> R0 \<or> Dir w \<in> R)
     \<and> (\<forall>r \<in> R. mounted_under w r \<longrightarrow> r \<in> R0 \<or> Dir w \<in> R)
     \<and> (works env \<and> orderly R0 w \<longrightarrow> (\<forall>r \<in> R. r \<in> own w X \<longrightarrow> r \<in> R0 \<or> r \<in> Y))"

lemma settled_refl [simp]: "settled env w X Y R R"
  by (simp add: settled_def)

lemma settled_mono: "settled env w X Y R0 R \<Longrightarrow> Y \<subseteq> Y' \<Longrightarrow> settled env w X Y' R0 R"
  by (auto simp: settled_def)

text \<open>Nothing runs any more; the scratch directory and the namespace are still to go.\<close>

definition idle :: "env \<Rightarrow> string \<Rightarrow> resource set \<Rightarrow> resource set \<Rightarrow> Tap option \<Rightarrow> resource set \<Rightarrow> resource set \<Rightarrow> bool" where
  "idle env w X Y tap R0 R \<longleftrightarrow>
     Dir w \<in> R \<and> Dir w \<notin> R0
     \<and> (\<forall>r. r \<notin> own w X \<longrightarrow> (r \<in> R \<longleftrightarrow> r \<in> R0))
     \<and> (case tap of None \<Rightarrow> Netns (workdir_name w) \<in> R \<longleftrightarrow> Netns (workdir_name w) \<in> R0
                  | Some t \<Rightarrow> tp_netns t = workdir_name w)
     \<and> (works env \<longrightarrow> (\<forall>r \<in> R. r \<in> own w X \<longrightarrow> r \<noteq> Netns (workdir_name w) \<longrightarrow> \<not> inside w r \<longrightarrow> r \<in> R0 \<or> r \<in> Y))"

text \<open>The same before a VMM was started: cgroups and mounts are as they were.\<close>

definition preparing :: "string \<Rightarrow> Tap option \<Rightarrow> resource set \<Rightarrow> resource set \<Rightarrow> bool" where
  "preparing w tap R0 R \<longleftrightarrow>
     Dir w \<in> R \<and> Dir w \<notin> R0
     \<and> (\<forall>r. \<not> inside w r \<and> r \<noteq> Netns (workdir_name w) \<longrightarrow> (r \<in> R \<longleftrightarrow> r \<in> R0))
     \<and> (case tap of None \<Rightarrow> Netns (workdir_name w) \<in> R \<longleftrightarrow> Netns (workdir_name w) \<in> R0
                  | Some t \<Rightarrow> tp_netns t = workdir_name w)"

lemma preparing_idle: "preparing w tap R0 R \<Longrightarrow> idle env w X Y tap R0 R"
  unfolding preparing_def idle_def own_def by auto

lemma inside_self [simp]: "inside w (Dir w)"
  by (simp add: inside_def)

lemma inside_not_special [simp]: "\<not> inside w (Netns n)" "\<not> inside w (Cgroup d)" "\<not> inside w (VmmProc p)"
  "\<not> inside w (Sentinel p)" "\<not> inside w (Mount m)"
  by (simp_all add: inside_def)

lemma inside_paths [simp]: "inside w (Dir p) = path_starts_with p w" "inside w (File p) = path_starts_with p w"
  by (simp_all add: inside_def)

lemma mounted_under_only [simp]: "\<not> mounted_under w (Netns n)" "\<not> mounted_under w (Cgroup d)" "\<not> mounted_under w (VmmProc p)"
  "\<not> mounted_under w (Sentinel p)" "\<not> mounted_under w (Dir d)" "\<not> mounted_under w (File f)"
  "mounted_under w (Mount m) = path_starts_with m w"
  by (simp_all add: mounted_under_def)

lemma mounted_not_inside: "mounted_under w r \<Longrightarrow> \<not> inside w r"
  by (cases r) simp_all

lemma mounted_under_cases: "mounted_under w r \<Longrightarrow> \<exists>m. r = Mount m"
  by (cases r) simp_all

lemma remove_tree_cases:
  "hs_res (remove_tree env p h) = hs_res h
   \<or> (\<forall>r \<in> hs_res h. \<not> mounted_under p r) \<and> hs_res (remove_tree env p h) = {r \<in> hs_res h. \<not> inside p r}"
  by (auto simp: remove_tree_def ask_def)

lemma remove_tree_works:
  "works env \<Longrightarrow> (\<forall>r \<in> hs_res h. \<not> mounted_under p r) \<Longrightarrow> hs_res (remove_tree env p h) = {r \<in> hs_res h. \<not> inside p r}"
  by (simp add: remove_tree_def ask_def works_def)

lemma settled_keep:
  assumes "idle env w X Y tap R0 R" "\<not> works env"
  shows "settled env w X Y R0 R"
  using assms unfolding idle_def settled_def by auto

lemma settled_remove_tree:
  assumes idle: "idle env w X Y tap R0 (hs_res h)"
    and ns: "Netns (workdir_name w) \<in> hs_res h \<longrightarrow> Netns (workdir_name w) \<in> R0"
    and no_mount: "\<And>m. Mount m \<notin> Y"
  shows "settled env w X Y R0 (hs_res (remove_tree env w h))"
proof -
  let ?R = "hs_res h" and ?R' = "hs_res (remove_tree env w h)"
  have dir: "Dir w \<in> ?R" "Dir w \<notin> R0" and frame: "\<And>r. r \<notin> own w X \<Longrightarrow> (r \<in> ?R \<longleftrightarrow> r \<in> R0)"
    and rest: "works env \<Longrightarrow> \<forall>r \<in> ?R. r \<in> own w X \<longrightarrow> r \<noteq> Netns (workdir_name w) \<longrightarrow> \<not> inside w r \<longrightarrow> r \<in> R0 \<or> r \<in> Y"
    using idle unfolding idle_def by auto
  have gone: "?R' = {r \<in> ?R. \<not> inside w r}" if "works env" "orderly R0 w"
  proof (rule remove_tree_works [OF that(1)])
    have "\<forall>r \<in> R0. \<not> mounted_under w r" using that(2) dir(2) by (simp add: orderly_def)
    then show "\<forall>r \<in> ?R. \<not> mounted_under w r"
      using rest [OF that(1)] no_mount mounted_not_inside
      by (metis (no_types, lifting) UnI1 mem_Collect_eq mounted_under_cases mounted_under_only(1) own_def)
  qed
  have "works env \<and> orderly R0 w \<longrightarrow> (\<forall>r \<in> ?R'. r \<in> own w X \<longrightarrow> r \<in> R0 \<or> r \<in> Y)"
    using gone rest ns by auto
  moreover have "inside w r \<Longrightarrow> r \<in> own w X" for r by (simp add: own_def)
  ultimately show ?thesis
    using remove_tree_cases [of env w h] frame dir ns unfolding settled_def by (elim disjE) auto
qed

lemma reclaim_scratch_settled:
  assumes idle: "idle env w X Y tap R0 (hs_res h)" and no_mount: "\<And>m. Mount m \<notin> Y"
  shows "settled env w X Y R0 (hs_res (reclaim_scratch env w tap h))"
proof (cases tap)
  case None
  then show ?thesis using settled_remove_tree [OF idle _ no_mount] idle by (simp add: reclaim_scratch_def idle_def)
next
  case (Some t)
  let ?h = "Tap_delete env t h"
  have t: "tp_netns t = workdir_name w" using idle Some by (simp add: idle_def)
  have "hs_res ?h = hs_res h \<or> hs_res ?h = hs_res h - {Netns (workdir_name w)}"
    by (auto simp: Tap_delete_def netns_del_def release_def ask_def discard_def t split: bool.splits)
  then have idle': "idle env w X Y tap R0 (hs_res ?h)"
    using idle Some unfolding idle_def own_def by (elim disjE) auto
  show ?thesis
  proof (cases "netns_exists (tp_netns t) ?h")
    case True
    then have "\<not> works env"
      using release_works [of env "Netns (tp_netns t)" h] by (auto simp: Tap_delete_def netns_del_def netns_exists_def)
    then show ?thesis using settled_keep [OF idle'] Some True by (simp add: reclaim_scratch_def Let_def)
  next
    case False
    then show ?thesis using settled_remove_tree [OF idle' _ no_mount] Some t
      by (simp add: reclaim_scratch_def Let_def netns_exists_def)
  qed
qed

section \<open>Launching\<close>

text \<open>The processes of a host have been started.\<close>

definition started :: "resource set \<Rightarrow> nat \<Rightarrow> bool" where
  "started R n \<longleftrightarrow> (\<forall>p. VmmProc p \<in> R \<or> Sentinel p \<in> R \<longrightarrow> p < n)"

lemma started_mono: "started R n \<Longrightarrow> n \<le> n' \<Longrightarrow> started R n'"
  by (fastforce simp: started_def)

lemma preparing_new: "Dir w \<notin> R \<Longrightarrow> preparing w None R (insert (Dir w) R)"
  by (auto simp: preparing_def)

lemma create_workdir_loop_outcome:
  assumes no_mount: "\<And>m. Mount m \<notin> Y" and run: "create_workdir_loop env base n h = (r, h')"
  shows "hs_next h' = hs_next h
    \<and> (\<exists>k. (unat (hs_seq h) + n < 2 ^ 64 \<longrightarrow> unat (hs_seq h) \<le> unat k)
          \<and> (case r of Inr w \<Rightarrow> w = workdir_path env base k \<and> preparing w None (hs_res h) (hs_res h')
                     | Inl _ \<Rightarrow> settled env (workdir_path env base k) X Y (hs_res h) (hs_res h')))"
  using run
proof (induction n arbitrary: h)
  case 0
  then show ?case by (auto intro: exI [of _ "hs_seq h"])
next
  case (Suc tries)
  let ?w = "workdir_path env base (hs_seq h)" and ?h = "tick env (h\<lparr>hs_seq := hs_seq h + 1\<rparr>)"
  let ?h1 = "acquire (Dir ?w) ?h"
  consider (taken) "Dir ?w \<in> hs_res h \<or> en_io env (hs_step h) = Some AlreadyExists"
    | (refused) k where "Dir ?w \<notin> hs_res h" "en_io env (hs_step h) = Some k" "k \<noteq> AlreadyExists"
    | (made) "Dir ?w \<notin> hs_res h" "en_io env (hs_step h) = None"
    by (cases "en_io env (hs_step h)") auto
  then show ?case
  proof cases
    case taken
    then have "create_workdir_loop env base tries ?h = (r, h')"
      using Suc.prems by (auto simp: ask_def Let_def split: if_splits)
    then obtain k where k: "hs_next h' = hs_next ?h" "unat (hs_seq ?h) + tries < 2 ^ 64 \<longrightarrow> unat (hs_seq ?h) \<le> unat k"
      and out: "case r of Inr w \<Rightarrow> w = workdir_path env base k \<and> preparing w None (hs_res ?h) (hs_res h')
          | Inl _ \<Rightarrow> settled env (workdir_path env base k) X Y (hs_res ?h) (hs_res h')"
      using Suc.IH by blast
    have "unat (hs_seq h + 1) = unat (hs_seq h) + 1" if "unat (hs_seq h) + Suc tries < 2 ^ 64"
      using that by (subst unat_add_lem [THEN iffD1]) simp_all
    then have "unat (hs_seq h) + Suc tries < 2 ^ 64 \<longrightarrow> unat (hs_seq h) \<le> unat k" using k(2) by fastforce
    moreover have "hs_res ?h = hs_res h" by simp
    note out [unfolded this]
    ultimately show ?thesis using k(1) by (intro conjI exI [of _ k]) simp_all
  next
    case refused
    then show ?thesis using Suc.prems by (auto simp: ask_def Let_def intro: exI [of _ "hs_seq h"])
  next
    case made
    have prep: "preparing ?w None (hs_res h) (hs_res (tick env ?h1))" using preparing_new [OF made(1)] by (simp add: acquire_def)
    have "settled env ?w X Y (hs_res h) (hs_res (remove_tree env ?w (tick env ?h1)))"
      using settled_remove_tree [OF preparing_idle [OF prep] _ no_mount] prep by (simp add: preparing_def)
    moreover have "hs_next (remove_tree env ?w (tick env ?h1)) = hs_next h" "hs_next (tick env ?h1) = hs_next h"
      by (auto simp: remove_tree_def ask_def acquire_def)
    ultimately show ?thesis using Suc.prems made prep
      by (auto simp: ask_def Let_def try_io_def intro!: exI [of _ "hs_seq h"] split: option.splits)
  qed
qed

text \<open>Assertions of a launch that started with the resources \<open>R0\<close>.\<close>

definition prepared :: "string \<Rightarrow> Tap option \<Rightarrow> resource set \<Rightarrow> host \<Rightarrow> bool" where
  "prepared w tap R0 = at_host (\<lambda>R n. preparing w tap R0 R \<and> started R0 n)"

definition left :: "env \<Rightarrow> string \<Rightarrow> resource set \<Rightarrow> resource set \<Rightarrow> resource set \<Rightarrow> host \<Rightarrow> bool" where
  "left env w X Y R0 = at_host (\<lambda>R n. settled env w X Y R0 R)"

lemma triple_quiet_prepared: "quiet m \<Longrightarrow> triple (prepared w tap R0) m (\<lambda>_. prepared w tap R0) (prepared w tap R0)"
  unfolding prepared_def by (rule triple_quiet)

lemma prepared_inner:
  assumes "prepared w tap R0 h" "moves {r. inside w r} h h'" "Dir w \<in> hs_res h'"
  shows "prepared w tap R0 h'"
  using assms unfolding prepared_def at_host_def preparing_def moves_def
  by (auto split: option.splits intro: started_mono)

lemma inside_join: "w \<noteq> [] \<Longrightarrow> p \<noteq> [] \<Longrightarrow> hd p \<noteq> slash \<Longrightarrow> path_starts_with (path_push w p) w"
  by (rule path_starts_with_join) auto

lemma triple_stage_launch:
  assumes "w \<noteq> []"
  shows "triple (prepared w None R0) (stage_launch env c deadline w) (\<lambda>_. prepared w None R0) (prepared w None R0)"
proof -
  let ?I = "prepared w None R0" and ?copy = "path_push w ''rootfs.ext4''"
  have "path_starts_with ?copy w" using assms by (intro inside_join) (simp_all add: slash_def)
  then have copied: "triple ?I (\<lambda>h. (Inr (), acquire (File ?copy) h)) (\<lambda>_. ?I) ?I"
    by (intro tripleI) (auto intro!: prepared_inner [of w None R0] moves simp: acquire_def prepared_def at_host_def preparing_def)
  have quiet_absolute: "quiet (\<lambda>h. (x, h))" for x :: "VmmError + string" by (simp add: quiet_def)
  note seq = triple_seqm [where R = "\<lambda>_. ?I"]
  show ?thesis unfolding stage_launch_def Let_def
  proof (intro seq triple_okm, goal_cases)
    case 1
    show ?case
    proof (cases "cf_read_only_root c")
      case False
      then show ?thesis by simp (intro seq copied triple_okm; (rule triple_quiet_prepared, intro quiet)?)
    qed (simp add: triple_quiet_prepared quiet_absolute)
  qed (auto intro!: triple_quiet_prepared quiet split: option.splits)
qed

lemma triple_create_tap:
  assumes w: "w = workdir_path env base k" and no_mount: "\<And>m. Mount m \<notin> Y"
  shows "triple (prepared w None R0) (create_tap_or_reclaim env networked w owner) (\<lambda>tap. prepared w tap R0) (left env w X Y R0)"
proof (cases networked)
  case False
  then show ?thesis by (intro tripleI) (auto simp: create_tap_or_reclaim_def)
next
  case True
  show ?thesis
  proof (rule tripleI)
    fix h tap h' assume I: "prepared w None R0 h" and run: "create_tap_or_reclaim env networked w owner h = (Inr tap, h')"
    then obtain t where t: "Tap_create env (workdir_name w) owner h = (Inr t, h')" "tap = Some t"
      using True by (auto simp: create_tap_or_reclaim_def split: prod.splits sum.splits)
    then show "prepared w tap R0 h'"
      using I moves_Tap_create [OF t(1)] Tap_create_netns [OF t(1)]
      unfolding prepared_def at_host_def preparing_def moves_def by (auto intro: started_mono)
  next
    fix h e h' assume I: "prepared w None R0 h" and run: "create_tap_or_reclaim env networked w owner h = (Inl e, h')"
    then obtain h1 where t: "Tap_create env (workdir_name w) owner h = (Inl e, h1)" "h' = reclaim_scratch_after_tap_failure env w h1"
      using True by (auto simp: create_tap_or_reclaim_def split: prod.splits sum.splits)
    have idle: "idle env w X Y (Some \<lparr>tp_netns = workdir_name w, tp_name = [], tp_mac = [],
          tp_v4 = \<lparr>gl_host = [], gl_guest = [], gl_prefix_len = 0\<rparr>, tp_v6 = None\<rparr>) R0 (hs_res h1)"
      using I moves_Tap_create [OF t(1)] unfolding prepared_def at_host_def
      by (intro preparing_idle) (auto simp: preparing_def moves_def)
    show "left env w X Y R0 h'"
    proof (cases "Netns (workdir_name w) \<in> hs_res h1")
      case True
      then have "h' = h1" using t(2) workdir_names [OF w] vm_name_plain(2)
        by (simp add: reclaim_scratch_after_tap_failure_def netns_exists_def)
      moreover have "\<not> works env" using Tap_create_fails [OF _ t(1)] True by blast
      ultimately show ?thesis using settled_keep [OF idle] by (simp add: left_def at_host_def)
    next
      case False
      then have "h' = remove_tree env w h1" using t(2) workdir_names [OF w]
        by (simp add: reclaim_scratch_after_tap_failure_def netns_exists_def)
      then show ?thesis using settled_remove_tree [OF idle _ no_mount] False by (simp add: left_def at_host_def)
    qed
  qed
qed

section \<open>Starting the VMM\<close>

text \<open>A VMM runs. A jailer may have made cgroups.\<close>

definition spawned :: "bool \<Rightarrow> string \<Rightarrow> Tap option \<Rightarrow> nat \<Rightarrow> resource set \<Rightarrow> host \<Rightarrow> bool" where
  "spawned jailed w tap child R0 = at_host (\<lambda>R n.
     Dir w \<in> R \<and> Dir w \<notin> R0 \<and> VmmProc child \<notin> R0 \<and> VmmProc child \<in> R \<and> started R0 n
     \<and> (\<forall>r. \<not> inside w r \<and> r \<noteq> Netns (workdir_name w) \<and> r \<noteq> VmmProc child \<and> (jailed \<longrightarrow> r \<notin> range Cgroup)
          \<longrightarrow> (r \<in> R \<longleftrightarrow> r \<in> R0))
     \<and> (case tap of None \<Rightarrow> Netns (workdir_name w) \<in> R \<longleftrightarrow> Netns (workdir_name w) \<in> R0
                  | Some t \<Rightarrow> tp_netns t = workdir_name w))"

lemma prepared_spawn:
  assumes "prepared w tap R0 h" "spawn_child VmmProc argv h = (child, h')"
  shows "spawned jailed w tap child R0 h'"
  using assms unfolding prepared_def spawned_def at_host_def preparing_def
  by (auto simp: spawn_child_def acquire_def Let_def started_def split: option.splits)

lemma spawned_quiet: "quiet m \<Longrightarrow> m h = (r, h') \<Longrightarrow> spawned jailed w tap child R0 h \<Longrightarrow> spawned jailed w tap child R0 h'"
  unfolding spawned_def by (simp add: at_host_quiet)

lemma spawned_killed:
  assumes "spawned False w tap child R0 h"
  shows "prepared w tap R0 (kill_wait env (VmmProc child) h)"
  using assms unfolding prepared_def spawned_def at_host_def preparing_def kill_wait_def discard_def
  by (auto split: option.splits)

lemma spawned_killed_idle:
  assumes "spawned True w tap child R0 h" "range Cgroup \<subseteq> Y"
  shows "idle env w X Y tap R0 (hs_res (kill_wait env (VmmProc child) h))"
  using assms unfolding spawned_def at_host_def idle_def own_def kill_wait_def discard_def
  by (auto split: option.splits)

lemma idle_cgroups:
  assumes "idle env w X Y tap R0 (hs_res h)" "moves (range Cgroup) h h'" "range Cgroup \<subseteq> Y"
  shows "idle env w X Y tap R0 (hs_res h')"
proof -
  have same: "r \<in> hs_res h' \<longleftrightarrow> r \<in> hs_res h" if "\<And>d. r \<noteq> Cgroup d" for r using assms(2) that by (auto simp: moves_def)
  have cg: "Cgroup d \<in> own w X" "Cgroup d \<in> Y" for d using assms(3) by (auto simp: own_def)
  have "r \<notin> own w X \<Longrightarrow> (r \<in> hs_res h' \<longleftrightarrow> r \<in> hs_res h)" for r using same cg by metis
  moreover have "r \<in> hs_res h' \<Longrightarrow> r \<in> Y \<or> r \<in> hs_res h" for r using same cg by metis
  ultimately show ?thesis using assms(1) same unfolding idle_def by (auto split: option.splits) blast+
qed

lemma moves_remove_cgroup: "moves (range Cgroup) h (remove_cgroup env d h)"
  by (auto simp: remove_cgroup_def Let_def split: option.splits intro: moves_release moves_trans [OF moves_release moves_release])

lemma left_reclaim: "idle env w X Y tap R0 (hs_res h) \<Longrightarrow> (\<And>m. Mount m \<notin> Y) \<Longrightarrow> left env w X Y R0 (reclaim_scratch env w tap h)"
  unfolding left_def at_host_def by (rule reclaim_scratch_settled)

lemma triple_spawn_fc:
  "triple (prepared w tap R0) (spawn_fc env fc w socket netns) (\<lambda>child. spawned False w tap child R0) (prepared w tap R0)"
proof (cases "check_sun_path socket")
  case (Inl e)
  then show ?thesis by (auto simp: triple_def spawn_fc_def)
next
  case (Inr u)
  let ?argv = "(case netns of Some ns \<Rightarrow> [''ip'', ''netns'', ''exec'', ns, fc] | None \<Rightarrow> [fc]) @ [''--api-sock'', socket]"
  have last: "triple (prepared w tap R0) (\<lambda>h1. case spawn_child VmmProc ?argv h1 of (child, h2) \<Rightarrow>
      (case console_spawn env h2 of (Inl e, h3) \<Rightarrow> (Inl e, kill_wait env (VmmProc child) h3) | (Inr _, h3) \<Rightarrow> (Inr child, h3)))
    (\<lambda>child. spawned False w tap child R0) (prepared w tap R0)"
    by (intro tripleI)
       (auto split: prod.splits sum.splits dest!: prepared_spawn intro: spawned_killed spawned_quiet [OF quiet_staging(5)])
  show ?thesis unfolding spawn_fc_def [abs_def] Inr sum.case
    by (intro triple_seqm [where R = "\<lambda>_. prepared w tap R0"] last; (rule triple_quiet_prepared, intro quiet)?)
qed

lemma triple_spawn_fc_or_reclaim:
  assumes "\<And>m. Mount m \<notin> Y"
  shows "triple (prepared w tap R0) (spawn_fc_or_reclaim env c w tap) (\<lambda>child. spawned False w tap child R0) (left env w X Y R0)"
proof (rule tripleI)
  let ?m = "spawn_fc env (cf_firecracker c) w (path_push w ''fc.sock'') (map_option tp_netns tap)"
  note T = triple_spawn_fc [of w tap R0 env "cf_firecracker c" "path_push w ''fc.sock''" "map_option tp_netns tap"]
  fix h assume I: "prepared w tap R0 h"
  show "spawned False w tap child R0 h'" if "spawn_fc_or_reclaim env c w tap h = (Inr child, h')" for child h'
    using that triple_ok [OF T I] by (auto simp: spawn_fc_or_reclaim_def split: prod.splits sum.splits)
  show "left env w X Y R0 h'" if "spawn_fc_or_reclaim env c w tap h = (Inl e, h')" for e h'
    using that triple_fail [OF T I] assms
    by (auto simp: spawn_fc_or_reclaim_def prepared_def at_host_def split: prod.splits sum.splits intro!: left_reclaim preparing_idle)
qed

lemma file_name_plain:
  assumes "path_file_name p = Some n"
  shows "n \<noteq> []" "slash \<notin> set n" "n \<noteq> ''.''" "n \<noteq> ''..''"
proof -
  have "Normal n \<in> set (components p)" using assms last_in_set by (fastforce simp: path_file_name_def split: if_splits component.splits)
  then have n: "n \<noteq> [] \<and> n \<noteq> ''.'' \<and> n \<noteq> ''..'' \<and> n \<in> set (split_on (\<lambda>c. c = slash) p)"
    by (cases "split_on (\<lambda>c. c = slash) p") (auto simp: components_def map_filter_def split: if_splits)
  then show "n \<noteq> []" "n \<noteq> ''.''" "n \<noteq> ''..''" by simp_all
  show "slash \<notin> set n" using n split_on_sep [of n "\<lambda>c. c = slash" p slash] by blast
qed

text \<open>The root of a chroot lies at least two levels below the scratch directory.\<close>

definition jail_root :: "string \<Rightarrow> string \<Rightarrow> bool" where
  "jail_root root w \<longleftrightarrow> root \<noteq> [] \<and> path_starts_with root w \<and> length (components w) + 2 \<le> length (components root)"

lemma components_push_name:
  assumes "dir \<noteq> []" "slash \<notin> set n" "n \<noteq> []" "n \<noteq> ''.''" "n \<noteq> ''..''"
  shows "components (path_push dir n) = components dir @ [Normal n]"
proof -
  have "hd n \<noteq> slash" using assms(2,3) hd_in_set by metis
  then show ?thesis using assms by (simp add: components_join [OF assms(1)] split_no_slash map_filter_def)
qed

lemma jail_root_join:
  assumes "jail_root root w" "p = [] \<or> hd p \<noteq> slash"
  shows "jail_root (path_push root p) w"
  using assms path_starts_with_join [of root w p] path_push_not_Nil [of root p] components_join [of root p] by (auto simp: jail_root_def)

lemma triple_spawn_jailer:
  assumes w: "w = workdir_path env base k" and cg: "range Cgroup \<subseteq> Y"
  shows "triple (prepared w tap R0) (spawn_jailer env jail fc w (workdir_name w) args netns)
      (\<lambda>(child, socket, root) h. spawned True w tap child R0 h \<and> jail_root root w)
      (\<lambda>h. idle env w X Y tap R0 (hs_res h))"
proof -
  let ?I = "prepared w tap R0" and ?E = "\<lambda>h. idle env w X Y tap R0 (hs_res h)" and ?hv = "host_view.truncate (en_view env)"
  let ?Q = "\<lambda>(child, socket, root) h. spawned True w tap child R0 h \<and> jail_root root w"
  have IE: "?I h \<Longrightarrow> ?E h" for h by (simp add: prepared_def at_host_def preparing_idle)
  have plain: "w \<noteq> []" and name: "workdir_name w \<noteq> []" "slash \<notin> set (workdir_name w)" "workdir_name w \<noteq> ''.''" "workdir_name w \<noteq> ''..''"
    using workdir_names [OF w] vm_name_plain by simp_all
  have step: "triple ?I (\<lambda>h1. case spawn_child VmmProc argv h1 of (child, h2) \<Rightarrow>
        (let h3 = (if en_residue env (hs_step h2) then acquire (Cgroup cgd) h2 else h2)
         in case console_spawn env h3 of
              (Inl e, h4) \<Rightarrow> (Inl e, (let h5 = kill_wait env (VmmProc child) h4 in
                 case jailer_cgroup_dir (en_fmt env) ?hv fc (workdir_name w) of Some cgroup \<Rightarrow> remove_cgroup env cgroup h5 | None \<Rightarrow> h5))
            | (Inr _, h4) \<Rightarrow> (Inr (child, socket, root), h4))) ?Q ?E" if root: "jail_root root w" for argv cgd socket root
  proof -
    have res: "spawned True w tap child R0 (acquire (Cgroup d) h)" if "spawned True w tap child R0 h" for child d h
      using that by (auto simp: spawned_def at_host_def acquire_def split: option.splits)
    note E = idle_cgroups [OF spawned_killed_idle [OF _ cg] moves_remove_cgroup cg]
    show ?thesis
      by (intro tripleI)
         (auto simp: Let_def root split: prod.splits sum.splits if_splits option.splits dest!: prepared_spawn [where jailed = True]
           dest: spawned_quiet [OF quiet_staging(5)] intro!: E spawned_killed_idle [OF _ cg] intro: spawned_quiet [OF quiet_staging(5)] res)
  qed
  let ?pre = "and_then (resolve_exec (en_fmt env) ?hv fc) (\<lambda>exec.
       and_then (ok_or (path_file_name exec) (Vmm (''firecracker path has no file name: '' @ exec))) (\<lambda>exec_name.
       let chroot_root = path_push (path_push (path_push w exec_name) (workdir_name w)) ''root'';
           socket = path_push chroot_root ''run/firecracker.socket''
       in and_then (check_sun_path socket) (\<lambda>_. Inr (exec, exec_name, socket, chroot_root))))"
  show ?thesis
  proof (cases ?pre)
    case (Inl e)
    then show ?thesis using IE by (auto simp: triple_def spawn_jailer_def Let_def)
  next
    case (Inr x)
    obtain exec exec_name socket root where x: "x = (exec, exec_name, socket, root)" by (cases x) auto
    have "path_file_name exec = Some exec_name" "root = path_push (path_push (path_push w exec_name) (workdir_name w)) ''root''"
      using Inr x by (auto simp: and_then_Inr Let_def ok_or_def split: option.splits)
    moreover have "slash \<notin> set ''root''" "''root'' \<noteq> []" "''root'' \<noteq> ''.''" "''root'' \<noteq> ''..''" by (simp_all add: slash_def)
    ultimately have "components root = components w @ [Normal exec_name, Normal (workdir_name w), Normal ''root'']" "root \<noteq> []"
      using file_name_plain [of exec exec_name] plain name by (simp_all only: components_push_name path_push_not_Nil not_False_eq_True) simp_all
    then have root: "jail_root root w" by (simp add: jail_root_def path_starts_with_def)
    show ?thesis unfolding spawn_jailer_def [abs_def] Let_def [of ?hv] Inr x sum.case prod.case
      by (intro triple_seqm [where R = "\<lambda>_. ?I"] step [OF root] triple_conseq [OF triple_quiet_prepared])
         (auto intro!: quiet IE)
  qed
qed

section \<open>A launch in progress\<close>

definition sentinels :: "VmLifetime \<Rightarrow> resource set" where
  "sentinels lt = Sentinel ` set_option (lt_sentinel lt)"

definition held ::
    "env \<Rightarrow> resource set \<Rightarrow> resource set \<Rightarrow> string \<Rightarrow> Tap option \<Rightarrow> nat \<Rightarrow> Chroot option \<Rightarrow> VmLifetime \<Rightarrow> resource set \<Rightarrow> bool" where
  "held env R0 X w tap child ch lt R \<longleftrightarrow>
     Dir w \<in> R \<and> Dir w \<notin> R0 \<and> VmmProc child \<notin> R0 \<and> sentinels lt \<inter> R0 = {}
     \<and> (\<forall>r. r \<notin> own w X \<union> {VmmProc child} \<union> sentinels lt \<longrightarrow> (r \<in> R \<longleftrightarrow> r \<in> R0))
     \<and> (case tap of None \<Rightarrow> Netns (workdir_name w) \<in> R \<longleftrightarrow> Netns (workdir_name w) \<in> R0
                  | Some t \<Rightarrow> tp_netns t = workdir_name w)
     \<and> (\<forall>c. ch = Some c \<longrightarrow> jail_root (ch_root c) w \<and> (\<forall>m \<in> set (ch_mounts c). path_starts_with m w))
     \<and> (works env \<longrightarrow> (\<forall>m. Mount m \<in> R \<and> path_starts_with m w \<longrightarrow> Mount m \<in> R0 \<or> (\<exists>c. ch = Some c \<and> m \<in> set (ch_mounts c))))
     \<and> (works env \<and> ch = None \<longrightarrow> (\<forall>d. Cgroup d \<in> R \<longrightarrow> Cgroup d \<in> R0 \<or> lt_own_cgroup lt = Some d))"

text \<open>Processes are told apart from all that a VM owns otherwise.\<close>

definition plainly :: "resource set \<Rightarrow> bool" where
  "plainly X \<longleftrightarrow> X \<subseteq> range Dir \<union> range File"

lemma own_plain [simp]: "plainly X \<Longrightarrow> VmmProc p \<notin> own w X" "plainly X \<Longrightarrow> Sentinel p \<notin> own w X"
  by (auto simp: own_def plainly_def)

lemma arm_sentinel_outcome:
  assumes "arm_sentinel env dirs h = (s, h')"
  shows "hs_next h \<le> hs_next h'" "hs_res h' = Sentinel ` set_option s \<union> hs_res h" "\<forall>p. s = Some p \<longrightarrow> hs_next h \<le> p"
  using assms by (auto simp: arm_sentinel_def ask_def spawn_child_def acquire_def Let_def split: if_splits option.splits)

lemma create_lifetime_cgroup_outcome:
  assumes "create_lifetime_cgroup env pid name h = (r, h')"
  shows "moves (range Cgroup) h h'"
    "works env \<Longrightarrow> Cgroup d \<in> hs_res h' \<Longrightarrow> Cgroup d \<in> hs_res h \<or> r = Inr d"
proof -
  let ?dir = "\<lambda>own. path_push own name"
  show "moves (range Cgroup) h h'"
    using assms by (auto simp: create_lifetime_cgroup_def ask_def Let_def moves_def acquire_def release_def discard_def
        split: option.splits if_splits bool.splits)
  show "Cgroup d \<in> hs_res h \<or> r = Inr d" if "works env" "Cgroup d \<in> hs_res h'"
    using assms that by (auto simp: create_lifetime_cgroup_def ask_def Let_def acquire_def release_works split: option.splits if_splits)
qed

lemma held_spawned:
  assumes S: "spawned jailed w tap child R0 h" and fresh: "sentinels lt \<inter> R0 = {}"
    and res: "\<And>r. r \<notin> range Cgroup \<Longrightarrow> r \<notin> sentinels lt \<Longrightarrow> (r \<in> hs_res h' \<longleftrightarrow> r \<in> hs_res h)"
    and cg: "\<And>d. ch = None \<Longrightarrow> works env \<Longrightarrow> Cgroup d \<in> hs_res h' \<Longrightarrow> Cgroup d \<in> hs_res h \<or> lt_own_cgroup lt = Some d"
    and jail: "ch = None \<Longrightarrow> \<not> jailed" and root: "\<And>c. ch = Some c \<Longrightarrow> jail_root (ch_root c) w \<and> ch_mounts c = []"
  shows "held env R0 X w tap child ch lt (hs_res h') \<and> VmmProc child \<in> hs_res h'"
proof -
  have spec: "Dir w \<in> hs_res h" "Dir w \<notin> R0" "VmmProc child \<notin> R0" "VmmProc child \<in> hs_res h"
    and frame: "\<And>r. \<not> inside w r \<Longrightarrow> r \<noteq> Netns (workdir_name w) \<Longrightarrow> r \<noteq> VmmProc child \<Longrightarrow> (jailed \<longrightarrow> r \<notin> range Cgroup)
        \<Longrightarrow> (r \<in> hs_res h \<longleftrightarrow> r \<in> R0)"
    and tap: "case tap of None \<Rightarrow> Netns (workdir_name w) \<in> hs_res h \<longleftrightarrow> Netns (workdir_name w) \<in> R0
                  | Some t \<Rightarrow> tp_netns t = workdir_name w"
    using S by (simp_all add: spawned_def at_host_def)
  have free: "Dir p \<notin> sentinels lt" "Netns n \<notin> sentinels lt" "VmmProc q \<notin> sentinels lt" "Mount m \<notin> sentinels lt" for p n q m
    by (auto simp: sentinels_def)
  have tap': "case tap of None \<Rightarrow> Netns (workdir_name w) \<in> hs_res h' \<longleftrightarrow> Netns (workdir_name w) \<in> R0
                  | Some t \<Rightarrow> tp_netns t = workdir_name w"
    using tap res [of "Netns (workdir_name w)"] free by (auto split: option.splits)
  have mount: "Mount m \<in> hs_res h' \<longleftrightarrow> Mount m \<in> R0" for m
    using res [of "Mount m"] frame [of "Mount m"] free by auto
  show ?thesis unfolding held_def
  proof (intro conjI)
    show "VmmProc child \<in> hs_res h'" using spec(4) res free by blast
    show "\<forall>r. r \<notin> own w X \<union> {VmmProc child} \<union> sentinels lt \<longrightarrow> (r \<in> hs_res h' \<longleftrightarrow> r \<in> R0)"
      using res frame by (auto simp: own_def)
    show "works env \<and> ch = None \<longrightarrow> (\<forall>d. Cgroup d \<in> hs_res h' \<longrightarrow> Cgroup d \<in> R0 \<or> lt_own_cgroup lt = Some d)"
      using cg frame jail by fastforce
    show "works env \<longrightarrow> (\<forall>m. Mount m \<in> hs_res h' \<and> path_starts_with m w \<longrightarrow> Mount m \<in> R0 \<or> (\<exists>c. ch = Some c \<and> m \<in> set (ch_mounts c)))"
      using mount by blast
  qed (use spec res free fresh tap' root in auto)
qed

lemma sentinel_fresh:
  assumes "spawned jailed w tap child R0 h" "hs_next h \<le> n" "\<forall>p. lt_sentinel lt = Some p \<longrightarrow> n \<le> p"
  shows "sentinels lt \<inter> R0 = {}"
  using assms by (fastforce simp: sentinels_def started_def spawned_def at_host_def)

lemma held_adopt:
  assumes S: "spawned False w tap child R0 h" and run: "VmLifetime_adopt env child (workdir_name w) h = (lt, h')"
  shows "held env R0 X w tap child None lt (hs_res h') \<and> VmmProc child \<in> hs_res h'"
proof -
  obtain r h1 where c: "create_lifetime_cgroup env child (workdir_name w) h = (r, h1)" by (cases "create_lifetime_cgroup env child (workdir_name w) h")
  obtain s where s: "arm_sentinel env (lt_watched lt) h1 = (s, h')" "lt_sentinel lt = s"
    and own: "lt_own_cgroup lt = (case r of Inr d \<Rightarrow> Some d | Inl _ \<Rightarrow> None)"
    using run c by (auto simp: VmLifetime_adopt_def Let_def split: prod.splits)
  note C = create_lifetime_cgroup_outcome [OF c] and A = arm_sentinel_outcome [OF s(1)]
  show ?thesis
  proof (rule held_spawned [OF S])
    show "sentinels lt \<inter> R0 = {}" using sentinel_fresh [OF S, of "hs_next h1" lt] A(3) C(1) s(2) by (simp add: moves_def)
    show "r' \<in> hs_res h' \<longleftrightarrow> r' \<in> hs_res h" if "r' \<notin> range Cgroup" "r' \<notin> sentinels lt" for r'
      using A(2) [unfolded s(2) [symmetric]] C(1) that unfolding sentinels_def moves_def by blast
    show "Cgroup d \<in> hs_res h \<or> lt_own_cgroup lt = Some d" if "works env" "Cgroup d \<in> hs_res h'" for d
      using A(2) C(2) [of d] own s(2) that by (cases r) auto
  qed simp_all
qed

lemma held_watch:
  assumes S: "spawned True w tap child R0 h" and root: "jail_root root w"
    and run: "VmLifetime_watch env child dirs h = (lt, h')"
  shows "held env R0 X w tap child (Some (Chroot_new root jail)) lt (hs_res h') \<and> VmmProc child \<in> hs_res h'"
proof -
  have s: "arm_sentinel env dirs h = (lt_sentinel lt, h')" using run by (auto simp: VmLifetime_watch_def split: prod.splits)
  note A = arm_sentinel_outcome [OF s]
  show ?thesis
    using sentinel_fresh [OF S, of "hs_next h" lt] A root by (intro held_spawned [OF S]) (auto simp: sentinels_def Chroot_new_def)
qed

section \<open>Giving everything back\<close>

definition gives :: "resource set \<Rightarrow> host \<Rightarrow> host \<Rightarrow> bool" where
  "gives T h h' \<longleftrightarrow> hs_res h' \<subseteq> hs_res h \<and> hs_res h \<subseteq> hs_res h' \<union> T"

lemma gives_refl [simp]: "gives T h h"
  by (simp add: gives_def)

lemma gives_trans: "gives T a b \<Longrightarrow> gives T b c \<Longrightarrow> gives T a c"
  by (auto simp: gives_def)

lemma gives_mono: "gives T a b \<Longrightarrow> T \<subseteq> T' \<Longrightarrow> gives T' a b"
  by (auto simp: gives_def)

lemma gives_tick [simp]: "gives T h (tick env h')  = gives T h h'" "gives T (tick env h) h' = gives T h h'"
  by (simp_all add: gives_def)

lemma gives_release: "r \<in> T \<Longrightarrow> gives T h (release env r h)"
  by (auto simp: gives_def release_def ask_def discard_def split: bool.splits)

lemma gives_kill_wait: "r \<in> T \<Longrightarrow> gives T h (kill_wait env r h)"
  by (auto simp: gives_def kill_wait_def discard_def)

lemma gives_fold: "(\<And>x h. x \<in> set xs \<Longrightarrow> gives T h (g x h)) \<Longrightarrow> gives T h (fold g xs h)"
  by (induction xs arbitrary: h) (auto intro: gives_trans)

lemma gives_remove_cgroup: "range Cgroup \<subseteq> T \<Longrightarrow> gives T h (remove_cgroup env d h)"
  by (auto simp: remove_cgroup_def Let_def split: option.splits intro!: gives_release gives_trans [OF gives_release gives_release])

lemma fold_release_gone:
  assumes "works env" "r \<in> set rs"
  shows "r \<notin> hs_res (fold (release env) rs h)"
proof -
  have "hs_res (fold (release env) rs h) = hs_res h - set rs" using release_works [OF assms(1)]
    by (induction rs arbitrary: h) auto
  then show ?thesis using assms(2) by simp
qed

lemma unmount_all_fold: "unmount_all env c h = fold (release env) (map Mount (ch_mounts c)) h"
  by (simp add: unmount_all_def unmount_def [abs_def] fold_map comp_def)

lemma gives_unmount_all: "Mount ` set (ch_mounts c) \<subseteq> T \<Longrightarrow> gives T h (unmount_all env c h)"
  unfolding unmount_all_fold by (rule gives_fold, rule gives_release) auto

lemma unmount_all_gone: "works env \<Longrightarrow> m \<in> set (ch_mounts c) \<Longrightarrow> Mount m \<notin> hs_res (unmount_all env c h)"
  unfolding unmount_all_fold by (rule fold_release_gone) auto

lemma reap_sentinel_res: "hs_res (reap_sentinel env s deadline h) = hs_res h - {Sentinel s}"
proof (induction env s deadline h rule: reap_sentinel.induct)
  case (1 env s deadline h)
  show ?case
    using "1.IH" by (subst reap_sentinel.simps)
      (auto simp: ask_def discard_def kill_wait_def thread_sleep_def split: sum.splits option.splits)
qed

lemma VmLifetime_teardown_gives:
  assumes "range Cgroup \<union> sentinels lt \<subseteq> T"
  shows "gives T h (snd (VmLifetime_teardown env lt h))"
    and "sentinels lt \<inter> hs_res (snd (VmLifetime_teardown env lt h)) = {}"
    and "works env \<Longrightarrow> lt_own_cgroup lt = Some d \<Longrightarrow> Cgroup d \<notin> hs_res (snd (VmLifetime_teardown env lt h))"
proof -
  let ?h1 = "case lt_own_cgroup lt of Some d \<Rightarrow> release env (Cgroup d) h | None \<Rightarrow> h"
  let ?h2 = "sentinel_wakes env (lt_watched lt) ?h1"
  have h1: "gives T h ?h1" using assms by (auto split: option.splits intro: gives_release)
  have h2: "gives T ?h1 ?h2" using assms unfolding sentinel_wakes_def by (intro gives_fold gives_release) auto
  have out: "hs_res (snd (VmLifetime_teardown env lt h)) =
      (case lt_sentinel lt of None \<Rightarrow> hs_res ?h1 | Some s \<Rightarrow> hs_res ?h2 - {Sentinel s})"
    by (simp add: VmLifetime_teardown_def Let_def reap_sentinel_res split: option.splits)
  show "gives T h (snd (VmLifetime_teardown env lt h))"
    using h1 gives_trans [OF h1 h2] assms out unfolding gives_def by (auto simp: sentinels_def split: option.splits)
  show "sentinels lt \<inter> hs_res (snd (VmLifetime_teardown env lt h)) = {}"
    using out by (auto simp: sentinels_def)
  show "Cgroup d \<notin> hs_res (snd (VmLifetime_teardown env lt h))" if "works env" "lt_own_cgroup lt = Some d"
    using out h2 release_works [OF that(1), of "Cgroup d" h] that(2) unfolding gives_def by (auto split: option.splits)
qed

text \<open>What was staged outside the scratch directory is gone, except \<open>Y\<close>.\<close>

definition unstaged :: "env \<Rightarrow> resource set \<Rightarrow> resource set \<Rightarrow> resource set \<Rightarrow> resource set \<Rightarrow> bool" where
  "unstaged env X Y R0 R \<longleftrightarrow> (works env \<longrightarrow> (\<forall>r \<in> X. r \<in> R \<longrightarrow> r \<in> R0 \<or> r \<in> Y))"

lemma idle_given_back:
  assumes H: "held env R0 X w tap child ch lt (hs_res h)" and X: "plainly X" and U: "unstaged env X Y R0 (hs_res h)"
    and G: "gives ({VmmProc child} \<union> sentinels lt \<union> range Cgroup \<union> (case ch of Some c \<Rightarrow> Mount ` set (ch_mounts c) | None \<Rightarrow> {})) h h'"
    and procs: "VmmProc child \<notin> hs_res h'" "sentinels lt \<inter> hs_res h' = {}"
    and mounts: "\<And>c m. works env \<Longrightarrow> ch = Some c \<Longrightarrow> m \<in> set (ch_mounts c) \<Longrightarrow> Mount m \<notin> hs_res h'"
    and cg: "\<And>d. works env \<Longrightarrow> lt_own_cgroup lt = Some d \<Longrightarrow> Cgroup d \<notin> hs_res h'"
    and Y: "ch \<noteq> None \<Longrightarrow> range Cgroup \<subseteq> Y"
  shows "idle env w X Y tap R0 (hs_res h')"
proof -
  let ?T = "{VmmProc child} \<union> sentinels lt \<union> range Cgroup \<union> (case ch of Some c \<Rightarrow> Mount ` set (ch_mounts c) | None \<Rightarrow> {})"
  have sub: "r \<in> hs_res h' \<Longrightarrow> r \<in> hs_res h" for r using G by (auto simp: gives_def)
  have same: "r \<in> hs_res h' \<longleftrightarrow> r \<in> hs_res h" if "r \<notin> ?T" for r using G that unfolding gives_def by blast
  have T: "Dir p \<notin> ?T" "Netns n \<notin> ?T" for p n by (auto simp: sentinels_def split: option.splits)
  have mount_own: "r \<in> (case ch of Some c \<Rightarrow> Mount ` set (ch_mounts c) | None \<Rightarrow> {}) \<Longrightarrow> r \<in> own w X" for r
    using H by (auto simp: held_def own_def split: option.splits)
  have frame: "r \<in> hs_res h' \<longleftrightarrow> r \<in> R0" if "r \<notin> own w X" for r
  proof (cases "r \<in> {VmmProc child} \<union> sentinels lt")
    case True
    then show ?thesis using procs H by (auto simp: held_def)
  next
    case False
    moreover have "r \<notin> ?T" using False that mount_own by (auto simp: own_def)
    ultimately show ?thesis using same H that by (simp add: held_def)
  qed
  have rest: "r \<in> R0 \<or> r \<in> Y" if *: "works env" "r \<in> hs_res h'" "r \<in> own w X" "r \<noteq> Netns (workdir_name w)" "\<not> inside w r" for r
  proof -
    consider m where "r = Mount m" "path_starts_with m w" | d where "r = Cgroup d" | "r \<in> X"
      using *(3-5) mounted_under_cases [of w r] by (auto simp: own_def)
    then show ?thesis
    proof cases
      case 1
      then show ?thesis using H sub [OF *(2)] mounts [OF *(1)] *(1,2) by (auto simp: held_def)
    next
      case 2
      then show ?thesis using H sub [OF *(2)] cg [OF *(1)] *(1,2) Y by (cases ch) (auto simp: held_def)
    next
      case 3
      then show ?thesis using U sub [OF *(2)] *(1) by (auto simp: unstaged_def)
    qed
  qed
  show ?thesis using H frame rest same [OF T(1)] same [OF T(2)] unfolding idle_def held_def
    by (auto split: option.splits)
qed

text \<open>The steps of an abort and of a teardown: the VMM, its cgroup, the lifetime, the mounts.\<close>

definition stop_vmm :: "env \<Rightarrow> nat \<Rightarrow> string option \<Rightarrow> VmLifetime \<Rightarrow> host \<Rightarrow> host" where
  "stop_vmm env child cgroup lt h =
     (let h1 = kill_wait env (VmmProc child) h;
          h2 = (case cgroup of Some d \<Rightarrow> remove_cgroup env d h1 | None \<Rightarrow> h1)
      in snd (VmLifetime_teardown env (mark_down lt) h2))"

lemma mark_down_simps [simp]: "sentinels (mark_down lt) = sentinels lt" "lt_own_cgroup (mark_down lt) = lt_own_cgroup lt"
  by (simp_all add: mark_down_def sentinels_def)

lemma stop_vmm_gives:
  assumes T: "{VmmProc child} \<union> sentinels lt \<union> range Cgroup \<subseteq> T"
  shows "gives T h (stop_vmm env child cgroup lt h)" "VmmProc child \<notin> hs_res (stop_vmm env child cgroup lt h)"
    "sentinels lt \<inter> hs_res (stop_vmm env child cgroup lt h) = {}"
    "works env \<Longrightarrow> lt_own_cgroup lt = Some d \<Longrightarrow> Cgroup d \<notin> hs_res (stop_vmm env child cgroup lt h)"
proof -
  let ?h1 = "kill_wait env (VmmProc child) h"
  let ?h2 = "case cgroup of Some d \<Rightarrow> remove_cgroup env d ?h1 | None \<Rightarrow> ?h1"
  have h1: "gives T h ?h1" using T by (intro gives_kill_wait) auto
  have gone: "VmmProc child \<notin> hs_res ?h1" by (simp add: kill_wait_def discard_def)
  have h2: "gives T ?h1 ?h2" using T by (auto split: option.splits intro: gives_remove_cgroup)
  have "range Cgroup \<union> sentinels (mark_down lt) \<subseteq> T" using T by simp
  note L = VmLifetime_teardown_gives [OF this, where h = ?h2 and env = env]
  show "gives T h (stop_vmm env child cgroup lt h)"
    unfolding stop_vmm_def Let_def by (rule gives_trans [OF gives_trans [OF h1 h2] L(1)])
  show "VmmProc child \<notin> hs_res (stop_vmm env child cgroup lt h)"
    using gone h2 L(1) unfolding stop_vmm_def Let_def gives_def by blast
  show "sentinels lt \<inter> hs_res (stop_vmm env child cgroup lt h) = {}"
    using L(2) by (simp add: stop_vmm_def Let_def)
  show "Cgroup d \<notin> hs_res (stop_vmm env child cgroup lt h)" if "works env" "lt_own_cgroup lt = Some d"
    using L(3) [OF that(1)] that(2) by (simp add: stop_vmm_def Let_def)
qed

lemma settled_given_back:
  assumes H: "held env R0 X w tap child ch lt (hs_res h)" and X: "plainly X" and U: "unstaged env X Y R0 (hs_res h)"
    and Y: "ch \<noteq> None \<Longrightarrow> range Cgroup \<subseteq> Y" "\<And>m. Mount m \<notin> Y" and same: "hs_res h' = hs_res (stop_vmm env child cgroup lt h)"
  shows "settled env w X Y R0 (hs_res (reclaim_scratch env w tap (case ch of Some c \<Rightarrow> unmount_all env c h' | None \<Rightarrow> h')))"
proof (rule reclaim_scratch_settled [OF idle_given_back [OF H X U]])
  let ?M = "case ch of Some c \<Rightarrow> Mount ` set (ch_mounts c) | None \<Rightarrow> {}"
  let ?T = "{VmmProc child} \<union> sentinels lt \<union> range Cgroup \<union> ?M" and ?h = "case ch of Some c \<Rightarrow> unmount_all env c h' | None \<Rightarrow> h'"
  have "{VmmProc child} \<union> sentinels lt \<union> range Cgroup \<subseteq> ?T" by blast
  note S = stop_vmm_gives [OF this, where env = env and h = h and cgroup = cgroup, folded same]
  have U: "gives ?T h' ?h" by (auto split: option.splits intro!: gives_unmount_all)
  have "gives ?T h h'" using S(1) unfolding gives_def same .
  then show "gives ?T h ?h" using U by (rule gives_trans)
  show "VmmProc child \<notin> hs_res ?h" "sentinels lt \<inter> hs_res ?h = {}" using S(2,3) U unfolding gives_def by blast+
  show "Cgroup d \<notin> hs_res ?h" if "works env" "lt_own_cgroup lt = Some d" for d using S(4) [OF that] U unfolding gives_def by blast
  show "Mount m \<notin> hs_res ?h" if "works env" "ch = Some c" "m \<in> set (ch_mounts c)" for c m
    using that by (simp add: unmount_all_gone)
qed (use Y in auto)

lemma teardown_settled:
  assumes "held env R0 X w tap child ch lt (hs_res h)" "plainly X" "unstaged env X Y R0 (hs_res h)"
    and "ch \<noteq> None \<Longrightarrow> range Cgroup \<subseteq> Y" "\<And>m. Mount m \<notin> Y"
  shows "settled env w X Y R0 (hs_res (teardown env child w tap ch lt h))"
  using settled_given_back [OF assms refl, of "Option.bind ch ch_cgroup_dir"]
  unfolding teardown_def stop_vmm_def Let_def .

lemma abort_settled:
  assumes H: "held env R0 X (sp_workdir vm) (sp_tap vm) child (sp_chroot vm) (sp_lifetime vm) (hs_res h)" and "plainly X"
    and U: "unstaged env X Y R0 (hs_res h)" and "sp_chroot vm \<noteq> None \<Longrightarrow> range Cgroup \<subseteq> Y" "\<And>m. Mount m \<notin> Y"
    and child: "sp_child vm = Some child"
  shows "settled env (sp_workdir vm) X Y R0 (hs_res (snd (abort env vm cause h)))"
proof -
  obtain cgroup h0 where c: "(case sp_chroot vm of
           None \<Rightarrow> (None, h)
         | Some ch \<Rightarrow>
             (case (ch_cgroup_dir ch, sp_child vm) of
                (Some d, _) \<Rightarrow> (Some d, h)
              | (None, None) \<Rightarrow> (None, h)
              | (None, Some _) \<Rightarrow> (case ask env (en_proc_cgroup env) h of (t, h1) \<Rightarrow> (read_cgroup_dir t, h1)))) = (cgroup, h0)"
    by fastforce
  have h0: "hs_res h0 = hs_res h" using c by (auto simp: ask_def split: option.splits prod.splits)
  let ?h' = "tick env (tick env (stop_vmm env child cgroup (sp_lifetime vm) h0))"
  have "settled env (sp_workdir vm) X Y R0
      (hs_res (reclaim_scratch env (sp_workdir vm) (sp_tap vm) (case sp_chroot vm of Some c \<Rightarrow> unmount_all env c ?h' | None \<Rightarrow> ?h')))"
    using settled_given_back [of env R0 X "sp_workdir vm" "sp_tap vm" child "sp_chroot vm" "sp_lifetime vm" h0 Y ?h' cgroup] assms h0 by simp
  moreover have "snd (abort env vm cause h)
      = reclaim_scratch env (sp_workdir vm) (sp_tap vm) (case sp_chroot vm of Some c \<Rightarrow> unmount_all env c ?h' | None \<Rightarrow> ?h')"
    unfolding abort_def c unfolding child stop_vmm_def Let_def ask_def option.case prod.case snd_conv by (rule refl)
  ultimately show ?thesis by simp
qed

end
