(* ===== verification/Lifecycle.thy ===== *)
theory Lifecycle
  imports Reclaim
begin

text \<open>
  A boot and a restore end to end: every step between the launch and the running VM keeps what the
  launch holds, so a boot that fails has given everything back, and a VM that runs gives everything
  back when it is dropped.
\<close>

section \<open>The state of a launch\<close>

definition holding :: "env \<Rightarrow> resource set \<Rightarrow> resource set \<Rightarrow> string \<Rightarrow> string option \<Rightarrow> boot_state \<Rightarrow> bool" where
  "holding env R0 X w rt s \<longleftrightarrow>
     (\<exists>child. sp_child (bs_vm s) = Some child \<and> sp_workdir (bs_vm s) = w \<and> map_option ch_root (sp_chroot (bs_vm s)) = rt
        \<and> held env R0 X w (sp_tap (bs_vm s)) child (sp_chroot (bs_vm s)) (sp_lifetime (bs_vm s)) (hs_res (bs_host s))
        \<and> VmmProc child \<in> hs_res (bs_host s))"

definition kept ::
    "env \<Rightarrow> resource set \<Rightarrow> resource set \<Rightarrow> resource set \<Rightarrow> string \<Rightarrow> string option \<Rightarrow> boot_state \<Rightarrow> bool" where
  "kept env R0 X Y w rt s \<longleftrightarrow> holding env R0 X w rt s \<and> unstaged env X Y R0 (hs_res (bs_host s))"

abbreviation keeps :: "(boot_state \<Rightarrow> bool) \<Rightarrow> (boot_state, 'e, 'a) smethod \<Rightarrow> bool" where
  "keeps I m \<equiv> triple I m (\<lambda>_. I) I"

lemma keeps_seqm: "keeps I m \<Longrightarrow> (\<And>x. keeps I (f x)) \<Longrightarrow> keeps I (seqm m f)"
  by (rule triple_seqm)

lemma keeps_okm: "keeps I (okm x)"
  by (rule triple_okm)

lemma keeps_failm: "keeps I (failm e)"
  by (rule triple_failm)

lemma keeps_lift: "keeps I (lift r)"
  by (simp add: triple_def lift_def split: sum.splits)

lemma keeps_here: "(\<And>x. keeps I (m x)) \<Longrightarrow> keeps I (\<lambda>s. m (g s) s)"
  by (simp add: triple_def)

lemma kept_host:
  "hs_res h = hs_res (bs_host s) \<Longrightarrow> kept env R0 X Y w rt (s\<lparr>bs_host := h\<rparr>) = kept env R0 X Y w rt s"
  by (simp add: kept_def holding_def)

lemma kept_quiet:
  "quiet m \<Longrightarrow> m (bs_host s) = (r, h) \<Longrightarrow> kept env R0 X Y w rt (s\<lparr>bs_host := h\<rparr>) = kept env R0 X Y w rt s"
  by (rule kept_host) (auto dest: quietD)

lemma keeps_on_host_vm: "(\<And>vm. quiet (m vm)) \<Longrightarrow> keeps (kept env R0 X Y w rt) (\<lambda>s. on_host (m (bs_vm s)) s)"
  by (intro tripleI) (auto simp: on_host_def split: prod.splits intro: kept_quiet [THEN iffD2])

lemma keeps_on_host: "quiet m \<Longrightarrow> keeps (kept env R0 X Y w rt) (on_host m)"
  using keeps_on_host_vm [of "\<lambda>_. m"] by simp

lemma keeps_on_vm:
  assumes "\<And>vm. sp_child (upd vm) = sp_child vm \<and> sp_workdir (upd vm) = sp_workdir vm \<and> sp_tap (upd vm) = sp_tap vm
      \<and> sp_chroot (upd vm) = sp_chroot vm \<and> sp_lifetime (upd vm) = sp_lifetime vm"
  shows "keeps (kept env R0 X Y w rt) (on_vm upd)"
  by (intro tripleI) (auto simp: on_vm_def kept_def holding_def assms)

lemma held_chroot:
  assumes "held env R0 X w tap child (Some c) lt R" "ch_root c' = ch_root c" "ch_mounts c' = ch_mounts c"
  shows "held env R0 X w tap child (Some c') lt R"
  using assms by (simp add: held_def)

lemma keeps_learn: "keeps (kept env R0 X Y w rt) (learn_jailer_cgroup env')"
proof (intro tripleI)
  fix s x t assume K: "kept env R0 X Y w rt s" and run: "learn_jailer_cgroup env' s = (Inr x, t)"
  show "kept env R0 X Y w rt t"
    using K run held_chroot [of env R0 X w "sp_tap (bs_vm s)"]
    by (cases "sp_chroot (bs_vm s)")
       (auto simp: learn_jailer_cgroup_def ask_def kept_def holding_def split: option.splits)
qed (auto simp: learn_jailer_cgroup_def ask_def split: option.splits)

section \<open>Bind mounts\<close>

lemma bind_ro_outcome:
  assumes "bind_ro env src dst h = (r, h')"
  shows "moves {Mount dst} h h'" "works env \<Longrightarrow> r = Inl e \<Longrightarrow> Mount dst \<in> hs_res h' \<Longrightarrow> Mount dst \<in> hs_res h"
  using assms by (auto simp: bind_ro_def ask_def unmount_def moves_def acquire_def release_def discard_def works_def
      split: tool.splits bool.splits)

lemma stage_ro_base_outcome:
  assumes "stage_ro_base_into_chroot env root name src sd uid gid h = (r, h')"
  shows "moves {Mount (path_push root name)} h h'"
    "works env \<Longrightarrow> r = Inl e \<Longrightarrow> Mount (path_push root name) \<in> hs_res h' \<Longrightarrow> Mount (path_push root name) \<in> hs_res h"
    "r = Inr (arg, None) \<Longrightarrow> hs_res h' = hs_res h" "r = Inr (arg, Some d) \<Longrightarrow> d = path_push root name"
proof -
  let ?hv = "host_view.truncate (en_view env)" and ?dst = "path_push root name"
  have all: "moves {Mount ?dst} h h' \<and> (works env \<longrightarrow> (\<exists>e. r = Inl e) \<longrightarrow> Mount ?dst \<in> hs_res h' \<longrightarrow> Mount ?dst \<in> hs_res h)
      \<and> (\<forall>arg. r = Inr (arg, None) \<longrightarrow> hs_res h' = hs_res h) \<and> (\<forall>arg d. r = Inr (arg, Some d) \<longrightarrow> d = ?dst)"
  proof (cases "scratch_is_shared_mount (en_fmt env) ?hv sd")
    case False
    then have run: "seqm (stage_into_chroot env root name src uid gid) (\<lambda>_. okm (''/'' @ name, None)) h = (r, h')"
      using assms by (simp add: stage_ro_base_into_chroot_def Let_def)
    have q: "quiet (seqm (stage_into_chroot env root name src uid gid) (\<lambda>_. okm (''/'' @ name, None :: string option)))" by (intro quiet)
    have "moves {Mount ?dst} h h'" "hs_res h' = hs_res h" using quietD [OF q run] quiet_moves [OF q run] by blast+
    moreover have "\<forall>arg d. r \<noteq> Inr (arg, Some d)" using run by (auto simp: seqm_def okm_def split: prod.splits sum.splits)
    ultimately show ?thesis by simp
  next
    case True
    show ?thesis
    proof (cases "absolute (en_fmt env) ?hv src")
      case (Inl e)
      then show ?thesis using assms True by (auto simp: stage_ro_base_into_chroot_def Let_def)
    next
      case (Inr src1)
      let ?h1 = "tick env h"
      have out: "(\<exists>e. r = Inl e \<and> h' = ?h1) \<or> (\<exists>b. bind_ro env src1 ?dst ?h1 = (b, h') \<and>
            r = (case b of Inl e \<Rightarrow> Inl e | Inr _ \<Rightarrow> Inr (''/'' @ name, Some ?dst)))"
        using assms True Inr
        by (cases "en_io env (hs_step h)"; cases "bind_ro env src1 ?dst ?h1")
           (auto simp: stage_ro_base_into_chroot_def Let_def seqm_def okm_def try_io_def ask_def split: sum.splits)
      from out show ?thesis
      proof
        assume "\<exists>e. r = Inl e \<and> h' = ?h1"
        then show ?thesis by (auto simp: moves_def)
      next
        assume "\<exists>b. bind_ro env src1 ?dst ?h1 = (b, h') \<and> r = (case b of Inl e \<Rightarrow> Inl e | Inr _ \<Rightarrow> Inr (''/'' @ name, Some ?dst))"
        then obtain b where b: "bind_ro env src1 ?dst ?h1 = (b, h')"
          and r: "r = (case b of Inl e \<Rightarrow> Inl e | Inr _ \<Rightarrow> Inr (''/'' @ name, Some ?dst))" by blast
        have "moves {Mount ?dst} h h'" using bind_ro_outcome(1) [OF b] by (simp add: moves_def)
        then show ?thesis using r bind_ro_outcome(2) [OF b] by (cases b) simp_all
      qed
    qed
  qed
  then show "moves {Mount ?dst} h h'" by blast
  show "Mount ?dst \<in> hs_res h" if "works env" "r = Inl e" "Mount ?dst \<in> hs_res h'" using all that by blast
  show "hs_res h' = hs_res h" if "r = Inr (arg, None)" using all that by blast
  show "d = ?dst" if "r = Inr (arg, Some d)" using all that by blast
qed

lemma held_mount:
  assumes H: "held env R0 X w tap child (Some c) lt (hs_res h)" and m: "moves {Mount d} h h'" and d: "path_starts_with d w"
    and c': "ch_root c' = ch_root c" "set (ch_mounts c') = set (ch_mounts c) \<or> set (ch_mounts c') = insert d (set (ch_mounts c))"
    and fail: "works env \<Longrightarrow> d \<notin> set (ch_mounts c') \<Longrightarrow> Mount d \<in> hs_res h' \<Longrightarrow> Mount d \<in> hs_res h"
  shows "held env R0 X w tap child (Some c') lt (hs_res h')"
proof -
  have same: "r \<noteq> Mount d \<Longrightarrow> (r \<in> hs_res h' \<longleftrightarrow> r \<in> hs_res h)" for r using m by (simp add: moves_def)
  have own: "Mount d \<in> own w X" using d by (simp add: own_def)
  have mounts: "Mount m \<in> R0 \<or> m \<in> set (ch_mounts c')" if "works env" "Mount m \<in> hs_res h'" "path_starts_with m w" for m
  proof (cases "m = d")
    case True
    then show ?thesis using H fail [OF that(1)] that c'(2) by (auto simp: held_def)
  next
    case False
    then show ?thesis using H same [of "Mount m"] that c'(2) by (auto simp: held_def)
  qed
  have ms: "\<forall>m \<in> set (ch_mounts c'). path_starts_with m w" using H d c'(2) by (auto simp: held_def)
  have frame: "r \<notin> own w X \<Longrightarrow> (r \<in> hs_res h' \<longleftrightarrow> r \<in> hs_res h)" for r using same own by metis
  have dir: "Dir p \<in> hs_res h' \<longleftrightarrow> Dir p \<in> hs_res h" "VmmProc q \<in> hs_res h' \<longleftrightarrow> VmmProc q \<in> hs_res h"
    "Netns n \<in> hs_res h' \<longleftrightarrow> Netns n \<in> hs_res h" for p q n using same by simp_all
  show ?thesis using H frame dir ms mounts c'(1) unfolding held_def by (auto split: option.splits)
qed

definition bind_base ::
    "env \<Rightarrow> string \<Rightarrow> string \<Rightarrow> string \<Rightarrow> string \<Rightarrow> u32 \<Rightarrow> u32 \<Rightarrow> (string \<Rightarrow> 'a) \<Rightarrow> (boot_state, VmmError, 'a) smethod" where
  "bind_base env root name src sd uid gid g =
     seqm (on_host (stage_ro_base_into_chroot env root name src sd uid gid)) (\<lambda>(arg, mount).
     seqm (on_vm (push_mount mount)) (\<lambda>_. okm (g arg)))"

lemma kept_moves_mount:
  assumes K: "kept env R0 X Y w (Some root) s" and X: "plainly X" and d: "path_starts_with d w" and m: "moves {Mount d} (bs_host s) h"
    and fail: "\<not> pushed \<Longrightarrow> works env \<Longrightarrow> Mount d \<in> hs_res h \<Longrightarrow> Mount d \<in> hs_res (bs_host s)"
  shows "kept env R0 X Y w (Some root) \<lparr>bs_vm = push_mount (if pushed then Some d else None) (bs_vm s), bs_host = h\<rparr>"
proof -
  obtain child c where c: "sp_child (bs_vm s) = Some child" "sp_workdir (bs_vm s) = w" "sp_chroot (bs_vm s) = Some c" "ch_root c = root"
    and H: "held env R0 X w (sp_tap (bs_vm s)) child (Some c) (sp_lifetime (bs_vm s)) (hs_res (bs_host s))"
    and alive: "VmmProc child \<in> hs_res (bs_host s)"
    using K by (auto simp: kept_def holding_def)
  let ?c' = "if pushed then c\<lparr>ch_mounts := ch_mounts c @ [d]\<rparr> else c"
  have "held env R0 X w (sp_tap (bs_vm s)) child (Some ?c') (sp_lifetime (bs_vm s)) (hs_res h)"
    using fail by (intro held_mount [OF H m d]) (auto split: if_splits)
  moreover have "unstaged env X Y R0 (hs_res h)"
    using K m X unfolding kept_def unstaged_def moves_def plainly_def by blast
  moreover have "VmmProc child \<in> hs_res h" using alive m by (simp add: moves_def)
  ultimately show ?thesis using c by (cases pushed) (simp_all add: kept_def holding_def push_mount_def)
qed

lemma keeps_bind_base:
  assumes root: "jail_root root w" and name: "name = [] \<or> hd name \<noteq> slash" and X: "plainly X"
  shows "keeps (kept env R0 X Y w (Some root)) (bind_base env root name src sd uid gid g)"
proof -
  let ?d = "path_push root name" and ?m = "stage_ro_base_into_chroot env root name src sd uid gid" and ?K = "kept env R0 X Y w (Some root)"
  have d: "path_starts_with ?d w" using root name by (intro path_starts_with_join) (auto simp: jail_root_def)
  note step = kept_moves_mount [OF _ X d]
  show ?thesis
  proof (rule tripleI)
    fix s x t assume K: "?K s" and run: "bind_base env root name src sd uid gid g s = (Inr x, t)"
    obtain arg m h where h: "?m (bs_host s) = (Inr (arg, m), h)" and t: "t = \<lparr>bs_vm = push_mount m (bs_vm s), bs_host = h\<rparr>"
      using run by (cases s) (auto simp: bind_base_def seqm_def on_host_def on_vm_def okm_def split: prod.splits sum.splits)
    note O = stage_ro_base_outcome [OF h]
    show "?K t"
    proof (cases m)
      case None
      then show ?thesis using step [OF K O(1), of False] O(3) t by simp
    next
      case (Some d')
      then show ?thesis using step [OF K O(1), of True] O(4) t by simp
    qed
  next
    fix s e t assume K: "?K s" and run: "bind_base env root name src sd uid gid g s = (Inl e, t)"
    obtain h where h: "?m (bs_host s) = (Inl e, h)" and t: "t = \<lparr>bs_vm = push_mount None (bs_vm s), bs_host = h\<rparr>"
      using run by (cases s) (auto simp: bind_base_def seqm_def on_host_def on_vm_def okm_def push_mount_def split: prod.splits sum.splits)
    show "?K t" using step [OF K stage_ro_base_outcome(1) [OF h], of False] stage_ro_base_outcome(2) [OF h] t by simp
  qed
qed

section \<open>Booting keeps what is held\<close>

lemma kept_root:
  assumes "kept env R0 X Y w rt s" "sp_chroot (bs_vm s) = Some ch"
  shows "rt = Some (ch_root ch)" "jail_root (ch_root ch) w"
  using assms by (auto simp: kept_def holding_def held_def)

lemma keeps_stage_boot:
  assumes X: "plainly X"
  shows "keeps (kept env R0 X Y w rt) (stage_boot env c)"
proof -
  let ?K = "kept env R0 X Y w rt"
  have jailed: "keeps ?K (seqm (on_host (stage_into_chroot env root ''kernel'' (cf_kernel c) uid gid)) (\<lambda>kernel_arg.
           seqm (if cf_read_only_root c
                 then seqm (on_host (stage_ro_base_into_chroot env root ''rootfs.ext4'' (cf_rootfs c) (cf_scratch_dir c) uid gid))
                        (\<lambda>(arg, mount). seqm (on_vm (push_mount mount)) (\<lambda>_. okm arg))
                 else on_host (stage_into_chroot env root ''rootfs.ext4'' (cf_rootfs c) uid gid)) (\<lambda>rootfs_arg.
           seqm (case cf_input_dir c of
                   None \<Rightarrow> okm ()
                 | Some dir \<Rightarrow>
                     seqm (on_host (input_image env dir root)) (\<lambda>img.
                     seqm (on_host (give_to_jail env img uid gid)) (\<lambda>_.
                     on_vm (\<lambda>vm. vm\<lparr>sp_input_image := Some img\<rparr>)))) (\<lambda>_.
           seqm (case cf_output_dir c of
                   None \<Rightarrow> okm ()
                 | Some dest \<Rightarrow>
                     seqm (on_host (output_image env root)) (\<lambda>img.
                     seqm (on_host (give_to_jail env img uid gid)) (\<lambda>_.
                     on_vm (\<lambda>vm. vm\<lparr>sp_output := Some \<lparr>od_image = img, od_dest = dest\<rparr>\<rparr>)))) (\<lambda>_.
           seqm (learn_jailer_cgroup env) (\<lambda>_. okm (kernel_arg, rootfs_arg)))))))"
    if root: "rt = Some root" "jail_root root w" for root uid gid
  proof -
    note base = keeps_bind_base [OF root(2) _ X, of "''rootfs.ext4''" env R0 Y "cf_rootfs c" "cf_scratch_dir c" uid gid "\<lambda>a. a", unfolded bind_base_def]
    show ?thesis
    proof (intro keeps_seqm keeps_okm keeps_learn, goal_cases)
      case 2
      show ?case using base root(1) by (auto simp: slash_def intro!: keeps_on_host quiet)
    qed (auto intro!: keeps_seqm keeps_on_vm keeps_on_host keeps_okm quiet split: option.splits)
  qed
  show ?thesis
  proof (rule tripleI)
    fix s x t assume K: "?K s" and run: "stage_boot env c s = (Inr x, t)"
    show "?K t"
    proof (cases "sp_chroot (bs_vm s)")
      case (Some ch)
      then show ?thesis using triple_ok [OF jailed [OF kept_root [OF K Some]] K] run by (simp add: stage_boot_def Let_def)
    qed (use K run in \<open>simp add: stage_boot_def\<close>)
  next
    fix s e t assume K: "?K s" and run: "stage_boot env c s = (Inl e, t)"
    show "?K t"
    proof (cases "sp_chroot (bs_vm s)")
      case (Some ch)
      then show ?thesis using triple_fail [OF jailed [OF kept_root [OF K Some]] K] run by (simp add: stage_boot_def Let_def)
    qed (use K run in \<open>simp add: stage_boot_def\<close>)
  qed
qed

lemma keeps_run_boot:
  assumes "plainly X"
  shows "keeps (kept env R0 X Y w rt) (run_boot env c deadline)"
proof -
  let ?K = "kept env R0 X Y w rt"
  have last: "keeps ?K (\<lambda>s. let started = hs_now (bs_host s) in
     seqm (on_host (api_put env ''/actions'' (Action_json InstanceStart))) (\<lambda>_.
     seqm (\<lambda>s. on_host (await_userspace env (sp_child (bs_vm s)) (cf_userspace_marker c) deadline POLL_INITIAL) s) (\<lambda>_ s.
     (Inr (hs_now (bs_host s) - started), s))) s)"
  proof -
    have "keeps ?K (seqm (on_host (api_put env ''/actions'' (Action_json InstanceStart))) (\<lambda>_.
       seqm (\<lambda>s. on_host (await_userspace env (sp_child (bs_vm s)) (cf_userspace_marker c) deadline POLL_INITIAL) s) (\<lambda>_ s.
       (Inr (hs_now (bs_host s) - started), s))))" for started
      by (intro keeps_seqm keeps_on_host keeps_on_host_vm quiet) (simp add: triple_def)
    from keeps_here [where g = "\<lambda>s. hs_now (bs_host s)", OF this] show ?thesis by (simp add: Let_def)
  qed
  show ?thesis unfolding run_boot_def
    by (intro keeps_seqm keeps_stage_boot [OF assms]) (auto intro!: last [unfolded Let_def] keeps_seqm keeps_on_host keeps_on_host_vm quiet simp: Let_def)
qed

section \<open>Launching\<close>

text \<open>The scratch directories a launch may take: those whose number has not been handed out yet.\<close>

definition scratch_dir :: "env \<Rightarrow> string \<Rightarrow> u64 \<Rightarrow> string \<Rightarrow> bool" where
  "scratch_dir env base q w \<longleftrightarrow>
     (\<exists>k. (unat q + 1024 < 2 ^ 64 \<longrightarrow> unat q \<le> unat k) \<and> w = workdir_path env base k)"

definition gone :: "env \<Rightarrow> string \<Rightarrow> u64 \<Rightarrow> resource set \<Rightarrow> resource set \<Rightarrow> resource set \<Rightarrow> host \<Rightarrow> bool" where
  "gone env base q X Y R0 h \<longleftrightarrow> (\<exists>w. scratch_dir env base q w \<and> settled env w X Y R0 (hs_res h))"

definition fresh :: "resource set \<Rightarrow> u64 \<Rightarrow> host \<Rightarrow> bool" where
  "fresh R0 q h \<longleftrightarrow> hs_res h = R0 \<and> started R0 (hs_next h) \<and> hs_seq h = q"

definition launched ::
    "env \<Rightarrow> string \<Rightarrow> u64 \<Rightarrow> resource set \<Rightarrow> resource set \<Rightarrow> bool \<Rightarrow> Spawned \<Rightarrow> host \<Rightarrow> bool" where
  "launched env base q X R0 jailed vm h \<longleftrightarrow>
     scratch_dir env base q (sp_workdir vm) \<and> (sp_chroot vm \<noteq> None \<longleftrightarrow> jailed)
     \<and> (\<exists>child. sp_child vm = Some child
          \<and> held env R0 X (sp_workdir vm) (sp_tap vm) child (sp_chroot vm) (sp_lifetime vm) (hs_res h) \<and> VmmProc child \<in> hs_res h)"

lemma triple_pure: "(A \<Longrightarrow> triple P m Q E) \<Longrightarrow> triple (\<lambda>s. A \<and> P s) m Q E"
  by (auto simp: triple_def)

lemma triple_weaken: "triple P m Q E \<Longrightarrow> (\<And>s. E s \<Longrightarrow> E' s) \<Longrightarrow> triple P m Q E'"
  by (rule triple_conseq)

lemma left_gone: "scratch_dir env base q w \<Longrightarrow> left env w X Y R0 h \<Longrightarrow> gone env base q X Y R0 h"
  by (auto simp: gone_def left_def at_host_def)

lemma fresh_gone: "fresh R0 q h \<Longrightarrow> gone env base q X Y R0 h"
  unfolding gone_def scratch_dir_def fresh_def by (metis order_refl settled_refl)

lemma triple_create_workdir:
  assumes "\<And>m. Mount m \<notin> Y"
  shows "triple (fresh R0 q) (create_workdir env base) (\<lambda>w h. scratch_dir env base q w \<and> prepared w None R0 h) (gone env base q X Y R0)"
proof (rule tripleI)
  fix h w h' assume I: "fresh R0 q h" and run: "create_workdir env base h = (Inr w, h')"
  then show "scratch_dir env base q w \<and> prepared w None R0 h'"
    using create_workdir_loop_outcome [OF assms run [unfolded create_workdir_def], of "{}"]
    by (auto simp: fresh_def scratch_dir_def prepared_def at_host_def)
next
  fix h e h' assume I: "fresh R0 q h" and run: "create_workdir env base h = (Inl e, h')"
  then show "gone env base q X Y R0 h'"
    using create_workdir_loop_outcome [OF assms run [unfolded create_workdir_def], of X]
    by (auto simp: fresh_def scratch_dir_def gone_def)
qed

lemma scratch_dir_path: "scratch_dir env base q w \<Longrightarrow> \<exists>k. w = workdir_path env base k"
  by (auto simp: scratch_dir_def)

text \<open>From the prepared directory to the running VMM, without a jail.\<close>

lemma triple_start_unjailed:
  assumes w: "scratch_dir env base q w" and Y: "\<And>m. Mount m \<notin> Y"
  shows "triple (prepared w None R0)
      (seqm (create_tap_or_reclaim env net w owner) (\<lambda>tap.
       seqm (spawn_fc_or_reclaim env c w tap) (\<lambda>child h2.
       case VmLifetime_adopt env child (workdir_name w) h2 of
         (lt, h3) \<Rightarrow>
           (Inr \<lparr>sp_child = Some child, sp_workdir = w, sp_rootfs = rootfs, sp_restored = restored, sp_socket = socket,
                 sp_vsock_uds = uds, sp_input_image = inp, sp_output = outp, sp_tap = tap, sp_chroot = None,
                 sp_lifetime = lt\<rparr>, h3))))
      (launched env base q X R0 False) (gone env base q X Y R0)"
proof -
  obtain k where k: "w = workdir_path env base k" using scratch_dir_path [OF w] by blast
  show ?thesis
  proof (intro triple_seqm)
    show "triple (prepared w None R0) (create_tap_or_reclaim env net w owner) (\<lambda>tap. prepared w tap R0) (gone env base q X Y R0)"
      using triple_create_tap [OF k Y] left_gone [OF w] by (rule triple_weaken)
    show "triple (prepared w tap R0) (spawn_fc_or_reclaim env c w tap) (\<lambda>child. spawned False w tap child R0) (gone env base q X Y R0)" for tap
      using triple_spawn_fc_or_reclaim [OF Y] left_gone [OF w] by (rule triple_weaken)
  qed (auto simp: triple_def launched_def w split: prod.splits dest: held_adopt)
qed

lemma triple_launch_unjailed:
  assumes Y: "\<And>m. Mount m \<notin> Y"
  shows "triple (fresh R0 q) (launch_unjailed env c deadline) (launched env (cf_scratch_dir c) q X R0 False)
      (gone env (cf_scratch_dir c) q X Y R0)"
  unfolding launch_unjailed_def
proof (rule triple_seqm [OF triple_create_workdir [OF Y]], rule triple_pure)
  fix w assume w: "scratch_dir env (cf_scratch_dir c) q w"
  let ?base = "cf_scratch_dir c" and ?S = "stage_launch env c deadline w"
  have "w \<noteq> []" using scratch_dir_path [OF w] workdir_names(4) by blast
  note S = triple_stage_launch [OF this, of R0 env c deadline]
  let ?go = "\<lambda>rootfs inp outp. seqm (create_tap_or_reclaim env (cf_enable_network c) w None) (\<lambda>tap.
         seqm (spawn_fc_or_reclaim env c w tap) (\<lambda>child h2.
         case VmLifetime_adopt env child (workdir_name w) h2 of
           (lt, h3) \<Rightarrow>
             (Inr \<lparr>sp_child = Some child, sp_workdir = w, sp_rootfs = rootfs, sp_restored = False,
                   sp_socket = path_push w ''fc.sock'',
                   sp_vsock_uds = map_option (\<lambda>_. path_push w VSOCK_UDS) (cf_guest_cid c),
                   sp_input_image = inp, sp_output = outp, sp_tap = tap, sp_chroot = None, sp_lifetime = lt\<rparr>, h3)))"
  note G = triple_start_unjailed [OF w Y]
  show "triple (prepared w None R0) (\<lambda>h. case ?S h of
       (Inl e, h1) \<Rightarrow> (Inl e, remove_tree env w h1)
     | (Inr (rootfs, inp, outp), h1) \<Rightarrow> ?go rootfs inp outp h1) (launched env ?base q X R0 False) (gone env ?base q X Y R0)"
  proof (rule tripleI)
    fix h vm h' assume I: "prepared w None R0 h" and run: "(case ?S h of
       (Inl e, h1) \<Rightarrow> (Inl e, remove_tree env w h1)
     | (Inr (rootfs, inp, outp), h1) \<Rightarrow> ?go rootfs inp outp h1) = (Inr vm, h')"
    then obtain rootfs inp outp h1 where h1: "?S h = (Inr (rootfs, inp, outp), h1)" "?go rootfs inp outp h1 = (Inr vm, h')"
      by (auto split: prod.splits sum.splits)
    show "launched env ?base q X R0 False vm h'" by (rule triple_ok [OF G triple_ok [OF S I h1(1)] h1(2)])
  next
    fix h e h' assume I: "prepared w None R0 h" and run: "(case ?S h of
       (Inl e, h1) \<Rightarrow> (Inl e, remove_tree env w h1)
     | (Inr (rootfs, inp, outp), h1) \<Rightarrow> ?go rootfs inp outp h1) = (Inl e, h')"
    show "gone env ?base q X Y R0 h'"
    proof (cases "fst (?S h)")
      case (Inl e')
      then obtain h1 where h1: "?S h = (Inl e', h1)" by (cases "?S h") auto
      have P: "preparing w None R0 (hs_res h1)" using triple_fail [OF S I h1] by (simp add: prepared_def at_host_def)
      then have "settled env w X Y R0 (hs_res (remove_tree env w h1))"
        by (intro settled_remove_tree [OF preparing_idle [OF P] _ Y]) (simp add: preparing_def)
      then show ?thesis using run h1 w by (auto simp: gone_def)
    next
      case (Inr x)
      then obtain rootfs inp outp h1 where h1: "?S h = (Inr (rootfs, inp, outp), h1)" by (cases "?S h"; cases x) auto
      have "?go rootfs inp outp h1 = (Inl e, h')" using run h1 by simp
      then show ?thesis by (rule triple_fail [OF G triple_ok [OF S I h1]])
    qed
  qed
qed

text \<open>Under a jail.\<close>

definition jailed_launch :: "env \<Rightarrow> string \<Rightarrow> u64 \<Rightarrow> resource set \<Rightarrow> resource set \<Rightarrow> Jail \<Rightarrow> JailedSpawn \<Rightarrow> host \<Rightarrow> bool" where
  "jailed_launch env base q X R0 jail s h \<longleftrightarrow>
     scratch_dir env base q (js_workdir s)
     \<and> held env R0 X (js_workdir s) (js_tap s) (js_child s) (Some (Chroot_new (js_chroot_root s) jail)) (js_lifetime s) (hs_res h)
     \<and> VmmProc (js_child s) \<in> hs_res h"

lemma triple_spawn_jailed:
  assumes Y: "\<And>m. Mount m \<notin> Y" and cg: "range Cgroup \<subseteq> Y"
  shows "triple (fresh R0 q) (spawn_jailed env c jail net args) (jailed_launch env (cf_scratch_dir c) q X R0 jail)
      (gone env (cf_scratch_dir c) q X Y R0)"
  unfolding spawn_jailed_def
proof (rule triple_seqm [OF triple_create_workdir [OF Y]], rule triple_pure)
  fix w assume w: "scratch_dir env (cf_scratch_dir c) q w"
  let ?base = "cf_scratch_dir c" and ?id = "workdir_name w"
  obtain k where k: "w = workdir_path env ?base k" using scratch_dir_path [OF w] by blast
  let ?J = "\<lambda>tap. spawn_jailer env jail (cf_firecracker c) w ?id args (map_option (\<lambda>t. netns_path (tp_netns t)) tap)"
  let ?dirs = "case jailer_cgroup_dir (en_fmt env) (host_view.truncate (en_view env)) (cf_firecracker c) ?id of Some d \<Rightarrow> [d] | None \<Rightarrow> []"
  have J: "triple (prepared w tap R0) (?J tap) (\<lambda>(child, socket, root) h. spawned True w tap child R0 h \<and> jail_root root w)
      (\<lambda>h. idle env w X Y tap R0 (hs_res h))" for tap by (rule triple_spawn_jailer [OF k cg])
  show "triple (prepared w None R0) (seqm (create_tap_or_reclaim env net w (Some (jl_uid jail, jl_gid jail))) (\<lambda>tap h.
     let ident = ?id in
     case spawn_jailer env jail (cf_firecracker c) w ident args (map_option (\<lambda>t. netns_path (tp_netns t)) tap) h of
       (Inl e, h1) \<Rightarrow> (Inl e, reclaim_scratch env w tap h1)
     | (Inr (child, socket, chroot_root), h1) \<Rightarrow>
         (case VmLifetime_watch env child
                 (case jailer_cgroup_dir (en_fmt env) (host_view.truncate (en_view env)) (cf_firecracker c) ident of
                    Some d \<Rightarrow> [d] | None \<Rightarrow> []) h1 of
            (lt, h2) \<Rightarrow>
              (Inr \<lparr>js_child = child, js_workdir = w, js_socket = socket, js_chroot_root = chroot_root,
                    js_tap = tap, js_lifetime = lt\<rparr>, h2)))) (jailed_launch env ?base q X R0 jail) (gone env ?base q X Y R0)"
  proof (intro triple_seqm)
    show "triple (prepared w None R0) (create_tap_or_reclaim env net w (Some (jl_uid jail, jl_gid jail))) (\<lambda>tap. prepared w tap R0) (gone env ?base q X Y R0)"
      using triple_create_tap [OF k Y] left_gone [OF w] by (rule triple_weaken)
  next
    fix tap
    show "triple (prepared w tap R0) (\<lambda>h. let ident = ?id in
     case spawn_jailer env jail (cf_firecracker c) w ident args (map_option (\<lambda>t. netns_path (tp_netns t)) tap) h of
       (Inl e, h1) \<Rightarrow> (Inl e, reclaim_scratch env w tap h1)
     | (Inr (child, socket, chroot_root), h1) \<Rightarrow>
         (case VmLifetime_watch env child
                 (case jailer_cgroup_dir (en_fmt env) (host_view.truncate (en_view env)) (cf_firecracker c) ident of
                    Some d \<Rightarrow> [d] | None \<Rightarrow> []) h1 of
            (lt, h2) \<Rightarrow>
              (Inr \<lparr>js_child = child, js_workdir = w, js_socket = socket, js_chroot_root = chroot_root,
                    js_tap = tap, js_lifetime = lt\<rparr>, h2))) (jailed_launch env ?base q X R0 jail) (gone env ?base q X Y R0)"
      unfolding Let_def
    proof (intro tripleI, goal_cases)
      case (1 h s h')
      then obtain child socket root h1 where h1: "?J tap h = (Inr (child, socket, root), h1)"
          and out: "VmLifetime_watch env child ?dirs h1 = (js_lifetime s, h')" "js_child s = child" "js_workdir s = w" "js_chroot_root s = root" "js_tap s = tap"
        by (auto split: prod.splits sum.splits)
      show ?case using triple_ok [OF J 1(1) h1] held_watch [OF _ _ out(1), of w tap R0 root X jail] out w by (simp add: jailed_launch_def)
    next
      case (2 h e h')
      then obtain h1 where h1: "?J tap h = (Inl e, h1)" "h' = reclaim_scratch env w tap h1"
        by (auto split: prod.splits sum.splits)
      show ?case using left_gone [OF w left_reclaim [OF triple_fail [OF J 2(1) h1(1)] Y]] h1(2) by simp
    qed
  qed
qed

lemma triple_jailed_vm:
  assumes "\<And>s. sp_child (mk s) = Some (js_child s) \<and> sp_workdir (mk s) = js_workdir s \<and> sp_tap (mk s) = js_tap s
      \<and> sp_chroot (mk s) = Some (Chroot_new (js_chroot_root s) jail) \<and> sp_lifetime (mk s) = js_lifetime s"
    and "triple P m (jailed_launch env base q X R0 jail) E"
  shows "triple P (seqm m (\<lambda>s. okm (mk s))) (launched env base q X R0 True) E"
  by (rule triple_seqm [OF assms(2)]) (simp add: triple_def okm_def launched_def jailed_launch_def assms(1))

lemma triple_launch:
  assumes Y: "\<And>m. Mount m \<notin> Y" and cg: "cf_jail c \<noteq> None \<Longrightarrow> range Cgroup \<subseteq> Y"
  shows "triple (fresh R0 q) (launch env c deadline) (launched env (cf_scratch_dir c) q X R0 (cf_jail c \<noteq> None))
      (gone env (cf_scratch_dir c) q X Y R0)"
proof -
  have unchanged: "triple (fresh R0 q) (\<lambda>h. (Inl e, h)) (launched env (cf_scratch_dir c) q X R0 b) (gone env (cf_scratch_dir c) q X Y R0)" for e :: VmmError and b
    using fresh_gone by (auto simp: triple_def)
  have jailed: "triple (fresh R0 q) (launch_jailed env c jail) (launched env (cf_scratch_dir c) q X R0 True) (gone env (cf_scratch_dir c) q X Y R0)"
    if "cf_jail c \<noteq> None" for jail
  proof (cases "cgroup_limit_args (host_view.truncate (en_view env)) (cf_require_limits c) (cf_vcpus c) (cf_mem_mib c)")
    case (Inr args)
    show ?thesis unfolding launch_jailed_def [abs_def] Inr sum.case
      by (rule triple_jailed_vm [OF _ triple_spawn_jailed [OF Y cg [OF that]]]) simp
  qed (simp add: launch_jailed_def [abs_def] unchanged)
  show ?thesis
  proof (cases "and_then (require_file (host_view.truncate (en_view env)) (cf_kernel c) ''kernel image'' fetch_hint) (\<lambda>_.
           require_file (host_view.truncate (en_view env)) (cf_rootfs c) ''rootfs image'' fetch_hint)")
    case (Inr u)
    show ?thesis unfolding launch_def [abs_def] Let_def Inr sum.case
      using jailed triple_launch_unjailed [OF Y] by (cases "cf_jail c") auto
  qed (simp add: launch_def [abs_def] unchanged)
qed

section \<open>The running VM\<close>

text \<open>A VM that runs holds what its launch took, and its VMM is a new process.\<close>

definition runs :: "env \<Rightarrow> string \<Rightarrow> u64 \<Rightarrow> resource set \<Rightarrow> resource set \<Rightarrow> resource set \<Rightarrow> running_vm \<Rightarrow> host \<Rightarrow> bool" where
  "runs env base q X Y R0 vm h \<longleftrightarrow>
     scratch_dir env base q (rv_workdir vm) \<and> (rv_chroot vm \<noteq> None \<longrightarrow> range Cgroup \<subseteq> Y)
     \<and> held env R0 X (rv_workdir vm) (rv_tap vm) (rv_child vm) (rv_chroot vm) (rv_lifetime vm) (hs_res h)
     \<and> unstaged env X Y R0 (hs_res h)"

lemma triple_finish_launch:
  assumes Y: "\<And>m. Mount m \<notin> Y" and cg: "jailed \<Longrightarrow> range Cgroup \<subseteq> Y" and X: "plainly X"
    and run: "\<And>w rt. scratch_dir env base q w \<Longrightarrow> (rt \<noteq> None \<longleftrightarrow> jailed) \<Longrightarrow> keeps (kept env R0 X Y w rt) run"
  shows "triple (\<lambda>h. launched env base q X R0 jailed vm h \<and> unstaged env X Y R0 (hs_res h)) (finish_launch env c run vm)
      (\<lambda>rv h. runs env base q X Y R0 rv h \<and> VmmProc (rv_child rv) \<in> hs_res h - R0) (gone env base q X Y R0)"
proof -
  let ?w = "sp_workdir vm" and ?rt = "map_option ch_root (sp_chroot vm)"
  have start: "kept env R0 X Y ?w ?rt \<lparr>bs_vm = vm, bs_host = h\<rparr>"
    if "launched env base q X R0 jailed vm h \<and> unstaged env X Y R0 (hs_res h)" for h
    using that by (auto simp: launched_def kept_def holding_def)
  have chroot: "sp_chroot (bs_vm s) \<noteq> None \<longrightarrow> range Cgroup \<subseteq> Y" if "launched env base q X R0 jailed vm h" "kept env R0 X Y ?w ?rt s" for h s
    using that cg by (auto simp: launched_def kept_def holding_def)
  show ?thesis
  proof (rule tripleI)
    fix h rv h' assume L: "launched env base q X R0 jailed vm h \<and> unstaged env X Y R0 (hs_res h)"
      and ok: "finish_launch env c run vm h = (Inr rv, h')"
    then obtain latency s where s: "run \<lparr>bs_vm = vm, bs_host = h\<rparr> = (Inr latency, s)" "into_running latency c (bs_vm s) = Inr rv" "h' = bs_host s"
      by (auto simp: finish_launch_def split: prod.splits sum.splits)
    have w: "scratch_dir env base q ?w" and rt: "?rt \<noteq> None \<longleftrightarrow> jailed" using L by (auto simp: launched_def)
    have K: "kept env R0 X Y ?w ?rt s" by (rule triple_ok [OF run [OF w rt] start [OF L] s(1)])
    then obtain child where c: "sp_child (bs_vm s) = Some child" "sp_workdir (bs_vm s) = ?w"
        and H: "held env R0 X ?w (sp_tap (bs_vm s)) child (sp_chroot (bs_vm s)) (sp_lifetime (bs_vm s)) (hs_res (bs_host s))"
        and alive: "VmmProc child \<in> hs_res (bs_host s)" and U: "unstaged env X Y R0 (hs_res (bs_host s))"
      by (auto simp: kept_def holding_def)
    have rv: "rv_workdir rv = ?w" "rv_child rv = child" "rv_tap rv = sp_tap (bs_vm s)" "rv_chroot rv = sp_chroot (bs_vm s)"
      "rv_lifetime rv = sp_lifetime (bs_vm s)" using s(2) c by (auto simp: into_running_def)
    have "VmmProc child \<notin> R0" using H by (simp add: held_def)
    then show "runs env base q X Y R0 rv h' \<and> VmmProc (rv_child rv) \<in> hs_res h' - R0"
      using chroot [OF conjunct1 [OF L] K] w H U alive unfolding runs_def rv s(3) by simp
  next
    fix h e h' assume L: "launched env base q X R0 jailed vm h \<and> unstaged env X Y R0 (hs_res h)"
      and ko: "finish_launch env c run vm h = (Inl e, h')"
    have w: "scratch_dir env base q ?w" and rt: "?rt \<noteq> None \<longleftrightarrow> jailed" using L by (auto simp: launched_def)
    obtain r s where s: "run \<lparr>bs_vm = vm, bs_host = h\<rparr> = (r, s)" by (cases "run \<lparr>bs_vm = vm, bs_host = h\<rparr>")
    have K: "kept env R0 X Y ?w ?rt s"
      using triple_ok [OF run [OF w rt] start [OF L]] triple_fail [OF run [OF w rt] start [OF L]] s by (cases r) simp_all
    show "gone env base q X Y R0 h'"
    proof (cases r)
      case (Inl e')
      then have "h' = snd (abort env (bs_vm s) e' (bs_host s))" using ko s by (auto simp: finish_launch_def split: prod.splits)
      moreover obtain child where "sp_child (bs_vm s) = Some child" "sp_workdir (bs_vm s) = ?w"
        "held env R0 X ?w (sp_tap (bs_vm s)) child (sp_chroot (bs_vm s)) (sp_lifetime (bs_vm s)) (hs_res (bs_host s))"
        "unstaged env X Y R0 (hs_res (bs_host s))" using K by (auto simp: kept_def holding_def)
      moreover have "sp_chroot (bs_vm s) \<noteq> None \<Longrightarrow> range Cgroup \<subseteq> Y" using chroot [OF _ K] L by blast
      ultimately have "settled env ?w X Y R0 (hs_res h')"
        using abort_settled [OF _ X, of env R0 "bs_vm s" child "bs_host s" Y e'] Y by simp
      then show ?thesis using w unfolding gone_def by blast
    next
      case (Inr latency)
      then show ?thesis using ko s K by (auto simp: finish_launch_def into_running_def kept_def holding_def split: option.splits)
    qed
  qed
qed

lemma runs_drop:
  assumes "runs env base q X Y R0 vm h" "plainly X" "\<And>m. Mount m \<notin> Y"
  shows "settled env (rv_workdir vm) X Y R0 (hs_res (RunningVm_drop env vm h))"
  unfolding RunningVm_drop_def using assms by (intro teardown_settled) (auto simp: runs_def)

lemma await_power_off_res: "hs_res (snd (await_power_off env deadline h)) = hs_res h"
proof (induction env deadline h rule: await_power_off.induct)
  case (1 env deadline h)
  show ?case using "1.IH" by (subst await_power_off.simps)
    (auto simp: ask_def thread_sleep_def split: sum.splits option.splits)
qed

lemma power_off_and_wait_outcome:
  assumes "power_off_and_wait env vm deadline h = (ok, vm', h')"
  shows "hs_res h' = hs_res h" "vm' = vm\<lparr>rv_lifetime := mark_down (rv_lifetime vm)\<rparr>"
proof -
  have "hs_res (snd (api_put env ''/actions'' (Action_json SendCtrlAltDel) h)) = hs_res h"
    using quiet_staging(6) [of env] by (simp add: quiet_def)
  then show "hs_res h' = hs_res h" using assms await_power_off_res
    by (auto simp: power_off_and_wait_def Let_def split: prod.splits sum.splits) (metis snd_conv)+
  show "vm' = vm\<lparr>rv_lifetime := mark_down (rv_lifetime vm)\<rparr>"
    using assms by (auto simp: power_off_and_wait_def Let_def split: prod.splits sum.splits)
qed

lemma runs_marked: "runs env base q X Y R0 (vm\<lparr>rv_lifetime := mark_down (rv_lifetime vm)\<rparr>) h = runs env base q X Y R0 vm h"
  by (simp add: runs_def held_def)

lemma held_less: "held env R0 X w tap child ch lt R \<Longrightarrow> held env R0 X w tap child ch lt (R - {VmmProc child})"
  by (cases tap) (simp_all add: held_def)

lemma runs_res: "runs env base q X Y R0 vm h \<Longrightarrow> hs_res h' = hs_res h \<or> hs_res h' = hs_res h - {VmmProc (rv_child vm)}
    \<Longrightarrow> plainly X \<Longrightarrow> runs env base q X Y R0 vm h'"
  using held_less [of env R0 X "rv_workdir vm" "rv_tap vm" "rv_child vm" "rv_chroot vm" "rv_lifetime vm" "hs_res h"]
  by (elim disjE) (auto simp: runs_def unstaged_def)

lemma runs_shutdown:
  assumes R: "runs env base q X Y R0 vm h" and X: "plainly X" and Y: "\<And>m. Mount m \<notin> Y"
  shows "settled env (rv_workdir vm) X Y R0 (hs_res (shutdown env vm h))"
proof -
  obtain ok vm' h' where p: "power_off_and_wait env vm (hs_now h + POWER_OFF_TIMEOUT) h = (ok, vm', h')" by (metis prod_cases3)
  note P = power_off_and_wait_outcome [OF p]
  have "runs env base q X Y R0 vm' h'" using runs_res [OF R _ X] P runs_marked by simp
  from runs_drop [OF this X Y] show ?thesis using P(2) by (simp add: shutdown_def p)
qed

lemma runs_collect_outputs:
  assumes R: "runs env base q X Y R0 vm h" and X: "plainly X" and Y: "\<And>m. Mount m \<notin> Y"
  shows "settled env (rv_workdir vm) X Y R0 (hs_res (snd (collect_outputs env oh vm h)))"
proof (cases "rv_output vm")
  case None
  then show ?thesis using runs_drop [OF R X Y] by (simp add: collect_outputs_def)
next
  case (Some out)
  obtain ok vm' h' where p: "power_off_and_wait env vm (hs_now h + POWER_OFF_TIMEOUT) h = (ok, vm', h')" by (metis prod_cases3)
  note P = power_off_and_wait_outcome [OF p]
  let ?h = "if ok then h' else kill_wait env (VmmProc (rv_child vm)) h'"
  have "runs env base q X Y R0 vm' ?h"
    using runs_res [OF R _ X, of ?h] P runs_marked by (simp add: kill_wait_def discard_def)
  from runs_drop [OF this X Y] show ?thesis using P(2) Some by (simp add: collect_outputs_def stop_and_reap_def p)
qed

section \<open>Boot\<close>

lemma triple_Vm_boot:
  assumes Y: "\<And>m. Mount m \<notin> Y" and cg: "cf_jail c \<noteq> None \<Longrightarrow> range Cgroup \<subseteq> Y"
  shows "triple (fresh R0 q) (Vm_boot env c)
      (\<lambda>rv h. runs env (cf_scratch_dir c) q {} Y R0 rv h \<and> VmmProc (rv_child rv) \<in> hs_res h - R0) (gone env (cf_scratch_dir c) q {} Y R0)"
proof (cases "host_checks env c")
  case (Inl e)
  then show ?thesis by (simp add: triple_def Vm_boot_def fresh_gone)
next
  case (Inr u)
  have X: "plainly {}" "unstaged env {} Y R0 R" for R by (simp_all add: plainly_def unstaged_def)
  let ?Q = "\<lambda>rv h. runs env (cf_scratch_dir c) q {} Y R0 rv h \<and> VmmProc (rv_child rv) \<in> hs_res h - R0"
  have go: "triple (fresh R0 q) (seqm (launch env c deadline) (finish_launch env c (run_boot env c deadline))) ?Q (gone env (cf_scratch_dir c) q {} Y R0)"
    for deadline
  proof (rule triple_seqm [OF triple_launch [OF Y cg]])
    show "triple (launched env (cf_scratch_dir c) q {} R0 (cf_jail c \<noteq> None) vm) (finish_launch env c (run_boot env c deadline) vm) ?Q
        (gone env (cf_scratch_dir c) q {} Y R0)" for vm
      using triple_finish_launch [OF Y cg X(1) keeps_run_boot [OF X(1)], of "cf_jail c \<noteq> None" env "cf_scratch_dir c" q R0 vm c] X(2) by simp
  qed
  show ?thesis
    using go Inr unfolding triple_def Vm_boot_def Let_def by simp
qed


text \<open>A host on which everything works, and a networked boot there.\<close>

definition quiet_view :: doctor_view where
  "quiet_view = \<lparr>hv_path_var = Some ''/usr/bin'', hv_cwd = Inr ''/root'', hv_is_file = (\<lambda>_. True), hv_subtree_control = None,
     hv_mountinfo = None, dv_exists = (\<lambda>_. True), dv_canonicalize = Some, dv_kvm_opens = True, dv_osrelease = None,
     dv_status = None, dv_version = (\<lambda>_. None), dv_arch = ''x86_64''\<rparr>"

definition quiet_host :: env where
  "quiet_host = \<lparr>en_fmt = plain_fmt, en_serde = plain_serde, en_view = quiet_view, en_pid = 7, en_io = (\<lambda>_. None),
     en_release = (\<lambda>_ _. True), en_residue = (\<lambda>_. False), en_partial = (\<lambda>_. False), en_tool = (\<lambda>_. ToolOk),
     en_status = (\<lambda>_. []), en_eexist = [], en_cost = (\<lambda>_. 1), en_peer = (\<lambda>_. answering 204 []), en_exit = (\<lambda>_. Inr None),
     en_console = (\<lambda>_. as_bytes GUEST_READY_MARKER), en_connects = (\<lambda>_. True), en_dial = (\<lambda>_. Inl NotFound),
     en_proc_cgroup = (\<lambda>_. Some (''0::/user'' @ nl)), en_log = (\<lambda>_. []), en_len = (\<lambda>_. None), en_owner = (\<lambda>_. Inl NotFound),
     en_input = (\<lambda>_. (False, Listing []))\<rparr>"

definition first_host :: host where
  "first_host = \<lparr>hs_res = {}, hs_now = 0, hs_step = 0, hs_next = 100, hs_seq = 0, hs_api = [], hs_cmds = []\<rparr>"

definition net_config :: boot_config where
  "net_config = boot_config_default\<lparr>cf_enable_network := True\<rparr>"

lemma quiet_host_works: "works quiet_host"
  by (simp add: works_def quiet_host_def)

lemma settled_empty: "settled env w X {} {} R \<Longrightarrow> works env \<Longrightarrow> R = {}"
  by (auto simp: settled_def orderly_def)


end
