(* ===== verification/Restore.thy ===== *)
theory Restore
  imports Lifecycle
begin

text \<open>
  What a restore leaves on the host. Without a jail, a private disk is staged outside the scratch
  directory, at the path the snapshot names, until the VMM has opened it; under a jail it is staged
  below the chroot. Either way it is unstaged on every path.
\<close>

section \<open>The staged disk\<close>

definition staged :: "string \<Rightarrow> resource set" where
  "staged t = {File t} \<union> (case path_parent t of Some p \<Rightarrow> {File (marker_path p), Dir p} | None \<Rightarrow> {})"

definition staging_dir :: "string \<Rightarrow> resource set" where
  "staging_dir t = (case path_parent t of Some p \<Rightarrow> {Dir p} | None \<Rightarrow> {})"

lemma unstage_outcome:
  shows "moves (staged t) h (unstage_restore_disk env t h)"
    "works env \<Longrightarrow> x \<in> staged t \<Longrightarrow> x \<in> hs_res (unstage_restore_disk env t h) \<Longrightarrow> x \<in> staging_dir t"
proof -
  show "moves (staged t) h (unstage_restore_disk env t h)"
    by (auto simp: unstage_restore_disk_def staged_def Let_def split: option.splits
        intro!: moves_release moves_trans [OF moves_release moves_trans [OF moves_release moves_remove_empty]])
  assume w: "works env" and x: "x \<in> staged t" "x \<in> hs_res (unstage_restore_disk env t h)"
  have sub: "hs_res (remove_empty env p h') \<subseteq> hs_res h'" for p h'
    by (auto simp: remove_empty_def ask_def discard_def)
  show "x \<in> staging_dir t"
  proof (cases "path_parent t")
    case None
    then show ?thesis using x release_works [OF w] by (simp add: unstage_restore_disk_def staged_def Let_def)
  next
    case (Some p)
    then have "x \<in> hs_res (release env (File (marker_path p)) (release env (File t) h))"
      using x(2) sub by (auto simp: unstage_restore_disk_def Let_def)
    then show ?thesis using Some x(1) release_works [OF w] by (auto simp: staged_def staging_dir_def)
  qed
qed

lemma ensure_private_outcome:
  "ensure_private_staging_dir env p h = (r, h') \<Longrightarrow> moves {Dir p} h h'"
  by (auto simp: ensure_private_staging_dir_def ask_def try_io_def moves_def acquire_def Let_def
      split: option.splits if_splits sum.splits prod.splits)

lemma reserve_outcome:
  assumes "reserve_restore_disk env t h = (r, h')"
  shows "moves {File t} h h'" "r = Inl e \<Longrightarrow> hs_res h' = hs_res h"
  using assms by (auto simp: reserve_restore_disk_def ask_def moves_def acquire_def Let_def split: option.splits if_splits)

lemma write_marker_outcome:
  assumes "write_marker env t h = (r, h')"
  shows "moves (staged t) h h'" "works env \<Longrightarrow> r = Inl e \<Longrightarrow> x \<in> staged t \<Longrightarrow> x \<in> hs_res h' \<Longrightarrow> x \<in> staging_dir t"
proof -
  show "moves (staged t) h h'"
    using assms unstage_outcome(1) [of t "tick env h" env]
    by (auto simp: write_marker_def ask_def acquire_def moves_def staged_def split: option.splits)
  show "x \<in> staging_dir t" if "works env" "r = Inl e" "x \<in> staged t" "x \<in> hs_res h'"
    using assms that unstage_outcome(2) [of env x t "tick env h"] by (auto simp: write_marker_def ask_def split: option.splits)
qed

lemma stage_restore_disk_outcome:
  assumes "stage_restore_disk env t h = (r, h')"
  shows "moves (staged t) h h'"
    "works env \<Longrightarrow> r = Inl e \<Longrightarrow> x \<in> staged t \<Longrightarrow> x \<in> hs_res h' \<Longrightarrow> x \<in> hs_res h \<or> x \<in> staging_dir t"
proof -
  let ?P = "\<lambda>h1. moves (staged t) h h1" and ?E = "\<lambda>h1. moves (staged t) h h1 \<and>
      (works env \<longrightarrow> (\<forall>x \<in> staged t. x \<in> hs_res h1 \<longrightarrow> x \<in> hs_res h \<or> x \<in> staging_dir t))"
  let ?A = "\<lambda>h1. moves (staging_dir t) h h1"
  have dir: "staging_dir t \<subseteq> staged t" and disk: "{File t} \<subseteq> staged t" by (auto simp: staging_dir_def staged_def split: option.splits)
  have AE: "?E h1" if "?A h1" for h1 using that dir by (auto simp: moves_def)
  have ensure: "triple ?A (case path_parent t of Some parent \<Rightarrow> ensure_private_staging_dir env parent | None \<Rightarrow> okm ()) (\<lambda>_. ?A) ?A"
  proof (cases "path_parent t")
    case (Some p)
    show ?thesis unfolding Some option.case
      by (intro tripleI) (auto simp: staging_dir_def Some intro: moves_trans dest!: ensure_private_outcome)
  qed (simp add: triple_okm)
  have reserve: "triple ?A (reserve_restore_disk env t) (\<lambda>_. ?P) ?A"
  proof (rule tripleI)
    fix s x s' assume "?A s" and run: "reserve_restore_disk env t s = (Inr x, s')"
    then show "?P s'" using moves_mono [OF _ dir] moves_mono [OF reserve_outcome(1) [OF run] disk] by (blast intro: moves_trans)
  next
    fix s e s' assume A: "?A s" and run: "reserve_restore_disk env t s = (Inl e, s')"
    show "?A s'" using A reserve_outcome(2) [OF run refl] reserve_outcome(1) [OF run] by (simp add: moves_def)
  qed
  have marker: "triple ?P (write_marker env t) (\<lambda>_. ?P) ?E"
    by (intro tripleI) (blast intro: moves_trans write_marker_outcome(1) dest: write_marker_outcome(2))+
  have copy: "triple ?P (\<lambda>h. case try_io env err h of (Inl e, h1) \<Rightarrow> (Inl e, unstage_restore_disk env t h1) | (Inr _, h1) \<Rightarrow> (Inr (), h1)) (\<lambda>_. ?P) ?E"
    for err :: "io_kind \<Rightarrow> VmmError"
  proof (intro tripleI)
    fix s x s' assume "?P s" "(case try_io env err s of (Inl e, h1) \<Rightarrow> (Inl e, unstage_restore_disk env t h1) | (Inr _, h1) \<Rightarrow> (Inr (), h1)) = (Inr x, s')"
    then show "?P s'" by (auto simp: try_io_def ask_def moves_def split: option.splits)
  next
    fix s e s' assume P: "?P s" and "(case try_io env err s of (Inl e, h1) \<Rightarrow> (Inl e, unstage_restore_disk env t h1) | (Inr _, h1) \<Rightarrow> (Inr (), h1)) = (Inl e, s')"
    then have s': "s' = unstage_restore_disk env t (tick env s)" by (auto simp: try_io_def ask_def split: option.splits)
    have "moves (staged t) h (tick env s)" using P by (simp add: moves_def)
    then show "?E s'" using unstage_outcome [where t = t and h = "tick env s" and env = env] s' by (blast intro: moves_trans)
  qed
  have "triple ?A (stage_restore_disk env t) (\<lambda>_. ?P) ?E"
    unfolding stage_restore_disk_def
    by (intro triple_seqm [OF triple_weaken [OF ensure AE]] triple_seqm [OF triple_weaken [OF reserve AE]] triple_seqm [OF marker] copy)
  note T = this
  have A: "?A h" by simp
  show "moves (staged t) h h'" using triple_ok [OF T A] triple_fail [OF T A] assms by (cases r) auto
  show "x \<in> hs_res h \<or> x \<in> staging_dir t" if "works env" "r = Inl e" "x \<in> staged t" "x \<in> hs_res h'"
    using triple_fail [OF T A, of e h'] assms that by auto
qed

section \<open>What may come and go\<close>

definition movable :: "string \<Rightarrow> resource set \<Rightarrow> resource set" where
  "movable w X = {r \<in> own w X. (\<exists>f. r = File f) \<or> (\<exists>d. r = Dir d \<and> d \<noteq> w)}"

lemma held_moves:
  assumes H: "held env R0 X w tap child ch lt (hs_res h)" and m: "moves T h h'" and T: "T \<subseteq> movable w X"
  shows "held env R0 X w tap child ch lt (hs_res h')"
proof -
  have same: "r \<in> hs_res h' \<longleftrightarrow> r \<in> hs_res h" if "r \<notin> movable w X" for r using m T that by (auto simp: moves_def)
  have "Dir w \<notin> movable w X" "Netns n \<notin> movable w X" "Mount a \<notin> movable w X" "Cgroup d \<notin> movable w X" "r \<notin> own w X \<Longrightarrow> r \<notin> movable w X"
    for n a d r by (auto simp: movable_def)
  note * = this [THEN same]
  show ?thesis using H * unfolding held_def by (auto split: option.splits)
qed

lemma holding_moves:
  assumes "holding env R0 X w rt s" "moves T (bs_host s) h" "T \<subseteq> movable w X"
  shows "holding env R0 X w rt (s\<lparr>bs_host := h\<rparr>)"
proof -
  have "VmmProc p \<notin> T" for p using assms(3) by (auto simp: movable_def)
  then show ?thesis using assms held_moves [OF _ assms(2,3)] by (auto simp: holding_def moves_def)
qed

lemma on_host_simps:
  "on_host (seqm m f) = seqm (on_host m) (\<lambda>x. on_host (f x))" "on_host (okm y) = okm y" "on_host (lift r) = lift r"
  by (auto simp: on_host_def seqm_def okm_def lift_def split: prod.splits sum.splits)

text \<open>Between staging and loading: a disk may be armed.\<close>

definition half :: "env \<Rightarrow> resource set \<Rightarrow> resource set \<Rightarrow> resource set \<Rightarrow> string \<Rightarrow> string option \<Rightarrow> string option \<Rightarrow> boot_state \<Rightarrow> bool" where
  "half env R0 X Y w rt armed s \<longleftrightarrow> holding env R0 X w rt s
     \<and> (case armed of None \<Rightarrow> unstaged env X Y R0 (hs_res (bs_host s))
                    | Some t \<Rightarrow> staged t \<subseteq> movable w X \<and> X \<subseteq> staged t \<and> staging_dir t \<inter> X \<subseteq> Y)"

lemma half_unstage:
  assumes "half env R0 X Y w rt armed s" "hs_res h = hs_res (bs_host s)" "hs_next h = hs_next (bs_host s)"
  shows "kept env R0 X Y w rt (s\<lparr>bs_host := unstage_armed env armed h\<rparr>)"
proof (cases armed)
  case None
  then show ?thesis using assms by (simp add: half_def kept_def holding_def unstage_armed_def)
next
  case (Some t)
  note U = unstage_outcome [where t = t and h = h and env = env]
  have "moves (staged t) (bs_host s) (unstage_restore_disk env t h)" using U(1) assms(2,3) by (simp add: moves_def)
  then have "holding env R0 X w rt (s\<lparr>bs_host := unstage_restore_disk env t h\<rparr>)"
    using assms(1) Some holding_moves by (auto simp: half_def)
  moreover have "unstaged env X Y R0 (hs_res (unstage_restore_disk env t h))"
    using U(2) assms(1) Some unfolding unstaged_def half_def by fastforce
  ultimately show ?thesis using Some by (simp add: kept_def unstage_armed_def)
qed

lemma triple_load_snapshot:
  "triple (half env R0 X Y w rt armed) (on_host (load_snapshot env ss deadline (sa, ma, armed))) (\<lambda>_. kept env R0 X Y w rt) (kept env R0 X Y w rt)"
proof -
  have main: "kept env R0 X Y w rt t" if H: "half env R0 X Y w rt armed s" and run: "on_host (load_snapshot env ss deadline (sa, ma, armed)) s = (r, t)" for s r t
  proof -
    obtain b h1 where h1: "still_before env deadline ''PUT /snapshot/load'' (bs_host s) = (b, h1)" by fastforce
    note S = quietD [OF quiet_basic(5) h1]
    show ?thesis
    proof (cases b)
      case (Inl e)
      then have "t = s\<lparr>bs_host := unstage_armed env armed h1\<rparr>" using run h1 by (auto simp: on_host_def load_snapshot_def)
      then show ?thesis using half_unstage [OF H] S by simp
    next
      case (Inr u)
      let ?call = "api_call env ''PUT'' ''/snapshot/load'' (SnapshotLoad sa (MemBackend ma) True)
          (min (snapshot_api_timeout (snapshot_mem_mib env ss)) (deadline - hs_now h1))"
      obtain loaded h2 where h2: "?call h1 = (loaded, h2)" by fastforce
      have "t = s\<lparr>bs_host := unstage_armed env armed h2\<rparr>"
        using run h1 h2 Inr by (auto simp: on_host_def load_snapshot_def Let_def split: sum.splits prod.splits)
      then show ?thesis using half_unstage [OF H] S quietD [OF quiet_basic(6) h2] by simp
    qed
  qed
  show ?thesis by (rule tripleI) (blast intro: main)+
qed

section \<open>Staging without a jail\<close>

lemma triple_stage_unjailed:
  assumes X: "X = (if ss_shared_base ss then {} else staged (ss_root_backing ss))" and Y: "staging_dir (ss_root_backing ss) \<inter> X \<subseteq> Y"
    and T: "X \<subseteq> movable w X"
  shows "triple (kept env R0 X Y w rt) (on_host (stage_restore_unjailed env ss deadline))
      (\<lambda>(sa, ma, armed). half env R0 X Y w rt armed) (kept env R0 X Y w rt)"
proof -
  let ?K = "kept env R0 X Y w rt" and ?t = "ss_root_backing ss"
  have half_None: "?K s \<Longrightarrow> half env R0 X Y w rt None s" for s by (simp add: kept_def half_def)
  have disk: "triple ?K (on_host (stage_restore_disk env ?t)) (\<lambda>_. half env R0 X Y w rt (Some ?t)) ?K" if "\<not> ss_shared_base ss"
  proof (rule tripleI)
    fix s x s' assume K: "?K s" and run: "on_host (stage_restore_disk env ?t) s = (Inr x, s')"
    then obtain h where h: "stage_restore_disk env ?t (bs_host s) = (Inr x, h)" "s' = s\<lparr>bs_host := h\<rparr>" by (auto simp: on_host_def split: prod.splits)
    show "half env R0 X Y w rt (Some ?t) s'"
      using holding_moves [OF _ stage_restore_disk_outcome(1) [OF h(1)]] K h(2) X Y T that by (auto simp: half_def kept_def)
  next
    fix s e s' assume K: "?K s" and run: "on_host (stage_restore_disk env ?t) s = (Inl e, s')"
    then obtain h where h: "stage_restore_disk env ?t (bs_host s) = (Inl e, h)" "s' = s\<lparr>bs_host := h\<rparr>" by (auto simp: on_host_def split: prod.splits)
    note O = stage_restore_disk_outcome [OF h(1)]
    have "unstaged env X Y R0 (hs_res h)"
      unfolding unstaged_def
    proof (intro impI ballI)
      fix x assume *: "works env" "x \<in> X" "x \<in> hs_res h"
      then have "x \<in> hs_res (bs_host s) \<or> x \<in> Y" using O(2) [OF _ refl] X Y that by auto
      then show "x \<in> R0 \<or> x \<in> Y" using K * by (auto simp: kept_def unstaged_def)
    qed
    moreover have "holding env R0 X w rt s'" using holding_moves [OF _ O(1)] K h(2) X T that by (auto simp: kept_def)
    ultimately show "?K s'" using h(2) by (simp add: kept_def)
  qed
  have armed: "triple ?K (on_host (if ss_shared_base ss then okm None else seqm (still_before env deadline ''stage restore disk'') (\<lambda>_.
      seqm (stage_restore_disk env ?t) (\<lambda>_. okm (Some ?t))))) (half env R0 X Y w rt) ?K"
  proof (cases "ss_shared_base ss")
    case True
    then show ?thesis using half_None by (simp add: on_host_simps triple_okm)
  next
    case False
    then show ?thesis
      by (simp add: on_host_simps) (intro triple_seqm [OF keeps_on_host [OF quiet_basic(5)]] triple_seqm [OF disk [OF False]] triple_okm)
  qed
  show ?thesis unfolding stage_restore_unjailed_def on_host_simps
    by (intro triple_seqm [OF keeps_lift] triple_seqm [OF armed [unfolded on_host_simps]] triple_okm) simp
qed

section \<open>Staging into a jail\<close>

lemma staged_movable:
  assumes "jail_root d w"
  shows "staged d \<subseteq> movable w {}"
proof -
  have d: "path_starts_with d w" "length (components w) + 2 \<le> length (components d)" using assms by (simp_all add: jail_root_def)
  have "path_starts_with p w \<and> p \<noteq> w \<and> path_starts_with (marker_path p) w" if p: "path_parent d = Some p" for p
  proof -
    have c: "components p = butlast (components d)" by (rule path_parent_components [OF p])
    have "take (length (components w)) (butlast (components d)) = take (length (components w)) (components d)"
      using d(2) by (simp add: take_butlast)
    then have "path_starts_with p w" using d(1) c by (simp add: path_starts_with_def)
    moreover have len: "length (components p) = length (components d) - 1" using c by simp
    moreover have "p \<noteq> w" using len d(2) by auto
    moreover have "p \<noteq> []"
    proof
      assume "p = []"
      moreover have "components [] = []" by (simp add: components_def)
      ultimately show False using len d(2) by simp
    qed
    moreover have "path_starts_with (marker_path p) w" unfolding marker_path_def
      by (rule path_starts_with_join [OF \<open>path_starts_with p w\<close> \<open>p \<noteq> []\<close>]) (simp add: RESTORE_STAGING_MARKER_def slash_def)
    ultimately show ?thesis by blast
  qed
  then show ?thesis using d(1) by (auto simp: staged_def movable_def own_def split: option.splits)
qed

lemma hd_lossy:
  assumes "bs \<noteq> []"
  shows "lossy_bytes bs \<noteq> [] \<and> (hd (lossy_bytes bs) = hd bs \<or> hd (lossy_bytes bs) = 0xEF)"
proof -
  have bad: "encode_utf8 0xFFFD = [0xEF, 0xBF, 0xBD]" by (simp add: encode_utf8_def byte_def)
  show ?thesis
  proof (cases "utf8_next bs")
    case None
    then have "lossy_bytes bs = encode_utf8 0xFFFD @ lossy_bytes (drop (bad_len bs) bs)" using assms by (subst lossy_bytes.simps) simp
    then show ?thesis by (simp add: bad)
  next
    case (Some cr)
    obtain c r where cr: "cr = (c, r)" by (cases cr)
    have "encode_utf8 c \<noteq> []" by (auto simp: encode_utf8_def Let_def)
    moreover have "bs = encode_utf8 c @ r" using encode_utf8_next [of bs c r] Some cr by simp
    moreover have "lossy_bytes bs = encode_utf8 c @ lossy_bytes r" by (subst lossy_bytes.simps) (use assms Some cr in simp)
    ultimately show ?thesis by (metis append_is_Nil_conv hd_append2)
  qed
qed

lemma lossy_no_slash:
  assumes "s = [] \<or> hd s \<noteq> slash"
  shows "from_utf8_lossy (as_bytes s) = [] \<or> hd (from_utf8_lossy (as_bytes s)) \<noteq> slash"
proof (cases "s = []")
  case True
  then show ?thesis by (simp add: from_utf8_lossy_def lossy_bytes.simps)
next
  case False
  let ?l = "lossy_bytes (as_bytes s)"
  have hd: "hd s \<noteq> slash" using assms False by simp
  have ne: "as_bytes s \<noteq> []" using False by (simp add: as_bytes_def)
  note L = hd_lossy [OF ne]
  have "hd (of_bytes ?l) = char_of (unat (hd ?l))" using L by (simp add: of_bytes_def hd_map)
  moreover have "hd (of_bytes (as_bytes s)) = char_of (unat (hd (as_bytes s)))" using ne by (simp add: of_bytes_def hd_map)
  moreover have "char_of (unat (0xEF :: u8)) \<noteq> slash" by (simp add: slash_def char_of_def)
  ultimately show ?thesis using L hd by (auto simp: from_utf8_lossy_def)
qed

lemma bind_base_seqm:
  "seqm (on_host (stage_ro_base_into_chroot env root name src sd uid gid)) (\<lambda>(arg, mount). seqm (on_vm (push_mount mount)) (\<lambda>_. f arg))
     = seqm (bind_base env root name src sd uid gid (\<lambda>a. a)) f"
  by (rule ext) (auto simp: bind_base_def seqm_def okm_def split: prod.splits sum.splits)

lemma kept_moves:
  assumes "kept env R0 {} Y w rt s" "moves T (bs_host s) h" "T \<subseteq> movable w {}"
  shows "kept env R0 {} Y w rt (s\<lparr>bs_host := h\<rparr>)"
  using assms holding_moves [OF _ assms(2,3)] by (auto simp: kept_def unstaged_def)

lemma keeps_movable:
  assumes "\<And>h r h'. m h = (r, h') \<Longrightarrow> moves T h h'" "T \<subseteq> movable w {}"
  shows "keeps (kept env R0 {} Y w rt) (on_host m)"
  by (intro tripleI) (auto simp: on_host_def split: prod.splits intro: kept_moves [OF _ assms(1) assms(2)])

lemma create_chroot_dirs_outcome: "create_chroot_dirs env p h = (r, h') \<Longrightarrow> moves {Dir p} h h'"
  by (auto simp: create_chroot_dirs_def seqm_def try_io_def ask_def moves_def acquire_def split: option.splits)

lemma half_jailed:
  assumes "kept env R0 {} Y w rt s" "case armed of None \<Rightarrow> True | Some d \<Rightarrow> jail_root d w"
  shows "half env R0 {} Y w rt armed s"
  using assms staged_movable by (auto simp: half_def kept_def split: option.splits)

lemma triple_stage_jailed:
  assumes root: "jail_root (ch_root ch) w"
  shows "triple (kept env R0 {} Y w (Some (ch_root ch))) (stage_restore_jailed env ss deadline ch sd)
      (\<lambda>(sa, ma, armed). half env R0 {} Y w (Some (ch_root ch)) armed) (kept env R0 {} Y w (Some (ch_root ch)))"
proof -
  let ?K = "kept env R0 {} Y w (Some (ch_root ch))" and ?root = "ch_root ch"
  have X: "plainly {}" by (simp add: plainly_def)
  have tail: "triple ?K (let disk_target = path_push ?root rel in
      seqm (case path_parent disk_target of Some parent \<Rightarrow> on_host (create_chroot_dirs env parent) | None \<Rightarrow> okm ()) (\<lambda>_.
      seqm (on_host (still_before env deadline ''stage restore disk'')) (\<lambda>_.
      seqm (if ss_shared_base ss
            then seqm (on_host (stage_ro_base_into_chroot env ?root (from_utf8_lossy (as_bytes rel)) (ss_root_drive ss) sd (ch_uid ch) (ch_gid ch)))
                   (\<lambda>(_, disk_mount). seqm (on_vm (push_mount disk_mount)) (\<lambda>_. okm None))
            else seqm (on_host (stage_restore_disk env disk_target)) (\<lambda>_.
                 seqm (on_host (give_to_jail env disk_target (ch_uid ch) (ch_gid ch))) (\<lambda>_. okm (Some disk_target)))) (\<lambda>armed.
      seqm (learn_jailer_cgroup env) (\<lambda>_. okm (sa, ma, armed))))))
      (\<lambda>(sa, ma, armed). half env R0 {} Y w (Some ?root) armed) ?K"
    if rel: "rel = [] \<or> hd rel \<noteq> slash" for rel sa ma
  proof -
    define d where "d = path_push ?root rel"
    have d: "jail_root d w" unfolding d_def using root rel by (rule jail_root_join)
    have dirs: "keeps ?K (case path_parent d of Some parent \<Rightarrow> on_host (create_chroot_dirs env parent) | None \<Rightarrow> okm ())"
    proof (cases "path_parent d")
      case (Some p)
      then have "{Dir p} \<subseteq> movable w {}" using staged_movable [OF d] by (simp add: staged_def)
      then show ?thesis using Some keeps_movable [OF create_chroot_dirs_outcome] by simp
    qed (simp add: keeps_okm)
    have disk: "keeps ?K (on_host (stage_restore_disk env d))" by (rule keeps_movable [OF stage_restore_disk_outcome(1) staged_movable [OF d]])
    have armed: "triple ?K (if ss_shared_base ss
            then seqm (on_host (stage_ro_base_into_chroot env ?root (from_utf8_lossy (as_bytes rel)) (ss_root_drive ss) sd (ch_uid ch) (ch_gid ch)))
                   (\<lambda>(_, disk_mount). seqm (on_vm (push_mount disk_mount)) (\<lambda>_. okm None))
            else seqm (on_host (stage_restore_disk env d)) (\<lambda>_.
                 seqm (on_host (give_to_jail env d (ch_uid ch) (ch_gid ch))) (\<lambda>_. okm (Some d))))
          (\<lambda>a s. (a = None \<or> a = Some d) \<and> ?K s) ?K"
    proof (cases "ss_shared_base ss")
      case True
      have "triple ?K (seqm (bind_base env ?root (from_utf8_lossy (as_bytes rel)) (ss_root_drive ss) sd (ch_uid ch) (ch_gid ch) (\<lambda>a. a)) (\<lambda>_. okm None))
          (\<lambda>a s. (a = None \<or> a = Some d) \<and> ?K s) ?K"
        by (intro triple_seqm [OF keeps_bind_base [OF root lossy_no_slash [OF rel] X]] triple_okm) simp
      then show ?thesis using True by (simp add: bind_base_seqm)
    next
      case False
      have "triple ?K (seqm (on_host (stage_restore_disk env d)) (\<lambda>_. seqm (on_host (give_to_jail env d (ch_uid ch) (ch_gid ch))) (\<lambda>_. okm (Some d))))
          (\<lambda>a s. (a = None \<or> a = Some d) \<and> ?K s) ?K"
        by (intro triple_seqm [OF disk] triple_seqm [OF keeps_on_host] triple_okm quiet) simp
      then show ?thesis using False by simp
    qed
    have last: "triple (\<lambda>s. (a = None \<or> a = Some d) \<and> ?K s) (seqm (learn_jailer_cgroup env) (\<lambda>_. okm (sa, ma, a)))
        (\<lambda>(sa, ma, armed). half env R0 {} Y w (Some ?root) armed) ?K" for a
      by (rule triple_pure, intro triple_seqm [OF keeps_learn] triple_okm) (use d in \<open>auto intro!: half_jailed\<close>)
    show ?thesis unfolding Let_def d_def [symmetric]
      by (intro triple_seqm [OF dirs] triple_seqm [OF keeps_on_host [OF quiet_basic(5)]] triple_seqm [OF armed] last)
  qed
  have rel: "dropWhile (\<lambda>c. c = slash) p = [] \<or> hd (dropWhile (\<lambda>c. c = slash) p) \<noteq> slash" for p by (metis (mono_tags) hd_dropWhile)
  have path: "triple ?K (lift (if is_absolute p then Inr (dropWhile (\<lambda>c. c = slash) p) else Inl e))
      (\<lambda>r s. (r = [] \<or> hd r \<noteq> slash) \<and> ?K s) ?K" for p e
    using rel [of p] by (intro tripleI) (auto simp: lift_def split: if_splits)
  have mem: "''snapshot.mem'' = [] \<or> hd ''snapshot.mem'' \<noteq> slash" by (simp add: slash_def)
  show ?thesis
    unfolding stage_restore_jailed_def Let_def [of "ch_root ch"] Let_def [of "ch_uid ch"] Let_def [of "ch_gid ch"] bind_base_seqm
    by (intro triple_seqm [OF keeps_on_host] triple_seqm [OF keeps_bind_base [OF root mem X]] triple_seqm [OF path] triple_pure tail [unfolded bind_base_seqm] quiet)
qed

section \<open>A disk that is still there\<close>

lemma staging_sub: "staging_dir t \<subseteq> staged t"
  by (auto simp: staging_dir_def staged_def split: option.splits)

lemma stage_restore_disk_occupied:
  assumes "File t \<in> hs_res h" "stage_restore_disk env t h = (r, h')"
  shows "moves (staging_dir t) h h'" "\<exists>e. r = Inl e"
proof -
  let ?P = "\<lambda>h1. moves (staging_dir t) h h1 \<and> File t \<in> hs_res h1"
  have ensure: "triple ?P (case path_parent t of Some parent \<Rightarrow> ensure_private_staging_dir env parent | None \<Rightarrow> okm ()) (\<lambda>_. ?P) ?P"
  proof (cases "path_parent t")
    case (Some p)
    have step: "?P h2" if "?P h1" "ensure_private_staging_dir env p h1 = (r, h2)" for h1 r h2
    proof -
      have "moves {Dir p} h1 h2" by (rule ensure_private_outcome [OF that(2)])
      then show ?thesis using that(1) moves_trans [of "staging_dir t" h h1 h2] by (auto simp: staging_dir_def Some moves_def)
    qed
    show ?thesis unfolding Some option.case by (intro tripleI) (erule (1) step)+
  qed (simp add: triple_okm)
  have reserve: "triple ?P (reserve_restore_disk env t) (\<lambda>_ _. False) ?P"
    by (intro tripleI) (auto simp: reserve_restore_disk_def ask_def moves_def split: if_splits)
  have T: "triple ?P (stage_restore_disk env t) (\<lambda>_ _. False) ?P"
    unfolding stage_restore_disk_def by (intro triple_seqm [OF ensure] triple_seqm [OF reserve]) (simp add: triple_def)
  have P: "?P h" using assms(1) by simp
  show fails: "\<exists>e. r = Inl e" using assms(2) triple_ok [OF T P] by (cases r) auto
  then show "moves (staging_dir t) h h'" using assms(2) triple_fail [OF T P] by auto
qed

definition touched :: "resource set \<Rightarrow> string \<Rightarrow> resource set" where
  "touched R0 t = (if File t \<in> R0 then staging_dir t else staged t)"

lemma triple_stage_occupied:
  assumes occ: "File t \<in> R0" and t: "t = ss_root_backing ss" and X: "X = staging_dir t" "X \<subseteq> Y" and T: "X \<subseteq> movable w X"
    and apart: "File t \<notin> own w X" and priv: "\<not> ss_shared_base ss"
  shows "triple (kept env R0 X Y w rt) (on_host (stage_restore_unjailed env ss deadline)) (\<lambda>_ _. False) (kept env R0 X Y w rt)"
proof -
  let ?K = "kept env R0 X Y w rt"
  have there: "File t \<in> hs_res (bs_host s)" if "?K s" for s
    using that occ apart by (auto simp: kept_def holding_def held_def sentinels_def)
  have disk: "triple ?K (on_host (stage_restore_disk env t)) (\<lambda>_ _. False) ?K"
  proof (rule tripleI)
    fix s x s' assume "?K s" "on_host (stage_restore_disk env t) s = (Inr x, s')"
    then show False using stage_restore_disk_occupied(2) [OF there] by (auto simp: on_host_def split: prod.splits)
  next
    fix s e s' assume K: "?K s" and "on_host (stage_restore_disk env t) s = (Inl e, s')"
    then obtain h where h: "stage_restore_disk env t (bs_host s) = (Inl e, h)" "s' = s\<lparr>bs_host := h\<rparr>" by (auto simp: on_host_def split: prod.splits)
    have m: "moves X (bs_host s) h" unfolding X(1) by (rule stage_restore_disk_occupied(1) [OF there [OF K] h(1)])
    show "?K s'" using K holding_moves [OF _ m T] X(2) h(2) by (auto simp: kept_def unstaged_def)
  qed
  show ?thesis unfolding stage_restore_unjailed_def on_host_simps
    by (simp add: priv on_host_simps seqm_assoc t [symmetric])
       (intro triple_seqm [OF keeps_lift] triple_seqm [OF keeps_on_host [OF quiet_basic(5)]] triple_seqm [OF disk], simp add: triple_def)
qed

section \<open>The restore\<close>

lemma keeps_run_restore:
  assumes jailed: "rt \<noteq> None \<Longrightarrow> X = {}"
    and unjailed: "rt = None \<Longrightarrow> X = (if ss_shared_base ss then {} else touched R0 (ss_root_backing ss))
        \<and> staging_dir (ss_root_backing ss) \<subseteq> Y \<and> (\<not> ss_shared_base ss \<longrightarrow> (\<forall>r \<in> staged (ss_root_backing ss). \<not> inside w r))"
  shows "keeps (kept env R0 X Y w rt) (run_restore env ss deadline)"
proof -
  let ?K = "kept env R0 X Y w rt" and ?H = "\<lambda>(sa, ma, armed). half env R0 X Y w rt armed" and ?t = "ss_root_backing ss"
  let ?stage = "\<lambda>s. case sp_chroot (bs_vm s) of
                  Some ch \<Rightarrow> stage_restore_jailed env ss deadline ch (sp_workdir (bs_vm s)) s
                | None \<Rightarrow> on_host (stage_restore_unjailed env ss deadline) s"
  have outside: "triple ?K (on_host (stage_restore_unjailed env ss deadline)) ?H ?K" if rt: "rt = None"
  proof -
    have X: "X = (if ss_shared_base ss then {} else touched R0 ?t)" and Y: "staging_dir ?t \<subseteq> Y" and far: "\<not> ss_shared_base ss \<Longrightarrow> \<forall>r \<in> staged ?t. \<not> inside w r"
      using unjailed [OF rt] by simp_all
    have T: "X \<subseteq> movable w X"
      using X far by (auto simp: movable_def own_def touched_def staged_def staging_dir_def split: if_splits option.splits)
    show ?thesis
    proof (cases "\<not> ss_shared_base ss \<and> File ?t \<in> R0")
      case True
      then have X': "X = staging_dir ?t" using X by (simp add: touched_def)
      have "File ?t \<notin> own w X" using far True X' by (auto simp: own_def staged_def staging_dir_def split: option.splits)
      then have "triple ?K (on_host (stage_restore_unjailed env ss deadline)) (\<lambda>_ _. False) ?K"
        using triple_stage_occupied [OF _ refl X' _ T] True X' Y by simp
      then show ?thesis by (rule triple_conseq) auto
    next
      case False
      then have X': "X = (if ss_shared_base ss then {} else staged ?t)" using X by (auto simp: touched_def)
      show ?thesis by (rule triple_stage_unjailed [OF X' _ T]) (use Y in blast)
    qed
  qed
  have inside: "triple ?K (stage_restore_jailed env ss deadline ch sd) ?H ?K" if "rt = Some (ch_root ch)" "jail_root (ch_root ch) w" for ch sd
    using triple_stage_jailed [OF that(2)] that(1) jailed by simp
  have stage: "triple ?K ?stage ?H ?K"
  proof (rule tripleI)
    fix s x t assume K: "?K s" and run: "?stage s = (Inr x, t)"
    show "?H x t"
    proof (cases "sp_chroot (bs_vm s)")
      case None
      then have "rt = None" using K by (auto simp: kept_def holding_def)
      then show ?thesis using triple_ok [OF outside K] run None by simp
    next
      case (Some ch)
      then show ?thesis using triple_ok [OF inside [OF kept_root [OF K Some]] K] run by simp
    qed
  next
    fix s e t assume K: "?K s" and run: "?stage s = (Inl e, t)"
    show "?K t"
    proof (cases "sp_chroot (bs_vm s)")
      case None
      then have "rt = None" using K by (auto simp: kept_def holding_def)
      then show ?thesis using triple_fail [OF outside K] run None by simp
    next
      case (Some ch)
      then show ?thesis using triple_fail [OF inside [OF kept_root [OF K Some]] K] run by simp
    qed
  qed
  have load: "triple (?H args) (on_host (load_snapshot env ss deadline args)) (\<lambda>_. ?K) ?K" for args
    using triple_load_snapshot [of env R0 X Y w rt] by (cases args) simp
  have ready: "keeps ?K (\<lambda>s. case sp_vsock_uds (bs_vm s) of
        Some uds \<Rightarrow> on_host (await_eke_ready env (sp_child (bs_vm s)) uds deadline POLL_INITIAL) s | None \<Rightarrow> (Inr (), s))"
  proof -
    have "keeps ?K (\<lambda>s. on_host ((\<lambda>vm. case sp_vsock_uds vm of Some uds \<Rightarrow> await_eke_ready env (sp_child vm) uds deadline POLL_INITIAL | None \<Rightarrow> okm ()) (bs_vm s)) s)"
      by (rule keeps_on_host_vm) (simp add: quiet_def okm_def quiet_awaits(3) [unfolded quiet_def] split: option.splits)
    moreover have "(\<lambda>s. on_host ((\<lambda>vm. case sp_vsock_uds vm of Some uds \<Rightarrow> await_eke_ready env (sp_child vm) uds deadline POLL_INITIAL | None \<Rightarrow> okm ()) (bs_vm s)) s)
        = (\<lambda>s. case sp_vsock_uds (bs_vm s) of Some uds \<Rightarrow> on_host (await_eke_ready env (sp_child (bs_vm s)) uds deadline POLL_INITIAL) s | None \<Rightarrow> (Inr (), s))"
      by (rule ext) (auto simp: on_host_def okm_def split: option.splits)
    ultimately show ?thesis by simp
  qed
  show ?thesis unfolding run_restore_def
  proof (intro triple_seqm [OF keeps_on_host_vm] triple_seqm [OF keeps_on_host] triple_seqm [OF stage] triple_seqm [OF load], goal_cases)
    case (4 _ _ _ _ status)
    show ?case by (cases status) (simp_all only: option.case keeps_failm keeps_seqm [OF ready keeps_okm])
  qed (auto intro: quiet)
qed

lemma triple_launch_for_restore:
  assumes Y: "\<And>m. Mount m \<notin> Y" and cg: "cf_jail c \<noteq> None \<Longrightarrow> range Cgroup \<subseteq> Y"
  shows "triple (fresh R0 q) (launch_for_restore env c ss) (launched env (cf_scratch_dir c) q X R0 (cf_jail c \<noteq> None))
      (gone env (cf_scratch_dir c) q X Y R0)"
proof (cases "cf_jail c")
  case None
  show ?thesis unfolding launch_for_restore_def None option.case
    by (rule triple_seqm [OF triple_create_workdir [OF Y]], rule triple_pure) (simp add: triple_start_unjailed [OF _ Y])
next
  case (Some jail)
  have cg': "range Cgroup \<subseteq> Y" using cg Some by simp
  show ?thesis
  proof (cases "cgroup_limit_args (host_view.truncate (en_view env)) (cf_require_limits c) (ss_vcpus ss)
             (restore_mem_mib (cf_mem_mib c) (case en_len env (ss_mem ss) of Some n \<Rightarrow> n | None \<Rightarrow> 0))")
    case (Inl e)
    then show ?thesis using fresh_gone by (auto simp: triple_def launch_for_restore_def launch_jailed_for_restore_def Some)
  next
    case (Inr args)
    have "launch_for_restore env c ss = launch_jailed_for_restore env c ss jail" by (simp add: launch_for_restore_def Some)
    then show ?thesis unfolding launch_jailed_for_restore_def [abs_def] Let_def Inr sum.case
      using triple_jailed_vm [OF _ triple_spawn_jailed [OF Y cg']] Some by simp
  qed
qed

text \<open>What the launch did not touch is as before, also when it is named among the things that may change.\<close>

lemma settled_more: "settled env w {} Y R0 R \<Longrightarrow> settled env w X Y R0 R"
proof -
  have "own w {} \<subseteq> own w X" by (auto simp: own_def)
  then show "settled env w {} Y R0 R \<Longrightarrow> settled env w X Y R0 R" unfolding settled_def by blast
qed

lemma launched_more:
  assumes L: "launched env base q {} R0 jailed vm h" and X: "plainly X" and far: "\<And>r. r \<in> X \<Longrightarrow> \<not> inside (sp_workdir vm) r"
  shows "launched env base q X R0 jailed vm h" "unstaged env X Y R0 (hs_res h)"
proof -
  obtain child where c: "sp_child vm = Some child" "VmmProc child \<in> hs_res h"
    and H: "held env R0 {} (sp_workdir vm) (sp_tap vm) child (sp_chroot vm) (sp_lifetime vm) (hs_res h)" using L by (auto simp: launched_def)
  have "r \<notin> own (sp_workdir vm) {} \<union> {VmmProc child} \<union> sentinels (sp_lifetime vm)" if "r \<in> X" for r
    using that X far [OF that] by (auto simp: own_def plainly_def sentinels_def)
  then show "unstaged env X Y R0 (hs_res h)" using H unfolding unstaged_def held_def by blast
  have "held env R0 X (sp_workdir vm) (sp_tap vm) child (sp_chroot vm) (sp_lifetime vm) (hs_res h)"
    using H unfolding held_def own_def by auto
  then show "launched env base q X R0 jailed vm h" using L c by (auto simp: launched_def)
qed

text \<open>The disk a restore stages lies outside every scratch directory that may still be handed out.\<close>

definition apart :: "env \<Rightarrow> string \<Rightarrow> u64 \<Rightarrow> string \<Rightarrow> bool" where
  "apart env base q t \<longleftrightarrow> (\<forall>w. scratch_dir env base q w \<longrightarrow> (\<forall>r \<in> staged t. \<not> inside w r))"

lemma triple_Vm_restore:
  assumes Y: "\<And>m. Mount m \<notin> Y" and cg: "cf_jail c \<noteq> None \<Longrightarrow> range Cgroup \<subseteq> Y"
    and dir: "cf_jail c = None \<Longrightarrow> staging_dir (ss_root_backing ss) \<subseteq> Y"
    and X: "X = (if cf_jail c \<noteq> None \<or> ss_shared_base ss then {} else touched R0 (ss_root_backing ss))"
    and apart: "cf_jail c = None \<Longrightarrow> \<not> ss_shared_base ss \<Longrightarrow> apart env (cf_scratch_dir c) q (ss_root_backing ss)"
  shows "triple (fresh R0 q) (Vm_restore env ss c)
      (\<lambda>rv h. runs env (cf_scratch_dir c) q X Y R0 rv h \<and> VmmProc (rv_child rv) \<in> hs_res h - R0) (gone env (cf_scratch_dir c) q X Y R0)"
proof -
  let ?base = "cf_scratch_dir c" and ?t = "ss_root_backing ss"
  let ?Q = "\<lambda>rv h. runs env ?base q X Y R0 rv h \<and> VmmProc (rv_child rv) \<in> hs_res h - R0" and ?E = "gone env ?base q X Y R0"
  have plain: "plainly X" by (auto simp: X plainly_def touched_def staged_def staging_dir_def split: option.splits)
  have sub: "X \<noteq> {} \<Longrightarrow> cf_jail c = None \<and> \<not> ss_shared_base ss \<and> X \<subseteq> staged ?t" using staging_sub by (auto simp: X touched_def split: if_splits)
  have far: "\<not> inside w r" if "r \<in> X" "scratch_dir env ?base q w" for r w
    using that sub apart unfolding apart_def by blast
  have run: "keeps (kept env R0 X Y w rt) (run_restore env ss deadline)" if w: "scratch_dir env ?base q w" and rt: "rt \<noteq> None \<longleftrightarrow> cf_jail c \<noteq> None" for w rt deadline
    using X dir apart w rt by (intro keeps_run_restore) (auto simp: apart_def)
  have go: "triple (fresh R0 q) (seqm (launch_for_restore env c ss) (finish_launch env c (run_restore env ss deadline))) ?Q ?E" for deadline
  proof (rule triple_seqm)
    show "triple (fresh R0 q) (launch_for_restore env c ss) (launched env ?base q {} R0 (cf_jail c \<noteq> None)) ?E"
      using triple_launch_for_restore [OF Y cg] by (rule triple_weaken) (auto simp: gone_def intro: settled_more)
    fix vm
    show "triple (launched env ?base q {} R0 (cf_jail c \<noteq> None) vm) (finish_launch env c (run_restore env ss deadline) vm) ?Q ?E"
    proof (rule triple_conseq [OF triple_finish_launch [OF Y cg plain run]])
      fix h assume L: "launched env ?base q {} R0 (cf_jail c \<noteq> None) vm h"
      then have "scratch_dir env ?base q (sp_workdir vm)" by (simp add: launched_def)
      then show "launched env ?base q X R0 (cf_jail c \<noteq> None) vm h \<and> unstaged env X Y R0 (hs_res h)"
        using launched_more [OF L plain far] by blast
    qed
  qed
  show ?thesis using go fresh_gone unfolding triple_def Vm_restore_def Let_def by (simp split: sum.splits)
qed


text \<open>A private disk restored on the quiet host, at the path its source had.\<close>

definition old_snapshot :: Snapshot where
  "old_snapshot = \<lparr>ss_state = ''/snap/state'', ss_mem = ''/snap/mem'', ss_root_drive = ''/snap/rootfs.ext4'',
     ss_root_backing = ''/old/rootfs.ext4'', ss_shared_base = False, ss_has_vsock = False, ss_tap_name = None, ss_vcpus = 1\<rparr>"

lemma old_parent: "path_parent ''/old/rootfs.ext4'' = Some ''/old''"
  by code_simp

lemma old_apart: "apart quiet_host ''/tmp'' q ''/old/rootfs.ext4''"
proof -
  have "\<not> path_starts_with p (workdir_path quiet_host ''/tmp'' k)" if p: "components p ! 1 = Normal ''old''" for p k
  proof
    let ?w = "workdir_path quiet_host ''/tmp'' k"
    assume "path_starts_with p ?w"
    then have "components p ! 1 = components ?w ! 1" if "1 < length (components ?w)"
      using that by (metis nth_take path_starts_with_def)
    moreover have "components ''/tmp'' = [RootDir, Normal ''tmp'']" by code_simp
    then obtain rest where "components ?w = RootDir # Normal ''tmp'' # rest"
      using components_join [of "''/tmp''" "vm_name quiet_host k"] by (simp add: workdir_path_def vm_name_def slash_def)
    ultimately show False using p by simp
  qed
  moreover have "components ''/old'' ! 1 = Normal ''old''" "components ''/old/rootfs.ext4'' ! 1 = Normal ''old''"
    "components (marker_path ''/old'') ! 1 = Normal ''old''" by code_simp+
  ultimately show ?thesis by (auto simp: apart_def scratch_dir_def staged_def old_parent)
qed


section \<open>A private disk under a jail\<close>

lemma parent_of_deep:
  assumes "2 \<le> length (components p)"
  shows "\<exists>q. path_parent p = Some q"
proof -
  have no_root: "RootDir \<notin> set (List.map_filter (component_of b) L)" for b L
    by (auto simp: map_filter_def split: if_splits)
  have tl: "x \<in> set (tl xs) \<Longrightarrow> x \<in> set xs" for x :: component and xs by (cases xs) auto
  have "RootDir \<notin> set (tl (components p))"
    using no_root by (auto simp: components_def split: list.splits dest!: tl)
  moreover have "last (components p) \<in> set (tl (components p))"
    using assms by (cases "components p") (auto simp: last_ConsR)
  ultimately have "last (components p) \<noteq> RootDir" by metis
  then show ?thesis using assms by (auto simp: path_parent_def Let_def)
qed

lemma stage_restore_disk_refused:
  assumes "path_parent t = Some p" "\<And>u m. en_owner env p = Inr (u, m) \<Longrightarrow> m mod 0x200 \<noteq> 0x1C0"
  shows "triple (\<lambda>h. Dir p \<in> hs_res h) (stage_restore_disk env t) (\<lambda>_ _. False) (\<lambda>_. True)"
proof -
  have "triple (\<lambda>h. Dir p \<in> hs_res h) (ensure_private_staging_dir env p) (\<lambda>_ _. False) (\<lambda>_. True)"
    using assms(2) by (intro tripleI) (auto simp: ensure_private_staging_dir_def ask_def split: sum.splits option.splits if_splits)
  then show ?thesis unfolding stage_restore_disk_def assms(1) option.case by (rule triple_seqm) (simp add: triple_def)
qed

lemma triple_any: "triple P m (\<lambda>_ _. True) (\<lambda>_. True)"
  by (simp add: triple_def split: prod.splits sum.splits)

lemma stage_jailed_refused:
  assumes root: "jail_root (ch_root ch) w" and priv: "\<not> ss_shared_base ss"
    and modes: "\<And>d u m. en_owner env d = Inr (u, m) \<Longrightarrow> m mod 0x200 = 0x1ED"
  shows "triple (\<lambda>_. True) (stage_restore_jailed env ss deadline ch sd) (\<lambda>_ _. False) (\<lambda>_. True)"
proof -
  have tail: "triple (\<lambda>_. rel = [] \<or> hd rel \<noteq> slash) (let disk_target = path_push (ch_root ch) rel in
      seqm (case path_parent disk_target of Some parent \<Rightarrow> on_host (create_chroot_dirs env parent) | None \<Rightarrow> okm ()) (\<lambda>_.
      seqm (on_host (still_before env deadline ''stage restore disk'')) (\<lambda>_.
      seqm (seqm (on_host (stage_restore_disk env disk_target)) (\<lambda>_.
            seqm (on_host (give_to_jail env disk_target (ch_uid ch) (ch_gid ch))) (\<lambda>_. okm (Some disk_target)))) (\<lambda>armed.
      seqm (learn_jailer_cgroup env) (\<lambda>_. okm (sa, ma, armed)))))) (\<lambda>_ _. False) (\<lambda>_. True)" for rel sa ma
  proof -
    define d where "d = path_push (ch_root ch) rel"
    have "triple (\<lambda>_. True) (seqm (case path_parent d of Some parent \<Rightarrow> on_host (create_chroot_dirs env parent) | None \<Rightarrow> okm ()) (\<lambda>_.
      seqm (on_host (still_before env deadline ''stage restore disk'')) (\<lambda>_.
      seqm (seqm (on_host (stage_restore_disk env d)) (\<lambda>_.
            seqm (on_host (give_to_jail env d (ch_uid ch) (ch_gid ch))) (\<lambda>_. okm (Some d)))) (\<lambda>armed.
      seqm (learn_jailer_cgroup env) (\<lambda>_. okm (sa, ma, armed)))))) (\<lambda>_ _. False) (\<lambda>_. True)"
      if rel: "rel = [] \<or> hd rel \<noteq> slash"
    proof -
      have d: "jail_root d w" unfolding d_def using root rel by (rule jail_root_join)
      then obtain p where p: "path_parent d = Some p" using parent_of_deep by (fastforce simp: jail_root_def)
      let ?D = "\<lambda>s. Dir p \<in> hs_res (bs_host s)"
      have make: "triple (\<lambda>_. True) (on_host (create_chroot_dirs env p)) (\<lambda>_. ?D) (\<lambda>_. True)"
        by (intro tripleI) (auto simp: on_host_def create_chroot_dirs_def seqm_def try_io_def ask_def acquire_def split: option.splits prod.splits)
      have wait: "triple ?D (on_host (still_before env deadline ''stage restore disk'')) (\<lambda>_. ?D) (\<lambda>_. True)"
        by (intro tripleI) (auto simp: on_host_def split: prod.splits dest: quietD [OF quiet_basic(5)])
      have "en_owner env p = Inr (u, m) \<Longrightarrow> m mod 0x200 \<noteq> 0x1C0" for u m using modes [of p u m] by simp
      note disk = stage_restore_disk_refused [OF p this]
      have stage: "triple ?D (on_host (stage_restore_disk env d)) (\<lambda>_ _. False) (\<lambda>_. True)"
        using triple_ok [OF disk] by (intro tripleI) (auto simp: on_host_def split: prod.splits)
      have give: "triple ?D (seqm (on_host (stage_restore_disk env d)) f) (\<lambda>_ _. False) (\<lambda>_. True)" for f :: "unit \<Rightarrow> (boot_state, VmmError, string option) smethod"
        by (rule triple_seqm [OF stage]) (simp add: triple_def)
      show ?thesis unfolding p option.case
        by (intro triple_seqm [OF make] triple_seqm [OF wait] triple_seqm [OF give]) (simp add: triple_def)
    qed
    then show ?thesis unfolding Let_def d_def by (auto simp: triple_def)
  qed
  have path: "triple (\<lambda>_. True) (lift (if is_absolute p then Inr (dropWhile (\<lambda>c. c = slash) p) else Inl e))
      (\<lambda>r _. r = [] \<or> hd r \<noteq> slash) (\<lambda>_. True)" for p e
    using hd_dropWhile [of "\<lambda>c. c = slash" p] by (intro tripleI) (auto simp: lift_def split: if_splits)
  show ?thesis
    unfolding stage_restore_jailed_def Let_def [of "ch_root ch"] Let_def [of "ch_uid ch"] Let_def [of "ch_gid ch"] bind_base_seqm if_not_P [OF priv]
    by (rule triple_seqm [OF triple_any], rule triple_seqm [OF triple_any], rule triple_seqm [OF triple_any],
        rule triple_seqm [OF triple_any], rule triple_seqm [OF triple_any], rule triple_seqm [OF path], rule tail)
qed

lemma run_restore_refused:
  assumes priv: "\<not> ss_shared_base ss" and modes: "\<And>d u m. en_owner env d = Inr (u, m) \<Longrightarrow> m mod 0x200 = 0x1ED"
  shows "triple (\<lambda>s. \<exists>ch w. sp_chroot (bs_vm s) = Some ch \<and> jail_root (ch_root ch) w) (run_restore env ss deadline) (\<lambda>_ _. False) (\<lambda>_. True)"
proof -
  let ?P = "\<lambda>s. \<exists>ch w. sp_chroot (bs_vm s) = Some ch \<and> jail_root (ch_root ch) w"
  have wait: "triple ?P (\<lambda>s. on_host (m (bs_vm s)) s) (\<lambda>_. ?P) (\<lambda>_. True)" for m :: "Spawned \<Rightarrow> (host, VmmError, unit) smethod"
    by (intro tripleI) (auto simp: on_host_def split: prod.splits)
  have stage: "triple ?P (\<lambda>s. case sp_chroot (bs_vm s) of
                  Some ch \<Rightarrow> stage_restore_jailed env ss deadline ch (sp_workdir (bs_vm s)) s
                | None \<Rightarrow> on_host (stage_restore_unjailed env ss deadline) s) (\<lambda>_ _. False) (\<lambda>_. True)"
    using triple_ok [OF stage_jailed_refused [OF _ priv modes]] by (intro tripleI) fastforce+
  show ?thesis unfolding run_restore_def
    by (intro triple_seqm [OF wait] triple_seqm [OF wait [of "\<lambda>_. still_before env deadline ''restore staging''"]] triple_seqm [OF stage])
       (simp add: triple_def)
qed

text \<open>(C35) Under a jail, the restore of a snapshot with a private disk never succeeds where directories
  are made with the mode 0755 that the comment there gives them (the usual umask): the directories below the
  chroot are made first and then refused as a staging directory because they are not 0700.\<close>

theorem jailed_private_restore_refused:
  assumes "started (hs_res h) (hs_next h)" "cf_jail c = Some jail" "\<not> ss_shared_base ss"
    and "\<And>d u m. en_owner env d = Inr (u, m) \<Longrightarrow> m mod 0x200 = 0x1ED"
  shows "\<exists>e h'. Vm_restore env ss c h = (Inl e, h')"
proof -
  let ?base = "cf_scratch_dir c" and ?q = "hs_seq h" and ?R0 = "hs_res h"
  have I: "fresh ?R0 ?q h" using assms(1) by (simp add: fresh_def)
  have launch: "triple (fresh ?R0 ?q) (launch_for_restore env c ss) (launched env ?base ?q {} ?R0 True) (\<lambda>_. True)"
  proof (rule triple_weaken)
    show "triple (fresh ?R0 ?q) (launch_for_restore env c ss) (launched env ?base ?q {} ?R0 True) (gone env ?base ?q {} (range Cgroup) ?R0)"
      using triple_launch_for_restore [of "range Cgroup" c ?R0 ?q env ss "{}", OF _ subset_refl] assms(2) by auto
  qed simp
  have finish: "triple (launched env ?base ?q {} ?R0 True vm) (finish_launch env c (run_restore env ss deadline) vm) (\<lambda>_ _. False) (\<lambda>_. True)" for vm deadline
  proof (intro tripleI TrueI)
    fix s x t assume L: "launched env ?base ?q {} ?R0 True vm s" and run: "finish_launch env c (run_restore env ss deadline) vm s = (Inr x, t)"
    obtain r u where r: "run_restore env ss deadline \<lparr>bs_vm = vm, bs_host = s\<rparr> = (r, u)" by fastforce
    have "\<exists>ch w. sp_chroot vm = Some ch \<and> jail_root (ch_root ch) w" using L by (auto simp: launched_def held_def)
    then have "\<exists>e. r = Inl e" using triple_ok [OF run_restore_refused [OF assms(3,4)], where s = "\<lparr>bs_vm = vm, bs_host = s\<rparr>" and t = u] r by (cases r) auto
    then show False using run r by (auto simp: finish_launch_def split: prod.splits)
  qed
  have "triple (fresh ?R0 ?q) (Vm_restore env ss c) (\<lambda>_ _. False) (\<lambda>_. True)"
    using triple_seqm [OF launch finish] by (auto simp: triple_def Vm_restore_def Let_def split: sum.splits)
  then show ?thesis using triple_ok I by (cases "Vm_restore env ss c h"; cases "fst (Vm_restore env ss c h)") fastforce+
qed

theorem jailed_private_restore_refused_witness:
  "\<exists>e h'. Vm_restore (quiet_host\<lparr>en_owner := \<lambda>_. Inr (0, 0x41ED)\<rparr>) old_snapshot (boot_config_default\<lparr>cf_jail := Some Jail_default\<rparr>) first_host = (Inl e, h')"
  by (rule jailed_private_restore_refused [where jail = Jail_default]) (auto simp: started_def first_host_def old_snapshot_def)

end
