(* ===== verification/Bundle.thy ===== *)
theory Bundle
  imports Restore
begin

text \<open>
  Taking a snapshot: the directory holds a bundle or nothing, and a guest that was paused is told to
  resume. A bundle that was taken is one that a restore accepts.
\<close>

lemma api_log [simp]:
  "hs_api (tick env h) = hs_api h" "hs_api (acquire r h) = hs_api h" "hs_api (release env r h) = hs_api h"
  by (simp_all add: tick_def acquire_def release_def ask_def discard_def split: bool.splits)

lemma api_call_outcome:
  assumes "api_call env meth path body timeout h = (r, h')"
  shows "hs_api h' = hs_api h @ [(meth, path, body, timeout)]" "hs_res h' = hs_res h" "hs_next h' = hs_next h"
  using assms by (auto simp: api_call_def ask_def)

definition vm_state :: "VmStateKind \<Rightarrow> string \<times> string \<times> json \<times> nat" where
  "vm_state k = (''PATCH'', ''/vm'', VmState k, API_TIMEOUT)"

definition create_call :: "running_vm \<Rightarrow> string \<Rightarrow> string \<Rightarrow> string \<times> string \<times> json \<times> nat" where
  "create_call vm st m = (''PUT'', ''/snapshot/create'', SnapshotCreate st m, snapshot_api_timeout (rv_mem_mib vm))"

definition bundle_files :: "string \<Rightarrow> string \<Rightarrow> string option \<Rightarrow> resource set" where
  "bundle_files state mem disk = {File state, File mem} \<union> File ` set_option disk"

lemma write_bundle_outcome:
  assumes "write_snapshot_bundle env vm state mem disk shared h = (r, h')"
    and B: "B = bundle_files state mem (if shared then None else Some disk)"
  shows "moves B h h'" "r = Inr () \<Longrightarrow> B \<subseteq> hs_res h'"
    "\<exists>mid. hs_api h' = hs_api h @ mid \<and> (r = Inr () \<longrightarrow> (\<exists>st m. mid = [create_call vm st m]))"
proof -
  show "moves B h h'" "r = Inr () \<Longrightarrow> B \<subseteq> hs_res h'"
    using assms(1) unfolding B
    by (auto simp: write_snapshot_bundle_def bundle_files_def moves_def Let_def acquire_def ask_def api_call_def
        split: sum.splits prod.splits if_splits option.splits)
  show "\<exists>mid. hs_api h' = hs_api h @ mid \<and> (r = Inr () \<longrightarrow> (\<exists>st m. mid = [create_call vm st m]))"
    using assms(1)
    by (auto simp: write_snapshot_bundle_def create_call_def Let_def ask_def api_call_def
        split: sum.splits prod.splits if_splits option.splits) blast+
qed

lemma partial_bundle_outcome:
  assumes B: "B = bundle_files state mem disk"
  shows "moves B h (PartialBundle_drop env state mem disk h)" "hs_api (PartialBundle_drop env state mem disk h) = hs_api h"
    "works env \<Longrightarrow> B \<inter> hs_res (PartialBundle_drop env state mem disk h) = {}"
  unfolding B
  by (auto simp: PartialBundle_drop_def bundle_files_def Let_def release_works split: option.splits
      intro!: moves_release moves_trans [OF moves_release moves_release] moves_trans [OF moves_trans [OF moves_release moves_release] moves_release])


definition small_vm :: running_vm where
  "small_vm = \<lparr>rv_child = 90, rv_workdir = ''/tmp/kee-7-0'', rv_socket = ''/tmp/kee-7-0/fc.sock'', rv_boot_latency = 1,
     rv_rootfs = ''/tmp/kee-7-0/rootfs.ext4'', rv_restored = False, rv_has_input = False, rv_vsock_uds = None, rv_output = None,
     rv_tap = None, rv_chroot = None, rv_lifetime = VmLifetime_disarmed, rv_exec_wall = second_ns, rv_output_cap = 1024,
     rv_vcpus = 1, rv_mem_mib = 256\<rparr>"


section \<open>From a snapshot to its restore\<close>

text \<open>The private disk of a VM lies in its scratch directory, whose number is taken: the restore of its
  snapshot stages the disk apart from every directory it may create.\<close>

lemma own_disk_apart:
  assumes w: "w = workdir_path env base k" and k: "unat k < unat q" "unat q + 1024 < 2 ^ 64" and base: "base \<noteq> []"
  shows "apart env base q (path_push w ''rootfs.ext4'')"
proof -
  let ?t = "path_push w ''rootfs.ext4''"
  have cw: "components (workdir_path env base n) = components base @ [Normal (vm_name env n)]" for n
    using components_push_name [OF base vm_name_plain(1-4)] by (simp add: workdir_path_def vm_name_def)
  have "w \<noteq> []" using workdir_names(4) [OF w] .
  then have ct: "components ?t = components base @ [Normal (vm_name env k), Normal ''rootfs.ext4'']"
    using components_push_name [of w "''rootfs.ext4''"] cw [of k] w by (simp add: slash_def)
  obtain p where p: "path_parent ?t = Some p" using parent_of_deep [of ?t] ct by auto
  have cp: "components p = components base @ [Normal (vm_name env k)]" using path_parent_components [OF p] ct by (simp add: butlast_append)
  have "p \<noteq> []" using cp by (auto simp: components_def)
  then have cm: "components (marker_path p) = components base @ [Normal (vm_name env k), Normal RESTORE_STAGING_MARKER]"
    using components_push_name [of p RESTORE_STAGING_MARKER] cp by (simp add: marker_path_def RESTORE_STAGING_MARKER_def slash_def)
  have "\<not> path_starts_with x (workdir_path env base n)" if n: "unat q \<le> unat n" and x: "\<exists>xs. components x = components base @ Normal (vm_name env k) # xs" for x n
  proof
    assume "path_starts_with x (workdir_path env base n)"
    then have "vm_name env k = vm_name env n" using x cw [of n] by (auto simp: path_starts_with_def)
    then have "unat k = unat n" by (simp add: vm_name_def dec_inj)
    then show False using k n by simp
  qed
  then show ?thesis using ct cp cm k p by (auto simp: apart_def scratch_dir_def staged_def)
qed

end
