(* ===== verification/Client.thy ===== *)
theory Client
  imports Session
begin

text \<open>
  The client library (eke-client/src/lib.rs) and a whole conversation between a client and the
  daemon's session. \<open>writer\<close> and \<open>buf_read\<close> are the two halves of the connection; connecting and the
  socket timeouts are calls of the operating system.
\<close>

section \<open>The client\<close>

datatype 'v ClientError =
    CProtocol ProtocolError
  | Remote string bool
  | Unexpected "'v Response"
  | HungUp

record client =
  cl_writer :: writer
  cl_reader :: buf_read

record ('j, 'v) client_env =
  ce_render :: "Request Envelope \<Rightarrow> string + string"
  ce_serde :: "('j, 'v Response) serde"

record OpenOptions =
  oo_vcpus :: "u8 option"
  oo_mem_mib :: "u32 option"
  oo_wall_secs :: "u64 option"
  oo_output_cap :: "usize option"

record ClientOpened =
  op_boot_ms :: u64
  op_pooled :: bool

record ExecOutcome =
  eo_exit_code :: "32 word"
  eo_stdout :: string
  eo_stderr :: string
  eo_exec_wall_ms :: u64

definition bool_text :: "bool \<Rightarrow> string" where "bool_text b = (if b then ''true'' else ''false'')"

fun ClientError_display :: "fmt \<Rightarrow> ('v Response \<Rightarrow> string) \<Rightarrow> 'v ClientError \<Rightarrow> string" where
  "ClientError_display f dbg (CProtocol e) = ProtocolError_display f e"
| "ClientError_display f dbg (Remote message is_fatal) = ''agent error (fatal='' @ bool_text is_fatal @ ''): '' @ message"
| "ClientError_display f dbg (Unexpected resp) = ''unexpected reply from agent: '' @ dbg resp"
| "ClientError_display f dbg HungUp = ''agent closed the connection without replying''"

definition unexpected :: "'v Response \<Rightarrow> 'v ClientError" where "unexpected resp = Unexpected resp"

definition Client_send :: "('j, 'v) client_env \<Rightarrow> Request \<Rightarrow> (client, 'v ClientError, unit) smethod" where
  "Client_send ce req cl =
     (case write_message (ce_render ce) req (cl_writer cl) of
        (Inl e, w) \<Rightarrow> (Inl (CProtocol e), cl\<lparr>cl_writer := w\<rparr>)
      | (Inr _, w) \<Rightarrow> (Inr (), cl\<lparr>cl_writer := w\<rparr>))"

definition Client_recv :: "('j, 'v) client_env \<Rightarrow> (client, 'v ClientError, 'v Response) smethod" where
  "Client_recv ce cl =
     (case read_message (ce_serde ce) (cl_reader cl) of
        (Inl e, r) \<Rightarrow> (Inl (CProtocol e), cl\<lparr>cl_reader := r\<rparr>)
      | (Inr None, r) \<Rightarrow> (Inl HungUp, cl\<lparr>cl_reader := r\<rparr>)
      | (Inr (Some (ErrorReply message is_fatal)), r) \<Rightarrow> (Inl (Remote message is_fatal), cl\<lparr>cl_reader := r\<rparr>)
      | (Inr (Some resp), r) \<Rightarrow> (Inr resp, cl\<lparr>cl_reader := r\<rparr>))"

definition Client_open :: "('j, 'v) client_env \<Rightarrow> OpenOptions \<Rightarrow> (client, 'v ClientError, ClientOpened) smethod" where
  "Client_open ce opts =
     seqm (Client_send ce (Open (oo_vcpus opts) (oo_mem_mib opts) (oo_wall_secs opts) (oo_output_cap opts))) (\<lambda>_.
     seqm (Client_recv ce) (\<lambda>resp.
     case resp of Opened boot_ms pooled \<Rightarrow> okm \<lparr>op_boot_ms = boot_ms, op_pooled = pooled\<rparr> | other \<Rightarrow> failm (unexpected other)))"

definition Client_exec :: "('j, 'v) client_env \<Rightarrow> string list \<Rightarrow> string \<Rightarrow> (client, 'v ClientError, ExecOutcome) smethod" where
  "Client_exec ce argv stdin =
     seqm (Client_send ce (ReqExec argv (if stdin \<noteq> [] then Some stdin else None))) (\<lambda>_.
     seqm (Client_recv ce) (\<lambda>resp.
     case resp of
       Result exit_code stdout stderr exec_wall_ms \<Rightarrow>
         okm \<lparr>eo_exit_code = exit_code, eo_stdout = stdout, eo_stderr = stderr, eo_exec_wall_ms = exec_wall_ms\<rparr>
     | other \<Rightarrow> failm (unexpected other)))"

definition Client_put :: "('j, 'v) client_env \<Rightarrow> string \<Rightarrow> string \<Rightarrow> (client, 'v ClientError, unit) smethod" where
  "Client_put ce path content =
     seqm (Client_send ce (ReqPut path content)) (\<lambda>_.
     seqm (Client_recv ce) (\<lambda>resp. case resp of RespPut _ \<Rightarrow> okm () | other \<Rightarrow> failm (unexpected other)))"

definition Client_get :: "('j, 'v) client_env \<Rightarrow> string \<Rightarrow> (client, 'v ClientError, string option) smethod" where
  "Client_get ce path =
     seqm (Client_send ce (ReqGet path)) (\<lambda>_.
     seqm (Client_recv ce) (\<lambda>resp.
     case resp of Got _ content present \<Rightarrow> okm (if present then Some content else None) | other \<Rightarrow> failm (unexpected other)))"

definition Client_snapshot :: "('j, 'v) client_env \<Rightarrow> (client, 'v ClientError, string) smethod" where
  "Client_snapshot ce =
     seqm (Client_send ce ReqSnapshot) (\<lambda>_.
     seqm (Client_recv ce) (\<lambda>resp. case resp of Snapshotted dir \<Rightarrow> okm dir | other \<Rightarrow> failm (unexpected other)))"

definition Client_trace :: "('j, 'v) client_env \<Rightarrow> (client, 'v ClientError, 'v) smethod" where
  "Client_trace ce =
     seqm (Client_send ce ReqTrace) (\<lambda>_.
     seqm (Client_recv ce) (\<lambda>resp. case resp of RespTrace rcd \<Rightarrow> okm rcd | other \<Rightarrow> failm (unexpected other)))"

definition Client_trace_summary :: "('j, 'v) client_env \<Rightarrow> (client, 'v ClientError, 'v) smethod" where
  "Client_trace_summary ce =
     seqm (Client_send ce ReqTraceSummary) (\<lambda>_.
     seqm (Client_recv ce) (\<lambda>resp. case resp of RespTraceSummary summary \<Rightarrow> okm summary | other \<Rightarrow> failm (unexpected other)))"

definition Client_close :: "('j, 'v) client_env \<Rightarrow> (client, 'v ClientError, unit) smethod" where
  "Client_close ce =
     seqm (Client_send ce ReqClose) (\<lambda>_.
     seqm (Client_recv ce) (\<lambda>resp. case resp of Closed \<Rightarrow> okm () | other \<Rightarrow> failm (unexpected other)))"

section \<open>Lines on an open connection\<close>

definition sendable :: "('t Envelope \<Rightarrow> string + string) \<Rightarrow> 't \<Rightarrow> bool" where
  "sendable render body \<longleftrightarrow>
     (\<exists>js. render \<lparr>schema = WIRE_SCHEMA, env_body = body\<rparr> = Inr js \<and> length (as_bytes js @ [newline]) \<le> MAX_MESSAGE_BYTES)"

definition wire :: "('t Envelope \<Rightarrow> string + string) \<Rightarrow> 't \<Rightarrow> bytes" where
  "wire render body = (case render \<lparr>schema = WIRE_SCHEMA, env_body = body\<rparr> of Inr js \<Rightarrow> as_bytes js @ [newline] | Inl _ \<Rightarrow> [])"

lemma write_message_open:
  assumes "room w = None"
  shows "sendable render body \<Longrightarrow> write_message render body w = (Inr (), w\<lparr>written := written w @ wire render body\<rparr>)"
    "\<not> sendable render body \<Longrightarrow> \<exists>e. write_message render body w = (Inl e, w)"
  using assms by (auto simp: sendable_def write_message_def wire_def write_all_def Let_def split: sum.splits)

lemma read_message_wire:
  assumes "json_codec render sd" "sendable render body" "steady r" "flat r = wire render body @ rest"
  shows "\<exists>r'. read_message sd r = (Inr (Some body), r') \<and> flat r' = rest \<and> steady r'"
proof -
  obtain js where js: "render \<lparr>schema = WIRE_SCHEMA, env_body = body\<rparr> = Inr js" "length (as_bytes js @ [newline]) \<le> MAX_MESSAGE_BYTES"
    using assms(2) by (auto simp: sendable_def)
  then show ?thesis
    using message_spec_line [OF assms(1) js, of rest] read_message_flat [OF assms(3), of sd] assms(4)
    by (cases "read_message sd r") (simp add: wire_def)
qed

lemma read_message_end:
  assumes "steady r" "flat r = []"
  shows "\<exists>r'. read_message sd r = (Inr None, r') \<and> flat r' = [] \<and> steady r'"
proof -
  have "message_spec sd [] = (Inr None, [])"
    by (subst message_spec.simps) (simp add: line_spec_def first_line_def after_line_def)
  then show ?thesis using read_message_flat [OF assms(1), of sd] assms(2) by (cases "read_message sd r") simp
qed

section \<open>Replies in step with requests\<close>

text \<open>The reply a request waits for, and the replies that end a session.\<close>

fun answers :: "Request \<Rightarrow> 'v Response \<Rightarrow> bool" where
  "answers (Open _ _ _ _) (Opened _ _) = True"
| "answers (ReqExec _ _) (Result _ _ _ _) = True"
| "answers (ReqPut p _) (RespPut p') = (p' = p)"
| "answers (ReqGet p) (Got p' _ _) = (p' = p)"
| "answers ReqSnapshot (Snapshotted _) = True"
| "answers ReqTrace (RespTrace _) = True"
| "answers ReqTraceSummary (RespTraceSummary _) = True"
| "answers ReqClose Closed = True"
| "answers _ _ = False"

text \<open>A client tells replies apart by their kind alone.\<close>

fun awaited :: "Request \<Rightarrow> 'v Response \<Rightarrow> bool" where
  "awaited (ReqPut _ _) (RespPut _) = True"
| "awaited (ReqGet _) (Got _ _ _) = True"
| "awaited q resp = answers q resp"

lemma answers_awaited: "answers q resp \<Longrightarrow> awaited q resp"
  by (cases "(q, resp)" rule: awaited.cases) simp_all

fun ends :: "'v Response \<Rightarrow> bool" where
  "ends Closed = True"
| "ends (ErrorReply _ gone) = gone"
| "ends _ = False"

definition fits :: "Request \<Rightarrow> 'v Response \<Rightarrow> bool" where
  "fits q resp \<longleftrightarrow> answers q resp \<or> (\<exists>m f. resp = ErrorReply m f)"

text \<open>One reply per request, in order, until the session ends or a reply is too long for a line.\<close>

fun in_step :: "('v Response \<Rightarrow> bool) \<Rightarrow> Request list \<Rightarrow> 'v Response list \<Rightarrow> bool" where
  "in_step short [] rs = (rs = [])"
| "in_step short (q # qs) [] = (\<exists>resp. fits q resp \<and> \<not> short resp)"
| "in_step short (q # qs) (resp # rs) = (fits q resp \<and> short resp \<and> (if ends resp then rs = [] else in_step short qs rs))"

definition replied :: "('v, 'sk, 'pk, 'j) session_env \<Rightarrow> Request \<Rightarrow> writer \<Rightarrow> bool \<Rightarrow> writer \<Rightarrow> bool" where
  "replied env q w go w' \<longleftrightarrow> (\<exists>resp sent. fits q resp \<and> send env resp w = (sent, w') \<and> (go \<longleftrightarrow> sent \<and> \<not> ends resp))"

lemma repliedI: "fits q resp \<Longrightarrow> send env resp w = (sent, w') \<Longrightarrow> (go \<longleftrightarrow> sent \<and> \<not> ends resp) \<Longrightarrow> replied env q w go w'"
  by (auto simp: replied_def)

lemma replied_sent: "send env resp w = (go, w') \<Longrightarrow> fits q resp \<and> \<not> ends resp \<Longrightarrow> replied env q w go w'"
  by (auto intro: repliedI)

lemma fits_simps [simp]: "fits q (ErrorReply m f)" "answers q resp \<Longrightarrow> fits q resp"
  by (auto simp: fits_def)

lemma serve_run_reply:
  assumes "serve_run env result wall is_command to_response spent sv w = (go, spent', sv', w')"
    and "\<And>r. answers q (to_response r) \<and> \<not> ends (to_response r)"
  shows "replied env q w go w'"
proof (cases result)
  case (Inl e)
  then show ?thesis using assms(1)
    by (auto simp: replied_def serve_run_def Let_def fits_def split: prod.splits
        intro!: exI [of _ "ErrorReply (VmmError_display (e_fmt env) e) (error_kind e \<noteq> Guest)"])
next
  case (Inr r)
  then show ?thesis using assms
    by (auto simp: replied_def serve_run_def Let_def fits_def split: prod.splits intro!: exI [of _ "to_response r"])
qed

lemma serve_request_reply:
  assumes "serve_request env la q lv sv w = (go, lv', sv', w')"
  shows "replied env q w go w'"
proof (cases q)
  case (ReqExec argv stdin)
  then show ?thesis using assms
    by (auto simp: serve_request_def Let_def split: prod.splits elim!: serve_run_reply)
next
  case (ReqPut path content)
  then show ?thesis using assms
    by (auto simp: serve_request_def Let_def split: prod.splits elim!: serve_run_reply)
next
  case (ReqGet path)
  then show ?thesis using assms
    by (auto simp: serve_request_def Let_def split: prod.splits elim!: serve_run_reply split: option.splits)
next
  case ReqClose
  then show ?thesis using assms by (auto simp: serve_request_def fits_def intro!: repliedI [OF _ prod.collapse [symmetric]])
qed (use assms in \<open>auto simp: serve_request_def Let_def nonfatal_def split: prod.splits if_splits sum.splits
    elim!: replied_sent\<close>)

section \<open>The daemon's side of a conversation\<close>

lemma send_open:
  assumes "room w = None"
  shows "send env resp w = (if sendable (e_render env) resp then (True, w\<lparr>written := written w @ wire (e_render env) resp\<rparr>) else (False, w))"
  using write_message_open [OF assms, of "e_render env" resp] by (auto simp: send_def)

lemma replied_open:
  assumes "replied env q w go w'" "room w = None"
  obtains resp where "fits q resp" "sendable (e_render env) resp" "w' = w\<lparr>written := written w @ wire (e_render env) resp\<rparr>" "go \<longleftrightarrow> \<not> ends resp"
  | resp where "fits q resp" "\<not> sendable (e_render env) resp" "w' = w" "\<not> go"
proof -
  obtain resp sent where "fits q resp" "send env resp w = (sent, w')" "go \<longleftrightarrow> sent \<and> \<not> ends resp" using assms(1) by (auto simp: replied_def)
  then show thesis using that assms(2) by (cases "sendable (e_render env) resp") (simp_all add: send_open)
qed

abbreviation sent_bytes :: "('v, 'sk, 'pk, 'j) session_env \<Rightarrow> 'v Response list \<Rightarrow> bytes" where
  "sent_bytes env resps \<equiv> concat (map (wire (e_render env)) resps)"

lemma session_loop_in_step:
  assumes codec: "json_codec render (e_serde env)"
  shows "\<lbrakk>list_all (sendable render) qs; steady r; flat r = concat (map (wire render) qs); room w = None\<rbrakk> \<Longrightarrow>
      \<exists>resps. in_step (sendable (e_render env)) qs resps
        \<and> written (snd (session_loop env la lv sv r w)) = written w @ sent_bytes env resps"
proof (induction qs arbitrary: lv sv r w)
  case Nil
  then obtain r' where "read_message (e_serde env) r = (Inr None, r')" using read_message_end by fastforce
  then have "session_loop env la lv sv r w = (sv, w)" by (subst session_loop.simps) simp
  then show ?case by simp
next
  case (Cons q qs)
  obtain r1 where r1: "read_message (e_serde env) r = (Inr (Some q), r1)" "flat r1 = concat (map (wire render) qs)" "steady r1"
    using read_message_wire [OF codec _ Cons.prems(2), of q "concat (map (wire render) qs)"] Cons.prems(1,3) by auto
  obtain go lv1 sv1 w1 where step: "serve_request env la q lv sv w = (go, lv1, sv1, w1)" by (metis prod_cases4)
  have loop: "session_loop env la lv sv r w = (if go then session_loop env la lv1 sv1 r1 w1 else (sv1, w1))"
    using r1(1) step by (subst session_loop.simps) simp
  from replied_open [OF serve_request_reply [OF step] Cons.prems(4)] show ?case
  proof cases
    case (1 resp)
    show ?thesis
    proof (cases "ends resp")
      case True
      then show ?thesis using 1 loop by (intro exI [of _ "[resp]"]) simp
    next
      case False
      have "room w1 = None" using 1 Cons.prems(4) by simp
      from Cons.IH [OF _ r1(3,2) this, of lv1 sv1] Cons.prems(1) obtain resps where
        "in_step (sendable (e_render env)) qs resps" "written (snd (session_loop env la lv1 sv1 r1 w1)) = written w1 @ sent_bytes env resps"
        by auto
      then show ?thesis using 1 loop False by (intro exI [of _ "resp # resps"]) simp
    qed
  next
    case (2 resp)
    then show ?thesis using loop by (intro exI [of _ "[]"]) auto
  qed
qed

text \<open>The whole connection: an answer to the first request, then the loop.\<close>

lemma conversation_in_step:
  fixes env :: "('v, 'sk, 'pk, 'j) session_env"
  assumes codec: "json_codec render (e_serde env)" and ok: "list_all (sendable render) qs"
    and r: "steady r" "flat r = concat (map (wire render) qs)" and w: "room w = None"
  shows "\<exists>resps. in_step (sendable (e_render env)) qs resps
      \<and> written (snd (serve_session_conn env la True sv r w)) = written w @ sent_bytes env resps"
proof (cases qs)
  case Nil
  then obtain r' where "read_message (e_serde env) r = (Inr None, r')" using r read_message_end by fastforce
  then show ?thesis using Nil by (simp add: serve_session_conn_def)
next
  case (Cons q qs')
  obtain r1 where r1: "read_message (e_serde env) r = (Inr (Some q), r1)" "flat r1 = concat (map (wire render) qs')" "steady r1"
    using read_message_wire [OF codec _ r(1), of q "concat (map (wire render) qs')"] r(2) ok Cons by auto
  let ?run = "serve_session_conn env la True sv r w" and ?short = "sendable (e_render env)"
  have last: "\<exists>resps. in_step ?short qs resps \<and> w' = w\<lparr>written := written w @ sent_bytes env resps\<rparr>"
    if "w' = snd (send env resp w)" "fits q resp" "ends resp \<or> \<not> ?short resp" for resp w'
  proof (cases "?short resp")
    case True
    then show ?thesis using that w Cons by (intro exI [of _ "[resp]"]) (simp add: send_open)
  next
    case False
    then show ?thesis using that w Cons by (intro exI [of _ "[]"]) (auto simp: send_open)
  qed
  show ?thesis
  proof (cases "open_limits q (la_policy la)")
    case (Inl message)
    then have "snd ?run = snd (send env (fatal message) w)" using r1(1) by (simp add: serve_session_conn_def)
    from last [OF this] show ?thesis by (auto simp: fatal_def)
  next
    case (Inr lb)
    obtain limits bare where lb: "lb = (limits, bare)" by (cases lb)
    have op: "answers q (Opened ms p :: 'v Response)" for ms p using Inr by (cases q) (auto simp: open_limits_def)
    obtain b sv1 where b: "boot_session_vm env la limits bare sv = (b, sv1)" by fastforce
    show ?thesis
    proof (cases b)
      case (Inl e)
      then have "snd ?run = snd (send env (fatal (''open sandbox: '' @ VmmError_display (e_fmt env) e)) w)"
        using r1(1) b lb Inr by (simp add: serve_session_conn_def)
      from last [OF this] show ?thesis by (auto simp: fatal_def)
    next
      case (Inr vp)
      obtain v pooled where vp: "vp = (v, pooled)" by (cases vp)
      let ?resp = "Opened (duration_ms (e_boot_latency env v)) pooled"
      show ?thesis
      proof (cases "?short ?resp")
        case False
        then have "snd ?run = w"
          using r1(1) b lb \<open>open_limits q (la_policy la) = Inr lb\<close> Inr vp send_open [OF w, of env ?resp] by (simp add: serve_session_conn_def Let_def)
        moreover have "in_step ?short qs []" using False op [THEN fits_simps(2)] Cons by (simp, blast)
        ultimately show ?thesis by (intro exI [of _ "[]"]) simp
      next
        case True
        let ?w1 = "w\<lparr>written := written w @ wire (e_render env) ?resp\<rparr>"
        let ?sv2 = "on_metrics (session_opened pooled (e_boot_latency env v)) sv1"
        let ?lv = "\<lparr>lv_vm = v, lv_probes = e_attach env v, lv_total = 0, lv_chain = None\<rparr>"
        have run: "snd ?run = snd (session_loop env la ?lv ?sv2 r1 ?w1)"
          using r1(1) b lb \<open>open_limits q (la_policy la) = Inr lb\<close> Inr vp send_open [OF w, of env ?resp] True
          by (simp add: serve_session_conn_def Let_def split: prod.splits)
        obtain resps where "in_step ?short qs' resps" "written (snd (session_loop env la ?lv ?sv2 r1 ?w1)) = written ?w1 @ sent_bytes env resps"
          using session_loop_in_step [OF codec _ r1(3,2), of ?w1 la ?lv ?sv2] ok Cons w by auto
        then show ?thesis using run True op Cons by (intro exI [of _ "?resp # resps"]) simp
      qed
    qed
  qed
qed

section \<open>The client's side\<close>

text \<open>What a call does, whatever it returns: the typed methods read the awaited reply.\<close>

definition client_call :: "('j, 'v) client_env \<Rightarrow> Request \<Rightarrow> (client, 'v ClientError, 'v Response) smethod" where
  "client_call ce q =
     seqm (Client_send ce q) (\<lambda>_. seqm (Client_recv ce) (\<lambda>resp. if awaited q resp then okm resp else failm (unexpected resp)))"

fun calls :: "('j, 'v) client_env \<Rightarrow> Request list \<Rightarrow> client \<Rightarrow> ('v ClientError + 'v Response) list \<times> client" where
  "calls ce [] cl = ([], cl)"
| "calls ce (q # qs) cl = (case client_call ce q cl of (x, cl1) \<Rightarrow> case calls ce qs cl1 of (xs, cl2) \<Rightarrow> (x # xs, cl2))"

text \<open>What a client hears of a list of replies.\<close>

fun heard :: "Request list \<Rightarrow> 'v Response list \<Rightarrow> ('v ClientError + 'v Response) list" where
  "heard [] rs = []"
| "heard (q # qs) [] = Inl HungUp # heard qs []"
| "heard (q # qs) (ErrorReply m f # rs) = Inl (Remote m f) # heard qs rs"
| "heard (q # qs) (resp # rs) = (if awaited q resp then Inr resp else Inl (Unexpected resp)) # heard qs rs"

lemma Client_recv_reply:
  assumes "json_codec render (ce_serde ce)" "sendable render resp" "steady (cl_reader cl)" "flat (cl_reader cl) = wire render resp @ rest"
  shows "\<exists>r. flat r = rest \<and> steady r \<and>
    Client_recv ce cl = ((case resp of ErrorReply m f \<Rightarrow> Inl (Remote m f) | _ \<Rightarrow> Inr resp), cl\<lparr>cl_reader := r\<rparr>)"
proof -
  obtain r where "read_message (ce_serde ce) (cl_reader cl) = (Inr (Some resp), r)" "flat r = rest" "steady r"
    using read_message_wire [OF assms] by blast
  then show ?thesis by (intro exI [of _ r]) (simp add: Client_recv_def split: Response.splits)
qed

lemma Client_recv_writer: "cl_writer (snd (Client_recv ce cl)) = cl_writer cl"
  by (auto simp: Client_recv_def split: prod.splits sum.splits option.splits Response.splits)

lemma calls_written:
  "\<lbrakk>list_all (sendable (ce_render ce)) qs; room (cl_writer cl) = None\<rbrakk> \<Longrightarrow>
    written (cl_writer (snd (calls ce qs cl))) = written (cl_writer cl) @ concat (map (wire (ce_render ce)) qs)"
proof (induction qs arbitrary: cl)
  case (Cons q qs)
  let ?w = "cl_writer cl\<lparr>written := written (cl_writer cl) @ wire (ce_render ce) q\<rparr>"
  have "Client_send ce q cl = (Inr (), cl\<lparr>cl_writer := ?w\<rparr>)"
    using write_message_open(1) [OF Cons.prems(2), of "ce_render ce" q] Cons.prems(1) by (simp add: Client_send_def)
  then have "cl_writer (snd (client_call ce q cl)) = ?w"
    using Client_recv_writer [of ce "cl\<lparr>cl_writer := ?w\<rparr>"]
    by (auto simp: client_call_def seqm_def okm_def failm_def split: prod.splits sum.splits)
  then show ?case
    using Cons.IH [of "snd (client_call ce q cl)"] Cons.prems
    by (cases "client_call ce q cl"; cases "calls ce qs (snd (client_call ce q cl))") simp
qed simp

lemma calls_hear:
  assumes codec: "json_codec render (ce_serde ce)"
  shows "\<lbrakk>list_all (sendable (ce_render ce)) qs; room (cl_writer cl) = None; list_all (sendable render) resps; length resps \<le> length qs;
      steady (cl_reader cl); flat (cl_reader cl) = concat (map (wire render) resps)\<rbrakk> \<Longrightarrow>
      fst (calls ce qs cl) = heard qs resps"
proof (induction qs arbitrary: cl resps)
  case (Cons q qs)
  let ?w = "cl_writer cl\<lparr>written := written (cl_writer cl) @ wire (ce_render ce) q\<rparr>"
  have send: "Client_send ce q cl = (Inr (), cl\<lparr>cl_writer := ?w\<rparr>)"
    using write_message_open(1) [OF Cons.prems(2), of "ce_render ce" q] Cons.prems(1) by (simp add: Client_send_def)
  show ?case
  proof (cases resps)
    case Nil
    then obtain r where r: "read_message (ce_serde ce) (cl_reader cl) = (Inr None, r)" "flat r = []" "steady r"
      using read_message_end Cons.prems(5,6) by fastforce
    have "client_call ce q cl = (Inl HungUp, cl\<lparr>cl_writer := ?w, cl_reader := r\<rparr>)"
      using send r(1) by (simp add: client_call_def seqm_def Client_recv_def)
    then show ?thesis
      using Cons.IH [of "cl\<lparr>cl_writer := ?w, cl_reader := r\<rparr>" "[]"] Cons.prems(1,2) r Nil
      by (cases "calls ce qs (cl\<lparr>cl_writer := ?w, cl_reader := r\<rparr>)") simp
  next
    case (Cons resp rs)
    obtain r where r: "flat r = concat (map (wire render) rs)" "steady r"
      "Client_recv ce (cl\<lparr>cl_writer := ?w\<rparr>) = ((case resp of ErrorReply m f \<Rightarrow> Inl (Remote m f) | _ \<Rightarrow> Inr resp), cl\<lparr>cl_writer := ?w, cl_reader := r\<rparr>)"
      using Client_recv_reply [OF codec, of resp "cl\<lparr>cl_writer := ?w\<rparr>" "concat (map (wire render) rs)"] Cons.prems(3,5,6) Cons by auto
    have "client_call ce q cl = (hd (heard (q # qs) resps), cl\<lparr>cl_writer := ?w, cl_reader := r\<rparr>)"
      using send r(3) Cons by (cases resp) (simp_all add: client_call_def seqm_def okm_def failm_def unexpected_def)
    moreover have "heard (q # qs) resps = hd (heard (q # qs) resps) # heard qs rs" using Cons by (cases resp) simp_all
    ultimately show ?thesis
      using Cons.IH [of "cl\<lparr>cl_writer := ?w, cl_reader := r\<rparr>" rs] Cons.prems(1-4) r(1,2) Cons
      by (cases "calls ce qs (cl\<lparr>cl_writer := ?w, cl_reader := r\<rparr>)") simp
  qed
qed simp

text \<open>The typed methods are calls whose reply is read.\<close>

lemma typed_calls:
  "Client_open ce opts = seqm (client_call ce (Open (oo_vcpus opts) (oo_mem_mib opts) (oo_wall_secs opts) (oo_output_cap opts)))
     (\<lambda>resp. case resp of Opened ms p \<Rightarrow> okm \<lparr>op_boot_ms = ms, op_pooled = p\<rparr> | other \<Rightarrow> failm (unexpected other))"
  "Client_exec ce argv stdin = seqm (client_call ce (ReqExec argv (if stdin \<noteq> [] then Some stdin else None)))
     (\<lambda>resp. case resp of
        Result code out err ms \<Rightarrow> okm \<lparr>eo_exit_code = code, eo_stdout = out, eo_stderr = err, eo_exec_wall_ms = ms\<rparr>
      | other \<Rightarrow> failm (unexpected other))"
  "Client_put ce path content = seqm (client_call ce (ReqPut path content)) (\<lambda>_. okm ())"
  "Client_get ce path = seqm (client_call ce (ReqGet path))
     (\<lambda>resp. case resp of Got _ content present \<Rightarrow> okm (if present then Some content else None) | other \<Rightarrow> failm (unexpected other))"
  "Client_snapshot ce = seqm (client_call ce ReqSnapshot) (\<lambda>resp. case resp of Snapshotted dir \<Rightarrow> okm dir | other \<Rightarrow> failm (unexpected other))"
  "Client_trace ce = seqm (client_call ce ReqTrace) (\<lambda>resp. case resp of RespTrace v \<Rightarrow> okm v | other \<Rightarrow> failm (unexpected other))"
  "Client_trace_summary ce = seqm (client_call ce ReqTraceSummary)
     (\<lambda>resp. case resp of RespTraceSummary v \<Rightarrow> okm v | other \<Rightarrow> failm (unexpected other))"
  "Client_close ce = seqm (client_call ce ReqClose) (\<lambda>_. okm ())"
  by (rule ext, auto simp: Client_open_def Client_exec_def Client_put_def Client_get_def Client_snapshot_def Client_trace_def
      Client_trace_summary_def Client_close_def client_call_def seqm_def okm_def failm_def split: prod.splits sum.splits Response.splits)+

section \<open>A conversation\<close>

lemma in_step_short: "in_step short qs rs \<Longrightarrow> list_all short rs \<and> length rs \<le> length qs"
  by (induction short qs rs rule: in_step.induct) (auto split: if_splits)

lemma length_heard: "length (heard qs rs) = length qs"
  by (induction qs rs rule: heard.induct) simp_all

lemma heard_nothing [simp]: "heard qs [] = replicate (length qs) (Inl HungUp)"
  by (induction qs) simp_all

lemma heard_in_step:
  "in_step short qs resps \<Longrightarrow> i < length qs \<Longrightarrow>
    (case heard qs resps ! i of
       Inr resp \<Rightarrow> i < length resps \<and> resps ! i = resp \<and> answers (qs ! i) resp
     | Inl (Remote m f) \<Rightarrow> i < length resps \<and> resps ! i = ErrorReply m f
     | Inl HungUp \<Rightarrow> length resps \<le> i
     | Inl _ \<Rightarrow> False)"
proof (induction short qs resps arbitrary: i rule: in_step.induct)
  case (2 short q qs)
  then show ?case by (cases i) simp_all
next
  case (3 short q qs resp rs)
  show ?case
  proof (cases i)
    case 0
    then show ?thesis using 3(2) answers_awaited [of q resp] by (cases resp) (auto simp: fits_def)
  next
    case (Suc j)
    have tail: "heard (q # qs) (resp # rs) ! i = heard qs rs ! j" using Suc by (cases resp) simp_all
    show ?thesis
    proof (cases "ends resp")
      case True
      then have "rs = []" using 3(2) by simp
      then show ?thesis using tail Suc 3(3) by simp
    next
      case False
      then show ?thesis using 3(1) [OF False, of j] 3(2,3) tail Suc by (simp split: sum.splits ClientError.splits)
    qed
  qed
qed simp


text \<open>A client that opens a session with the daemon of theory Session, its reply arriving in one piece.\<close>

definition one_request :: Request where "one_request = Open None (Some 512) None None"

definition talking_env :: "(nat, unit, unit, unit) session_env" where
  "talking_env = plain_env\<lparr>e_render := \<lambda>e. if e = \<lparr>schema = 1, env_body = Opened 0 True\<rparr> then Inr ''t''
     else if e = \<lparr>schema = 1, env_body = Opened 0 False\<rparr> then Inr ''f'' else Inl ''?''\<rparr>"

definition talking_client :: "(bool, nat) client_env" where
  "talking_client = \<lparr>ce_render = (\<lambda>e. if e = \<lparr>schema = 1, env_body = one_request\<rparr> then Inr ''x'' else Inl ''?''),
     ce_serde = \<lparr>from_str = (\<lambda>s. Inr (s = ''t'')), get_schema = (\<lambda>_. Some 1), from_value = (\<lambda>b. Inr (Opened 0 b))\<rparr>\<rparr>"

lemma talking_codecs:
  "json_codec (ce_render talking_client) (e_serde talking_env)" "json_codec (e_render talking_env) (ce_serde talking_client)"
proof -
  have a: "is_ascii ''x''" "is_ascii ''t''" "is_ascii ''f''" by (simp_all add: is_ascii_def)
  have t: "trim ''x'' = ''x''" "trim ''t'' = ''t''" "trim ''f'' = ''f''" by (simp_all add: trim_ascii a is_whitespace_def)
  have n: "newline \<notin> set (as_bytes ''x'')" "newline \<notin> set (as_bytes ''t'')" "newline \<notin> set (as_bytes ''f'')"
    by (simp_all add: newline_def as_bytes_def)
  note i = a [THEN is_ascii_is_str]
  show "json_codec (ce_render talking_client) (e_serde talking_env)"
    using i(1) n(1) t(1) by (auto simp: json_codec_def talking_client_def talking_env_def plain_env_def one_request_def split: if_splits)
  show "json_codec (e_render talking_env) (ce_serde talking_client)"
    using i(2,3) n(2,3) t(2,3) by (auto simp: json_codec_def talking_client_def talking_env_def split: if_splits)
qed


end
