(* ===== verification/Cli.thy ===== *)
theory Cli
  imports VmConfig Observer Signing
begin

text \<open>
  The command line above the engine: the layers of configuration (cli/src/config.rs), the values of
  flags, the configuration with which \<open>kee run\<close> and \<open>kee shell\<close> boot (cli/src/main.rs), and \<open>kee verify\<close>
  (cli/src/verify.rs). The environment is a lookup, the TOML parser and the file system are parameters.
\<close>

section \<open>Errors\<close>

datatype CliError = CliFault string | Engine VmmError

fun CliError_display :: "fmt \<Rightarrow> CliError \<Rightarrow> string" where
  "CliError_display f (CliFault m) = m"
| "CliError_display f (Engine e) = VmmError_display f e"

section \<open>The file layer\<close>

definition FILE_NAME :: string where "FILE_NAME = ''.eke.toml''"

record AgentToml =
  at_firecracker :: "string option"
  at_kernel :: "string option"
  at_rootfs :: "string option"
  at_marker :: "string option"
  at_scratch_dir :: "string option"
  at_require_limits :: "bool option"
  at_log :: "string option"
  at_signing_key :: "string option"
  at_trusted_keys :: "string list option"
  at_vcpus :: "nat option"
  at_mem_mib :: "nat option"
  at_wall_secs :: "nat option"
  at_output_cap :: "usize option"
  at_max_vcpus :: "nat option"
  at_max_mem_mib :: "nat option"
  at_max_wall_secs :: "nat option"
  at_max_output_cap :: "usize option"
  at_require_jail :: "bool option"
  at_allow_net :: "bool option"

text \<open>What the CLI reads of its host: files, their text, and the TOML parser with its message.\<close>

record cli_view =
  cv_fmt :: fmt
  cv_var :: "string \<Rightarrow> string option"
  cv_is_file :: "string \<Rightarrow> bool"
  cv_exists :: "string \<Rightarrow> bool"
  cv_read :: "string \<Rightarrow> io_kind + bytes"
  cv_toml :: "string \<Rightarrow> string + AgentToml"

definition read_to_string :: "cli_view \<Rightarrow> string \<Rightarrow> io_kind + string" where
  "read_to_string cv path = and_then (cv_read cv path) (\<lambda>bs. ok_or (from_utf8 bs) InvalidData)"

definition parse_file :: "cli_view \<Rightarrow> string \<Rightarrow> VmmError + AgentToml" where
  "parse_file cv path =
     and_then (map_err (\<lambda>e. Vmm (''read '' @ path @ '': '' @ io_display (cv_fmt cv) e)) (read_to_string cv path)) (\<lambda>t.
     map_err (\<lambda>e. Vmm (path @ '': '' @ e)) (cv_toml cv t))"

function discover :: "cli_view \<Rightarrow> string \<Rightarrow> VmmError + AgentToml option" where
  "discover cv d =
     (let candidate = path_push d FILE_NAME in
      if cv_is_file cv candidate then map_sum id Some (parse_file cv candidate)
      else case path_parent d of None \<Rightarrow> Inr None | Some p \<Rightarrow> discover cv p)"
  by pat_completeness auto
termination
  by (relation "measure (\<lambda>(_, d). length d)") (auto dest: path_parent_shorter)

declare discover.simps [simp del]

definition env_value :: "AgentToml \<Rightarrow> string \<Rightarrow> string option" where
  "env_value t key =
     (if key = ''EKE_FIRECRACKER'' then at_firecracker t
      else if key = ''EKE_KERNEL'' then at_kernel t
      else if key = ''EKE_ROOTFS'' then at_rootfs t
      else if key = ''EKE_MARKER'' then at_marker t
      else if key = ''EKE_SCRATCH_DIR'' then at_scratch_dir t
      else if key = ''EKE_REQUIRE_LIMITS'' then map_option (\<lambda>b. if b then ''true'' else ''false'') (at_require_limits t)
      else None)"

definition trusted_keys_of :: "AgentToml \<Rightarrow> string list" where
  "trusted_keys_of t = (case at_trusted_keys t of Some ks \<Rightarrow> ks | None \<Rightarrow> [])"

definition policy :: "AgentToml \<Rightarrow> Policy" where
  "policy t = \<lparr>po_vcpus = at_vcpus t, po_mem_mib = at_mem_mib t, po_wall_secs = at_wall_secs t, po_output_cap = at_output_cap t,
     max_vcpus = at_max_vcpus t, max_mem_mib = at_max_mem_mib t, max_wall_secs = at_max_wall_secs t,
     max_output_cap = at_max_output_cap t,
     require_jail = (case at_require_jail t of Some b \<Rightarrow> b | None \<Rightarrow> False), allow_net = at_allow_net t\<rparr>"

definition Policy_default :: Policy where
  "Policy_default = \<lparr>po_vcpus = None, po_mem_mib = None, po_wall_secs = None, po_output_cap = None, max_vcpus = None,
     max_mem_mib = None, max_wall_secs = None, max_output_cap = None, require_jail = False, allow_net = None\<rparr>"

definition policy_of :: "AgentToml option \<Rightarrow> Policy" where
  "policy_of t = (case t of Some f \<Rightarrow> policy f | None \<Rightarrow> Policy_default)"

definition data_dir :: "(string \<Rightarrow> string option) \<Rightarrow> string" where
  "data_dir var =
     (let base = (case var ''XDG_DATA_HOME'' of
            Some p \<Rightarrow> if is_absolute p then Some p else None
          | None \<Rightarrow> None)
      in path_push (case base of
           Some p \<Rightarrow> p
         | None \<Rightarrow> (case var ''HOME'' of Some h \<Rightarrow> path_push (path_push h ''.local'') ''share'' | None \<Rightarrow> ''/var/lib'')) ''eke'')"

definition default_key_path :: "(string \<Rightarrow> string option) \<Rightarrow> string" where
  "default_key_path var = path_push (data_dir var) ''record-signing.ed25519''"

definition signing_key_path :: "cli_view \<Rightarrow> AgentToml option \<Rightarrow> string" where
  "signing_key_path cv t =
     (case cv_var cv ''EKE_SIGNING_KEY'' of
        Some p \<Rightarrow> p
      | None \<Rightarrow> (case Option.bind t at_signing_key of Some p \<Rightarrow> p | None \<Rightarrow> default_key_path (cv_var cv)))"

definition comma_items :: "string \<Rightarrow> string list" where
  "comma_items v = filter (\<lambda>s. s \<noteq> []) (map trim (split_on (\<lambda>c. c = CHR '','') (from_utf8_lossy (as_bytes v))))"

definition trusted_key_hexes :: "cli_view \<Rightarrow> AgentToml option \<Rightarrow> string list" where
  "trusted_key_hexes cv t =
     (case cv_var cv ''EKE_TRUSTED_KEYS'' of Some v \<Rightarrow> comma_items v | None \<Rightarrow> [])
     @ (case t of Some f \<Rightarrow> trusted_keys_of f | None \<Rightarrow> [])"

definition resolve_log :: "cli_view \<Rightarrow> string option \<Rightarrow> AgentToml option \<Rightarrow> string option" where
  "resolve_log cv flag t =
     (case flag of
        Some f \<Rightarrow> Some f
      | None \<Rightarrow>
          (case Option.bind (cv_var cv ''EKE_LOG'') (\<lambda>v. from_utf8 (as_bytes v)) of
             Some v \<Rightarrow> Some v
           | None \<Rightarrow> Option.bind t at_log))"

definition layered :: "cli_view \<Rightarrow> AgentToml option \<Rightarrow> string \<Rightarrow> string option" where
  "layered cv t key = (case cv_var cv key of Some v \<Rightarrow> Some v | None \<Rightarrow> Option.bind t (\<lambda>f. env_value f key))"

definition base_config :: "cli_view \<Rightarrow> AgentToml option \<Rightarrow> boot_config" where
  "base_config cv t = from_env_with (layered cv t)"

section \<open>Flag values\<close>

definition rsplit_once :: "char \<Rightarrow> string \<Rightarrow> (string \<times> string) option" where
  "rsplit_once c s = map_option (\<lambda>(a, b). (rev b, rev a)) (split_once c (rev s))"

text \<open>\<open>Ipv4Addr::from_str\<close>: four decimal octets without leading zeros.\<close>

definition octet :: "string \<Rightarrow> u8 option" where
  "octet s =
     (if s \<noteq> [] \<and> length s \<le> 3 \<and> list_all (\<lambda>c. CHR ''0'' \<le> c \<and> c \<le> CHR ''9'') s \<and> (length s = 1 \<or> hd s \<noteq> CHR ''0'')
      then parse_u8 s else None)"

definition parse_ipv4 :: "string \<Rightarrow> u32 option" where
  "parse_ipv4 s =
     (case split_on (\<lambda>c. c = CHR ''.'') s of
        [a, b, c, d] \<Rightarrow>
          (case (octet a, octet b, octet c, octet d) of
             (Some a, Some b, Some c, Some d) \<Rightarrow>
               Some (word_of_nat (((unat a * 256 + unat b) * 256 + unat c) * 256 + unat d))
           | _ \<Rightarrow> None)
      | _ \<Rightarrow> None)"

record AllowRule =
  al_cidr :: Ipv4Cidr
  al_port :: "u16 option"
  al_proto :: "Protocol option"

definition allow_proto :: "string \<Rightarrow> string \<times> Protocol option" where
  "allow_proto s =
     (case rsplit_once CHR ''/'' s of
        Some (rest, t) \<Rightarrow>
          if to_ascii_lowercase t = ''tcp'' then (rest, Some Tcp)
          else if to_ascii_lowercase t = ''udp'' then (rest, Some Udp)
          else (s, None)
      | None \<Rightarrow> (s, None))"

definition allow_port :: "fmt \<Rightarrow> string \<Rightarrow> string \<Rightarrow> string + string \<times> u16 option" where
  "allow_port f s head =
     (case rsplit_once CHR '':'' head of
        Some (addr, p) \<Rightarrow>
          and_then (ok_or (parse_u16 p) (''invalid port '' @ dbg_str f p @ '' in --allow '' @ dbg_str f s)) (\<lambda>port.
          Inr (addr, Some port))
      | None \<Rightarrow> Inr (head, None))"

definition allow_cidr :: "fmt \<Rightarrow> string \<Rightarrow> string \<Rightarrow> string + Ipv4Cidr" where
  "allow_cidr f s addr_cidr =
     (case split_once CHR ''/'' addr_cidr of
        Some (ip, prefix) \<Rightarrow>
          and_then (ok_or (parse_ipv4 ip) (''invalid IPv4 address '' @ dbg_str f ip @ '' in --allow '' @ dbg_str f s)) (\<lambda>ip.
          and_then (ok_or (parse_u8 prefix) (''invalid CIDR prefix '' @ dbg_str f prefix @ '' in --allow '' @ dbg_str f s)) (\<lambda>prefix.
          map_err (\<lambda>e. ''--allow '' @ dbg_str f s @ '': '' @ PolicyError_display e) (Ipv4Cidr_new ip prefix)))
      | None \<Rightarrow>
          and_then (ok_or (parse_ipv4 addr_cidr) (''invalid IPv4 address '' @ dbg_str f addr_cidr @ '' in --allow '' @ dbg_str f s)) (\<lambda>ip.
          Inr (Ipv4Cidr_host ip)))"

definition parse_allow :: "fmt \<Rightarrow> string \<Rightarrow> string + AllowRule" where
  "parse_allow f s =
     (case allow_proto s of
        (head, proto) \<Rightarrow>
          and_then (allow_port f s head) (\<lambda>(addr_cidr, port).
          and_then (allow_cidr f s addr_cidr) (\<lambda>cidr.
          Inr \<lparr>al_cidr = cidr, al_port = port, al_proto = proto\<rparr>)))"

definition build_egress :: "AllowRule list \<Rightarrow> CliError + EgressPolicy" where
  "build_egress allows =
     (if length allows > MAX_POLICY_RULES
      then Inl (CliFault (''too many --allow rules: '' @ dec (length allows)
             @ '' given, but the kernel egress policy holds at most '' @ dec MAX_POLICY_RULES))
      else Inr (foldl (\<lambda>p a. allow (al_cidr a) (al_port a) (al_proto a) p) deny_all allows))"

definition MAX_VCPUS_FLAG :: nat where "MAX_VCPUS_FLAG = 32"

definition parse_vcpus :: "fmt \<Rightarrow> string \<Rightarrow> string + nat" where
  "parse_vcpus f s =
     and_then (ok_or (case from_str_radix 10 255 s of Some n \<Rightarrow> (if n = 0 then None else Some n) | None \<Rightarrow> None)
       (''expected a whole number of vCPUs in 1..='' @ dec MAX_VCPUS_FLAG @ '', got '' @ dbg_str f s)) (\<lambda>vcpus.
     if vcpus > MAX_VCPUS_FLAG then Inl (''vCPUs must be in 1..='' @ dec MAX_VCPUS_FLAG @ '', got '' @ dec vcpus) else Inr vcpus)"

definition parse_mem_mib :: "fmt \<Rightarrow> string \<Rightarrow> string + nat" where
  "parse_mem_mib f s =
     ok_or (case from_str_radix 10 (2 ^ 32 - 1) s of Some n \<Rightarrow> (if n = 0 then None else Some n) | None \<Rightarrow> None)
       (''expected guest memory in whole MiB (at least 1), got '' @ dbg_str f s)"

definition parse_env_pair :: "string \<Rightarrow> string + string \<times> string" where
  "parse_env_pair s =
     (case split_once CHR ''='' s of
        Some (key, v) \<Rightarrow> if key \<noteq> [] then Inr (key, v) else Inl ''expected KEY=VALUE with a non-empty KEY''
      | None \<Rightarrow> Inl ''expected KEY=VALUE with a non-empty KEY'')"

definition limits_with :: "nat option \<Rightarrow> nat option \<Rightarrow> Limits" where
  "limits_with v m =
     (let l0 = Limits_default; l1 = (case v of Some v \<Rightarrow> l0\<lparr>vcpus := v\<rparr> | None \<Rightarrow> l0)
      in case m of Some m \<Rightarrow> l1\<lparr>mem_mib := m\<rparr> | None \<Rightarrow> l1)"

section \<open>Before the boot\<close>

record RunArgs =
  ra_demo_boot :: bool
  ra_unjailed :: bool
  ra_require_limits :: bool
  ra_vcpus :: "nat option"
  ra_mem :: "nat option"
  ra_wall :: "nat option"
  ra_output_cap :: "usize option"
  ra_net :: bool
  ra_allow :: "AllowRule list"
  ra_env :: "(string \<times> string) list"
  ra_put :: "string list"
  ra_get :: "string list"
  ra_json :: bool
  ra_trace :: bool
  ra_record :: "string option"
  ra_record_summary :: "string option"
  ra_watch :: bool
  ra_argv :: "string list"

record ShellArgs =
  sh_unjailed :: bool
  sh_require_limits :: bool
  sh_vcpus :: "nat option"
  sh_mem :: "nat option"

fun read_put_files :: "cli_view \<Rightarrow> string list \<Rightarrow> VmmError + (string \<times> bytes) list" where
  "read_put_files cv [] = Inr []"
| "read_put_files cv (path # puts) =
     and_then (case map_option (\<lambda>n. from_utf8_lossy (as_bytes n)) (path_file_name path) of
                 Some n \<Rightarrow> if n \<noteq> [] then Inr n else Inl (ArtifactMissing (''--put '' @ path @ '': no file name''))
               | None \<Rightarrow> Inl (ArtifactMissing (''--put '' @ path @ '': no file name''))) (\<lambda>name.
     and_then (map_err (\<lambda>e. ArtifactMissing (''--put '' @ path @ '': '' @ io_display (cv_fmt cv) e)) (cv_read cv path)) (\<lambda>data.
     and_then (read_put_files cv puts) (\<lambda>rest. Inr ((name, data) # rest))))"

text \<open>\<open>Sandbox::open\<close> and \<open>Sandbox::open_unjailed\<close>, up to the call of \<open>Vm::boot\<close>.\<close>

definition open_inner :: "boot_config \<Rightarrow> boot_config" where
  "open_inner c = (if cf_guest_cid c = None then c\<lparr>cf_guest_cid := Some 3\<rparr> else c)"

definition Sandbox_open :: "boot_config \<Rightarrow> boot_config" where
  "Sandbox_open c = open_inner (c\<lparr>cf_jail := Some (case cf_jail c of Some j \<Rightarrow> j | None \<Rightarrow> Jail_default)\<rparr>)"

definition open_unjailed :: "boot_config \<Rightarrow> boot_config" where
  "open_unjailed c = open_inner (c\<lparr>cf_jail := None\<rparr>)"

definition open_sandbox :: "boot_config \<Rightarrow> bool \<Rightarrow> boot_config" where
  "open_sandbox c unjailed = (if unjailed then open_unjailed c else Sandbox_open c)"

text \<open>\<open>kee run\<close> up to the boot: the configuration it boots with, its egress policy and its input files.
  \<open>tty\<close> is whether stderr is a terminal, \<open>support\<close> what the probe of the eBPF loader says.\<close>

definition run_egress :: "ProbeError + unit \<Rightarrow> AllowRule list \<Rightarrow> CliError + EgressPolicy option" where
  "run_egress support allows =
     (if allows = [] then Inr None
      else and_then (build_egress allows) (\<lambda>p.
        and_then (map_err (\<lambda>e. CliFault (''--allow requested egress enforcement, but this host can't load the eBPF probes: ''
          @ ProbeError_display e)) support) (\<lambda>_. Inr (Some p))))"

definition run_boot_config ::
    "cli_view \<Rightarrow> bool \<Rightarrow> ProbeError + unit \<Rightarrow> RunArgs \<Rightarrow> AgentToml option
      \<Rightarrow> CliError + boot_config \<times> EgressPolicy option \<times> (string \<times> bytes) list" where
  "run_boot_config cv tty support args t =
     (let host_policy = policy_of t in
      and_then (map_err (\<lambda>e. CliFault (RunPolicyError_display e)) (resolve host_policy
        \<lparr>rq_vcpus = ra_vcpus args, rq_mem_mib = ra_mem args, rq_wall_secs = ra_wall args, rq_output_cap = ra_output_cap args\<rparr>)) (\<lambda>limits.
      and_then (map_err (\<lambda>e. CliFault (RunPolicyError_display e)) (check_jail host_policy (ra_unjailed args))) (\<lambda>_.
      and_then (map_err (\<lambda>e. CliFault (RunPolicyError_display e)) (check_net host_policy (ra_net args))) (\<lambda>_.
      and_then (if ra_watch args \<and> \<not> tty
                then Inl (CliFault (''--watch draws on stderr and needs it to be a terminal; use --trace or --record when piping''))
                else Inr ()) (\<lambda>_.
      and_then (run_egress support (ra_allow args)) (\<lambda>egress.
      and_then (map_err Engine (read_put_files cv (ra_put args))) (\<lambda>files_in.
      let c0 = (with_limits limits (base_config cv t))\<lparr>cf_enable_network := ra_net args\<rparr>;
          c1 = (if ra_require_limits args then c0\<lparr>cf_require_limits := True\<rparr> else c0)
      in Inr (open_sandbox c1 (ra_unjailed args), egress, files_in))))))))"

definition shell_boot_config :: "cli_view \<Rightarrow> ShellArgs \<Rightarrow> AgentToml option \<Rightarrow> boot_config" where
  "shell_boot_config cv args t =
     (let c0 = with_limits (limits_with (sh_vcpus args) (sh_mem args)) (base_config cv t);
          c1 = (if sh_require_limits args then c0\<lparr>cf_require_limits := True\<rparr> else c0)
      in open_sandbox c1 (sh_unjailed args))"

section \<open>Verifying a record\<close>

definition KeyError_display :: "fmt \<Rightarrow> KeyError \<Rightarrow> string" where
  "KeyError_display f e = (case e of KeyIo k \<Rightarrow> ''signing key I/O: '' @ io_display f k | KeyMalformed m \<Rightarrow> ''signing key malformed: '' @ m)"

definition read_bounded :: "cli_view \<Rightarrow> string \<Rightarrow> CliError + string" where
  "read_bounded cv path =
     and_then (map_err (\<lambda>e. CliFault (''read '' @ path @ '': '' @ io_display (cv_fmt cv) e)) (cv_read cv path)) (\<lambda>content.
     let bs = take (MAX_ENVELOPE_BYTES + 1) content in
     if length bs > MAX_ENVELOPE_BYTES
     then Inl (CliFault (path @ '': larger than the '' @ dec MAX_ENVELOPE_BYTES @ ''-byte envelope bound; not a signed record''))
     else ok_or (from_utf8 bs) (CliFault (path @ '': not UTF-8; not a signed record'')))"

fun from_hexes :: "fmt \<Rightarrow> ('sk, 'pk, 'v) crypto \<Rightarrow> string list \<Rightarrow> CliError + 'pk list" where
  "from_hexes f cr [] = Inr []"
| "from_hexes f cr (h # hs) =
     and_then (map_err (\<lambda>e. CliFault (''trusted key '' @ h @ '': '' @ KeyError_display f e)) (TrustedKey_from_hex cr h)) (\<lambda>k.
     and_then (from_hexes f cr hs) (\<lambda>ks. Inr (k # ks)))"

definition own_key_hex :: "('sk, 'pk, 'v) crypto \<Rightarrow> cli_view \<Rightarrow> string \<Rightarrow> string list" where
  "own_key_hex cr cv key_path =
     (if cv_exists cv key_path
      then (case HostKey_load cr (read_to_string cv key_path) of Inr sk \<Rightarrow> [key_id cr (cr_verifying_key cr sk)] | Inl _ \<Rightarrow> [])
      else [])"

definition trusted_keys :: "('sk, 'pk, 'v) crypto \<Rightarrow> cli_view \<Rightarrow> string list \<Rightarrow> AgentToml option \<Rightarrow> CliError + 'pk list" where
  "trusted_keys cr cv flag_keys t =
     (let key_path = signing_key_path cv t;
          hexes = remdups_adj (sort (flag_keys @ trusted_key_hexes cv t @ own_key_hex cr cv key_path))
      in if hexes = []
         then Inl (CliFault (''no trusted key: pass --key <hex>, set EKE_TRUSTED_KEYS, or provide a signing key at '' @ key_path))
         else from_hexes (cv_fmt cv) cr hexes)"

text \<open>\<open>kee verify\<close>: whether it exits with success.\<close>

definition verify_run :: "('sk, 'pk, 'v) crypto \<Rightarrow> cli_view \<Rightarrow> string \<Rightarrow> string list \<Rightarrow> AgentToml option \<Rightarrow> CliError + bool" where
  "verify_run cr cv record_path flag_keys t =
     and_then (read_bounded cv record_path) (\<lambda>envelope.
     and_then (trusted_keys cr cv flag_keys t) (\<lambda>trusted.
     Inr (case verify cr trusted (trim envelope) of Inr _ \<Rightarrow> True | Inl _ \<Rightarrow> False)))"

section \<open>The layers\<close>

definition set_or :: "'v option \<Rightarrow> 'v \<Rightarrow> 'v" where
  "set_or x d = (case x of Some v \<Rightarrow> v | None \<Rightarrow> d)"

definition setting :: "cli_view \<Rightarrow> AgentToml option \<Rightarrow> string \<Rightarrow> (AgentToml \<Rightarrow> 'v option) \<Rightarrow> (string \<Rightarrow> 'v option) \<Rightarrow> 'v \<Rightarrow> 'v" where
  "setting cv t key field read dflt =
     set_or (case cv_var cv key of Some v \<Rightarrow> read v | None \<Rightarrow> Option.bind t field) dflt"

definition utf8_text :: "string \<Rightarrow> string option" where "utf8_text v = from_utf8 (as_bytes v)"

lemma parse_env_bool_words: "parse_env_bool ''true'' = Some True" "parse_env_bool ''false'' = Some False"
proof -
  have a: "is_ascii ''true''" "is_ascii ''false''" by (simp_all add: is_ascii_def)
  have t: "trim ''true'' = ''true''" "trim ''false'' = ''false''" by (simp_all add: trim_ascii a is_whitespace_def)
  have l: "to_ascii_lowercase ''true'' = ''true''" "to_ascii_lowercase ''false'' = ''false''" by (simp_all add: to_ascii_lowercase_def)
  show "parse_env_bool ''true'' = Some True" "parse_env_bool ''false'' = Some False"
    using a t l by (simp_all add: parse_env_bool_def from_utf8_as_bytes is_ascii_is_str Let_def)
qed


text \<open>A misspelled boolean of the environment turns off the hardening that the file asks for.\<close>

lemma typo_drops_require_limits:
  assumes "cv_var cv ''EKE_REQUIRE_LIMITS'' = Some ''ture''" "at_require_limits f = Some True"
  shows "\<not> cf_require_limits (base_config cv (Some f))"
proof -
  have a: "is_ascii ''ture''" by (simp add: is_ascii_def)
  have "parse_env_bool ''ture'' = None"
    using a by (simp add: parse_env_bool_def from_utf8_as_bytes is_ascii_is_str trim_ascii is_whitespace_def to_ascii_lowercase_def)
  then show ?thesis
    using assms by (simp add: base_config_def from_env_with_def layered_def override_def boot_config_default_def Let_def split: option.splits)
qed

section \<open>Policy at the command line\<close>

lemma base_config_jail [simp]: "cf_jail (base_config cv t) = None"
  by (simp add: base_config_def from_env_with_frame)

lemma open_sandbox_fields [simp]:
  "cf_vcpus (open_sandbox c u) = cf_vcpus c" "cf_mem_mib (open_sandbox c u) = cf_mem_mib c"
  "cf_exec_wall (open_sandbox c u) = cf_exec_wall c" "cf_boot_timeout (open_sandbox c u) = cf_boot_timeout c"
  "cf_output_cap (open_sandbox c u) = cf_output_cap c"
  "cf_enable_network (open_sandbox c u) = cf_enable_network c" "cf_require_limits (open_sandbox c u) = cf_require_limits c"
  "cf_jail (open_sandbox c u) = None \<longleftrightarrow> u"
  by (simp_all add: open_sandbox_def open_unjailed_def Sandbox_open_def open_inner_def)

lemma build_egress_rules:
  "build_egress allows = Inr p \<Longrightarrow> length (rules p) = length allows \<and> length allows \<le> MAX_POLICY_RULES \<and> rules6 p = []"
proof -
  have "length (rules (foldl (\<lambda>p a. allow (al_cidr a) (al_port a) (al_proto a) p) q allows)) = length (rules q) + length allows
      \<and> rules6 (foldl (\<lambda>p a. allow (al_cidr a) (al_port a) (al_proto a) p) q allows) = rules6 q" for q
    by (induction allows arbitrary: q) (simp_all add: allow_def)
  then show "build_egress allows = Inr p \<Longrightarrow> ?thesis" by (auto simp: build_egress_def deny_all_def split: if_splits)
qed

lemma run_egress_Inr:
  assumes "run_egress support allows = Inr egress"
  shows "if allows = [] then egress = None
    else support = Inr () \<and> (\<exists>p. egress = Some p \<and> length (rules p) = length allows \<and> length allows \<le> MAX_POLICY_RULES \<and> rules6 p = [])"
  using assms build_egress_rules [of allows] by (auto simp: run_egress_def and_then_Inr map_err_Inr split: if_splits)


definition house_file :: AgentToml where
  "house_file = \<lparr>at_firecracker = None, at_kernel = None, at_rootfs = None, at_marker = None, at_scratch_dir = None,
     at_require_limits = Some True, at_log = None, at_signing_key = None, at_trusted_keys = None, at_vcpus = None, at_mem_mib = None,
     at_wall_secs = None, at_output_cap = None, at_max_vcpus = Some 4, at_max_mem_mib = Some 1024, at_max_wall_secs = Some 10,
     at_max_output_cap = None, at_require_jail = Some True, at_allow_net = Some False\<rparr>"

definition bare_run :: RunArgs where
  "bare_run = \<lparr>ra_demo_boot = False, ra_unjailed = False, ra_require_limits = False, ra_vcpus = Some 2, ra_mem = None, ra_wall = None, ra_output_cap = None,
     ra_net = False, ra_allow = [], ra_env = [], ra_put = [], ra_get = [], ra_json = False, ra_trace = False, ra_record = None,
     ra_record_summary = None, ra_watch = False, ra_argv = [''true'']\<rparr>"

definition bare_view :: cli_view where
  "bare_view = \<lparr>cv_fmt = plain_fmt, cv_var = (\<lambda>_. None), cv_is_file = (\<lambda>_. False), cv_exists = (\<lambda>_. False),
     cv_read = (\<lambda>_. Inl NotFound), cv_toml = (\<lambda>_. Inl [])\<rparr>"


lemma shell_ignores_policy:
  "shell_boot_config cv args (Some (f\<lparr>at_require_jail := x, at_max_vcpus := y, at_max_mem_mib := z\<rparr>)) = shell_boot_config cv args (Some f)"
  "sh_unjailed args \<Longrightarrow> cf_jail (shell_boot_config cv args t) = None"
proof -
  have "layered cv (Some (f\<lparr>at_require_jail := x, at_max_vcpus := y, at_max_mem_mib := z\<rparr>)) = layered cv (Some f)"
    by (rule ext) (auto simp: layered_def env_value_def split: option.splits)
  then show "shell_boot_config cv args (Some (f\<lparr>at_require_jail := x, at_max_vcpus := y, at_max_mem_mib := z\<rparr>)) = shell_boot_config cv args (Some f)"
    by (simp add: shell_boot_config_def base_config_def)
  show "sh_unjailed args \<Longrightarrow> cf_jail (shell_boot_config cv args t) = None"
    by (simp add: shell_boot_config_def Let_def)
qed

section \<open>Whom a verification trusts\<close>

lemma from_hexes_in: "from_hexes f cr hs = Inr ks \<Longrightarrow> k \<in> set ks \<Longrightarrow> \<exists>h \<in> set hs. TrustedKey_from_hex cr h = Inr k"
  by (induction hs arbitrary: ks) (auto simp: and_then_Inr map_err_Inr)

lemma verify_trusts_configured:
  assumes "verify_run cr cv record_path flag_keys t = Inr True"
  shows "\<exists>envelope h k rec prev. read_bounded cv record_path = Inr envelope
    \<and> h \<in> set (flag_keys @ trusted_key_hexes cv t @ own_key_hex cr cv (signing_key_path cv t))
    \<and> TrustedKey_from_hex cr h = Inr k \<and> verify_entry cr [k] (trim envelope) = Inr (rec, prev)"
proof -
  obtain envelope ks where e: "read_bounded cv record_path = Inr envelope" "trusted_keys cr cv flag_keys t = Inr ks"
    and ok: "(case verify cr ks (trim envelope) of Inr _ \<Rightarrow> True | Inl _ \<Rightarrow> False)"
    using assms by (auto simp: verify_run_def and_then_Inr)
  obtain rec prev where v: "verify_entry cr ks (trim envelope) = Inr (rec, prev)"
    using ok by (auto simp: verify_def and_then_Inr split: sum.splits)
  obtain k where k: "k \<in> set ks" "verify_entry cr [k] (trim envelope) = Inr (rec, prev)"
    using v that by (auto simp: verify_entry_def Let_def and_then_Inr map_err_Inr ok_or_Inr find_Some_iff split: if_splits) (metis nth_mem)
  have hs: "from_hexes (cv_fmt cv) cr (remdups_adj (sort (flag_keys @ trusted_key_hexes cv t @ own_key_hex cr cv (signing_key_path cv t)))) = Inr ks"
    using e(2) unfolding trusted_keys_def Let_def by (simp split: if_splits)
  have "\<exists>h \<in> set (flag_keys @ trusted_key_hexes cv t @ own_key_hex cr cv (signing_key_path cv t)). TrustedKey_from_hex cr h = Inr k"
    using from_hexes_in [OF hs k(1)] by simp
  then show ?thesis using e(1) k(2) by blast
qed

end
