(* ===== verification/Artifacts.thy ===== *)
theory Artifacts
  imports Cli Reclaim
begin

text \<open>
  What \<open>kee run --get\<close> writes on the host: \<open>write_artifacts\<close>, \<open>write_artifacts_in\<close> and \<open>confined_dest\<close>
  of cli/src/main.rs, on a file system with directories, files and symbolic links. A path is resolved
  as the kernel does: a link on the way is followed, at most 40 of them, and the last name is followed
  by a write but not by \<open>symlink_metadata\<close>. Hard links and what other processes do meanwhile are not
  represented.
\<close>

section \<open>The file system\<close>

datatype node = DirN | FileN bytes | LinkN string | SpecialN

type_synonym tree = "string list \<Rightarrow> node option"

definition MAX_LINKS :: nat where "MAX_LINKS = 40"

text \<open>The location a path leads to; it exists or its directory does. \<open>follow\<close> is about the last name.\<close>

function walk :: "bool \<Rightarrow> tree \<Rightarrow> nat \<Rightarrow> string list \<Rightarrow> component list \<Rightarrow> io_kind + string list" where
  "walk follow fs links at [] = Inr at"
| "walk follow fs links at (RootDir # cs) = walk follow fs links [] cs"
| "walk follow fs links at (CurDir # cs) = walk follow fs links at cs"
| "walk follow fs links at (ParentDir # cs) = walk follow fs links (butlast at) cs"
| "walk follow fs links at (Normal n # cs) =
     (case fs (at @ [n]) of
        Some DirN \<Rightarrow> walk follow fs links (at @ [n]) cs
      | Some (LinkN target) \<Rightarrow>
          if cs = [] \<and> \<not> follow then Inr (at @ [n])
          else (case links of 0 \<Rightarrow> Inl OtherIo | Suc l \<Rightarrow> walk follow fs l at (components target @ cs))
      | Some _ \<Rightarrow> if cs = [] then Inr (at @ [n]) else Inl OtherIo
      | None \<Rightarrow> if cs = [] then Inr (at @ [n]) else Inl NotFound)"
  by pat_completeness auto
termination
  by (relation "measures [\<lambda>(_, _, links, _, _). links, \<lambda>(_, _, _, _, cs). length cs]") auto

text \<open>The ways in which a call fails on the location it reached; a write may fail after some bytes.\<close>

record disk =
  dk_fmt :: fmt
  dk_lstat :: "string list \<Rightarrow> io_kind option"
  dk_mkdir :: "string list \<Rightarrow> io_kind option"
  dk_open :: "string list \<Rightarrow> io_kind option"
  dk_write :: "string list \<Rightarrow> (nat \<times> io_kind) option"

definition failing :: "io_kind option \<Rightarrow> io_kind + unit" where
  "failing e = (case e of Some k \<Rightarrow> Inl k | None \<Rightarrow> Inr ())"

definition symlink_metadata :: "disk \<Rightarrow> tree \<Rightarrow> string \<Rightarrow> io_kind + node" where
  "symlink_metadata dk fs p =
     and_then (walk False fs MAX_LINKS [] (components p)) (\<lambda>at.
     and_then (failing (dk_lstat dk at)) (\<lambda>_. ok_or (fs at) NotFound))"

definition fs_create_dir :: "disk \<Rightarrow> string \<Rightarrow> tree \<Rightarrow> (io_kind + unit) \<times> tree" where
  "fs_create_dir dk p fs =
     (case and_then (walk False fs MAX_LINKS [] (components p)) (\<lambda>at.
           and_then (if fs at = None then Inr () else Inl AlreadyExists) (\<lambda>_.
           and_then (failing (dk_mkdir dk at)) (\<lambda>_. Inr at))) of
        Inl e \<Rightarrow> (Inl e, fs)
      | Inr at \<Rightarrow> (Inr (), fs(at \<mapsto> DirN)))"

definition fs_write :: "disk \<Rightarrow> string \<Rightarrow> bytes \<Rightarrow> tree \<Rightarrow> (io_kind + unit) \<times> tree" where
  "fs_write dk p data fs =
     (case and_then (walk True fs MAX_LINKS [] (components p)) (\<lambda>at.
           and_then (if fs at = Some DirN then Inl OtherIo else Inr ()) (\<lambda>_.
           and_then (failing (dk_open dk at)) (\<lambda>_. Inr at))) of
        Inl e \<Rightarrow> (Inl e, fs)
      | Inr at \<Rightarrow>
          (let put = (\<lambda>d. if fs at = Some SpecialN then fs else fs(at \<mapsto> FileN d)) in
           case dk_write dk at of
             Some (n, e) \<Rightarrow> (Inl e, put (take n data))
           | None \<Rightarrow> (Inr (), put data)))"

section \<open>The artifacts\<close>

definition path_names :: "string \<Rightarrow> string list" where
  "path_names rel = List.map_filter (\<lambda>c. case c of Normal n \<Rightarrow> Some n | _ \<Rightarrow> None) (components rel)"

fun confined_loop :: "disk \<Rightarrow> string \<Rightarrow> string list \<Rightarrow> tree \<Rightarrow> (CliError + string) \<times> tree" where
  "confined_loop dk cur [] fs = (Inr cur, fs)"
| "confined_loop dk cur (name # names) fs =
     (let cur = path_push cur name; last = (names = []); shown = dbg_str (dk_fmt dk) cur in
      case symlink_metadata dk fs cur of
        Inr m \<Rightarrow>
          if (case m of LinkN _ \<Rightarrow> True | _ \<Rightarrow> False)
          then (Inl (CliFault (''refusing to write artifact through the symlink '' @ shown)), fs)
          else if last \<and> m = DirN
          then (Inl (CliFault (''refusing to write artifact over the directory '' @ shown)), fs)
          else if \<not> last \<and> m \<noteq> DirN
          then (Inl (CliFault (''artifact path component '' @ shown @ '' is not a directory'')), fs)
          else confined_loop dk cur names fs
      | Inl e \<Rightarrow>
          if e = NotFound
          then (if \<not> last
                then (case fs_create_dir dk cur fs of
                        (Inl e, fs) \<Rightarrow> (Inl (CliFault (''create artifact dir '' @ shown @ '': '' @ io_display (dk_fmt dk) e)), fs)
                      | (Inr _, fs) \<Rightarrow> confined_loop dk cur names fs)
                else confined_loop dk cur names fs)
          else (Inl (CliFault (''stat artifact path '' @ shown @ '': '' @ io_display (dk_fmt dk) e)), fs))"

definition confined_dest :: "disk \<Rightarrow> string \<Rightarrow> string \<Rightarrow> tree \<Rightarrow> (CliError + string) \<times> tree" where
  "confined_dest dk base rel = confined_loop dk base (path_names rel)"

definition named :: "string \<Rightarrow> bool" where
  "named rel \<longleftrightarrow> path_file_name rel \<noteq> None \<and> list_all plain (components rel)"

fun write_artifacts_in :: "disk \<Rightarrow> string \<Rightarrow> Artifact list \<Rightarrow> string list \<Rightarrow> tree \<Rightarrow> (CliError + unit) \<times> tree" where
  "write_artifacts_in dk base [] requested fs = (Inr (), fs)"
| "write_artifacts_in dk base (a # files) requested fs =
     (let path = art_path a; shown = dbg_str (dk_fmt dk) path in
      if \<not> list_ex (\<lambda>r. r = path) requested
      then (Inl (CliFault (''refusing artifact '' @ shown @ '': not requested with --get'')), fs)
      else if \<not> named path
      then (Inl (CliFault (''refusing to write artifact '' @ shown @ '' outside the current directory'')), fs)
      else case confined_dest dk base path fs of
        (Inl e, fs) \<Rightarrow> (Inl e, fs)
      | (Inr dest, fs) \<Rightarrow>
          (case fs_write dk dest (art_data a) fs of
             (Inl e, fs) \<Rightarrow> (Inl (CliFault (''write artifact '' @ shown @ '': '' @ io_display (dk_fmt dk) e)), fs)
           | (Inr _, fs) \<Rightarrow> write_artifacts_in dk base files requested fs))"

definition write_artifacts :: "disk \<Rightarrow> io_kind + string \<Rightarrow> Artifact list \<Rightarrow> string list \<Rightarrow> tree \<Rightarrow> (CliError + unit) \<times> tree" where
  "write_artifacts dk cwd files requested fs =
     (case cwd of
        Inl e \<Rightarrow> (Inl (CliFault (''resolve current directory: '' @ io_display (dk_fmt dk) e)), fs)
      | Inr base \<Rightarrow> write_artifacts_in dk base files requested fs)"

section \<open>Resolution below real directories\<close>

definition real_dir :: "tree \<Rightarrow> string list \<Rightarrow> bool" where
  "real_dir fs at \<longleftrightarrow> (\<forall>k \<le> length at. fs (take k at) = Some DirN)"

lemma real_dir_snoc: "real_dir fs (at @ [n]) \<longleftrightarrow> real_dir fs at \<and> fs (at @ [n]) = Some DirN"
  by (auto simp: real_dir_def le_Suc_eq)

lemma real_dir_self: "real_dir fs at \<Longrightarrow> fs at = Some DirN"
  by (auto simp: real_dir_def dest: spec [of _ "length at"])

lemma walk_real:
  "real_dir fs (at @ ns) \<Longrightarrow> walk follow fs links at (map Normal ns @ cs) = walk follow fs links (at @ ns) cs"
proof (induction ns arbitrary: at)
  case (Cons n ns)
  have "real_dir fs ((at @ [n]) @ ns)" using Cons.prems by simp
  moreover have "take (Suc (length at)) (at @ n # ns) = at @ [n]" by simp
  then have "fs (at @ [n]) = Some DirN" using Cons.prems unfolding real_dir_def
    by (metis length_Cons length_append add_Suc_right le_add1 not_less_eq_eq nat_le_linear add.commute)
  ultimately show ?case using Cons.IH [of "at @ [n]"] by simp
qed simp

lemma walk_below:
  assumes "real_dir fs at" "components p = RootDir # map Normal (at @ [n])" "follow \<Longrightarrow> \<forall>t. fs (at @ [n]) \<noteq> Some (LinkN t)"
  shows "walk follow fs links [] (components p) = Inr (at @ [n])"
  using walk_real [of fs "[]" at follow links "[Normal n]"] assms by (auto split: option.splits node.splits)

lemma path_names_plain:
  assumes "n \<in> set (path_names rel)"
  shows "slash \<notin> set n" "n \<noteq> []" "n \<noteq> ''.''" "n \<noteq> ''..''"
proof -
  let ?L = "split_on (\<lambda>ch. ch = slash) rel"
  have L: "hd ?L \<in> set ?L" "set (tl ?L) \<subseteq> set ?L" by (simp_all add: list.set_sel(2) subsetI)
  have "Normal n \<in> set (comps_of ?L)"
    using assms by (auto simp: path_names_def map_filter_def components_split split: component.splits)
  then have "\<exists>first. \<exists>s \<in> set ?L. component_of first s = Some (Normal n)"
    using L by (fastforce simp: comps_of_def map_filter_def simp del: component_of.simps split: if_splits)
  then show "slash \<notin> set n" "n \<noteq> []" "n \<noteq> ''.''" "n \<noteq> ''..''"
    using split_on_sep [of n "\<lambda>ch. ch = slash" rel slash] by (auto split: if_splits)
qed

lemma named_names: "named rel \<Longrightarrow> path_names rel \<noteq> []"
proof -
  assume "named rel"
  then obtain n where "Normal n \<in> set (components rel)"
    by (auto simp: named_def path_file_name_def split: component.splits if_splits) (metis last_in_set)
  then show ?thesis by (force simp: path_names_def map_filter_def filter_empty_conv)
qed

section \<open>Confinement\<close>

text \<open>\<open>made\<close>: only missing directories of a path appear.\<close>

definition made :: "string list \<Rightarrow> string list \<Rightarrow> tree \<Rightarrow> tree \<Rightarrow> bool" where
  "made at names fs fs' \<longleftrightarrow>
     (\<forall>p. fs' p \<noteq> fs p \<longrightarrow> (\<exists>k. 0 < k \<and> k < length names \<and> p = at @ take k names) \<and> fs p = None \<and> real_dir fs' p)"

lemma made_refl [simp]: "made at names fs fs"
  by (simp add: made_def)

lemma made_keeps: "made at names fs fs' \<Longrightarrow> fs p = Some x \<Longrightarrow> fs' p = Some x"
  unfolding made_def by (metis option.distinct(1))

lemma made_real: "made at names fs fs' \<Longrightarrow> real_dir fs p \<Longrightarrow> real_dir fs' p"
  unfolding real_dir_def using made_keeps by blast

lemma made_shift: "made (at @ [n]) names fs fs' \<Longrightarrow> made at (n # names) fs fs'"
  unfolding made_def by (metis Suc_less_eq append_Cons append_assoc append_self_conv2 length_Cons take_Suc_Cons zero_less_Suc)

lemma made_Cons:
  assumes "made (at @ [n]) names (fs(at @ [n] \<mapsto> DirN)) fs'" "real_dir fs at" "fs (at @ [n]) = None" "names \<noteq> []"
  shows "made at (n # names) fs fs'"
proof -
  let ?fs1 = "fs(at @ [n] \<mapsto> DirN)"
  have "fs p \<noteq> None" if "p = take k at" for p k
    using assms(2) that by (cases "k \<le> length at") (auto simp: real_dir_def dest: spec [of _ "length at"])
  then have "real_dir ?fs1 at" using assms(2,3) by (auto simp: real_dir_def)
  then have "real_dir ?fs1 (at @ [n])" by (simp add: real_dir_snoc)
  then have r: "real_dir fs' (at @ [n])" by (rule made_real [OF assms(1)])
  show ?thesis unfolding made_def
  proof (intro allI impI)
    fix p assume p: "fs' p \<noteq> fs p"
    show "(\<exists>k. 0 < k \<and> k < length (n # names) \<and> p = at @ take k (n # names)) \<and> fs p = None \<and> real_dir fs' p"
    proof (cases "p = at @ [n]")
      case True
      then have "p = at @ take 1 (n # names)" by simp
      then show ?thesis using True r assms(3,4) by fastforce
    next
      case False
      then show ?thesis using p made_shift [OF assms(1)] unfolding made_def by (metis fun_upd_other)
    qed
  qed
qed

lemma confined_loop_spec:
  assumes "confined_loop dk cur names fs = (r, fs')" "\<forall>p. dk_lstat dk p \<noteq> Some NotFound"
    "components cur = RootDir # map Normal at" "cur \<noteq> []" "real_dir fs at"
    "\<forall>n \<in> set names. slash \<notin> set n \<and> n \<noteq> [] \<and> n \<noteq> ''.'' \<and> n \<noteq> ''..''"
  shows "made at names fs fs' \<and> (\<forall>dest. r = Inr dest \<longrightarrow> components dest = RootDir # map Normal (at @ names)
    \<and> (names \<noteq> [] \<longrightarrow> real_dir fs' (at @ butlast names) \<and> fs' (at @ names) \<noteq> Some DirN \<and> (\<forall>t. fs' (at @ names) \<noteq> Some (LinkN t))))"
  using assms
proof (induction names arbitrary: cur at fs)
  case (Cons n names)
  let ?cur = "path_push cur n"
  have c: "components ?cur = RootDir # map Normal (at @ [n])" "?cur \<noteq> []"
    using components_push_name [of cur n] Cons.prems path_push_not_Nil by simp_all
  have w: "walk False fs MAX_LINKS [] (components ?cur) = Inr (at @ [n])"
    using walk_below [OF Cons.prems(5) c(1)] by simp
  have rest: "\<forall>m \<in> set names. slash \<notin> set m \<and> m \<noteq> [] \<and> m \<noteq> ''.'' \<and> m \<noteq> ''..''" using Cons.prems(6) by simp
  consider (stop) "fs' = fs" "\<exists>e. r = Inl e"
    | (last_name) "names = []" "fs' = fs" "r = Inr ?cur" "fs (at @ [n]) \<noteq> Some DirN" "\<forall>t. fs (at @ [n]) \<noteq> Some (LinkN t)"
    | (down) "names \<noteq> []" "fs (at @ [n]) = Some DirN" "confined_loop dk ?cur names fs = (r, fs')"
    | (new) "names \<noteq> []" "fs (at @ [n]) = None" "confined_loop dk ?cur names (fs(at @ [n] \<mapsto> DirN)) = (r, fs')"
    using Cons.prems(1,2) w
    by (cases "names = []"; cases "fs (at @ [n])"; cases "dk_lstat dk (at @ [n])"; cases "dk_mkdir dk (at @ [n])")
      (auto simp: Let_def symlink_metadata_def fs_create_dir_def failing_def split: if_splits node.splits)
  then show ?case
  proof cases
    case down
    have "real_dir fs (at @ [n])" using down(2) Cons.prems(5) by (simp add: real_dir_snoc)
    from Cons.IH [OF down(3) Cons.prems(2) c this rest] show ?thesis using down(1) made_shift by auto
  next
    case new
    have "real_dir (fs(at @ [n] \<mapsto> DirN)) (at @ [n])"
      using new(2) Cons.prems(5) by (auto simp: real_dir_def le_Suc_eq)
    note ih = Cons.IH [OF new(3) Cons.prems(2) c this rest]
    show ?thesis using made_Cons [OF conjunct1 [OF ih] Cons.prems(5) new(2,1)] conjunct2 [OF ih] new(1) by simp
  qed (use c Cons.prems(5) in auto)
qed auto

text \<open>What may change: below the base, on the way to a requested artifact, missing directories appear, and
  under its name a file with a beginning of its bytes; every directory on the way is a real one.\<close>

definition confined :: "string list \<Rightarrow> Artifact set \<Rightarrow> string list \<Rightarrow> tree \<Rightarrow> tree \<Rightarrow> bool" where
  "confined b A requested fs fs' \<longleftrightarrow>
     (\<forall>p. fs' p \<noteq> fs p \<longrightarrow> real_dir fs' (butlast p)
       \<and> (\<exists>a \<in> A. art_path a \<in> set requested \<and> named (art_path a)
           \<and> ((\<exists>k. 0 < k \<and> k < length (path_names (art_path a)) \<and> p = b @ take k (path_names (art_path a)))
                \<and> fs p = None \<and> fs' p = Some DirN
              \<or> p = b @ path_names (art_path a) \<and> (fs p = None \<or> (\<exists>d. fs p = Some (FileN d)))
                \<and> (\<exists>n. fs' p = Some (FileN (take n (art_data a)))))))"

lemma confined_refl [simp]: "confined b A requested fs fs"
  by (simp add: confined_def)

lemma confined_mono: "confined b A requested fs fs' \<Longrightarrow> A \<subseteq> B \<Longrightarrow> confined b B requested fs fs'"
  unfolding confined_def by blast

lemma confined_dirs: "confined b A requested fs fs' \<Longrightarrow> fs p = Some DirN \<Longrightarrow> fs' p = Some DirN"
  unfolding confined_def by (metis node.distinct(1) option.distinct(1) option.inject)

lemma confined_real: "confined b A requested fs fs' \<Longrightarrow> real_dir fs p \<Longrightarrow> real_dir fs' p"
  unfolding real_dir_def using confined_dirs by blast

lemma confined_trans:
  assumes "confined b A requested fs fs1" "confined b A requested fs1 fs2"
  shows "confined b A requested fs fs2"
  unfolding confined_def
proof (intro allI impI)
  fix p assume "fs2 p \<noteq> fs p"
  then consider "fs2 p = fs1 p" "fs1 p \<noteq> fs p" | "fs2 p \<noteq> fs1 p" "fs1 p = fs p" | "fs2 p \<noteq> fs1 p" "fs1 p \<noteq> fs p" by fastforce
  then show "real_dir fs2 (butlast p) \<and> (\<exists>a \<in> A. art_path a \<in> set requested \<and> named (art_path a)
           \<and> ((\<exists>k. 0 < k \<and> k < length (path_names (art_path a)) \<and> p = b @ take k (path_names (art_path a)))
                \<and> fs p = None \<and> fs2 p = Some DirN
              \<or> p = b @ path_names (art_path a) \<and> (fs p = None \<or> (\<exists>d. fs p = Some (FileN d)))
                \<and> (\<exists>n. fs2 p = Some (FileN (take n (art_data a))))))"
  proof cases
    case 1
    then show ?thesis using assms(1) confined_real [OF assms(2)] unfolding confined_def by metis
  next
    case 2
    then show ?thesis using assms(2) unfolding confined_def by metis
  next
    case 3
    then have "fs1 p \<noteq> None" "fs1 p \<noteq> Some DirN" "fs p = None \<or> (\<exists>d. fs p = Some (FileN d))"
      using assms(1) confined_dirs [OF assms(2), of p] unfolding confined_def by (metis option.distinct(1))+
    then show ?thesis using 3(1) assms(2) unfolding confined_def by metis
  qed
qed

lemma real_dir_upd: "real_dir fs q \<Longrightarrow> fs l \<noteq> Some DirN \<Longrightarrow> real_dir (fs(l \<mapsto> x)) q"
  by (auto simp: real_dir_def)

lemma real_dir_butlast: "real_dir fs p \<Longrightarrow> real_dir fs (butlast p)"
  by (auto simp: real_dir_def take_butlast butlast_conv_take min_def)

lemma made_confined:
  assumes "made b (path_names (art_path a)) fs fs'" "art_path a \<in> set requested" "named (art_path a)"
  shows "confined b {a} requested fs fs'"
  using assms unfolding made_def confined_def by (metis real_dir_butlast real_dir_self singletonI)

lemma fs_write_spec:
  assumes "fs_write dk dest data fs = (r, fs')" "components dest = RootDir # map Normal (at @ [n])" "real_dir fs at"
    "fs (at @ [n]) \<noteq> Some DirN" "\<forall>t. fs (at @ [n]) \<noteq> Some (LinkN t)"
  shows "fs' = fs \<or> (fs (at @ [n]) = None \<or> (\<exists>d. fs (at @ [n]) = Some (FileN d))) \<and> (\<exists>k. fs' = fs(at @ [n] \<mapsto> FileN (take k data)))"
    and "r = Inr () \<Longrightarrow> fs' (at @ [n]) = Some (FileN data) \<or> fs' (at @ [n]) = Some SpecialN"
proof -
  have w: "walk True fs MAX_LINKS [] (components dest) = Inr (at @ [n])" using walk_below [OF assms(3,2)] assms(5) by simp
  have old: "fs (at @ [n]) = None \<or> (\<exists>d. fs (at @ [n]) = Some (FileN d)) \<or> fs (at @ [n]) = Some SpecialN"
    using assms(4,5) by (cases "fs (at @ [n])") (auto intro: node.exhaust)
  have new: "fs' = fs \<or> fs (at @ [n]) \<noteq> Some SpecialN \<and> (\<exists>d. (d = data \<or> (\<exists>k. d = take k data)) \<and> fs' = fs(at @ [n] \<mapsto> FileN d))"
    using assms(1,4) w
    by (cases "dk_open dk (at @ [n])"; cases "dk_write dk (at @ [n])")
      (auto simp: fs_write_def failing_def Let_def split: if_splits)
  have "data = take (length data) data" by simp
  then show "fs' = fs \<or> (fs (at @ [n]) = None \<or> (\<exists>d. fs (at @ [n]) = Some (FileN d))) \<and> (\<exists>k. fs' = fs(at @ [n] \<mapsto> FileN (take k data)))"
    using old new by metis
  show "fs' (at @ [n]) = Some (FileN data) \<or> fs' (at @ [n]) = Some SpecialN" if "r = Inr ()"
    using assms(1,4) w that
    by (cases "dk_open dk (at @ [n])"; cases "dk_write dk (at @ [n])")
      (auto simp: fs_write_def failing_def Let_def split: if_splits)
qed

lemma confined_write:
  assumes "fs_write dk dest (art_data a) fs = (r, fs')" "components dest = RootDir # map Normal (b @ path_names (art_path a))"
    "real_dir fs (b @ butlast (path_names (art_path a)))" "fs (b @ path_names (art_path a)) \<noteq> Some DirN"
    "\<forall>t. fs (b @ path_names (art_path a)) \<noteq> Some (LinkN t)" "art_path a \<in> set requested" "named (art_path a)"
  shows "confined b {a} requested fs fs'"
    and "r = Inr () \<Longrightarrow> fs' (b @ path_names (art_path a)) = Some (FileN (art_data a)) \<or> fs' (b @ path_names (art_path a)) = Some SpecialN"
proof -
  let ?ns = "path_names (art_path a)"
  have l: "(b @ butlast ?ns) @ [last ?ns] = b @ ?ns" "butlast (b @ ?ns) = b @ butlast ?ns"
    using named_names [OF assms(7)] by (simp_all add: butlast_append)
  note spec = fs_write_spec [of dk dest "art_data a" fs r fs' "b @ butlast ?ns" "last ?ns", unfolded l, OF assms(1-5)]
  show "confined b {a} requested fs fs'"
    using spec(1) real_dir_upd [OF assms(3,4)] assms(6,7) l(2) unfolding confined_def
    by (metis fun_upd_other fun_upd_same singletonI)
  show "fs' (b @ ?ns) = Some (FileN (art_data a)) \<or> fs' (b @ ?ns) = Some SpecialN" if "r = Inr ()"
    using spec(2) that by blast
qed

lemma confined_kept:
  assumes "confined b A requested fs fs'" "fs p = Some x" "\<forall>a \<in> A. p \<noteq> b @ path_names (art_path a)"
  shows "fs' p = Some x"
  using assms unfolding confined_def by (metis option.distinct(1))

lemma write_artifacts_in_spec:
  assumes "write_artifacts_in dk base files requested fs = (r, fs')" "\<forall>p. dk_lstat dk p \<noteq> Some NotFound"
    "components base = RootDir # map Normal b" "real_dir fs b"
  shows "confined b (set files) requested fs fs' \<and> (r = Inr () \<longrightarrow> (\<forall>xs a ys. files = xs @ a # ys \<longrightarrow>
    (\<forall>y \<in> set ys. path_names (art_path y) \<noteq> path_names (art_path a)) \<longrightarrow>
    fs' (b @ path_names (art_path a)) = Some (FileN (art_data a)) \<or> fs' (b @ path_names (art_path a)) = Some SpecialN))"
  using assms(1,4)
proof (induction files arbitrary: fs)
  case (Cons a files)
  let ?ns = "path_names (art_path a)"
  have base: "base \<noteq> []" using assms(3) by (auto simp: components_def)
  show ?case
  proof (cases "art_path a \<in> set requested \<and> named (art_path a)")
    case False
    then have "fs' = fs" "r \<noteq> Inr ()" using Cons.prems(1) by (auto simp: Let_def list_ex_iff split: if_splits)
    then show ?thesis by simp
  next
    case True
    obtain d fs1 where d: "confined_dest dk base (art_path a) fs = (d, fs1)" by fastforce
    have plain: "\<forall>n \<in> set ?ns. slash \<notin> set n \<and> n \<noteq> [] \<and> n \<noteq> ''.'' \<and> n \<noteq> ''..''" using path_names_plain by blast
    note loop = confined_loop_spec [OF d [unfolded confined_dest_def] assms(2,3) base Cons.prems(2) plain]
    have c1: "confined b {a} requested fs fs1" using made_confined loop True by blast
    show ?thesis
    proof (cases d)
      case (Inl e)
      then have "fs' = fs1" "r \<noteq> Inr ()" using Cons.prems(1) d True by (auto simp: Let_def list_ex_iff)
      then show ?thesis using confined_mono [OF c1] by auto
    next
      case (Inr dest)
      obtain w fs2 where w: "fs_write dk dest (art_data a) fs1 = (w, fs2)" by fastforce
      have at: "components dest = RootDir # map Normal (b @ ?ns)" "real_dir fs1 (b @ butlast ?ns)"
        "fs1 (b @ ?ns) \<noteq> Some DirN" "\<forall>t. fs1 (b @ ?ns) \<noteq> Some (LinkN t)"
        using loop Inr named_names True by blast+
      note cw = confined_write [OF w at]
      have c2: "confined b {a} requested fs fs2" using confined_trans [OF c1 cw(1)] True by blast
      have rest: "(\<exists>e. w = Inl e \<and> fs' = fs2 \<and> r \<noteq> Inr ()) \<or> w = Inr () \<and> write_artifacts_in dk base files requested fs2 = (r, fs')"
        using Cons.prems(1) d Inr w True by (cases w) (auto simp: Let_def list_ex_iff)
      show ?thesis
      proof (cases w)
        case (Inl e)
        then show ?thesis using rest confined_mono [OF c2] by auto
      next
        case (Inr u)
        then have tail: "write_artifacts_in dk base files requested fs2 = (r, fs')" using rest by auto
        note ih = Cons.IH [OF tail confined_real [OF c2 Cons.prems(2)]]
        have "confined b (set (a # files)) requested fs fs'"
          by (rule confined_trans [OF confined_mono [OF c2] confined_mono [OF conjunct1 [OF ih]]]) auto
        moreover have "fs' (b @ ?ns) = Some (FileN (art_data a)) \<or> fs' (b @ ?ns) = Some SpecialN"
          if "\<forall>y \<in> set files. path_names (art_path y) \<noteq> ?ns"
        proof -
          have "\<forall>y \<in> set files. b @ ?ns \<noteq> b @ path_names (art_path y)" "u = ()" using that by force+
          then show ?thesis using confined_kept [OF conjunct1 [OF ih], of "b @ ?ns"] cw(2) [of requested] True Inr by blast
        qed
        ultimately show ?thesis using ih by (auto simp: Cons_eq_append_conv)
      qed
    qed
  qed
qed auto

text \<open>(C40) Whatever artifacts a guest returns, \<open>kee run\<close> changes nothing on the host but below its working
  directory and on the way to a name the operator asked for: missing directories of that path appear and
  the file itself, never over a directory, a link or a device, and every directory on the way is a real
  one, so that no planted link leads elsewhere; this holds also when a call fails half way. When it
  succeeds every artifact is there with its bytes, the last one of those with the same name. The working
  directory is a real path, as \<open>getcwd\<close> gives it, and \<open>lstat\<close> says \<open>NotFound\<close> only of what is missing.
\<close>

theorem artifacts_confined:
  assumes "write_artifacts dk (Inr base) files requested fs = (r, fs')"
    and "components base = RootDir # map Normal b" "real_dir fs b" "\<forall>p. dk_lstat dk p \<noteq> Some NotFound"
  shows "(\<forall>p. fs' p \<noteq> fs p \<longrightarrow> real_dir fs' (butlast p)
      \<and> (\<exists>a \<in> set files. art_path a \<in> set requested \<and> list_all plain (components (art_path a))
           \<and> ((\<exists>k. 0 < k \<and> k < length (path_names (art_path a)) \<and> p = b @ take k (path_names (art_path a)))
                \<and> fs p = None \<and> fs' p = Some DirN
              \<or> p = b @ path_names (art_path a) \<and> (fs p = None \<or> (\<exists>d. fs p = Some (FileN d)))
                \<and> (\<exists>n. fs' p = Some (FileN (take n (art_data a)))))))
    \<and> (r = Inr () \<longrightarrow> (\<forall>xs a ys. files = xs @ a # ys \<longrightarrow> (\<forall>y \<in> set ys. path_names (art_path y) \<noteq> path_names (art_path a))
      \<longrightarrow> fs' (b @ path_names (art_path a)) = Some (FileN (art_data a)) \<or> fs' (b @ path_names (art_path a)) = Some SpecialN))"
proof -
  note spec = write_artifacts_in_spec [OF assms(1) [unfolded write_artifacts_def sum.case] assms(4,2,3)]
  show ?thesis using conjunct1 [OF spec] unfolding confined_def named_def
    by (intro conjI conjunct2 [OF spec]) metis
qed

definition calm_disk :: disk where
  "calm_disk = \<lparr>dk_fmt = plain_fmt, dk_lstat = Map.empty, dk_mkdir = Map.empty, dk_open = Map.empty, dk_write = Map.empty\<rparr>"

definition work_tree :: tree where
  "work_tree = [[] \<mapsto> DirN, [''w''] \<mapsto> DirN, [''w'', ''planted''] \<mapsto> LinkN ''/etc'', [''etc''] \<mapsto> DirN]"

lemma work_tree_real: "real_dir work_tree [''w'']" "components ''/w'' = RootDir # map Normal [''w'']"
  by (auto simp: real_dir_def work_tree_def le_Suc_eq components_def slash_def map_filter_def)

lemma work_run:
  "fst (write_artifacts calm_disk (Inr ''/w'') [\<lparr>art_path = ''./out/x'', art_data = [1, 2]\<rparr>] [''./out/x''] work_tree) = Inr ()"
  by code_simp

theorem artifacts_confined_witness:
  "\<exists>fs'. write_artifacts calm_disk (Inr ''/w'') [\<lparr>art_path = ''./out/x'', art_data = [1, 2]\<rparr>] [''./out/x''] work_tree = (Inr (), fs')
    \<and> fs' [''w'', ''out'', ''x''] = Some (FileN [1, 2]) \<and> fs' [''etc'', ''x''] = None"
proof -
  obtain fs' where run: "write_artifacts calm_disk (Inr ''/w'') [\<lparr>art_path = ''./out/x'', art_data = [1, 2]\<rparr>] [''./out/x''] work_tree = (Inr (), fs')"
    using work_run by (metis prod.collapse)
  have names: "path_names ''./out/x'' = [''out'', ''x'']"
    by (simp add: path_names_def components_def slash_def map_filter_def)
  have honest: "\<forall>p. dk_lstat calm_disk p \<noteq> Some NotFound" by (simp add: calm_disk_def)
  note th = artifacts_confined [OF run work_tree_real(2,1) honest]
  have tree: "work_tree [''w'', ''out'', ''x''] = None" "work_tree [''etc'', ''x''] = None" by (simp_all add: work_tree_def)
  have made: "fs' [''w'', ''out'', ''x''] = Some (FileN [1, 2]) \<or> fs' [''w'', ''out'', ''x''] = Some SpecialN"
    using conjunct2 [OF th, rule_format, OF refl, of "[]" _ "[]"] names by auto
  have "fs' [''w'', ''out'', ''x''] \<noteq> Some SpecialN"
    using conjunct1 [OF th, rule_format, of "[''w'', ''out'', ''x'']"] tree(1) by fastforce
  moreover have "fs' [''etc'', ''x''] = None"
  proof (rule ccontr)
    assume "fs' [''etc'', ''x''] \<noteq> None"
    then have "fs' [''etc'', ''x''] \<noteq> work_tree [''etc'', ''x'']" using tree(2) by simp
    from conjunct1 [OF th, rule_format, OF this] show False by auto
  qed
  ultimately show ?thesis using run made by blast
qed

end
