(* ===== verification/Spec2Isabelle.thy ===== *)
theory Spec2Isabelle
  imports Channel Probes Loader Policy Observer EndToEnd Serve SignedText Bundle Client Artifacts
begin

text \<open>
  Verification of the exuberance sandbox engine (the workspace under src/crates).

  \<^bold>\<open>The program.\<close> A client asks the daemon for a sandbox and sends it commands.  The daemon
  (crates/cli: serve.rs, session.rs, policy.rs, metrics.rs) speaks a line protocol with the client
  (crates/eke-protocol), takes a microVM from a pool or boots one (crates/vmm: pool.rs), and runs
  each command through a framed byte protocol (crates/eke-channel) between the host side
  (vmm/src/exec.rs) and an agent inside the guest (crates/eke-guest-agent).  eBPF programs
  (crates/probes, with crates/eke-probes-common on both sides of the kernel boundary) watch and
  restrict what a sandbox does; crates/eke-probes-loader writes their policy, reads their maps,
  folds their events into one record per run and signs the records of a session into a chain.
  A microVM is one Firecracker process, possibly inside a jailer's chroot: vmm/src/vm.rs holds its
  configuration, spawn.rs launches, boots or restores it, firecracker.rs talks to its API socket,
  jail.rs, net.rs, drives.rs, console.rs and lifetime.rs build the chroot, the tap, the disk images,
  the console capture and the sentinel around it, snapshot.rs freezes it.  A sweep
  (vmm/src/sweep.rs) reclaims what a crashed driver left on the host.

  \<^bold>\<open>Modelling.\<close> A struct is a record, an enum a datatype, a fallible function returns a sum whose
  left side is the source's error type.  Widths that matter are words (frame lengths, counters,
  addresses, ports, nanosecond sums); sizes that the code keeps in a usize far from its limit are
  nat.  State is passed explicitly.  Code that is not in the repository (sockets, the file system,
  /proc, the clock, the eBPF map implementation, ed25519, SHA-256, serde_json) is a parameter of
  the definitions that use it; what the code relies on is a named hypothesis or the assumption of
  a locale, and each locale is interpreted on the definitions of the model.  Bytes are words of
  length 8, strings are lists of code points below 0x110000 without surrogates where the code
  handles text, and lists of bytes where it handles bytes; theory Utf8 relates the two.

  \<^bold>\<open>The theories and what they show.\<close>

  \<^item> Prelude, StrLib, Utf8, Paths: shared lemmas; ASCII text and decimal printing; UTF-8 with lossy
    and strict decoding; Rust's path components, join and starts_with.
  \<^item> Channel (eke-channel/src/lib.rs): handshake, frames, codecs and connections.  Requests and
    responses round-trip, the accepted encoding of a request is unique, one decode consumes a
    bounded prefix of any stream, error text from the guest is sanitized, Debug output is redacted.
  \<^item> ProbesCommon, Probes (eke-probes-common, probes/src/main.rs): boundary records, both parsers,
    allow-lists, every eBPF program as one step on the maps.  Deny by default, accounting of every
    frame and event, agreement of the in-kernel and the host parsers, CIDR matching against a
    reference, capacity bounds as an invariant of every run, an exact CPU meter.
  \<^item> Loader (eke-probes-loader/src/lib.rs): the policy builder, its lowering into the maps and the
    readers.  Enforcement is armed before a frame is classified; a failed swap fails closed.
  \<^item> AuditRecord (record.rs): order independence and aggregation of the network section, the
    streaming fold of system calls against a one-pass reference.
  \<^item> Observer (observer.rs): one tracer shared by all sandboxes isolates them under every
    interleaving; a record without a coverage gap is complete.
  \<^item> JsonText, RecordJson, Signing, SignedText (json.rs, summary.rs, signing.rs): the texts of a
    record are one line of JSON that reads back to the record; a chain that verifies is an initial
    part of the one signed; the composition of both.
  \<^item> Protocol (eke-protocol/src/lib.rs): the capped line reader equals a reference on the
    concatenated bytes for every chunking; messages round-trip.
  \<^item> Exec, GuestAgent, EndToEnd (vmm/src/exec.rs, eke-guest-agent/src/lib.rs): the host side is
    bounded whatever the guest sends, the agent's wait ends, and the two composed over the byte
    stream deliver exit code, output and artifacts exactly.
  \<^item> Policy, Metrics, Pool, Session, Admission, Serve, Sweep (cli/src, vmm/src/pool.rs and
    sweep.rs): limits respected on every knob; exact histograms; every microVM accounted for in
    every reachable state of a pool; a session leaves nothing behind; the admission ceiling under
    every interleaving of relaxed atomics; the socket is never exposed; a sweep reclaims exactly the
    orphans.
  \<^item> Jail, VmConfig, Firecracker, Drives, Console (vmm/src/jail.rs, paths.rs, vm.rs, doctor.rs,
    firecracker.rs, drives.rs, console.rs): limits and the jailer's command line, the checks of a
    boot configuration and of the host, the HTTP exchange with its bounded reader, disk images and
    the containment of the links read back, the capped console.
  \<^item> Host, Boot (net.rs, lifetime.rs, jail.rs, spawn.rs, vm.rs, snapshot.rs): the host is a record of
    the resources a microVM may hold (directories, files, namespaces, mounts, cgroups, processes), a
    clock, and a counter that feeds every question put to the environment: each system call asks
    it whether the call succeeds, so every failure of every step is a value of the parameter.  On
    it stand the launch with and without a jail, the boot, the restore, the running VM with its
    orderly and its dropped end, and snapshots.
  \<^item> Moves, Reclaim, Lifecycle: a small logic of two-exit triples over these operations.
    A boot that fails, at whatever step, and a boot that succeeds and is then dropped, shut down or
    collected, leaves exactly the resources that were there before.
  \<^item> Restore, Bundle (spawn.rs, snapshot.rs): the same for a restore, with the staged disk and its
    marker; under a jail a restore with a private disk is refused by the code's own staging check; a
    snapshot is a whole bundle or nothing and resumes the guest whatever failed after the pause.
  \<^item> Client (eke-client/src/lib.rs): every call of the client library, composed with the session of the
    daemon: the two stay in step, whatever the requests and whatever fails.
  \<^item> Cli, Artifacts (cli/src/config.rs, main.rs, verify.rs): the layers of the configuration field by
    field, the values of flags, what \<open>kee run\<close> boots within the operator's policy, which keys \<open>kee verify\<close>
    trusts, and the confinement of returned artifacts on a file system with symbolic links.

  \<^bold>\<open>Bounds and fuel.\<close> Loops over data are structural or carry a measure.  Loops bounded by a clock
  carry the number of passes as fuel, with a lemma that the fuel given is enough (the agent's wait:
  one pass per millisecond of budget; the host's collect loop: one pass per frame).  The waits of a
  boot (API socket, userspace, agent, power-off, sentinel) are total functions whose measure is the
  time left to the deadline.  The constants
  of the code (frame cap, message cap, map capacities) are the ones of the source.

  \<^bold>\<open>Not modelled.\<close> The wall around teardown helpers (proc.rs; a helper cut off is a deletion that did
  not happen), the contents and modes of files on the host, the one-time version warning, tracing
  spans; loading and attaching eBPF programs (aya, netlink), the log output, zeroization of
  memory, the accept loops of the binaries, what the commands print (the rest of cli/src/main.rs, watch.rs,
  trace.rs, doctor.rs), and benchmarks, demos and release tasks (xtask): they call the parts above, print
  and run external tools.
\<close>

end
